(* ===== verification/Prelude.thy ===== *)
theory Prelude
  imports Main "HOL-Library.Word" "HOL-Library.Code_Target_Numeral"
begin

text \<open>
  Shared vocabulary of the development.

  \<^item> The error monad: every evaluator of the chain either returns or throws
    (\<^verbatim>\<open>FC_ASSERT\<close>, an overflow of a checked integer, a failed lookup). A throwing evaluator
    leaves no effect, because the enclosing undo session is discarded; so an operation of the
    model is a function into \<open>err + 'a\<close>.
  \<^item> Sorted flat maps (\<^verbatim>\<open>boost::container::flat_map\<close> and \<^verbatim>\<open>flat_set\<close>): a type of strictly
    key-sorted association lists, so that iteration order is the order of the keys and lookup,
    insertion and erasure satisfy unconditional laws.
  \<^item> Object indexes (\<^verbatim>\<open>graphene::db::generic_index\<close>): a flat map from instance numbers to
    objects with the next free instance number.
  \<^item> Two locales, the laws of a keyed container and the laws of a checked state machine, that
    the components instantiate.
\<close>

section \<open>Collections of facts\<close>

named_theorems res_simps \<open>inversion of the error monad\<close>
named_theorems fm_simps \<open>laws of flat maps\<close>
named_theorems held_simps \<open>how an update of the chain state changes the funds it holds\<close>
named_theorems wf_intros \<open>well-formedness is kept\<close>
named_theorems wp \<open>what holds when a computation ends without an error\<close>

section \<open>The error monad\<close>

datatype err =
    Assert string           \<comment> \<open>\<^verbatim>\<open>FC_ASSERT\<close> failed\<close>
  | Overflow                \<comment> \<open>a checked 64-bit integer left its range\<close>
  | Not_found               \<comment> \<open>\<^verbatim>\<open>id(db)\<close> of an object that does not exist\<close>
  | Null_deref              \<comment> \<open>an \<^verbatim>\<open>end()\<close> iterator or an empty container is dereferenced\<close>
  | Not_unique              \<comment> \<open>a uniqueness constraint of an index is violated\<close>
  | Div_by_zero
  | Bad_variant             \<comment> \<open>\<^verbatim>\<open>static_variant::get\<close> of the wrong alternative\<close>

type_synonym 'a res = "err + 'a"

definition ebind :: "'a res \<Rightarrow> ('a \<Rightarrow> 'b res) \<Rightarrow> 'b res" where
  "ebind m f = (case m of Inl e \<Rightarrow> Inl e | Inr x \<Rightarrow> f x)"

definition check :: "bool \<Rightarrow> string \<Rightarrow> unit res" where
  "check b msg = (if b then Inr () else Inl (Assert msg))"

definition of_option :: "err \<Rightarrow> 'a option \<Rightarrow> 'a res" where
  "of_option e x = (case x of None \<Rightarrow> Inl e | Some v \<Rightarrow> Inr v)"

fun efold :: "('a \<Rightarrow> 's \<Rightarrow> 's res) \<Rightarrow> 'a list \<Rightarrow> 's \<Rightarrow> 's res" where
  "efold f [] s = Inr s"
| "efold f (x # xs) s = ebind (f x s) (efold f xs)"

text \<open>A list of results, or the first error.\<close>

fun emap :: "('a \<Rightarrow> 'b res) \<Rightarrow> 'a list \<Rightarrow> 'b list res" where
  "emap f [] = Inr []"
| "emap f (x # xs) = ebind (f x) (\<lambda>y. ebind (emap f xs) (\<lambda>ys. Inr (y # ys)))"

lemma ebind_simps [simp]:
  "ebind (Inr x) f = f x"
  "ebind (Inl e) f = Inl e"
  by (simp_all add: ebind_def)

lemma ebind_Inr [res_simps]: "ebind m f = Inr y \<longleftrightarrow> (\<exists>x. m = Inr x \<and> f x = Inr y)"
  by (cases m) simp_all

lemma ebind_Inl [res_simps]:
  "ebind m f = Inl e \<longleftrightarrow> m = Inl e \<or> (\<exists>x. m = Inr x \<and> f x = Inl e)"
  by (cases m) simp_all

lemma ebind_Inr_id [simp]: "ebind m Inr = m"
  by (cases m) simp_all

lemma ebind_assoc: "ebind (ebind m f) g = ebind m (\<lambda>x. ebind (f x) g)"
  by (cases m) simp_all

lemma ebind_cong [fundef_cong]:
  "m = n \<Longrightarrow> (\<And>x. n = Inr x \<Longrightarrow> f x = g x) \<Longrightarrow> ebind m f = ebind n g"
  by (cases n) simp_all

lemma check_Inr [res_simps]: "check b msg = Inr u \<longleftrightarrow> b"
  by (simp add: check_def)

lemma check_Inl [res_simps]: "check b msg = Inl e \<longleftrightarrow> \<not> b \<and> e = Assert msg"
  by (auto simp: check_def)

lemma check_True [simp]: "check True msg = Inr ()"
  by (simp add: check_def)

lemma check_False [simp]: "check False msg = Inl (Assert msg)"
  by (simp add: check_def)

lemma of_option_Inr [res_simps]: "of_option e x = Inr v \<longleftrightarrow> x = Some v"
  by (simp add: of_option_def split: option.split)

lemma of_option_Inl [res_simps]: "of_option e x = Inl e' \<longleftrightarrow> x = None \<and> e' = e"
  by (auto simp: of_option_def split: option.split)

lemma of_option_simps [simp]: "of_option e None = Inl e" "of_option e (Some v) = Inr v"
  by (simp_all add: of_option_def)

lemma emap_Inr: "emap f xs = Inr ys \<longleftrightarrow> list_all2 (\<lambda>x y. f x = Inr y) xs ys"
proof (induction xs arbitrary: ys)
  case (Cons x xs)
  then show ?case by (cases ys) (auto simp: ebind_Inr)
qed auto

lemma efold_append: "efold f (xs @ ys) s = ebind (efold f xs s) (efold f ys)"
proof (induction xs arbitrary: s)
  case (Cons x xs)
  then show ?case by (cases "f x s") simp_all
qed simp

text \<open>An invariant that each iteration keeps holds after the loop.\<close>

lemma efold_invariant:
  assumes "\<And>x s s'. x \<in> set xs \<Longrightarrow> P s \<Longrightarrow> f x s = Inr s' \<Longrightarrow> P s'"
    and "P s" and "efold f xs s = Inr s'"
  shows "P s'"
  using assms
proof (induction xs arbitrary: s)
  case (Cons x xs)
  then obtain t where "f x s = Inr t" and "efold f xs t = Inr s'"
    by (auto simp: res_simps)
  with Cons show ?case by (metis list.set_intros)
qed simp

lemma efold_total:
  assumes "\<And>x s. x \<in> set xs \<Longrightarrow> P s \<Longrightarrow> \<exists>s'. f x s = Inr s' \<and> P s'" and "P s"
  shows "\<exists>s'. efold f xs s = Inr s' \<and> P s'"
  using assms
proof (induction xs arbitrary: s)
  case (Cons x xs)
  then obtain t where "f x s = Inr t" and "P t"
    by (metis list.set_intros(1))
  with Cons show ?case by simp
qed simp

text \<open>
  What holds of the result of a computation whenever it ends without an error, computed backwards
  over the steps of the computation.
\<close>

definition ends :: "('a \<Rightarrow> bool) \<Rightarrow> 'a res \<Rightarrow> bool" where
  "ends P m \<longleftrightarrow> (\<forall>x. m = Inr x \<longrightarrow> P x)"

lemma endsD: "ends P m \<Longrightarrow> m = Inr x \<Longrightarrow> P x"
  by (simp add: ends_def)

lemma endsI: "(\<And>x. m = Inr x \<Longrightarrow> P x) \<Longrightarrow> ends P m"
  by (simp add: ends_def)

lemma ends_mono: "ends P m \<Longrightarrow> (\<And>x. P x \<Longrightarrow> Q x) \<Longrightarrow> ends Q m"
  by (simp add: ends_def)

lemma ends_simps [wp]:
  "ends P (Inr x) \<longleftrightarrow> P x"
  "ends P (Inl e) \<longleftrightarrow> True"
  "ends P (ebind m f) \<longleftrightarrow> ends (\<lambda>x. ends P (f x)) m"
  "ends Q (check b msg) \<longleftrightarrow> (b \<longrightarrow> Q ())"
  "ends P (of_option e v) \<longleftrightarrow> (\<forall>x. v = Some x \<longrightarrow> P x)"
  by (auto simp: ends_def res_simps)

lemma ends_efold:
  assumes "\<And>x s. x \<in> set xs \<Longrightarrow> P s \<Longrightarrow> ends P (f x s)" and "P s"
  shows "ends P (efold f xs s)"
  by (rule endsI, rule efold_invariant [where P = P]) (use assms in \<open>auto simp: ends_def\<close>)

section \<open>Flat maps\<close>

text \<open>A strictly sorted association list: the storage of \<^verbatim>\<open>flat_map\<close>.\<close>

fun ins :: "'k::linorder \<Rightarrow> 'v \<Rightarrow> ('k \<times> 'v) list \<Rightarrow> ('k \<times> 'v) list" where
  "ins k v [] = [(k, v)]"
| "ins k v ((k', v') # xs) =
     (if k < k' then (k, v) # (k', v') # xs
      else if k = k' then (k, v) # xs
      else (k', v') # ins k v xs)"

definition del :: "'k \<Rightarrow> ('k \<times> 'v) list \<Rightarrow> ('k \<times> 'v) list" where
  "del k = filter (\<lambda>(k', v). k' \<noteq> k)"

abbreviation ssorted :: "('k::linorder \<times> 'v) list \<Rightarrow> bool" where
  "ssorted xs \<equiv> sorted_wrt (<) (map fst xs)"

lemma set_ins: "ssorted xs \<Longrightarrow> set (ins k v xs) = insert (k, v) {p \<in> set xs. fst p \<noteq> k}"
proof (induction xs)
  case (Cons p xs)
  obtain a b where p: "p = (a, b)" by (cases p)
  have above: "a < fst q" if "q \<in> set xs" for q
    using Cons.prems that by (auto simp: p)
  consider "k < a" | "k = a" | "a < k" by (rule linorder_cases)
  then show ?case
  proof cases
    case 1
    then show ?thesis using above by (force simp: p)
  next
    case 2
    then show ?thesis using above by (auto simp: p)
  next
    case 3
    then show ?thesis using Cons by (auto simp: p)
  qed
qed simp

lemma keys_ins: "set (map fst (ins k v xs)) = insert k (set (map fst xs))"
  by (induction k v xs rule: ins.induct) auto

lemma ssorted_ins: "ssorted xs \<Longrightarrow> ssorted (ins k v xs)"
proof (induction xs)
  case (Cons p xs)
  obtain a b where p: "p = (a, b)" by (cases p)
  have above: "\<forall>y \<in> set (map fst (ins k v xs)). a < y" if "a < k"
    using Cons.prems that unfolding keys_ins by (auto simp: p)
  consider "k < a" | "k = a" | "a < k" by (rule linorder_cases)
  then show ?case
  proof cases
    case 3
    then show ?thesis using Cons above by (auto simp: p)
  qed (use Cons in \<open>auto simp: p intro: less_trans\<close>)
qed simp

lemma ssorted_del: "ssorted xs \<Longrightarrow> ssorted (del k xs)"
  unfolding del_def by (induction xs) auto

lemma ssorted_distinct: "ssorted xs \<Longrightarrow> distinct (map fst xs)"
  by (induction xs) auto

lemma map_of_ins: "ssorted xs \<Longrightarrow> map_of (ins k v xs) = (map_of xs)(k \<mapsto> v)"
proof (induction xs)
  case (Cons p xs)
  then show ?case by (cases p) (auto simp: fun_eq_iff)
qed auto

lemma map_of_del: "map_of (del k xs) = (map_of xs)(k := None)"
  unfolding del_def by (induction xs) auto

typedef (overloaded) ('k, 'v) flat_map = "{xs :: ('k::linorder \<times> 'v) list. ssorted xs}"
  morphisms fm_items Flat_map
  by (rule exI [of _ "[]"]) simp

setup_lifting type_definition_flat_map

lift_definition fm_empty :: "('k::linorder, 'v) flat_map" is "[]"
  by simp

lift_definition fm_put :: "'k::linorder \<Rightarrow> 'v \<Rightarrow> ('k, 'v) flat_map \<Rightarrow> ('k, 'v) flat_map" is ins
  by (rule ssorted_ins)

lift_definition fm_erase :: "'k::linorder \<Rightarrow> ('k, 'v) flat_map \<Rightarrow> ('k, 'v) flat_map" is del
  by (rule ssorted_del)

lift_definition fm_find :: "('k::linorder, 'v) flat_map \<Rightarrow> 'k \<Rightarrow> 'v option" is map_of
  .

definition fm_keys :: "('k::linorder, 'v) flat_map \<Rightarrow> 'k set" where
  "fm_keys m = dom (fm_find m)"

definition fm_count :: "('k::linorder, 'v) flat_map \<Rightarrow> 'k \<Rightarrow> bool" where
  "fm_count m k \<longleftrightarrow> fm_find m k \<noteq> None"

definition fm_size :: "('k::linorder, 'v) flat_map \<Rightarrow> nat" where
  "fm_size m = length (fm_items m)"

definition fm_is_empty :: "('k::linorder, 'v) flat_map \<Rightarrow> bool" where
  "fm_is_empty m \<longleftrightarrow> fm_items m = []"

definition fm_ksum :: "('k \<Rightarrow> 'v \<Rightarrow> int) \<Rightarrow> ('k::linorder, 'v) flat_map \<Rightarrow> int" where
  "fm_ksum f m = sum_list (map (\<lambda>(k, v). f k v) (fm_items m))"

abbreviation fm_sum :: "('v \<Rightarrow> int) \<Rightarrow> ('k::linorder, 'v) flat_map \<Rightarrow> int" where
  "fm_sum f \<equiv> fm_ksum (\<lambda>_. f)"

definition fm_of_list :: "('k::linorder \<times> 'v) list \<Rightarrow> ('k, 'v) flat_map" where
  "fm_of_list xs = fold (\<lambda>(k, v). fm_put k v) xs fm_empty"

lemma fm_items_simps [simp]:
  "fm_items fm_empty = []"
  "fm_items (fm_put k v m) = ins k v (fm_items m)"
  "fm_items (fm_erase k m) = del k (fm_items m)"
  by (transfer, simp)+

lemma fm_find_empty [simp, fm_simps]: "fm_find fm_empty k = None"
  by transfer simp

lemma fm_find_put [simp, fm_simps]:
  "fm_find (fm_put k v m) k' = (if k' = k then Some v else fm_find m k')"
  by transfer (simp add: map_of_ins)

lemma fm_find_erase [simp, fm_simps]:
  "fm_find (fm_erase k m) k' = (if k' = k then None else fm_find m k')"
  by transfer (simp add: map_of_del)

lemma fm_items_sorted: "ssorted (fm_items m)"
  using fm_items by blast

lemma fm_items_distinct: "distinct (map fst (fm_items m))"
  by (rule ssorted_distinct) (rule fm_items_sorted)

lemma fm_find_items: "fm_find m k = Some v \<longleftrightarrow> (k, v) \<in> set (fm_items m)"
  by transfer (simp add: map_of_eq_Some_iff ssorted_distinct)

lemma set_items_keys: "set (map fst (fm_items m)) = fm_keys m"
  unfolding fm_keys_def by transfer (simp add: dom_map_of_conv_image_fst)

lemma fm_keys_code [code]: "fm_keys m = set (map fst (fm_items m))"
  by (simp only: set_items_keys)

lemma items_by_keys:
  "map (\<lambda>k. (k, the (fm_find m k))) (map fst (fm_items m)) = fm_items m"
  by (simp add: o_def) (rule map_idI, auto simp: fm_find_items [THEN iffD2])

lemma fm_eqI:
  assumes "\<And>k. fm_find m k = fm_find m' k"
  shows "m = m'"
proof -
  have eq: "fm_find m = fm_find m'" using assms by blast
  have srt: "sorted (map fst (fm_items x))" for x :: "('a, 'b) flat_map"
    using fm_items_sorted [of x] by (simp add: strict_sorted_iff)
  have "map fst (fm_items m) = map fst (fm_items m')"
    by (rule sorted_distinct_set_unique)
      (simp_all only: srt fm_items_distinct set_items_keys fm_keys_def eq)
  then have "fm_items m = fm_items m'"
    using items_by_keys [of m] items_by_keys [of m'] eq by metis
  then show ?thesis by (simp add: fm_items_inject)
qed

instantiation flat_map :: (linorder, equal) equal
begin

definition equal_flat_map :: "('a, 'b) flat_map \<Rightarrow> ('a, 'b) flat_map \<Rightarrow> bool" where
  "equal_flat_map m m' \<longleftrightarrow> list_all2 (\<lambda>x y. fst x \<le> fst y \<and> fst y \<le> fst x \<and> snd x = snd y) (fm_items m) (fm_items m')"

instance
proof
  have eq: "(\<lambda>x y :: 'a \<times> 'b. fst x \<le> fst y \<and> fst y \<le> fst x \<and> snd x = snd y) = (=)"
    by (auto intro!: ext simp: prod_eq_iff)
  show "equal_class.equal m m' \<longleftrightarrow> m = m'" for m m' :: "('a, 'b) flat_map"
    by (simp add: equal_flat_map_def eq list.rel_eq fm_items_inject)
qed

end

lemma fm_keys_simps [simp, fm_simps]:
  "fm_keys fm_empty = {}"
  "fm_keys (fm_put k v m) = insert k (fm_keys m)"
  "fm_keys (fm_erase k m) = fm_keys m - {k}"
  by (auto simp: fm_keys_def split: if_splits)

lemma fm_count_iff [simp, fm_simps]: "fm_count m k \<longleftrightarrow> k \<in> fm_keys m"
  by (simp add: fm_count_def fm_keys_def domIff)

lemma fm_find_None_iff [fm_simps]: "fm_find m k = None \<longleftrightarrow> k \<notin> fm_keys m"
  by (simp add: fm_keys_def domIff)

lemma fm_find_Some_keys: "fm_find m k = Some v \<Longrightarrow> k \<in> fm_keys m"
  by (auto simp: fm_keys_def)

lemma fm_keys_find: "k \<in> fm_keys m \<Longrightarrow> \<exists>v. fm_find m k = Some v"
  by (auto simp: fm_keys_def)

lemma fm_items_keys: "(k, v) \<in> set (fm_items m) \<Longrightarrow> k \<in> fm_keys m"
  by (auto simp flip: fm_find_items intro: fm_find_Some_keys)

lemma finite_fm_keys [simp]: "finite (fm_keys m)"
  by (simp flip: set_items_keys)

lemma fm_size_card: "fm_size m = card (fm_keys m)"
  using distinct_card [OF fm_items_distinct, of m] unfolding set_items_keys
  by (simp add: fm_size_def)

lemma fm_is_empty_iff [simp, fm_simps]: "fm_is_empty m \<longleftrightarrow> fm_keys m = {}"
  by (simp add: fm_is_empty_def flip: set_items_keys)

lemma fm_erase_notin [simp]: "k \<notin> fm_keys m \<Longrightarrow> fm_erase k m = m"
  by (rule fm_eqI) (use fm_find_None_iff [of m k] in auto)

lemma fm_put_put [simp]: "fm_put k v (fm_put k w m) = fm_put k v m"
  by (rule fm_eqI) simp

lemma fm_put_erase [simp]: "fm_put k v (fm_erase k m) = fm_put k v m"
  by (rule fm_eqI) simp

lemma fm_erase_put [simp]: "fm_erase k (fm_put k v m) = fm_erase k m"
  by (rule fm_eqI) simp

lemma fm_find_of_list: "fm_find (fm_of_list xs) k = map_of (rev xs) k"
  by (induction xs rule: rev_induct) (auto simp: fm_of_list_def split: prod.splits)

lemma option_eq_by_Some: "(\<And>v. x = Some v \<longleftrightarrow> y = Some v) \<Longrightarrow> x = y"
  by (metis option.exhaust)

lemma fm_find_of_list_distinct: "distinct (map fst xs) \<Longrightarrow> fm_find (fm_of_list xs) k = map_of xs k"
  unfolding fm_find_of_list
  by (rule option_eq_by_Some) (simp add: map_of_eq_Some_iff rev_map [symmetric])

text \<open>The entries of a flat map that satisfy a predicate.\<close>

lemma ssorted_filter: "ssorted xs \<Longrightarrow> ssorted (filter P xs)"
  by (induction xs) auto

lift_definition fm_filter :: "('k \<Rightarrow> 'v \<Rightarrow> bool) \<Rightarrow> ('k::linorder, 'v) flat_map \<Rightarrow> ('k, 'v) flat_map"
  is "\<lambda>P. filter (\<lambda>(k, v). P k v)"
  by (rule ssorted_filter)

lemma fm_items_filter [simp]: "fm_items (fm_filter P m) = filter (\<lambda>(k, v). P k v) (fm_items m)"
  by transfer simp

lemma fm_find_filter [simp, fm_simps]:
  "fm_find (fm_filter P m) k = (case fm_find m k of None \<Rightarrow> None | Some v \<Rightarrow> if P k v then Some v else None)"
proof (rule option_eq_by_Some)
  fix v
  have "fm_find (fm_filter P m) k = Some v \<longleftrightarrow> fm_find m k = Some v \<and> P k v"
    unfolding fm_find_items by simp
  then show "fm_find (fm_filter P m) k = Some v \<longleftrightarrow>
      (case fm_find m k of None \<Rightarrow> None | Some v \<Rightarrow> if P k v then Some v else None) = Some v"
    by (auto split: option.split)
qed

lemma fm_filter_of_list: "fm_of_list (filter (\<lambda>(k, v). P k v) (fm_items m)) = fm_filter P m"
proof (rule fm_eqI)
  fix k
  have "distinct (map fst (filter (\<lambda>(k, v). P k v) (fm_items m)))"
    using fm_items_distinct [of m] by (simp add: distinct_map_filter)
  note fm_find_of_list_distinct [OF this]
  then show "fm_find (fm_of_list (filter (\<lambda>(k, v). P k v) (fm_items m))) k = fm_find (fm_filter P m) k"
    by (simp only: fm_find.rep_eq [of "fm_filter P m"] fm_items_filter)
qed

text \<open>The sum of a weight over the entries of a flat map.\<close>

lemma fm_ksum_alt: "fm_ksum f m = (\<Sum>k \<in> fm_keys m. f k (the (fm_find m k)))"
proof -
  have "fm_ksum f m = sum_list (map (\<lambda>k. f k (the (fm_find m k))) (map fst (fm_items m)))"
    unfolding fm_ksum_def by (subst items_by_keys [symmetric]) (simp add: o_def)
  also have "\<dots> = (\<Sum>k \<in> fm_keys m. f k (the (fm_find m k)))"
    using fm_items_distinct by (subst sum_list_distinct_conv_sum_set) (simp_all only: set_items_keys)
  finally show ?thesis .
qed

abbreviation fm_val :: "('k \<Rightarrow> 'v \<Rightarrow> int) \<Rightarrow> ('k::linorder, 'v) flat_map \<Rightarrow> 'k \<Rightarrow> int" where
  "fm_val f m k \<equiv> (case fm_find m k of None \<Rightarrow> 0 | Some v \<Rightarrow> f k v)"

lemma fm_ksum_empty [simp, fm_simps]: "fm_ksum f fm_empty = 0"
  by (simp add: fm_ksum_alt)

lemma fm_ksum_erase [simp, fm_simps]: "fm_ksum f (fm_erase k m) = fm_ksum f m - fm_val f m k"
proof (cases "k \<in> fm_keys m")
  case True
  then obtain v where v: "fm_find m k = Some v" by (blast dest: fm_keys_find)
  have "fm_ksum f (fm_erase k m) = (\<Sum>j \<in> fm_keys m - {k}. f j (the (fm_find m j)))"
    unfolding fm_ksum_alt by (rule sum.cong) auto
  also have "\<dots> = fm_ksum f m - f k v"
    using True v by (simp add: fm_ksum_alt sum_diff1)
  finally show ?thesis using v by simp
next
  case False
  then show ?thesis using fm_find_None_iff [of m k] by simp
qed

lemma fm_ksum_put_new: "k \<notin> fm_keys m \<Longrightarrow> fm_ksum f (fm_put k v m) = fm_ksum f m + f k v"
proof -
  assume a: "k \<notin> fm_keys m"
  have "(\<Sum>j \<in> fm_keys m. f j (the (if j = k then Some v else fm_find m j))) = fm_ksum f m"
    unfolding fm_ksum_alt by (rule sum.cong) (use a in auto)
  then show ?thesis using a by (simp add: fm_ksum_alt)
qed

lemma fm_ksum_put [simp, fm_simps]: "fm_ksum f (fm_put k v m) = fm_ksum f m - fm_val f m k + f k v"
proof -
  have "fm_ksum f (fm_put k v m) = fm_ksum f (fm_put k v (fm_erase k m))" by simp
  also have "\<dots> = fm_ksum f (fm_erase k m) + f k v" by (rule fm_ksum_put_new) simp
  finally show ?thesis by simp
qed

lemma fm_ksum_cong:
  "(\<And>k v. fm_find m k = Some v \<Longrightarrow> f k v = g k v) \<Longrightarrow> fm_ksum f m = fm_ksum g m"
  unfolding fm_ksum_alt by (rule sum.cong) (auto dest: fm_keys_find)

lemma fm_ksum_nonneg: "(\<And>k v. fm_find m k = Some v \<Longrightarrow> 0 \<le> f k v) \<Longrightarrow> 0 \<le> fm_ksum f m"
  unfolding fm_ksum_alt by (rule sum_nonneg) (auto dest: fm_keys_find)

section \<open>Flat sets\<close>

type_synonym 'k flat_set = "('k, unit) flat_map"

abbreviation fs_insert :: "'k::linorder \<Rightarrow> 'k flat_set \<Rightarrow> 'k flat_set" where
  "fs_insert x s \<equiv> fm_put x () s"

definition fs_items :: "'k::linorder flat_set \<Rightarrow> 'k list" where
  "fs_items s = map fst (fm_items s)"

definition fs_of_list :: "'k::linorder list \<Rightarrow> 'k flat_set" where
  "fs_of_list xs = fold fs_insert xs fm_empty"

lemma set_fs_items [simp]: "set (fs_items s) = fm_keys s"
  unfolding fs_items_def by (rule set_items_keys)

lemma distinct_fs_items [simp]: "distinct (fs_items s)"
  unfolding fs_items_def by (rule fm_items_distinct)

lemma fs_eqI: "fm_keys s = fm_keys t \<Longrightarrow> s = (t :: 'k::linorder flat_set)"
proof (rule fm_eqI)
  fix k assume "fm_keys s = fm_keys t"
  then show "fm_find s k = fm_find t k"
    by (cases "fm_find s k"; cases "fm_find t k") (auto simp: fm_keys_def dom_def set_eq_iff, metis option.distinct(1))
qed

lemma fm_keys_fold_insert [simp]:
  "fm_keys (fold (\<lambda>x. fs_insert (f x)) xs s) = f ` set xs \<union> fm_keys s"
  by (induction xs arbitrary: s) auto

lemma fm_keys_fs_of_list [simp]: "fm_keys (fs_of_list xs) = set xs"
  by (induction xs rule: rev_induct) (auto simp: fs_of_list_def)

section \<open>Object indexes\<close>

text \<open>
  \<^verbatim>\<open>generic_index<T, multi_index_container<...>>\<close>: the objects by instance number and the next
  instance number. \<^verbatim>\<open>create\<close> inserts under the next number and fails when any unique key of the
  container is taken; \<open>clash\<close> says when two objects share a unique secondary key.
\<close>

record 'a index =
  next_id :: nat
  objs :: "(nat, 'a) flat_map"

definition idx_empty :: "'a index" where
  "idx_empty = \<lparr>next_id = 0, objs = fm_empty\<rparr>"

definition idx_find :: "'a index \<Rightarrow> nat \<Rightarrow> 'a option" where
  "idx_find ix i = fm_find (objs ix) i"

definition idx_get :: "'a index \<Rightarrow> nat \<Rightarrow> 'a res" where
  "idx_get ix i = of_option Not_found (idx_find ix i)"

definition idx_items :: "'a index \<Rightarrow> (nat \<times> 'a) list" where
  "idx_items ix = fm_items (objs ix)"

definition idx_create :: "('a \<Rightarrow> 'a \<Rightarrow> bool) \<Rightarrow> 'a \<Rightarrow> 'a index \<Rightarrow> (nat \<times> 'a index) res" where
  "idx_create clash v ix =
     (if fm_count (objs ix) (next_id ix) \<or> list_ex (\<lambda>(i, w). clash v w) (idx_items ix)
      then Inl Not_unique
      else Inr (next_id ix, \<lparr>next_id = Suc (next_id ix), objs = fm_put (next_id ix) v (objs ix)\<rparr>))"

definition idx_set :: "nat \<Rightarrow> 'a \<Rightarrow> 'a index \<Rightarrow> 'a index" where
  "idx_set i v ix = ix\<lparr>objs := fm_put i v (objs ix)\<rparr>"

definition idx_remove :: "nat \<Rightarrow> 'a index \<Rightarrow> 'a index" where
  "idx_remove i ix = ix\<lparr>objs := fm_erase i (objs ix)\<rparr>"

text \<open>Lookup by a secondary key: the first object, in the order of the numbers, that has it.\<close>

definition idx_lookup :: "(nat \<Rightarrow> 'a \<Rightarrow> bool) \<Rightarrow> 'a index \<Rightarrow> (nat \<times> 'a) option" where
  "idx_lookup P ix = List.find (\<lambda>(i, v). P i v) (idx_items ix)"

definition idx_sum :: "('a \<Rightarrow> int) \<Rightarrow> 'a index \<Rightarrow> int" where
  "idx_sum f ix = fm_sum f (objs ix)"

definition idx_all :: "('a \<Rightarrow> bool) \<Rightarrow> 'a index \<Rightarrow> bool" where
  "idx_all P ix \<longleftrightarrow> list_all (\<lambda>(i, v). P v) (idx_items ix)"

lemma idx_find_empty [simp]: "idx_find idx_empty i = None"
  by (simp add: idx_find_def idx_empty_def)

lemma idx_find_set [simp]: "idx_find (idx_set i v ix) j = (if j = i then Some v else idx_find ix j)"
  by (simp add: idx_find_def idx_set_def)

lemma idx_find_remove [simp]: "idx_find (idx_remove i ix) j = (if j = i then None else idx_find ix j)"
  by (simp add: idx_find_def idx_remove_def)

lemma idx_create_Inr [res_simps]:
  "idx_create clash v ix = Inr r \<longleftrightarrow>
     idx_find ix (next_id ix) = None \<and> (\<forall>(i, w) \<in> set (idx_items ix). \<not> clash v w) \<and>
     r = (next_id ix, \<lparr>next_id = Suc (next_id ix), objs = fm_put (next_id ix) v (objs ix)\<rparr>)"
  by (auto simp: idx_create_def idx_find_def fm_find_None_iff list_ex_iff)

lemma ends_idx [wp]:
  "ends P (idx_get ix i) \<longleftrightarrow> (\<forall>v. idx_find ix i = Some v \<longrightarrow> P v)"
  "ends Q (idx_create clash v ix) \<longleftrightarrow>
     (idx_find ix (next_id ix) = None \<longrightarrow> (\<forall>(i, w) \<in> set (idx_items ix). \<not> clash v w) \<longrightarrow>
        Q (next_id ix, \<lparr>next_id = Suc (next_id ix), objs = fm_put (next_id ix) v (objs ix)\<rparr>))"
  by (auto simp: ends_def idx_get_def res_simps)

lemma idx_create_find:
  "idx_create clash v ix = Inr (i, ix') \<Longrightarrow> idx_find ix' j = (if j = i then Some v else idx_find ix j)"
  by (auto simp: res_simps idx_find_def)

lemma idx_items_iff: "(i, v) \<in> set (idx_items ix) \<longleftrightarrow> idx_find ix i = Some v"
  by (simp add: idx_items_def idx_find_def fm_find_items)

lemma idx_lookup_Some: "idx_lookup P ix = Some (i, v) \<Longrightarrow> idx_find ix i = Some v \<and> P i v"
  by (auto simp: idx_lookup_def find_Some_iff idx_items_iff [symmetric] in_set_conv_nth)

lemma idx_lookup_None: "idx_lookup P ix = None \<longleftrightarrow> (\<forall>i v. idx_find ix i = Some v \<longrightarrow> \<not> P i v)"
  by (auto simp: idx_lookup_def find_None_iff idx_items_iff)

lemma idx_lookup_unique:
  assumes "idx_find ix i = Some v" and "P i v" and "\<And>j w. idx_find ix j = Some w \<Longrightarrow> P j w \<Longrightarrow> j = i"
  shows "idx_lookup P ix = Some (i, v)"
proof (cases "idx_lookup P ix")
  case None
  then show ?thesis using assms(1,2) by (simp add: idx_lookup_None)
next
  case (Some jw)
  then show ?thesis using assms idx_lookup_Some [of P ix] by (cases jw) fastforce
qed

lemma idx_all_iff: "idx_all P ix \<longleftrightarrow> (\<forall>i v. idx_find ix i = Some v \<longrightarrow> P v)"
  by (auto simp: idx_all_def list_all_iff idx_items_iff)

lemma idx_all_empty [simp]: "idx_all P idx_empty"
  by (simp add: idx_all_iff)

lemma idx_all_set [wf_intros]: "idx_all P ix \<Longrightarrow> P v \<Longrightarrow> idx_all P (idx_set i v ix)"
  by (auto simp: idx_all_iff)

lemma idx_all_remove [wf_intros]: "idx_all P ix \<Longrightarrow> idx_all P (idx_remove i ix)"
  by (auto simp: idx_all_iff)

lemma idx_all_create:
  "idx_create clash v ix = Inr (i, ix') \<Longrightarrow> idx_all P ix \<Longrightarrow> P v \<Longrightarrow> idx_all P ix'"
  by (auto simp: idx_all_iff idx_create_find)

lemma idx_allD: "idx_all P ix \<Longrightarrow> idx_find ix i = Some v \<Longrightarrow> P v"
  by (auto simp: idx_all_iff)

abbreviation idx_val :: "('a \<Rightarrow> int) \<Rightarrow> 'a index \<Rightarrow> nat \<Rightarrow> int" where
  "idx_val f ix i \<equiv> (case idx_find ix i of None \<Rightarrow> 0 | Some v \<Rightarrow> f v)"

lemma idx_sum_empty [simp]: "idx_sum f idx_empty = 0"
  by (simp add: idx_sum_def idx_empty_def)

lemma idx_sum_set [simp]: "idx_sum f (idx_set i v ix) = idx_sum f ix - idx_val f ix i + f v"
  by (simp add: idx_sum_def idx_set_def idx_find_def)

lemma idx_sum_remove [simp]: "idx_sum f (idx_remove i ix) = idx_sum f ix - idx_val f ix i"
  by (simp add: idx_sum_def idx_remove_def idx_find_def)

lemma idx_sum_create: "idx_create clash v ix = Inr (i, ix') \<Longrightarrow> idx_sum f ix' = idx_sum f ix + f v"
  by (auto simp: res_simps idx_sum_def idx_find_def)

section \<open>Interfaces\<close>

text \<open>
  What a component that stores things under keys promises to its clients: lookup after insertion
  and erasure, and a weight (the funds it holds) that changes by exactly what is stored.
\<close>

locale weighted_store =
  fixes put :: "'k \<Rightarrow> 'v \<Rightarrow> 'm \<Rightarrow> 'm"
    and erase :: "'k \<Rightarrow> 'm \<Rightarrow> 'm"
    and find :: "'m \<Rightarrow> 'k \<Rightarrow> 'v option"
    and total :: "('v \<Rightarrow> int) \<Rightarrow> 'm \<Rightarrow> int"
  assumes find_put: "find (put k v m) k' = (if k' = k then Some v else find m k')"
    and find_erase: "find (erase k m) k' = (if k' = k then None else find m k')"
    and total_put: "total f (put k v m) = total f m - (case find m k of None \<Rightarrow> 0 | Some w \<Rightarrow> f w) + f v"
    and total_erase: "total f (erase k m) = total f m - (case find m k of None \<Rightarrow> 0 | Some w \<Rightarrow> f w)"
begin

lemma erase_put_total: "total f (erase k (put k v m)) = total f (erase k m)"
  by (simp add: total_erase total_put find_put)

text \<open>Replacing a stored value changes the weight by the difference of the two values.\<close>

lemma total_replace: "find m k = Some w \<Longrightarrow> total f (put k v m) = total f m + (f v - f w)"
  by (simp add: total_put)

text \<open>Moving a value between two keys keeps the weight.\<close>

lemma total_move:
  assumes "find m k = Some v" and "find m k' = None" and "k' \<noteq> k"
  shows "total f (put k' v (erase k m)) = total f m"
  using assms by (simp add: total_put total_erase find_erase)

end

interpretation fm_store: weighted_store fm_put fm_erase fm_find fm_sum
  by unfold_locales simp_all

interpretation ix_store: weighted_store idx_set idx_remove idx_find idx_sum
  by unfold_locales simp_all

text \<open>
  A checked state machine: a step returns a new state or an error, keeps an invariant, and keeps
  a ledger. Then every run keeps both.
\<close>

locale checked_machine =
  fixes step :: "'op \<Rightarrow> 's \<Rightarrow> 's res"
    and inv :: "'s \<Rightarrow> bool"
    and ledger :: "'s \<Rightarrow> 'l"
  assumes step_inv: "inv s \<Longrightarrow> step op s = Inr s' \<Longrightarrow> inv s'"
    and step_ledger: "inv s \<Longrightarrow> step op s = Inr s' \<Longrightarrow> ledger s' = ledger s"
begin

lemma run_inv: "inv s \<Longrightarrow> efold step ops s = Inr s' \<Longrightarrow> inv s'"
  by (rule efold_invariant [where P = inv]) (auto intro: step_inv)

lemma run_ledger:
  assumes "inv s" and "efold step ops s = Inr s'"
  shows "ledger s' = ledger s"
proof -
  have "inv s' \<and> ledger s' = ledger s"
    by (rule efold_invariant [OF _ _ assms(2)]) (use assms(1) in \<open>auto dest: step_inv step_ledger\<close>)
  then show ?thesis by blast
qed

end

end
