(* ===== verification/Version.thy ===== *)
theory Version
  imports Prelude
begin

unbundle bit_operations_syntax

text \<open>
  Protocol versions (\<^verbatim>\<open>playchain/version.hpp\<close>, \<^verbatim>\<open>playchain/version.cpp\<close>): a version packs a
  major, a minor and a patch number into 32 bits; \<^verbatim>\<open>from_variant\<close> parses the dotted decimal form
  with a \<^verbatim>\<open>std::stringstream\<close> and \<^verbatim>\<open>operator fc::string\<close> prints it. The formatted input of
  the C++ library that the parser relies on (whitespace skipping, decimal digits, fail and eof
  bits, saturation on overflow) is modelled as a small stream. The theorems are the round trips
  (pack and unpack, print and parse), that a parsed version is always in range, and the inputs the
  parser accepts beyond the canonical form.
\<close>

section \<open>The packed representation\<close>

type_synonym version = "32 word"

definition mk_version :: "8 word \<Rightarrow> 8 word \<Rightarrow> 16 word \<Rightarrow> version" where
  "mk_version m h r =
     (let v = push_bit 8 (0 OR (ucast m :: 32 word));
          v = push_bit 16 (v OR ucast h)
      in v OR ucast r)"

definition major_v :: "version \<Rightarrow> 8 word" where
  "major_v v = ucast (drop_bit 24 v AND 0xFF)"

definition minor_v :: "version \<Rightarrow> 8 word" where
  "minor_v v = ucast (drop_bit 16 v AND 0xFF)"

definition patch :: "version \<Rightarrow> 16 word" where
  "patch v = ucast (v AND 0xFFFF)"

record version_ext =
  base :: version
  vmetadata :: string

text \<open>\<^verbatim>\<open>operator ==\<close> on extended versions compares major and minor only.\<close>

definition version_ext_eq :: "version_ext \<Rightarrow> version_ext \<Rightarrow> bool" where
  "version_ext_eq a b \<longleftrightarrow> major_v (base a) = major_v (base b) \<and> minor_v (base a) = minor_v (base b)"

definition hardfork_version :: "version \<Rightarrow> version" where
  "hardfork_version v = v AND 0xFFFF0000"

section \<open>Printing\<close>

definition digit :: "nat \<Rightarrow> char" where
  "digit n = char_of (48 + n)"

fun show_nat :: "nat \<Rightarrow> string" where
  "show_nat n = (if n < 10 then [digit n] else show_nat (n div 10) @ [digit (n mod 10)])"

declare show_nat.simps [simp del]

definition version_string :: "version \<Rightarrow> string" where
  "version_string v =
     show_nat (unat (major_v v)) @ ''.'' @ show_nat (unat (minor_v v)) @ ''.'' @
     show_nat (unat (patch v))"

definition version_ext_string :: "version_ext \<Rightarrow> string" where
  "version_ext_string v =
     (if vmetadata v \<noteq> [] then version_string (base v) @ ''+'' @ vmetadata v
      else version_string (base v))"

section \<open>Formatted input\<close>

text \<open>
  \<^verbatim>\<open>std::istream\<close> over a string: what is left, the fail bit and the eof bit. A formatted
  extraction does nothing but set the fail bit unless both bits are clear; it skips white space
  first, and running into the end while skipping sets both bits.
\<close>

record stream =
  unread :: string
  failbit :: bool
  eofbit :: bool

definition is_space :: "char \<Rightarrow> bool" where
  "is_space c \<longleftrightarrow> of_char c \<in> {9, 10, 11, 12, 13, 32 :: int}"

definition is_digit :: "char \<Rightarrow> bool" where
  "is_digit c \<longleftrightarrow> 48 \<le> (of_char c :: int) \<and> (of_char c :: int) \<le> 57"

definition digit_value :: "char \<Rightarrow> int" where
  "digit_value c = of_char c - 48"

definition read_digits :: "string \<Rightarrow> int" where
  "read_digits ds = foldl (\<lambda>n c. 10 * n + digit_value c) 0 ds"

text \<open>The sentry of a formatted extraction: \<open>None\<close> when the extraction must not read.\<close>

definition sentry :: "stream \<Rightarrow> stream \<times> bool" where
  "sentry s =
     (if failbit s \<or> eofbit s then (s\<lparr>failbit := True\<rparr>, False)
      else let r = dropWhile is_space (unread s)
           in if r = [] then (s\<lparr>unread := [], failbit := True, eofbit := True\<rparr>, False)
              else (s\<lparr>unread := r\<rparr>, True))"

definition get_char :: "stream \<Rightarrow> int \<Rightarrow> stream \<times> int" where
  "get_char s old =
     (case sentry s of
        (s', False) \<Rightarrow> (s', old)
      | (s', True) \<Rightarrow> (case unread s' of [] \<Rightarrow> (s', old) | c # cs \<Rightarrow> (s'\<lparr>unread := cs\<rparr>, of_char c)))"

definition get_u32 :: "stream \<Rightarrow> int \<Rightarrow> stream \<times> int" where
  "get_u32 s old =
     (case sentry s of
        (s', False) \<Rightarrow> (s', old)
      | (s', True) \<Rightarrow>
          let (neg, r) = (case unread s' of c # cs \<Rightarrow>
                            if c = CHR ''-'' then (True, cs) else if c = CHR ''+'' then (False, cs)
                            else (False, c # cs)
                          | [] \<Rightarrow> (False, []));
              ds = takeWhile is_digit r; r' = dropWhile is_digit r;
              s'' = s'\<lparr>unread := r', eofbit := (r' = [])\<rparr>;
              n = read_digits ds
          in if ds = [] then (s''\<lparr>failbit := True\<rparr>, 0)
             else if 2 ^ 32 \<le> n then (s''\<lparr>failbit := True\<rparr>, 2 ^ 32 - 1)
             else (s'', if neg then (2 ^ 32 - n) mod 2 ^ 32 else n))"

section \<open>Parsing\<close>

definition version_from_variant :: "string \<Rightarrow> version res" where
  "version_from_variant str =
     (let s = \<lparr>unread = str, failbit = False, eofbit = False\<rparr>;
          (s, major) = get_u32 s 0;
          (s, dot_a) = get_char s 0;
          (s, hardfork) = get_u32 s 0;
          (s, dot_b) = get_char s 0;
          (s, revision) = get_u32 s 0
      in ebind (check ((dot_a = of_char (CHR ''.'') \<or> dot_a = of_char (CHR ''_'')) \<and> dot_a = dot_b)
                  ''Variant does not contain proper dotted decimal format'') (\<lambda>_.
         ebind (check (major \<le> 0xFF) ''Major version is out of range'') (\<lambda>_.
         ebind (check (hardfork \<le> 0xFF) ''Minor/Hardfork version is out of range'') (\<lambda>_.
         ebind (check (revision \<le> 0xFFFF) ''Patch/Revision version is out of range'') (\<lambda>_.
         ebind (check (eofbit s) ''Extra information at end of version string'') (\<lambda>_.
           Inr (0 OR push_bit 24 (of_int major) OR push_bit 16 (of_int hardfork) OR of_int revision)))))))"

text \<open>
  An extended version is parsed into an object that exists: its metadata is only set when the text has some. A new
  object is version zero without metadata.
\<close>

definition new_version_ext :: version_ext where
  "new_version_ext = \<lparr>base = 0, vmetadata = []\<rparr>"

definition version_ext_from_variant :: "string \<Rightarrow> version_ext \<Rightarrow> version_ext res" where
  "version_ext_from_variant str ver =
     (let b = takeWhile (\<lambda>c. c \<noteq> CHR ''+'') str;
          r = dropWhile (\<lambda>c. c \<noteq> CHR ''+'') str
      in ebind (version_from_variant b) (\<lambda>v.
           Inr (case r of [] \<Rightarrow> ver\<lparr>base := v\<rparr> | _ # m \<Rightarrow> ver\<lparr>base := v, vmetadata := m\<rparr>)))"

definition hardfork_version_from_variant :: "string \<Rightarrow> version res" where
  "hardfork_version_from_variant str =
     ebind (version_from_variant str) (\<lambda>v. Inr (v AND 0xFFFF0000))"

section \<open>Packing\<close>

lemma bit_mk_version:
  "bit (mk_version m h r) n \<longleftrightarrow>
     n < 16 \<and> bit r n \<or> 16 \<le> n \<and> n < 24 \<and> bit h (n - 16) \<or> 24 \<le> n \<and> n < 32 \<and> bit m (n - 24)"
  by (auto simp: mk_version_def Let_def bit_simps dest: bit_imp_le_length)

lemma unpack_pack: "major_v (mk_version m h r) = m" "minor_v (mk_version m h r) = h" "patch (mk_version m h r) = r"
proof -
  have mask: "(0xFF :: 32 word) = mask 8" "(0xFFFF :: 32 word) = mask 16" by (simp_all add: mask_eq_exp_minus_1)
  show "major_v (mk_version m h r) = m" "minor_v (mk_version m h r) = h" "patch (mk_version m h r) = r"
    unfolding major_v_def minor_v_def patch_def mask
    by (rule bit_word_eqI; auto simp: bit_simps bit_mk_version)+
qed

lemma pack_unpack: "mk_version (major_v v) (minor_v v) (patch v) = v"
proof -
  have mask: "(0xFF :: 32 word) = mask 8" "(0xFFFF :: 32 word) = mask 16" by (simp_all add: mask_eq_exp_minus_1)
  show ?thesis
  proof (rule bit_word_eqI)
    fix n :: nat assume "n < LENGTH(32)"
    then consider "n < 16" | "16 \<le> n" "n < 24" | "24 \<le> n" "n < 32" by force
    then show "bit (mk_version (major_v v) (minor_v v) (patch v)) n = bit v n"
      unfolding major_v_def minor_v_def patch_def mask by cases (auto simp: bit_simps bit_mk_version)
  qed
qed

section \<open>Decimal numbers\<close>

lemma of_char_digit: "n < 10 \<Longrightarrow> of_char (digit n) = 48 + int n"
proof -
  assume "n < 10"
  then have "(48 + int n) mod 256 = 48 + int n" by simp
  moreover have "digit n = char_of (48 + int n)" using char_of_nat [of "48 + n", where ?'a = int] by (simp add: digit_def)
  ultimately show ?thesis by simp
qed

lemma is_digit_digit: "n < 10 \<Longrightarrow> is_digit (digit n)"
  by (simp add: is_digit_def of_char_digit)

lemma digit_value_digit: "n < 10 \<Longrightarrow> digit_value (digit n) = int n"
  by (simp add: digit_value_def of_char_digit)

lemma show_nat_digits: "list_all is_digit (show_nat n)" "show_nat n \<noteq> []"
  by (induction n rule: show_nat.induct) (auto simp: show_nat.simps [of n for n] is_digit_digit)

lemma read_digits_append: "read_digits (xs @ [c]) = 10 * read_digits xs + digit_value c"
  by (simp add: read_digits_def)

lemma read_show: "read_digits (show_nat n) = int n"
proof (induction n rule: show_nat.induct)
  case (1 n)
  show ?case
  proof (cases "n < 10")
    case True
    then show ?thesis by (simp add: show_nat.simps [of n] read_digits_def digit_value_digit)
  next
    case False
    then show ?thesis using 1
      by (simp add: show_nat.simps [of n] read_digits_append digit_value_digit) presburger
  qed
qed

lemma digit_no_space: "is_digit c \<Longrightarrow> \<not> is_space c" "is_digit c \<Longrightarrow> c \<noteq> CHR ''-'' \<and> c \<noteq> CHR ''+''"
  by (auto simp: is_digit_def is_space_def)

text \<open>Reading a printed number that is followed by nothing or by something that is no digit.\<close>

lemma get_u32_show:
  assumes "case rs of [] \<Rightarrow> True | c # _ \<Rightarrow> \<not> is_digit c" and "n < 2 ^ 32"
  shows "get_u32 \<lparr>unread = show_nat n @ rs, failbit = False, eofbit = False\<rparr> old =
    (\<lparr>unread = rs, failbit = False, eofbit = (rs = [])\<rparr>, int n)"
proof -
  obtain c cs where s: "show_nat n = c # cs" using show_nat_digits(2) by (cases "show_nat n") auto
  then have c: "is_digit c" using show_nat_digits(1) [of n] by simp
  have "takeWhile is_digit (show_nat n @ rs) = show_nat n" "dropWhile is_digit (show_nat n @ rs) = rs"
    using show_nat_digits(1) [of n] assms(1)
    by (auto simp: takeWhile_append2 dropWhile_append2 list_all_iff split: list.splits)
  moreover have "sentry \<lparr>unread = show_nat n @ rs, failbit = False, eofbit = False\<rparr> =
      (\<lparr>unread = show_nat n @ rs, failbit = False, eofbit = False\<rparr>, True)"
    using digit_no_space(1) [OF c] by (simp add: sentry_def s)
  ultimately show ?thesis
    using digit_no_space(2) [OF c] assms(2) read_show [of n] show_nat_digits(2) [of n]
    by (simp add: get_u32_def s del: takeWhile.simps dropWhile.simps dropWhile_eq_Nil_conv takeWhile_eq_Nil_iff)
qed

lemma get_char_dot:
  "\<not> is_space c \<Longrightarrow> get_char \<lparr>unread = c # rs, failbit = False, eofbit = False\<rparr> old =
    (\<lparr>unread = rs, failbit = False, eofbit = False\<rparr>, of_char c)"
  by (simp add: get_char_def sentry_def)

section \<open>Round trips\<close>

lemma version_fields:
  "unat (major_v v) < 256" "unat (minor_v v) < 256" "unat (patch v) < 65536"
  "uint (major_v v) \<le> 255" "uint (minor_v v) \<le> 255" "uint (patch v) \<le> 65535"
  using unsigned_less [of "major_v v"] unsigned_less [of "minor_v v"] unsigned_less [of "patch v"]
    uint_lt2p [of "major_v v"] uint_lt2p [of "minor_v v"] uint_lt2p [of "patch v"] by simp_all

lemma pack_unsigned:
  "0 OR push_bit 24 (of_int (int (unat m))) OR push_bit 16 (of_int (int (unat h))) OR of_int (int (unat r)) =
     mk_version m h r"
proof -
  have u: "of_int (int (unat w)) = (ucast w :: 32 word)" for w :: "'a::len word" by simp
  show ?thesis unfolding u
    by (rule bit_word_eqI) (auto simp: bit_mk_version bit_simps dest: bit_imp_le_length)
qed

text \<open>
  What a version is packed from is what it is unpacked to, and every 32-bit number is the
  version of its three parts.
\<close>

theorem version_pack_unpack:
  "major_v (mk_version m h r) = m \<and> minor_v (mk_version m h r) = h \<and> patch (mk_version m h r) = r \<and>
   mk_version (major_v v) (minor_v v) (patch v) = v"
  by (simp add: unpack_pack pack_unpack)

lemma parse_print: "version_from_variant (version_string v) = Inr v"
proof -
  let ?m = "unat (major_v v)" and ?h = "unat (minor_v v)" and ?r = "unat (patch v)"
  have dot: "\<not> is_space (CHR ''.'')" "\<not> is_digit (CHR ''.'')" by (simp_all add: is_space_def is_digit_def)
  have "get_u32 \<lparr>unread = version_string v, failbit = False, eofbit = False\<rparr> 0 =
      (\<lparr>unread = CHR ''.'' # show_nat ?h @ ''.'' @ show_nat ?r, failbit = False, eofbit = False\<rparr>, int ?m)"
    using get_u32_show [of "CHR ''.'' # show_nat ?h @ ''.'' @ show_nat ?r" ?m 0] dot version_fields(1) [of v]
    by (simp add: version_string_def)
  moreover have "get_u32 \<lparr>unread = show_nat ?h @ CHR ''.'' # show_nat ?r, failbit = False, eofbit = False\<rparr> 0 =
      (\<lparr>unread = CHR ''.'' # show_nat ?r, failbit = False, eofbit = False\<rparr>, int ?h)"
    using get_u32_show [of "CHR ''.'' # show_nat ?r" ?h 0] dot version_fields(2) [of v] by simp
  moreover have "get_u32 \<lparr>unread = show_nat ?r, failbit = False, eofbit = False\<rparr> 0 =
      (\<lparr>unread = [], failbit = False, eofbit = True\<rparr>, int ?r)"
    using get_u32_show [of "[]" ?r 0] version_fields(3) [of v] by simp
  ultimately show ?thesis
    using version_fields [of v] pack_unsigned [of "major_v v" "minor_v v" "patch v"]
    by (simp add: version_from_variant_def Let_def get_char_dot [OF dot(1)] check_def pack_unpack)
qed

text \<open>
  C29: a printed version, with or without metadata, is parsed to itself into a new object; parsed into an object that
  exists, a version without metadata leaves the metadata that the object had, so that it does not come back.
\<close>

theorem version_print_parse:
  "version_ext_from_variant (version_ext_string v) new_version_ext = Inr v \<and>
   version_ext_from_variant (version_ext_string v) w = Inr (if vmetadata v = [] then v\<lparr>vmetadata := vmetadata w\<rparr> else v)"
proof -
  have "c \<noteq> CHR ''+''" if "c \<in> set (version_string (base v))" for c
    using that show_nat_digits(1) digit_no_space(2)
    by (auto simp: version_string_def list_all_iff)
  then have tw: "takeWhile (\<lambda>c. c \<noteq> CHR ''+'') (version_string (base v) @ CHR ''+'' # m) = version_string (base v)"
    "dropWhile (\<lambda>c. c \<noteq> CHR ''+'') (version_string (base v) @ CHR ''+'' # m) = CHR ''+'' # m"
    "takeWhile (\<lambda>c. c \<noteq> CHR ''+'') (version_string (base v)) = version_string (base v)"
    "dropWhile (\<lambda>c. c \<noteq> CHR ''+'') (version_string (base v)) = []" for m
    by (auto simp: takeWhile_append2 dropWhile_append2 takeWhile_eq_all_conv)
  show ?thesis
    by (cases "vmetadata v = []")
      (simp_all add: version_ext_from_variant_def version_ext_string_def new_version_ext_def Let_def parse_print tw)
qed

text \<open>
  The parser accepts a version that ends after the second dot, and reads the missing number as
  zero: at the end of the stream the last extraction fails, and the check of the end holds.
\<close>

theorem version_missing_patch:
  assumes "m < 256" and "h < 256"
  shows "version_from_variant (show_nat m @ ''.'' @ show_nat h @ ''.'') = Inr (mk_version (of_nat m) (of_nat h) 0)"
proof -
  have dot: "\<not> is_space (CHR ''.'')" "\<not> is_digit (CHR ''.'')" by (simp_all add: is_space_def is_digit_def)
  have "get_u32 \<lparr>unread = show_nat m @ CHR ''.'' # show_nat h @ ''.'', failbit = False, eofbit = False\<rparr> 0 =
      (\<lparr>unread = CHR ''.'' # show_nat h @ ''.'', failbit = False, eofbit = False\<rparr>, int m)"
    using get_u32_show [of "CHR ''.'' # show_nat h @ ''.''" m 0] dot assms by simp
  moreover have "get_u32 \<lparr>unread = show_nat h @ ''.'', failbit = False, eofbit = False\<rparr> 0 =
      (\<lparr>unread = ''.'', failbit = False, eofbit = False\<rparr>, int h)"
    using get_u32_show [of "''.''" h 0] dot assms by simp
  moreover have "get_u32 \<lparr>unread = [], failbit = False, eofbit = False\<rparr> 0 =
      (\<lparr>unread = [], failbit = True, eofbit = True\<rparr>, 0)"
    by (simp add: get_u32_def sentry_def)
  moreover have "unat (of_nat m :: 8 word) = m" "unat (of_nat h :: 8 word) = h"
    using assms by (simp_all add: unat_of_nat)
  ultimately show ?thesis
    using assms pack_unsigned [of "of_nat m" "of_nat h" 0]
    by (simp add: version_from_variant_def Let_def get_char_dot [OF dot(1)] check_def)
qed

theorem version_missing_patch_witness:
  "version_from_variant ''1.2.'' = Inr (mk_version 1 2 0)"
proof -
  have s: "show_nat 1 @ ''.'' @ show_nat 2 @ ''.'' = ''1.2.''" by code_simp
  have "version_from_variant (show_nat 1 @ ''.'' @ show_nat 2 @ ''.'') = Inr (mk_version (of_nat 1) (of_nat 2) 0)"
    by (rule version_missing_patch) simp_all
  then show ?thesis unfolding s by simp
qed

end
