(* ===== verification/Protocol.thy ===== *)
theory Protocol
  imports Version
begin

text \<open>
  The protocol layer: amounts and assets (\<^verbatim>\<open>protocol/asset.hpp\<close>), the data players vote on
  (\<^verbatim>\<open>playchain_types.hpp\<close>), the operations with their \<^verbatim>\<open>validate()\<close> methods
  (\<^verbatim>\<open>playchain/protocol/*.cpp\<close>), the virtual operations the chain pushes on its own
  (\<^verbatim>\<open>game_event_operations.hpp\<close> and the expire and allocate operations) and the parameters the
  games committee sets (\<^verbatim>\<open>playchain_parameters.hpp\<close>). Object ids are instance numbers.
\<close>

section \<open>Amounts and assets\<close>

text \<open>
  \<^verbatim>\<open>share_type\<close> is \<^verbatim>\<open>safe<int64_t>\<close>: a 64-bit integer whose arithmetic raises instead of
  wrapping around.
\<close>

definition share_ok :: "int \<Rightarrow> bool" where
  "share_ok x \<longleftrightarrow> - (2 ^ 63) \<le> x \<and> x < 2 ^ 63"

definition share :: "int \<Rightarrow> int res" where
  "share x = (if share_ok x then Inr x else Inl Overflow)"

record asset =
  amount :: int
  asset_id :: nat

abbreviation (input) CORE :: nat where
  "CORE \<equiv> 0"

definition core_asset :: "int \<Rightarrow> asset" where
  "core_asset n = \<lparr>amount = n, asset_id = CORE\<rparr>"

definition asset_plus :: "asset \<Rightarrow> asset \<Rightarrow> asset res" where
  "asset_plus a b =
     ebind (check (asset_id a = asset_id b) ''asset_id == o.asset_id'') (\<lambda>_.
     ebind (share (amount a + amount b)) (\<lambda>n. Inr \<lparr>amount = n, asset_id = asset_id a\<rparr>))"

definition asset_minus :: "asset \<Rightarrow> asset \<Rightarrow> asset res" where
  "asset_minus a b =
     ebind (check (asset_id a = asset_id b) ''asset_id == o.asset_id'') (\<lambda>_.
     ebind (share (amount a - amount b)) (\<lambda>n. Inr \<lparr>amount = n, asset_id = asset_id a\<rparr>))"

definition asset_neg :: "asset \<Rightarrow> asset res" where
  "asset_neg a = ebind (share (- amount a)) (\<lambda>n. Inr \<lparr>amount = n, asset_id = asset_id a\<rparr>)"

definition asset_less :: "asset \<Rightarrow> asset \<Rightarrow> bool res" where
  "asset_less a b =
     ebind (check (asset_id a = asset_id b) ''a.asset_id == b.asset_id'') (\<lambda>_.
       Inr (amount a < amount b))"

definition asset_le :: "asset \<Rightarrow> asset \<Rightarrow> bool res" where
  "asset_le a b = ebind (asset_less b a) (\<lambda>l. Inr (\<not> l))"

text \<open>\<^verbatim>\<open>std::min(a, b)\<close> on assets: \<open>b\<close> if \<open>b < a\<close>, else \<open>a\<close>.\<close>

definition asset_min :: "asset \<Rightarrow> asset \<Rightarrow> asset res" where
  "asset_min a b = ebind (asset_less b a) (\<lambda>l. Inr (if l then b else a))"

lemma share_Inr [res_simps]: "share x = Inr y \<longleftrightarrow> share_ok x \<and> y = x"
  by (auto simp: share_def)

lemma core_asset_simps [simp]: "amount (core_asset n) = n" "asset_id (core_asset n) = CORE"
  by (simp_all add: core_asset_def)

lemma asset_eta [simp]: "asset_id a = i \<Longrightarrow> \<lparr>amount = amount a, asset_id = i\<rparr> = a"
  by (cases a) simp

lemma asset_plus_Inr [res_simps]:
  "asset_plus a b = Inr c \<longleftrightarrow>
     asset_id a = asset_id b \<and> share_ok (amount a + amount b) \<and>
     c = \<lparr>amount = amount a + amount b, asset_id = asset_id a\<rparr>"
  by (auto simp: asset_plus_def res_simps)

lemma asset_minus_Inr [res_simps]:
  "asset_minus a b = Inr c \<longleftrightarrow>
     asset_id a = asset_id b \<and> share_ok (amount a - amount b) \<and>
     c = \<lparr>amount = amount a - amount b, asset_id = asset_id a\<rparr>"
  by (auto simp: asset_minus_def res_simps)

lemma asset_neg_Inr [res_simps]:
  "asset_neg a = Inr c \<longleftrightarrow> share_ok (- amount a) \<and> c = \<lparr>amount = - amount a, asset_id = asset_id a\<rparr>"
  by (auto simp: asset_neg_def res_simps)

lemma asset_less_Inr [res_simps]:
  "asset_less a b = Inr l \<longleftrightarrow> asset_id a = asset_id b \<and> l = (amount a < amount b)"
  by (auto simp: asset_less_def res_simps)

lemma asset_le_Inr [res_simps]:
  "asset_le a b = Inr l \<longleftrightarrow> asset_id a = asset_id b \<and> l = (amount a \<le> amount b)"
  by (auto simp: asset_le_def res_simps)

lemma asset_min_Inr [res_simps]:
  "asset_min a b = Inr c \<longleftrightarrow> asset_id a = asset_id b \<and> c = (if amount b < amount a then b else a)"
  by (auto simp: asset_min_def res_simps)

text \<open>The funds of asset \<open>x\<close> in an amount.\<close>

definition funds :: "nat \<Rightarrow> asset \<Rightarrow> int" where
  "funds x a = (if asset_id a = x then amount a else 0)"

lemma funds_simps [simp]:
  "funds x \<lparr>amount = n, asset_id = x\<rparr> = n"
  "x \<noteq> y \<Longrightarrow> funds x \<lparr>amount = n, asset_id = y\<rparr> = 0"
  by (simp_all add: funds_def)

lemma funds_plus: "asset_plus a b = Inr c \<Longrightarrow> funds x c = funds x a + funds x b"
  by (auto simp: funds_def res_simps)

lemma funds_minus: "asset_minus a b = Inr c \<Longrightarrow> funds x c = funds x a - funds x b"
  by (auto simp: funds_def res_simps)

lemma funds_neg: "asset_neg a = Inr c \<Longrightarrow> funds x c = - funds x a"
  by (auto simp: funds_def res_simps)

section \<open>Ids and times\<close>

type_synonym account_id = nat
type_synonym player_id = nat
type_synonym room_id = nat
type_synonym table_id = nat
type_synonym witness_id = nat
type_synonym pending_buy_in_id = nat
type_synonym time = nat  \<comment> \<open>seconds since the epoch\<close>

abbreviation (input) PLAYCHAIN_NULL_PLAYER :: player_id where "PLAYCHAIN_NULL_PLAYER \<equiv> 0"
abbreviation (input) PLAYCHAIN_NULL_GAME_WITNESS :: witness_id where "PLAYCHAIN_NULL_GAME_WITNESS \<equiv> 0"
abbreviation (input) PLAYCHAIN_NULL_ROOM :: room_id where "PLAYCHAIN_NULL_ROOM \<equiv> 0"
abbreviation (input) PLAYCHAIN_NULL_TABLE :: table_id where "PLAYCHAIN_NULL_TABLE \<equiv> 0"
abbreviation (input) PLAYCHAIN_NULL_PENDING_BUYIN :: pending_buy_in_id where
  "PLAYCHAIN_NULL_PENDING_BUYIN \<equiv> 0"

definition time_max :: time where "time_max = 4294967295"
definition time_min :: time where "time_min = 0"

text \<open>The activation times of the hard forks on the main network (\<^verbatim>\<open>hardfork.d\<close>).\<close>

definition HARDFORK_PLAYCHAIN_1_TIME :: time where "HARDFORK_PLAYCHAIN_1_TIME = 1556096400"
definition HARDFORK_PLAYCHAIN_2_TIME :: time where "HARDFORK_PLAYCHAIN_2_TIME = 1561964400"
definition HARDFORK_PLAYCHAIN_3_TIME :: time where "HARDFORK_PLAYCHAIN_3_TIME = 1561971600"
definition HARDFORK_PLAYCHAIN_4_TIME :: time where "HARDFORK_PLAYCHAIN_4_TIME = 1561971600"
definition HARDFORK_PLAYCHAIN_5_TIME :: time where "HARDFORK_PLAYCHAIN_5_TIME = 1561982400"
definition HARDFORK_PLAYCHAIN_6_TIME :: time where "HARDFORK_PLAYCHAIN_6_TIME = 1568624400"
definition HARDFORK_PLAYCHAIN_7_TIME :: time where "HARDFORK_PLAYCHAIN_7_TIME = 1568624460"
definition HARDFORK_PLAYCHAIN_8_TIME :: time where "HARDFORK_PLAYCHAIN_8_TIME = 1568624520"
definition HARDFORK_PLAYCHAIN_9_TIME :: time where "HARDFORK_PLAYCHAIN_9_TIME = 1568624580"
definition HARDFORK_PLAYCHAIN_10_TIME :: time where "HARDFORK_PLAYCHAIN_10_TIME = 1568625600"
definition HARDFORK_PLAYCHAIN_11_TIME :: time where "HARDFORK_PLAYCHAIN_11_TIME = 1568883600"

lemmas hardfork_times =
  HARDFORK_PLAYCHAIN_1_TIME_def HARDFORK_PLAYCHAIN_2_TIME_def HARDFORK_PLAYCHAIN_3_TIME_def
  HARDFORK_PLAYCHAIN_4_TIME_def HARDFORK_PLAYCHAIN_5_TIME_def HARDFORK_PLAYCHAIN_6_TIME_def
  HARDFORK_PLAYCHAIN_7_TIME_def HARDFORK_PLAYCHAIN_8_TIME_def HARDFORK_PLAYCHAIN_9_TIME_def
  HARDFORK_PLAYCHAIN_10_TIME_def HARDFORK_PLAYCHAIN_11_TIME_def

abbreviation GRAPHENE_100_PERCENT :: nat where "GRAPHENE_100_PERCENT \<equiv> 10000"

section \<open>Game data\<close>

record game_initial_data =
  gi_cash :: "(account_id, asset) flat_map"
  gi_info :: string

record gamer_cash_result =
  gr_cash :: asset
  gr_rake :: asset

record game_result =
  res_cash :: "(account_id, gamer_cash_result) flat_map"
  res_log :: string

datatype voting_data = Initial game_initial_data | Result game_result

type_synonym account_votes = "(account_id, voting_data) flat_map"

section \<open>Code outside of the sources\<close>

text \<open>
  What the chain takes from other libraries is an argument of the definitions. \<^verbatim>\<open>fc::ripemd160\<close> of a serialized
  vote, with the digest of all zeros; \<^verbatim>\<open>fc::sha256\<close> of the serialized id of the chain, name of the inviter and id of
  an invitation; the key that \<^verbatim>\<open>fc::ecc::public_key\<close> recovers from a signature and a digest, the empty text being
  the empty key; and what \<^verbatim>\<open>boost::merge\<close> leaves in a map that it merges into itself while it reads it, which is
  not defined. Nothing is assumed of them.
\<close>

record 'h externals =
  game_digest :: "voting_data \<Rightarrow> 'h"
  no_digest :: 'h
  self_merge :: "account_votes \<Rightarrow> account_votes \<Rightarrow> account_votes"
  chain_id :: string
  invitation_digest :: "string \<Rightarrow> string \<Rightarrow> string \<Rightarrow> string"
  public_key :: "string \<Rightarrow> string \<Rightarrow> string res"

section \<open>Parameters of the games committee\<close>

record playchain_parameters =
  player_referrer_percent_of_fee :: nat
  player_referrer_parent_percent_of_fee :: nat
  player_referrer_balance_min_threshold :: int
  player_referrer_balance_max_threshold :: int
  game_witness_percent_of_fee :: nat
  take_into_account_graphene_balances :: bool
  voting_for_playing_expiration_seconds :: nat
  voting_for_results_expiration_seconds :: nat
  voting_for_playing_requied_percent :: nat
  voting_for_results_requied_percent :: nat
  game_lifetime_limit_in_seconds :: nat
  pending_buyin_proposal_lifetime_limit_in_seconds :: nat
  amount_reserving_places_per_user :: nat
  pending_buy_in_allocate_per_block :: nat
  rooms_rating_recalculations_per_maintenance :: nat
  tables_weight_recalculations_per_maintenance :: nat
  min_allowed_table_weight_to_be_allocated :: int
  minimum_desired_number_of_players_for_tables_allocation :: nat
  maximum_desired_number_of_players_for_tables_allocation :: nat
  buy_in_expiration_seconds :: nat
  percentage_of_voter_witness_substitution_while_voting_for_playing :: nat
  percentage_of_voter_witness_substitution_while_voting_for_results :: nat
  min_votes_for_results :: nat
  table_alive_expiration_seconds :: nat
  room_rating_measurements_alive_periods :: nat
  min_votes_for_playing :: nat

text \<open>The production defaults (\<^verbatim>\<open>config::config()\<close> and \<^verbatim>\<open>playchain_config.hpp\<close>).\<close>

definition default_parameters :: playchain_parameters where
  "default_parameters =
     \<lparr>player_referrer_percent_of_fee = 7500,
      player_referrer_parent_percent_of_fee = 667,
      player_referrer_balance_min_threshold = 10 * 100000,
      player_referrer_balance_max_threshold = 100 * 100000,
      game_witness_percent_of_fee = 1000,
      take_into_account_graphene_balances = False,
      voting_for_playing_expiration_seconds = 9,
      voting_for_results_expiration_seconds = 9,
      voting_for_playing_requied_percent = 6000,
      voting_for_results_requied_percent = 6000,
      game_lifetime_limit_in_seconds = 86400,
      pending_buyin_proposal_lifetime_limit_in_seconds = 15,
      amount_reserving_places_per_user = 1,
      pending_buy_in_allocate_per_block = 300,
      rooms_rating_recalculations_per_maintenance = 1000,
      tables_weight_recalculations_per_maintenance = 1000,
      min_allowed_table_weight_to_be_allocated = 0,
      minimum_desired_number_of_players_for_tables_allocation = 1,
      maximum_desired_number_of_players_for_tables_allocation = 5,
      buy_in_expiration_seconds = 180,
      percentage_of_voter_witness_substitution_while_voting_for_playing = 0,
      percentage_of_voter_witness_substitution_while_voting_for_results = 5000,
      min_votes_for_results = 1,
      table_alive_expiration_seconds = 600,
      room_rating_measurements_alive_periods = 10,
      min_votes_for_playing = 2\<rparr>"

definition parameters_validate :: "playchain_parameters \<Rightarrow> unit res" where
  "parameters_validate p =
     ebind (check (player_referrer_percent_of_fee p \<le> GRAPHENE_100_PERCENT)
              ''player_referrer_percent_of_fee'') (\<lambda>_.
     ebind (check (player_referrer_parent_percent_of_fee p \<le> GRAPHENE_100_PERCENT)
              ''player_referrer_parent_percent_of_fee'') (\<lambda>_.
     ebind (check (game_witness_percent_of_fee p \<le> GRAPHENE_100_PERCENT)
              ''game_witness_percent_of_fee'') (\<lambda>_.
     ebind (check (voting_for_playing_requied_percent p \<le> GRAPHENE_100_PERCENT)
              ''voting_for_playing_requied_percent'') (\<lambda>_.
     ebind (check (voting_for_results_requied_percent p \<le> GRAPHENE_100_PERCENT)
              ''voting_for_results_requied_percent'') (\<lambda>_.
     ebind (check (percentage_of_voter_witness_substitution_while_voting_for_playing p \<le> GRAPHENE_100_PERCENT)
              ''percentage_of_voter_witness_substitution_while_voting_for_playing'') (\<lambda>_.
     ebind (check (percentage_of_voter_witness_substitution_while_voting_for_results p \<le> GRAPHENE_100_PERCENT)
              ''percentage_of_voter_witness_substitution_while_voting_for_results'') (\<lambda>_.
       check (minimum_desired_number_of_players_for_tables_allocation p
                < maximum_desired_number_of_players_for_tables_allocation p)
         ''minimum_desired_number_of_players_for_tables_allocation'')))))))"

section \<open>Operations and their stateless validation\<close>

definition is_special_account :: "account_id \<Rightarrow> bool" where
  "is_special_account a \<longleftrightarrow> a = 0 \<or> a = 1 \<or> a = 2 \<or> a = 3 \<or> a = 4 \<or> a = 5"

record buy_in_table_operation =
  bit_fee :: asset
  bit_player :: account_id
  bit_table :: table_id
  bit_table_owner :: account_id
  bit_amount :: asset

definition buy_in_table_validate :: "buy_in_table_operation \<Rightarrow> unit res" where
  "buy_in_table_validate op =
     ebind (check (0 \<le> amount (bit_fee op)) ''fee.amount >= 0'') (\<lambda>_.
     ebind (check (0 < amount (bit_amount op)) ''amount.amount > 0'') (\<lambda>_.
     ebind (check (\<not> is_special_account (bit_player op)) ''special player'') (\<lambda>_.
     ebind (check (\<not> is_special_account (bit_table_owner op)) ''special table_owner'') (\<lambda>_.
     ebind (check (bit_table op \<noteq> PLAYCHAIN_NULL_TABLE) ''table != PLAYCHAIN_NULL_TABLE'') (\<lambda>_.
       check (bit_player op \<noteq> bit_table_owner op) ''Table owner can't play at the own table'')))))"

record buy_out_table_operation =
  bot_fee :: asset
  bot_player :: account_id
  bot_table :: table_id
  bot_table_owner :: account_id
  bot_amount :: asset
  bot_reason :: string

definition buy_out_table_validate :: "buy_out_table_operation \<Rightarrow> unit res" where
  "buy_out_table_validate op =
     ebind (check (0 \<le> amount (bot_fee op)) ''fee.amount >= 0'') (\<lambda>_.
     ebind (check (0 < amount (bot_amount op)) ''amount.amount > 0'') (\<lambda>_.
     ebind (check (length (bot_reason op) \<le> 255) ''reason.size()'') (\<lambda>_.
     ebind (check (\<not> is_special_account (bot_player op)) ''special player'') (\<lambda>_.
     ebind (check (\<not> is_special_account (bot_table_owner op)) ''special table_owner'') (\<lambda>_.
     ebind (check (bot_table op \<noteq> PLAYCHAIN_NULL_TABLE) ''table != PLAYCHAIN_NULL_TABLE'') (\<lambda>_.
       check (bot_player op \<noteq> bot_table_owner op) ''Table owner can't play at the own table''))))))"

record buy_in_reserve_operation =
  bir_fee :: asset
  bir_player :: account_id
  bir_uid :: string
  bir_amount :: asset
  bir_metadata :: string
  bir_protocol_version :: string

definition buy_in_reserve_validate :: "buy_in_reserve_operation \<Rightarrow> unit res" where
  "buy_in_reserve_validate op =
     ebind (check (0 \<le> amount (bir_fee op)) ''fee.amount >= 0'') (\<lambda>_.
     ebind (check (\<not> is_special_account (bir_player op)) ''special player'') (\<lambda>_.
     ebind (check (bir_uid op \<noteq> []) ''!uid.empty()'') (\<lambda>_.
     ebind (check (0 < amount (bir_amount op)) ''amount.amount > 0'') (\<lambda>_.
     ebind (check (bir_metadata op \<noteq> []) ''!metadata.empty()'') (\<lambda>_.
       check (bir_protocol_version op \<noteq> []) ''!protocol_version.empty()'')))))"

record buy_in_reserving_cancel_operation =
  brc_fee :: asset
  brc_player :: account_id
  brc_uid :: string

definition buy_in_reserving_cancel_validate :: "buy_in_reserving_cancel_operation \<Rightarrow> unit res" where
  "buy_in_reserving_cancel_validate op =
     ebind (check (0 \<le> amount (brc_fee op)) ''fee.amount >= 0'') (\<lambda>_.
     ebind (check (\<not> is_special_account (brc_player op)) ''special player'') (\<lambda>_.
       check (brc_uid op \<noteq> []) ''!uid.empty()''))"

record buy_in_reserving_resolve_operation =
  brr_fee :: asset
  brr_table :: table_id
  brr_table_owner :: account_id
  brr_pending_buyin :: pending_buy_in_id

definition buy_in_reserving_resolve_validate :: "buy_in_reserving_resolve_operation \<Rightarrow> unit res" where
  "buy_in_reserving_resolve_validate op =
     ebind (check (brr_pending_buyin op \<noteq> PLAYCHAIN_NULL_PENDING_BUYIN) ''pending_buyin'') (\<lambda>_.
     ebind (check (0 \<le> amount (brr_fee op)) ''fee.amount >= 0'') (\<lambda>_.
     ebind (check (\<not> is_special_account (brr_table_owner op)) ''special table_owner'') (\<lambda>_.
       check (brr_table op \<noteq> PLAYCHAIN_NULL_TABLE) ''table != PLAYCHAIN_NULL_TABLE'')))"

record buy_in_reserving_cancel_all_operation =
  bra_fee :: asset
  bra_player :: account_id

definition buy_in_reserving_cancel_all_validate ::
    "buy_in_reserving_cancel_all_operation \<Rightarrow> unit res" where
  "buy_in_reserving_cancel_all_validate op =
     ebind (check (0 \<le> amount (bra_fee op)) ''fee.amount >= 0'') (\<lambda>_.
       check (\<not> is_special_account (bra_player op)) ''special player'')"

record game_start_playing_check_operation =
  gsp_fee :: asset
  gsp_table :: table_id
  gsp_table_owner :: account_id
  gsp_voter :: account_id
  gsp_initial_data :: game_initial_data

definition game_start_playing_check_validate :: "game_start_playing_check_operation \<Rightarrow> unit res" where
  "game_start_playing_check_validate op =
     ebind (check (\<not> is_special_account (gsp_table_owner op)) ''special table_owner'') (\<lambda>_.
     ebind (check (\<not> is_special_account (gsp_voter op)) ''special voter'') (\<lambda>_.
     ebind (check (gsp_table op \<noteq> PLAYCHAIN_NULL_TABLE) ''table != PLAYCHAIN_NULL_TABLE'') (\<lambda>_.
       check (fm_is_empty (gi_cash (gsp_initial_data op)) \<or> 2 \<le> fm_size (gi_cash (gsp_initial_data op)))
         ''initial_data.cash.empty() || initial_data.cash.size() >= 2u'')))"

record game_result_check_operation =
  grc_fee :: asset
  grc_table :: table_id
  grc_table_owner :: account_id
  grc_voter :: account_id
  grc_result :: game_result

definition game_result_check_validate :: "game_result_check_operation \<Rightarrow> unit res" where
  "game_result_check_validate op =
     ebind (check (\<not> is_special_account (grc_table_owner op)) ''special table_owner'') (\<lambda>_.
     ebind (check (\<not> is_special_account (grc_voter op)) ''special voter'') (\<lambda>_.
       check (grc_table op \<noteq> PLAYCHAIN_NULL_TABLE) ''table != PLAYCHAIN_NULL_TABLE''))"

record game_reset_operation =
  grs_fee :: asset
  grs_table :: table_id
  grs_table_owner :: account_id
  grs_rollback_table :: bool

definition game_reset_validate :: "game_reset_operation \<Rightarrow> unit res" where
  "game_reset_validate op =
     ebind (check (\<not> is_special_account (grs_table_owner op)) ''special table_owner'') (\<lambda>_.
       check (grs_table op \<noteq> PLAYCHAIN_NULL_TABLE) ''table != PLAYCHAIN_NULL_TABLE'')"

record room_create_operation =
  rc_owner :: account_id
  rc_server_url :: string
  rc_metadata :: string
  rc_protocol_version :: string

definition room_create_validate :: "room_create_operation \<Rightarrow> unit res" where
  "room_create_validate op =
     ebind (check (\<not> is_special_account (rc_owner op)) ''special owner'') (\<lambda>_.
     ebind (check (rc_server_url op \<noteq> []) ''!server_url.empty()'') (\<lambda>_.
       check (rc_protocol_version op \<noteq> []) ''!protocol_version.empty()''))"

record room_update_operation =
  ru_room :: room_id
  ru_owner :: account_id
  ru_server_url :: string
  ru_metadata :: string
  ru_protocol_version :: string

definition room_update_validate :: "room_update_operation \<Rightarrow> unit res" where
  "room_update_validate op =
     ebind (check (\<not> is_special_account (ru_owner op)) ''special owner'') (\<lambda>_.
     ebind (check (ru_room op \<noteq> PLAYCHAIN_NULL_ROOM) ''room != PLAYCHAIN_NULL_ROOM'') (\<lambda>_.
     ebind (check (ru_server_url op \<noteq> []) ''!server_url.empty()'') (\<lambda>_.
       check (ru_protocol_version op \<noteq> []) ''!protocol_version.empty()'')))"

record table_create_operation =
  tc_owner :: account_id
  tc_room :: room_id
  tc_metadata :: string
  tc_required_witnesses :: nat
  tc_min_accepted_proposal_asset :: asset

definition table_create_validate :: "table_create_operation \<Rightarrow> unit res" where
  "table_create_validate op =
     ebind (check (\<not> is_special_account (tc_owner op)) ''special owner'') (\<lambda>_.
     ebind (check (tc_room op \<noteq> PLAYCHAIN_NULL_ROOM) ''room != PLAYCHAIN_NULL_ROOM'') (\<lambda>_.
       check (0 < amount (tc_min_accepted_proposal_asset op)) ''min_accepted_proposal_asset.amount > 0''))"

record table_update_operation =
  tu_table :: table_id
  tu_owner :: account_id
  tu_metadata :: string
  tu_required_witnesses :: nat
  tu_min_accepted_proposal_asset :: asset

definition table_update_validate :: "table_update_operation \<Rightarrow> unit res" where
  "table_update_validate op =
     ebind (check (\<not> is_special_account (tu_owner op)) ''special owner'') (\<lambda>_.
     ebind (check (tu_table op \<noteq> PLAYCHAIN_NULL_TABLE) ''table != PLAYCHAIN_NULL_TABLE'') (\<lambda>_.
       check (0 < amount (tu_min_accepted_proposal_asset op)) ''min_accepted_proposal_asset.amount > 0''))"

record tables_alive_operation =
  ta_owner :: account_id
  ta_tables :: "table_id flat_set"

definition tables_alive_validate :: "tables_alive_operation \<Rightarrow> unit res" where
  "tables_alive_validate op =
     ebind (check (\<not> is_special_account (ta_owner op)) ''special owner'') (\<lambda>_.
     ebind (check (\<not> fm_is_empty (ta_tables op)) ''!tables.empty()'') (\<lambda>_.
     ebind (check (fm_size (ta_tables op) \<le> 100) ''tables.size()'') (\<lambda>_.
       efold (\<lambda>t _. check (t \<noteq> PLAYCHAIN_NULL_TABLE) ''table != PLAYCHAIN_NULL_TABLE'')
         (fs_items (ta_tables op)) ())))"

record player_create_by_room_owner_operation =
  pc_account :: account_id
  pc_room_owner :: account_id

definition player_create_by_room_owner_validate ::
    "player_create_by_room_owner_operation \<Rightarrow> unit res" where
  "player_create_by_room_owner_validate op =
     ebind (check (\<not> is_special_account (pc_account op)) ''special account'') (\<lambda>_.
       check (\<not> is_special_account (pc_room_owner op)) ''special room_owner'')"

section \<open>Virtual operations\<close>

datatype game_event =
    Game_start_playing_validated game_initial_data
  | Game_result_validated game_result
  | Game_rollback
  | Fail_consensus_game_start_playing
  | Fail_consensus_game_result
  | Fail_expire_game_start_playing
  | Fail_expire_game_result
  | Fail_expire_game_lifetime
  | Fraud_game_start_playing_check account_id string string
  | Fraud_game_result_check account_id string string
  | Buy_out_allowed account_id asset
  | Buy_in_return account_id asset
  | Game_cash_return account_id asset
  | Fraud_buy_out account_id asset asset
  | Fail_vote account_id voting_data

datatype deposit_type = Deposit_inviter | Deposit_room | Deposit_witness

datatype virtual_op =
    Game_event table_id account_id game_event
  | Game_witness_create account_id
  | Buy_in_reserving_allocated_table account_id string asset string table_id account_id "32 word" "32 word"
  | Buy_in_reserving_expire account_id string asset string bool "(table_id \<times> account_id) option"
  | Buy_in_expire account_id table_id account_id asset
  | Player_invitation_expire account_id string
  | Player_create account_id account_id
  | Playchain_deposit_cashback deposit_type account_id account_id asset string

end
