(* ===== verification/Table_Object.thy ===== *)
theory Table_Object
  imports Protocol
begin

text \<open>
  The game table (\<^verbatim>\<open>schema/table_object.hpp\<close>, \<^verbatim>\<open>schema/table_object.cpp\<close>): the cash players
  brought to the table, the cash that is in the running game, the reservations, and the number of
  occupied places, a 32-bit counter that every method keeps incrementally. The main results: the
  counter always equals the number of players who have cash, playing cash or a reservation at the
  table (so its decrements never wrap around), stored amounts are positive core-asset amounts, and
  each method changes the funds at the table by exactly its argument.
\<close>

record table_object =
  tb_room :: room_id
  tb_metadata :: string
  tb_required_witnesses :: nat
  tb_min_accepted_proposal_asset :: asset
  pending_proposals :: "(player_id, pending_buy_in_id) flat_map"
  cash :: "(player_id, asset) flat_map"
  playing_cash :: "(player_id, asset) flat_map"
  game_created :: time
  game_expiration :: time
  tb_voted_witnesses :: "witness_id flat_set"
  weight :: "32 word"
  occupied_places :: "32 word"

definition is_free :: "table_object \<Rightarrow> bool" where
  "is_free t \<longleftrightarrow> fm_is_empty (playing_cash t)"

definition is_playing :: "table_object \<Rightarrow> bool" where
  "is_playing t \<longleftrightarrow> \<not> is_free t"

definition is_playing_player :: "table_object \<Rightarrow> player_id \<Rightarrow> bool" where
  "is_playing_player t p \<longleftrightarrow> fm_count (playing_cash t) p"

definition is_waiting_at_table :: "table_object \<Rightarrow> player_id \<Rightarrow> bool" where
  "is_waiting_at_table t p \<longleftrightarrow> fm_count (cash t) p"

definition adjust_cash :: "player_id \<Rightarrow> asset \<Rightarrow> table_object \<Rightarrow> table_object res" where
  "adjust_cash p delta t =
     (case fm_find (cash t) p of
        None \<Rightarrow>
          if 0 < amount delta then
            ebind (asset_plus (core_asset 0) delta) (\<lambda>a.
              let t1 = t\<lparr>cash := fm_put p a (cash t)\<rparr>
              in Inr (if \<not> fm_count (playing_cash t1) p \<and> \<not> fm_count (pending_proposals t1) p
                      then t1\<lparr>occupied_places := occupied_places t1 + 1\<rparr> else t1))
          else Inr t
      | Some a \<Rightarrow>
          ebind (asset_plus a delta) (\<lambda>a'.
            if amount a' < 1 then
              let t1 = t\<lparr>cash := fm_erase p (cash t)\<rparr>
              in Inr (if \<not> fm_count (playing_cash t1) p \<and> \<not> fm_count (pending_proposals t1) p
                      then t1\<lparr>occupied_places := occupied_places t1 - 1\<rparr> else t1)
            else Inr (t\<lparr>cash := fm_put p a' (cash t)\<rparr>)))"

definition adjust_playing_cash :: "player_id \<Rightarrow> asset \<Rightarrow> table_object \<Rightarrow> table_object res" where
  "adjust_playing_cash p delta t =
     (case fm_find (playing_cash t) p of
        None \<Rightarrow>
          if 0 < amount delta then
            ebind (asset_plus (core_asset 0) delta) (\<lambda>a.
              let t1 = t\<lparr>playing_cash := fm_put p a (playing_cash t)\<rparr>
              in Inr (if \<not> fm_count (cash t1) p \<and> \<not> fm_count (pending_proposals t1) p
                      then t1\<lparr>occupied_places := occupied_places t1 + 1\<rparr> else t1))
          else Inr t
      | Some a \<Rightarrow>
          ebind (asset_plus a delta) (\<lambda>a'.
            if amount a' < 1 then
              let t1 = t\<lparr>playing_cash := fm_erase p (playing_cash t)\<rparr>
              in Inr (if \<not> fm_count (cash t1) p \<and> \<not> fm_count (pending_proposals t1) p
                      then t1\<lparr>occupied_places := occupied_places t1 - 1\<rparr> else t1)
            else Inr (t\<lparr>playing_cash := fm_put p a' (playing_cash t)\<rparr>)))"

definition clear_cash :: "table_object \<Rightarrow> table_object" where
  "clear_cash t =
     (let n = fold (\<lambda>(p, a) n. if \<not> fm_count (playing_cash t) p \<and> \<not> fm_count (pending_proposals t) p
                               then n - 1 else n)
                (fm_items (cash t)) (occupied_places t)
      in t\<lparr>occupied_places := n, cash := fm_empty\<rparr>)"

definition clear_playing_cash :: "table_object \<Rightarrow> table_object" where
  "clear_playing_cash t =
     (let n = fold (\<lambda>(p, a) n. if \<not> fm_count (cash t) p \<and> \<not> fm_count (pending_proposals t) p
                               then n - 1 else n)
                (fm_items (playing_cash t)) (occupied_places t)
      in t\<lparr>occupied_places := n, playing_cash := fm_empty\<rparr>)"

definition add_pending_proposal ::
    "player_id \<Rightarrow> pending_buy_in_id \<Rightarrow> table_object \<Rightarrow> pending_buy_in_id \<times> table_object" where
  "add_pending_proposal p pending t =
     (case fm_find (pending_proposals t) p of
        None \<Rightarrow>
          let t1 = (if \<not> fm_count (cash t) p \<and> \<not> fm_count (playing_cash t) p
                    then t\<lparr>occupied_places := occupied_places t + 1\<rparr> else t)
          in (PLAYCHAIN_NULL_PENDING_BUYIN,
              t1\<lparr>pending_proposals := fm_put p pending (pending_proposals t1)\<rparr>)
      | Some prev \<Rightarrow>
          (if prev \<noteq> pending then prev else PLAYCHAIN_NULL_PENDING_BUYIN,
           t\<lparr>pending_proposals := fm_put p pending (fm_erase p (pending_proposals t))\<rparr>))"

definition remove_pending_proposal :: "player_id \<Rightarrow> table_object \<Rightarrow> table_object" where
  "remove_pending_proposal p t =
     (case fm_find (pending_proposals t) p of
        None \<Rightarrow> t
      | Some _ \<Rightarrow>
          let t1 = t\<lparr>pending_proposals := fm_erase p (pending_proposals t)\<rparr>
          in if \<not> fm_count (cash t1) p \<and> \<not> fm_count (playing_cash t1) p
             then t1\<lparr>occupied_places := occupied_places t1 - 1\<rparr> else t1)"

definition get_cash_balance :: "table_object \<Rightarrow> player_id \<Rightarrow> asset" where
  "get_cash_balance t p = (case fm_find (cash t) p of None \<Rightarrow> core_asset 0 | Some a \<Rightarrow> a)"

definition get_playing_cash_balance :: "table_object \<Rightarrow> player_id \<Rightarrow> asset" where
  "get_playing_cash_balance t p =
     (case fm_find (playing_cash t) p of None \<Rightarrow> core_asset 0 | Some a \<Rightarrow> a)"

section \<open>The invariant of a table\<close>

definition seated :: "table_object \<Rightarrow> player_id set" where
  "seated t = fm_keys (cash t) \<union> fm_keys (playing_cash t) \<union> fm_keys (pending_proposals t)"

definition seats_ok :: "table_object \<Rightarrow> bool" where
  "seats_ok t \<longleftrightarrow> occupied_places t = of_nat (card (seated t))"

definition cash_ok :: "('k::linorder, asset) flat_map \<Rightarrow> bool" where
  "cash_ok m \<longleftrightarrow> list_all (\<lambda>(p, a). 0 < amount a \<and> asset_id a = CORE) (fm_items m)"

definition table_ok :: "table_object \<Rightarrow> bool" where
  "table_ok t \<longleftrightarrow> seats_ok t \<and> cash_ok (cash t) \<and> cash_ok (playing_cash t)"

definition table_funds :: "nat \<Rightarrow> table_object \<Rightarrow> int" where
  "table_funds x t = fm_sum (funds x) (cash t) + fm_sum (funds x) (playing_cash t)"

lemma finite_seated [simp]: "finite (seated t)"
  by (simp add: seated_def)

lemma cash_ok_iff: "cash_ok m \<longleftrightarrow> (\<forall>p a. fm_find m p = Some a \<longrightarrow> 0 < amount a \<and> asset_id a = CORE)"
  by (auto simp: cash_ok_def list_all_iff fm_find_items)

lemma cash_ok_empty [simp]: "cash_ok fm_empty"
  by (simp add: cash_ok_iff)

lemma cash_ok_put: "cash_ok m \<Longrightarrow> 0 < amount a \<Longrightarrow> asset_id a = CORE \<Longrightarrow> cash_ok (fm_put p a m)"
  by (auto simp: cash_ok_iff)

lemma cash_ok_erase: "cash_ok m \<Longrightarrow> cash_ok (fm_erase p m)"
  by (auto simp: cash_ok_iff)

lemma cash_okD: "cash_ok m \<Longrightarrow> fm_find m p = Some a \<Longrightarrow> 0 < amount a \<and> asset_id a = CORE"
  by (simp add: cash_ok_iff)

text \<open>
  A counter of a finite set, kept modulo \<open>2\<^sup>3\<^sup>2\<close>, follows insertion and removal of one element.
\<close>

lemma card_insert_word:
  "finite A \<Longrightarrow> (of_nat (card (insert x A)) :: 32 word) = of_nat (card A) + (if x \<in> A then 0 else 1)"
  by (simp add: insert_absorb)

lemma card_remove_word:
  assumes "finite A" and "x \<in> A"
  shows "(of_nat (card A - Suc 0) :: 32 word) = of_nat (card A) - 1"
proof -
  have "card A = Suc (card A - Suc 0)"
    using assms by (metis card_gt_0_iff Suc_pred' One_nat_def empty_iff)
  then have "(of_nat (card A) :: 32 word) = of_nat (card A - Suc 0) + 1"
    by (metis of_nat_Suc add.commute)
  then show ?thesis by (simp only: add_diff_cancel)
qed

section \<open>Adjusting the cash\<close>

text \<open>The four cases of \<open>adjust_cash\<close>, as the source distinguishes them.\<close>

lemma adjust_cash_cases:
  assumes "adjust_cash p delta t = Inr t'"
  obtains (new) "fm_find (cash t) p = None" "0 < amount delta" "asset_id delta = CORE"
      "t' = t\<lparr>cash := fm_put p delta (cash t),
              occupied_places := occupied_places t +
                (if p \<in> fm_keys (playing_cash t) \<union> fm_keys (pending_proposals t) then 0 else 1)\<rparr>"
    | (noop) "fm_find (cash t) p = None" "amount delta \<le> 0" "t' = t"
    | (erase) a where "fm_find (cash t) p = Some a" "asset_id delta = asset_id a"
      "amount a + amount delta < 1"
      "t' = t\<lparr>cash := fm_erase p (cash t),
              occupied_places := occupied_places t -
                (if p \<in> fm_keys (playing_cash t) \<union> fm_keys (pending_proposals t) then 0 else 1)\<rparr>"
    | (change) a where "fm_find (cash t) p = Some a" "asset_id delta = asset_id a"
      "1 \<le> amount a + amount delta"
      "t' = t\<lparr>cash := fm_put p \<lparr>amount = amount a + amount delta, asset_id = asset_id a\<rparr> (cash t)\<rparr>"
  using assms
  by (auto simp: adjust_cash_def res_simps Let_def not_less split: option.splits if_splits)

lemma adjust_playing_cash_cases:
  assumes "adjust_playing_cash p delta t = Inr t'"
  obtains (new) "fm_find (playing_cash t) p = None" "0 < amount delta" "asset_id delta = CORE"
      "t' = t\<lparr>playing_cash := fm_put p delta (playing_cash t),
              occupied_places := occupied_places t +
                (if p \<in> fm_keys (cash t) \<union> fm_keys (pending_proposals t) then 0 else 1)\<rparr>"
    | (noop) "fm_find (playing_cash t) p = None" "amount delta \<le> 0" "t' = t"
    | (erase) a where "fm_find (playing_cash t) p = Some a" "asset_id delta = asset_id a"
      "amount a + amount delta < 1"
      "t' = t\<lparr>playing_cash := fm_erase p (playing_cash t),
              occupied_places := occupied_places t -
                (if p \<in> fm_keys (cash t) \<union> fm_keys (pending_proposals t) then 0 else 1)\<rparr>"
    | (change) a where "fm_find (playing_cash t) p = Some a" "asset_id delta = asset_id a"
      "1 \<le> amount a + amount delta"
      "t' = t\<lparr>playing_cash := fm_put p \<lparr>amount = amount a + amount delta, asset_id = asset_id a\<rparr> (playing_cash t)\<rparr>"
  using assms
  by (auto simp: adjust_playing_cash_def res_simps Let_def not_less split: option.splits if_splits)


lemma adjust_cash_frame:
  assumes "adjust_cash p delta t = Inr t'"
  shows "playing_cash t' = playing_cash t" "pending_proposals t' = pending_proposals t"
    "tb_room t' = tb_room t" "tb_voted_witnesses t' = tb_voted_witnesses t"
    "game_expiration t' = game_expiration t" "tb_metadata t' = tb_metadata t"
    "fm_find (cash t') q = (if q = p then fm_find (cash t') p else fm_find (cash t) q)"
  using assms by (auto elim!: adjust_cash_cases)

lemma adjust_playing_cash_frame:
  assumes "adjust_playing_cash p delta t = Inr t'"
  shows "cash t' = cash t" "pending_proposals t' = pending_proposals t"
    "tb_room t' = tb_room t" "tb_voted_witnesses t' = tb_voted_witnesses t"
    "game_expiration t' = game_expiration t" "tb_metadata t' = tb_metadata t"
    "fm_find (playing_cash t') q = (if q = p then fm_find (playing_cash t') p else fm_find (playing_cash t) q)"
  using assms by (auto elim!: adjust_playing_cash_cases)

text \<open>What the table owes a player after an adjustment: the sum, if it is positive.\<close>

lemma adjust_cash_amount:
  assumes "adjust_cash p delta t = Inr t'" and "cash_ok (cash t)"
  shows "amount (get_cash_balance t' p) = max 0 (amount (get_cash_balance t p) + amount delta)"
  using assms by (auto elim!: adjust_cash_cases simp: get_cash_balance_def)

lemma adjust_cash_seats:
  assumes "adjust_cash p delta t = Inr t'" and "seats_ok t"
  shows "seats_ok t'"
  using assms(1)
proof (cases rule: adjust_cash_cases)
  case new
  have "seated t' = insert p (seated t)" using new by (auto simp: seated_def)
  moreover have "p \<in> seated t \<longleftrightarrow> p \<in> fm_keys (playing_cash t) \<union> fm_keys (pending_proposals t)"
    using new by (auto simp: seated_def fm_find_None_iff)
  ultimately show ?thesis using new assms(2) by (simp add: seats_ok_def card_insert_word)
next
  case noop
  then show ?thesis using assms(2) by simp
next
  case (erase a)
  let ?R = "fm_keys (playing_cash t) \<union> fm_keys (pending_proposals t)"
  have p: "p \<in> seated t" using erase by (auto simp: seated_def fm_find_Some_keys)
  have "seated t' = (if p \<in> ?R then seated t else seated t - {p})"
    using erase p by (auto simp: seated_def)
  then show ?thesis using erase assms(2) p by (simp add: seats_ok_def card_remove_word [OF _ p])
next
  case (change a)
  then have "seated t' = seated t" by (auto simp: seated_def fm_find_Some_keys)
  then show ?thesis using change assms(2) by (simp add: seats_ok_def)
qed

lemma adjust_playing_cash_seats:
  assumes "adjust_playing_cash p delta t = Inr t'" and "seats_ok t"
  shows "seats_ok t'"
  using assms(1)
proof (cases rule: adjust_playing_cash_cases)
  case new
  have "seated t' = insert p (seated t)" using new by (auto simp: seated_def)
  moreover have "p \<in> seated t \<longleftrightarrow> p \<in> fm_keys (cash t) \<union> fm_keys (pending_proposals t)"
    using new by (auto simp: seated_def fm_find_None_iff)
  ultimately show ?thesis using new assms(2) by (simp add: seats_ok_def card_insert_word)
next
  case noop
  then show ?thesis using assms(2) by simp
next
  case (erase a)
  let ?R = "fm_keys (cash t) \<union> fm_keys (pending_proposals t)"
  have p: "p \<in> seated t" using erase by (auto simp: seated_def fm_find_Some_keys)
  have "seated t' = (if p \<in> ?R then seated t else seated t - {p})"
    using erase p by (auto simp: seated_def)
  then show ?thesis using erase assms(2) p by (simp add: seats_ok_def card_remove_word [OF _ p])
next
  case (change a)
  then have "seated t' = seated t" by (auto simp: seated_def fm_find_Some_keys)
  then show ?thesis using change assms(2) by (simp add: seats_ok_def)
qed

lemma adjust_cash_ok [wf_intros]:
  assumes "adjust_cash p delta t = Inr t'" and "table_ok t"
  shows "table_ok t'"
proof -
  have "cash_ok (cash t')"
    using assms(1) by (cases rule: adjust_cash_cases)
      (use assms(2) in \<open>auto simp: table_ok_def intro!: cash_ok_put cash_ok_erase dest: cash_okD\<close>)
  then show ?thesis
    using assms adjust_cash_seats adjust_cash_frame(1) by (simp add: table_ok_def)
qed

lemma adjust_playing_cash_ok [wf_intros]:
  assumes "adjust_playing_cash p delta t = Inr t'" and "table_ok t"
  shows "table_ok t'"
proof -
  have "cash_ok (playing_cash t')"
    using assms(1) by (cases rule: adjust_playing_cash_cases)
      (use assms(2) in \<open>auto simp: table_ok_def intro!: cash_ok_put cash_ok_erase dest: cash_okD\<close>)
  then show ?thesis
    using assms adjust_playing_cash_seats adjust_playing_cash_frame(1) by (simp add: table_ok_def)
qed

text \<open>
  The funds at the table change by the argument, unless the adjustment would make the stored amount
  negative: then the stored amount is dropped, and the funds change by less than asked for. The
  callers must exclude that case.
\<close>

lemma adjust_cash_funds:
  assumes "adjust_cash p delta t = Inr t'"
    and "0 \<le> amount (get_cash_balance t p) + amount delta"
  shows "table_funds x t' = table_funds x t + funds x delta"
  using assms(1)
proof (cases rule: adjust_cash_cases)
  case (erase a)
  then have "amount a + amount delta = 0"
    using assms(2) by (simp add: get_cash_balance_def)
  then show ?thesis using erase by (simp add: table_funds_def funds_def)
qed (use assms(2) in \<open>auto simp: table_funds_def funds_def get_cash_balance_def\<close>)

lemma adjust_playing_cash_funds:
  assumes "adjust_playing_cash p delta t = Inr t'"
    and "0 \<le> amount (get_playing_cash_balance t p) + amount delta"
  shows "table_funds x t' = table_funds x t + funds x delta"
  using assms(1)
proof (cases rule: adjust_playing_cash_cases)
  case (erase a)
  then have "amount a + amount delta = 0"
    using assms(2) by (simp add: get_playing_cash_balance_def)
  then show ?thesis using erase by (simp add: table_funds_def funds_def)
qed (use assms(2) in \<open>auto simp: table_funds_def funds_def get_playing_cash_balance_def\<close>)

section \<open>Clearing the cash\<close>

lemma fold_decrement:
  "fold (\<lambda>(p, a) n. if P p then n - 1 else n) xs (n :: 32 word) =
     n - of_nat (length (filter (\<lambda>(p, a). P p) xs))"
  by (induction xs arbitrary: n) auto

lemma length_filter_keys:
  "length (filter (\<lambda>(p, a). P p) (fm_items m)) = card {p \<in> fm_keys m. P p}"
proof -
  have "length (filter (\<lambda>(p, a). P p) (fm_items m)) = length (filter P (map fst (fm_items m)))"
    by (simp add: filter_map o_def case_prod_unfold)
  also have "\<dots> = card (set (filter P (map fst (fm_items m))))"
    by (rule distinct_card [symmetric]) (simp only: fm_items_distinct distinct_filter)
  also have "\<dots> = card {p \<in> fm_keys m. P p}"
    by (simp only: set_filter set_items_keys)
  finally show ?thesis .
qed

lemma card_diff_word:
  assumes "finite A" and "B \<subseteq> A"
  shows "(of_nat (card A) :: 32 word) - of_nat (card B) = of_nat (card (A - B))"
proof -
  have "card A = card (A - B) + card B"
    using assms by (metis card_Diff_subset card_mono diff_add finite_subset)
  then show ?thesis by simp
qed

lemma clear_cash_ok [wf_intros]: "table_ok t \<Longrightarrow> table_ok (clear_cash t)"
proof -
  assume t: "table_ok t"
  let ?B = "{p \<in> fm_keys (cash t). p \<notin> fm_keys (playing_cash t) \<and> p \<notin> fm_keys (pending_proposals t)}"
  have "seated (clear_cash t) = seated t - ?B"
    by (auto simp: seated_def clear_cash_def)
  moreover have "?B \<subseteq> seated t" by (auto simp: seated_def)
  ultimately show ?thesis using t
    by (simp add: table_ok_def seats_ok_def clear_cash_def fold_decrement length_filter_keys card_diff_word)
qed

lemma clear_playing_cash_ok [wf_intros]: "table_ok t \<Longrightarrow> table_ok (clear_playing_cash t)"
proof -
  assume t: "table_ok t"
  let ?B = "{p \<in> fm_keys (playing_cash t). p \<notin> fm_keys (cash t) \<and> p \<notin> fm_keys (pending_proposals t)}"
  have "seated (clear_playing_cash t) = seated t - ?B"
    by (auto simp: seated_def clear_playing_cash_def)
  moreover have "?B \<subseteq> seated t" by (auto simp: seated_def)
  ultimately show ?thesis using t
    by (simp add: table_ok_def seats_ok_def clear_playing_cash_def fold_decrement length_filter_keys card_diff_word)
qed

lemma clear_cash_simps [simp]:
  "cash (clear_cash t) = fm_empty" "playing_cash (clear_cash t) = playing_cash t"
  "pending_proposals (clear_cash t) = pending_proposals t" "tb_room (clear_cash t) = tb_room t"
  by (simp_all add: clear_cash_def)

lemma clear_playing_cash_simps [simp]:
  "playing_cash (clear_playing_cash t) = fm_empty" "cash (clear_playing_cash t) = cash t"
  "pending_proposals (clear_playing_cash t) = pending_proposals t"
  "tb_room (clear_playing_cash t) = tb_room t"
  by (simp_all add: clear_playing_cash_def)

lemma clear_funds:
  "table_funds x (clear_cash t) = table_funds x t - fm_sum (funds x) (cash t)"
  "table_funds x (clear_playing_cash t) = table_funds x t - fm_sum (funds x) (playing_cash t)"
  by (simp_all add: table_funds_def)

section \<open>Reservations\<close>

lemma add_pending_proposal_ok [wf_intros]:
  assumes "table_ok t"
  shows "table_ok (snd (add_pending_proposal p b t))"
proof -
  have "seated (snd (add_pending_proposal p b t)) = insert p (seated t)"
    by (auto simp: add_pending_proposal_def seated_def Let_def split: option.split)
  moreover have "p \<in> seated t" if "fm_find (pending_proposals t) p = Some c" for c
    using that by (auto simp: seated_def fm_find_Some_keys)
  ultimately show ?thesis using assms
    by (auto simp: table_ok_def seats_ok_def add_pending_proposal_def card_insert_word Let_def seated_def
        fm_find_None_iff insert_absorb split: option.split)
qed

lemma remove_pending_proposal_ok [wf_intros]:
  assumes "table_ok t"
  shows "table_ok (remove_pending_proposal p t)"
proof (cases "fm_find (pending_proposals t) p")
  case (Some c)
  let ?R = "fm_keys (cash t) \<union> fm_keys (playing_cash t)"
  have p: "p \<in> seated t" using Some by (auto simp: seated_def fm_find_Some_keys)
  have "seated (remove_pending_proposal p t) = (if p \<in> ?R then seated t else seated t - {p})"
    using Some by (auto simp: remove_pending_proposal_def seated_def Let_def)
  then show ?thesis using Some p assms
    by (auto simp: table_ok_def seats_ok_def remove_pending_proposal_def card_remove_word [OF _ p] Let_def)
qed (use assms in \<open>simp add: remove_pending_proposal_def\<close>)

lemma proposal_frames [simp]:
  "cash (snd (add_pending_proposal p b t)) = cash t"
  "playing_cash (snd (add_pending_proposal p b t)) = playing_cash t"
  "cash (remove_pending_proposal p t) = cash t"
  "playing_cash (remove_pending_proposal p t) = playing_cash t"
  "tb_room (snd (add_pending_proposal p b t)) = tb_room t"
  "tb_room (remove_pending_proposal p t) = tb_room t"
  "pending_proposals (remove_pending_proposal p t) = fm_erase p (pending_proposals t)"
  "pending_proposals (snd (add_pending_proposal p b t)) = fm_put p b (pending_proposals t)"
  by (auto simp: add_pending_proposal_def remove_pending_proposal_def Let_def fm_find_None_iff
      split: option.split)

lemma proposal_funds [simp]:
  "table_funds x (snd (add_pending_proposal p b t)) = table_funds x t"
  "table_funds x (remove_pending_proposal p t) = table_funds x t"
  by (simp_all add: table_funds_def)

end
