(* ===== verification/Chain_State.thy ===== *)
theory Chain_State
  imports Table_Object "HOL-Library.Product_Lexorder" "HOL-Library.List_Lexorder" "HOL-Library.Char_ord"
begin

text \<open>
  The chain state the PlayChain evaluators work on: the objects of \<^verbatim>\<open>playchain/chain/schema\<close>, the
  database as a record of object indexes, account balances (\<^verbatim>\<open>db_balance.cpp\<close>), the predicates of
  \<^verbatim>\<open>evaluators/validators.cpp\<close>, the lookups of \<^verbatim>\<open>evaluators/db_helpers.cpp\<close>, and the funds a state
  holds. The results are the laws every evaluator proof rests on: which parts of the state an update
  touches, how it changes the funds, and that balances never become negative.
\<close>

section \<open>Objects\<close>

record room_object =
  rm_owner :: account_id
  rm_server_url :: string
  rm_metadata :: string
  rm_protocol_version :: version_ext
  rating :: "32 word"
  last_rating_update :: time
  prev_rating :: "32 word"
  last_updated_table :: table_id
  weight_sum_by_time_factor :: "64 word"
  measurement_sum_by_time_factor :: "64 word"
  measurement_quantity :: "32 word"
  pending_rake :: asset
  rm_balance :: "nat option"

record deposit_statistic =
  ds_getter :: account_id
  ds_metadata :: string
  ds_amount :: int
  ds_asset_id :: nat

record player_pending_fee_data = deposit_statistic +
  pf_room :: room_id
  pf_witnesses :: "witness_id flat_set"

text \<open>
  \<^verbatim>\<open>flat_set<deposit_statistic>\<close> is ordered by asset, getter and metadata only; the amount is
  updated in place. It is a flat map from that key to the amount.
\<close>

type_synonym deposit_key = "nat \<times> account_id \<times> string"

record player_object =
  pl_account :: account_id
  pl_inviter :: player_id
  pending_fees :: "player_pending_fee_data list"
  pending_parent_invitation_fees :: "(room_id, (deposit_key, int) flat_map) flat_map"
  pl_balance :: "nat option"

record game_witness_object =
  gw_account :: account_id
  gw_balance :: "nat option"

record pending_buy_in_object =
  pb_player :: account_id
  pb_uid :: string
  pb_amount :: asset
  pb_metadata :: string
  pb_protocol_version :: version_ext
  pb_created :: time
  pb_expiration :: time
  pb_table :: table_id
  pb_player_iternal :: player_id

definition is_allocated :: "pending_buy_in_object \<Rightarrow> bool" where
  "is_allocated b \<longleftrightarrow> pb_table b \<noteq> 0"

record buy_in_object =
  bi_player :: player_id
  bi_table :: table_id
  bi_created :: time
  bi_updated :: time
  bi_expiration :: time

record pending_buy_out_object =
  po_table :: table_id
  po_player :: player_id
  po_amount :: asset

record room_rating_measurement_object =
  ms_created :: time
  ms_expiration :: time
  ms_room :: room_id
  ms_table :: table_id
  ms_associated_buyin :: pending_buy_in_id
  ms_weight :: "32 word"
  ms_waiting_resolve :: bool

datatype vote_op = Vote_start game_start_playing_check_operation | Vote_result game_result_check_operation

record pending_table_vote_object =
  pv_table :: table_id
  pv_voter :: account_id
  pv_vote :: vote_op

record table_voting_object =
  tv_table :: table_id
  tv_created :: time
  tv_expiration :: time
  tv_scheduled_voting :: time
  tv_votes :: account_votes
  tv_witnesses_allowed_for_substitution :: nat
  tv_required_player_voters :: "account_id flat_set"
  tv_required_witness_voters :: "witness_id flat_set"
  tv_voted_witnesses :: "witness_id flat_set"
  tv_etalon_vote :: "voting_data option"

definition is_voting_for_playing :: "table_voting_object \<Rightarrow> bool" where
  "is_voting_for_playing v =
     (case fm_items (tv_votes v) of (a, Initial d) # _ \<Rightarrow> True | _ \<Rightarrow> False)"

definition is_voting_for_results :: "table_voting_object \<Rightarrow> bool" where
  "is_voting_for_results v =
     (case fm_items (tv_votes v) of (a, Result d) # _ \<Rightarrow> True | _ \<Rightarrow> False)"

record table_alive_object =
  al_table :: table_id
  al_created :: time
  al_expiration :: time

record player_invitation_object =
  iv_inviter :: account_id
  iv_uid :: string
  iv_created :: time
  iv_expiration :: time
  iv_metadata :: string

record linear_vesting_policy =
  begin_timestamp :: time
  vesting_cliff_seconds :: nat
  vesting_duration_seconds :: nat
  begin_balance :: int

record cdd_vesting_policy =
  vesting_seconds :: nat
  coin_seconds_earned :: nat
  start_claim :: time
  coin_seconds_earned_last_update :: time

datatype vesting_policy =
  Linear_vesting linear_vesting_policy
| Cdd_vesting cdd_vesting_policy
| Instant_vesting

record vesting_balance_object =
  vb_owner :: account_id
  vb_amount :: asset
  vb_policy :: vesting_policy

text \<open>The members of the games committee, and the authority the committee account has.\<close>

record playchain_committee_member_object =
  committee_member_game_witness :: witness_id
  vote_id :: "32 word"
  total_votes :: "64 word"
  url :: string

record authority =
  weight_threshold :: "32 word"
  account_auths :: "(account_id, 16 word) flat_map"

text \<open>
  Accounts with their authorities. Keys are their encodings; the addresses of an authority are left out,
  since no account can be created with them.
\<close>

record account_authority = authority +
  key_auths :: "(string, 16 word) flat_map"

record account_object =
  ac_name :: string
  ac_owner :: account_authority
  ac_active :: account_authority
  membership_expiration_date :: time

section \<open>The database\<close>

abbreviation (input) GRAPHENE_NULL_ACCOUNT :: account_id where "GRAPHENE_NULL_ACCOUNT \<equiv> 3"

record database =
  head_block_time :: time
  block_interval :: nat
  maintenance_interval :: nat
  cashback_vesting_period_seconds :: nat
  average_room_rating :: "64 word"
  parameters :: playchain_parameters
  maximum_authority_membership :: nat
  accounts :: "account_object index"
  balances :: "(account_id \<times> nat, int) flat_map"
  players :: "player_object index"
  witnesses :: "game_witness_object index"
  rooms :: "room_object index"
  tables :: "table_object index"
  votings :: "table_voting_object index"
  pending_votes :: "pending_table_vote_object index"
  alives :: "table_alive_object index"
  pending_buy_ins :: "pending_buy_in_object index"
  buy_ins :: "buy_in_object index"
  pending_buy_outs :: "pending_buy_out_object index"
  measurements :: "room_rating_measurement_object index"
  invitations :: "player_invitation_object index"
  vestings :: "vesting_balance_object index"
  transfer_restricted :: "(nat, bool) flat_map"  \<comment> \<open>the assets that exist, with \<^verbatim>\<open>asset_object::is_transfer_restricted\<close>\<close>
  next_available_vote_id :: "32 word"
  committee_members :: "playchain_committee_member_object index"
  active_games_committee_members :: "witness_id list"
  committee_active :: authority  \<comment> \<open>of \<^verbatim>\<open>PLAYCHAIN_COMMITTEE_ACCOUNT\<close>\<close>
  pending_parameters :: "playchain_parameters option"
  applied :: "virtual_op list"  \<comment> \<open>the virtual operations of the block, newest first\<close>

definition push_applied_operation :: "virtual_op \<Rightarrow> database \<Rightarrow> database" where
  "push_applied_operation v d = d\<lparr>applied := v # applied d\<rparr>"

definition push_all :: "virtual_op list \<Rightarrow> database \<Rightarrow> database" where
  "push_all vs d = fold push_applied_operation vs d"

section \<open>Account balances\<close>

definition get_balance :: "database \<Rightarrow> account_id \<Rightarrow> nat \<Rightarrow> asset" where
  "get_balance d owner x =
     (case fm_find (balances d) (owner, x) of
        None \<Rightarrow> \<lparr>amount = 0, asset_id = x\<rparr>
      | Some b \<Rightarrow> \<lparr>amount = b, asset_id = x\<rparr>)"

definition adjust_balance :: "account_id \<Rightarrow> asset \<Rightarrow> database \<Rightarrow> database res" where
  "adjust_balance account delta d =
     (if amount delta = 0 then Inr d
      else case fm_find (balances d) (account, asset_id delta) of
        None \<Rightarrow>
          ebind (check (0 < amount delta) ''Insufficient Balance'') (\<lambda>_.
            Inr (d\<lparr>balances := fm_put (account, asset_id delta) (amount delta) (balances d)\<rparr>))
      | Some b \<Rightarrow>
          ebind (if amount delta < 0
                 then ebind (asset_neg delta) (\<lambda>m. check (amount m \<le> b) ''Insufficient Balance'')
                 else Inr ()) (\<lambda>_.
          ebind (share (b + amount delta)) (\<lambda>n.
            Inr (d\<lparr>balances := fm_put (account, asset_id delta) n (balances d)\<rparr>))))"

section \<open>Lookups\<close>

definition find_player :: "database \<Rightarrow> account_id \<Rightarrow> (player_id \<times> player_object) option" where
  "find_player d account = idx_lookup (\<lambda>i p. pl_account p = account) (players d)"

definition get_player :: "database \<Rightarrow> account_id \<Rightarrow> (player_id \<times> player_object) res" where
  "get_player d account = of_option Null_deref (find_player d account)"

definition find_witness :: "database \<Rightarrow> account_id \<Rightarrow> (witness_id \<times> game_witness_object) option" where
  "find_witness d account = idx_lookup (\<lambda>i w. gw_account w = account) (witnesses d)"

definition get_game_witness :: "database \<Rightarrow> account_id \<Rightarrow> (witness_id \<times> game_witness_object) res" where
  "get_game_witness d account = of_option Null_deref (find_witness d account)"

definition find_voting :: "database \<Rightarrow> table_id \<Rightarrow> (nat \<times> table_voting_object) option" where
  "find_voting d t = idx_lookup (\<lambda>i v. tv_table v = t) (votings d)"

definition find_alive :: "database \<Rightarrow> table_id \<Rightarrow> (nat \<times> table_alive_object) option" where
  "find_alive d t = idx_lookup (\<lambda>i v. al_table v = t) (alives d)"

definition find_pending_vote ::
    "database \<Rightarrow> table_id \<Rightarrow> account_id \<Rightarrow> (nat \<times> pending_table_vote_object) option" where
  "find_pending_vote d t voter =
     idx_lookup (\<lambda>i v. pv_table v = t \<and> pv_voter v = voter) (pending_votes d)"

definition find_pending_buy_in ::
    "database \<Rightarrow> account_id \<Rightarrow> string \<Rightarrow> (pending_buy_in_id \<times> pending_buy_in_object) option" where
  "find_pending_buy_in d player uid =
     idx_lookup (\<lambda>i b. pb_player b = player \<and> pb_uid b = uid) (pending_buy_ins d)"

definition find_buy_in :: "database \<Rightarrow> table_id \<Rightarrow> player_id \<Rightarrow> (nat \<times> buy_in_object) option" where
  "find_buy_in d t p = idx_lookup (\<lambda>i b. bi_table b = t \<and> bi_player b = p) (buy_ins d)"

definition find_buy_out ::
    "database \<Rightarrow> player_id \<Rightarrow> table_id \<Rightarrow> (nat \<times> pending_buy_out_object) option" where
  "find_buy_out d p t = idx_lookup (\<lambda>i b. po_player b = p \<and> po_table b = t) (pending_buy_outs d)"

definition find_measurement ::
    "database \<Rightarrow> pending_buy_in_id \<Rightarrow> (nat \<times> room_rating_measurement_object) option" where
  "find_measurement d b = idx_lookup (\<lambda>i m. ms_associated_buyin m = b) (measurements d)"

text \<open>\<^verbatim>\<open>table.room(d).owner\<close>\<close>

definition table_owner :: "database \<Rightarrow> table_object \<Rightarrow> account_id res" where
  "table_owner d t = ebind (idx_get (rooms d) (tb_room t)) (\<lambda>r. Inr (rm_owner r))"

section \<open>Validators\<close>

definition is_account_exists :: "database \<Rightarrow> account_id \<Rightarrow> bool" where
  "is_account_exists d a \<longleftrightarrow> idx_find (accounts d) a \<noteq> None"

definition is_player_exists :: "database \<Rightarrow> account_id \<Rightarrow> bool" where
  "is_player_exists d account \<longleftrightarrow> find_player d account \<noteq> None"

definition is_player_id_exists :: "database \<Rightarrow> player_id \<Rightarrow> bool" where
  "is_player_id_exists d p \<longleftrightarrow> idx_find (players d) p \<noteq> None"

definition is_room_exists :: "database \<Rightarrow> room_id \<Rightarrow> bool" where
  "is_room_exists d r \<longleftrightarrow> idx_find (rooms d) r \<noteq> None"

definition is_game_witness_exists :: "database \<Rightarrow> witness_id \<Rightarrow> bool" where
  "is_game_witness_exists d w \<longleftrightarrow> idx_find (witnesses d) w \<noteq> None"

definition is_table_exists :: "database \<Rightarrow> table_id \<Rightarrow> bool" where
  "is_table_exists d t \<longleftrightarrow> idx_find (tables d) t \<noteq> None"

definition is_table_voting :: "database \<Rightarrow> table_id \<Rightarrow> bool" where
  "is_table_voting d t \<longleftrightarrow> find_voting d t \<noteq> None"

definition is_table_alive :: "database \<Rightarrow> table_id \<Rightarrow> bool" where
  "is_table_alive d t \<longleftrightarrow> find_alive d t \<noteq> None"

definition is_table_voting_for_playing :: "database \<Rightarrow> table_id \<Rightarrow> bool" where
  "is_table_voting_for_playing d t =
     (case find_voting d t of None \<Rightarrow> False | Some (i, v) \<Rightarrow> is_voting_for_playing v)"

definition is_table_voting_for_results :: "database \<Rightarrow> table_id \<Rightarrow> bool" where
  "is_table_voting_for_results d t =
     (case find_voting d t of None \<Rightarrow> False | Some (i, v) \<Rightarrow> is_voting_for_results v)"

definition is_room_owner_any :: "database \<Rightarrow> account_id \<Rightarrow> bool" where
  "is_room_owner_any d a \<longleftrightarrow> idx_lookup (\<lambda>i r. rm_owner r = a) (rooms d) \<noteq> None"

definition is_room_owner :: "database \<Rightarrow> account_id \<Rightarrow> room_id \<Rightarrow> bool res" where
  "is_room_owner d a r = ebind (idx_get (rooms d) r) (\<lambda>room. Inr (rm_owner room = a))"

definition is_table_owner :: "database \<Rightarrow> table_object \<Rightarrow> account_id \<Rightarrow> bool res" where
  "is_table_owner d t a = ebind (table_owner d t) (\<lambda>owner. Inr (owner = a))"

definition is_table_id_owner :: "database \<Rightarrow> account_id \<Rightarrow> table_id \<Rightarrow> bool res" where
  "is_table_id_owner d a t = ebind (idx_get (tables d) t) (\<lambda>tbl. is_table_owner d tbl a)"

definition is_game_witness_account :: "database \<Rightarrow> account_id \<Rightarrow> bool" where
  "is_game_witness_account d a \<longleftrightarrow> find_witness d a \<noteq> None"

text \<open>A table owner does not count as a game witness of the own table.\<close>

definition is_game_witness :: "database \<Rightarrow> table_object \<Rightarrow> account_id \<Rightarrow> bool res" where
  "is_game_witness d t a =
     (if find_witness d a = None then Inr False
      else ebind (is_table_owner d t a) (\<lambda>own. Inr (\<not> own)))"

definition is_pending_buy_in_exists :: "database \<Rightarrow> pending_buy_in_id \<Rightarrow> bool" where
  "is_pending_buy_in_exists d b \<longleftrightarrow> idx_find (pending_buy_ins d) b \<noteq> None"

definition get_witness_if_exist :: "database \<Rightarrow> table_object \<Rightarrow> account_id \<Rightarrow> witness_id option res" where
  "get_witness_if_exist d t voter =
     (case find_witness d voter of
        None \<Rightarrow> Inr None
      | Some (i, w) \<Rightarrow> ebind (is_table_owner d t voter) (\<lambda>own. Inr (if own then None else Some i)))"

definition get_pending_balance :: "database \<Rightarrow> table_object \<Rightarrow> player_id \<Rightarrow> asset res" where
  "get_pending_balance d t p =
     (case fm_find (pending_proposals t) p of
        None \<Rightarrow> Inr (core_asset 0)
      | Some b \<Rightarrow> ebind (idx_get (pending_buy_ins d) b) (\<lambda>obj. Inr (pb_amount obj)))"

definition set_table :: "table_id \<Rightarrow> table_object \<Rightarrow> database \<Rightarrow> database" where
  "set_table i t d = d\<lparr>tables := idx_set i t (tables d)\<rparr>"

text \<open>\<^verbatim>\<open>d.modify(table, f)\<close>: the table is read, changed and written back; a throw propagates.\<close>

definition modify_table :: "table_id \<Rightarrow> (table_object \<Rightarrow> table_object res) \<Rightarrow> database \<Rightarrow> database res" where
  "modify_table i f d =
     ebind (idx_get (tables d) i) (\<lambda>t. ebind (f t) (\<lambda>t'. Inr (set_table i t' d)))"

section \<open>The funds of a state\<close>

text \<open>
  Where funds of asset \<open>x\<close> can be: account balances, cash and playing cash at tables, reserved
  buy-ins, undistributed rake of rooms, vesting balances.
\<close>

definition balance_funds :: "nat \<Rightarrow> account_id \<times> nat \<Rightarrow> int \<Rightarrow> int" where
  "balance_funds x k b = (if snd k = x then b else 0)"

definition held :: "nat \<Rightarrow> database \<Rightarrow> int" where
  "held x d =
     fm_ksum (balance_funds x) (balances d) + idx_sum (table_funds x) (tables d) +
     idx_sum (\<lambda>b. funds x (pb_amount b)) (pending_buy_ins d) +
     idx_sum (\<lambda>r. funds x (pending_rake r)) (rooms d) +
     idx_sum (\<lambda>v. funds x (vb_amount v)) (vestings d)"

definition balances_ok :: "database \<Rightarrow> bool" where
  "balances_ok d \<longleftrightarrow> list_all (\<lambda>(k, b). 0 \<le> b) (fm_items (balances d))"

text \<open>Neither a vesting balance nor the amount a linear one began with is negative.\<close>

definition vesting_ok :: "vesting_balance_object \<Rightarrow> bool" where
  "vesting_ok v \<longleftrightarrow> 0 \<le> amount (vb_amount v) \<and>
     (case vb_policy v of Linear_vesting p \<Rightarrow> 0 \<le> begin_balance p | _ \<Rightarrow> True)"

text \<open>
  The invariant of the chain state: every table keeps its own invariant, balances are not
  negative, neither is the amount of a reserved buy-in, of a deferred buy-out or of a vesting
  balance, and the rake of a room is in the core asset.
\<close>

definition db_ok :: "database \<Rightarrow> bool" where
  "db_ok d \<longleftrightarrow>
     balances_ok d \<and> idx_all table_ok (tables d) \<and>
     idx_all (\<lambda>b. 0 \<le> amount (pb_amount b)) (pending_buy_ins d) \<and>
     idx_all (\<lambda>b. 0 \<le> amount (po_amount b)) (pending_buy_outs d) \<and>
     idx_all (\<lambda>r. asset_id (pending_rake r) = CORE) (rooms d) \<and>
     idx_all vesting_ok (vestings d)"

lemma balances_ok_iff: "balances_ok d \<longleftrightarrow> (\<forall>k b. fm_find (balances d) k = Some b \<longrightarrow> 0 \<le> b)"
  by (auto simp: balances_ok_def list_all_iff fm_find_items)

lemma balance_funds_same [simp]: "balance_funds x (a, asset_id delta) (amount delta) = funds x delta"
  by (simp add: balance_funds_def funds_def)

lemma push_applied_form: "push_applied_operation v d = d\<lparr>applied := v # applied d\<rparr>"
  by (simp add: push_applied_operation_def)

lemma push_all_form: "push_all vs d = d\<lparr>applied := rev vs @ applied d\<rparr>"
  unfolding push_all_def by (induction vs arbitrary: d) (simp_all add: push_applied_operation_def)

text \<open>A successful adjustment either changes nothing (a zero amount) or writes the new balance.\<close>

lemma adjust_balance_cases:
  assumes "adjust_balance a delta d = Inr d'"
  obtains (zero) "amount delta = 0" "d' = d"
    | (new) "fm_find (balances d) (a, asset_id delta) = None" "0 < amount delta"
      "d' = d\<lparr>balances := fm_put (a, asset_id delta) (amount delta) (balances d)\<rparr>"
    | (change) b where "fm_find (balances d) (a, asset_id delta) = Some b" "amount delta \<noteq> 0"
      "amount delta < 0 \<longrightarrow> - amount delta \<le> b"
      "d' = d\<lparr>balances := fm_put (a, asset_id delta) (b + amount delta) (balances d)\<rparr>"
proof (cases "amount delta = 0")
  case True
  then show ?thesis using assms zero by (simp add: adjust_balance_def)
next
  case False
  show ?thesis
  proof (cases "fm_find (balances d) (a, asset_id delta)")
    case None
    then show ?thesis using assms False new by (simp add: adjust_balance_def res_simps)
  next
    case (Some b)
    then show ?thesis using assms False change
      by (cases "amount delta < 0") (auto simp: adjust_balance_def res_simps)
  qed
qed

lemma adjust_balance_frame:
  assumes "adjust_balance a delta d = Inr d'"
  shows "tables d' = tables d" "rooms d' = rooms d" "players d' = players d"
    "head_block_time d' = head_block_time d" "parameters d' = parameters d"
    "pending_buy_ins d' = pending_buy_ins d" "votings d' = votings d" "buy_ins d' = buy_ins d"
    "vestings d' = vestings d" "witnesses d' = witnesses d"
    "pending_buy_outs d' = pending_buy_outs d" "measurements d' = measurements d"
    "applied d' = applied d" "pending_votes d' = pending_votes d" "alives d' = alives d"
  using assms by (cases rule: adjust_balance_cases; simp)+

lemma adjust_balance_held [held_simps]:
  assumes "adjust_balance a delta d = Inr d'"
  shows "held x d' = held x d + funds x delta"
  using assms by (cases rule: adjust_balance_cases) (simp_all add: held_def balance_funds_def funds_def)

lemma adjust_balance_ok [wf_intros]:
  assumes "adjust_balance a delta d = Inr d'" and "db_ok d"
  shows "db_ok d'"
  using assms(1) by (cases rule: adjust_balance_cases) (use assms(2) in \<open>auto simp: db_ok_def balances_ok_iff\<close>)

text \<open>
  The functional behaviour of \<open>adjust_balance\<close>: it succeeds exactly when the new balance is not
  negative and representable, and then changes that one balance by the amount.
\<close>

lemma adjust_balance_get:
  assumes "adjust_balance a delta d = Inr d'"
  shows "get_balance d' b x =
    (if b = a \<and> x = asset_id delta
     then \<lparr>amount = amount (get_balance d b x) + amount delta, asset_id = x\<rparr>
     else get_balance d b x)"
  using assms by (cases rule: adjust_balance_cases) (auto simp: get_balance_def split: option.splits)

lemma adjust_balance_succeeds_iff:
  assumes "balances_ok d" and "share_ok (amount delta)" and "share_ok (- amount delta)"
    and "share_ok (amount (get_balance d a (asset_id delta)) + amount delta)"
  shows "(\<exists>d'. adjust_balance a delta d = Inr d') \<longleftrightarrow>
     0 \<le> amount (get_balance d a (asset_id delta)) + amount delta"
  using assms
proof (cases "fm_find (balances d) (a, asset_id delta)")
  case None
  then show ?thesis using assms
    by (cases "0 < amount delta") (auto simp: adjust_balance_def get_balance_def)
next
  case (Some b)
  then have "0 \<le> b" using assms(1) by (simp add: balances_ok_iff)
  with Some show ?thesis using assms
    by (cases "amount delta < 0"; cases "- amount delta \<le> b")
      (auto simp: adjust_balance_def get_balance_def share_def asset_neg_def)
qed

lemma set_table_frame [simp]:
  "balances (set_table i t d) = balances d" "rooms (set_table i t d) = rooms d"
  "players (set_table i t d) = players d" "head_block_time (set_table i t d) = head_block_time d"
  "parameters (set_table i t d) = parameters d"
  "pending_buy_ins (set_table i t d) = pending_buy_ins d" "votings (set_table i t d) = votings d"
  "buy_ins (set_table i t d) = buy_ins d" "vestings (set_table i t d) = vestings d"
  "witnesses (set_table i t d) = witnesses d" "alives (set_table i t d) = alives d"
  "pending_buy_outs (set_table i t d) = pending_buy_outs d"
  "measurements (set_table i t d) = measurements d" "applied (set_table i t d) = applied d"
  "pending_votes (set_table i t d) = pending_votes d"
  "tables (set_table i t d) = idx_set i t (tables d)"
  by (simp_all add: set_table_def)

lemma set_table_held [held_simps]:
  "idx_find (tables d) i = Some t \<Longrightarrow>
     held x (set_table i t' d) = held x d + (table_funds x t' - table_funds x t)"
  by (simp add: held_def set_table_def)

lemma set_table_ok [wf_intros]: "db_ok d \<Longrightarrow> table_ok t \<Longrightarrow> db_ok (set_table i t d)"
  by (auto simp: db_ok_def set_table_def balances_ok_def intro: wf_intros)

lemma idx_get_Inr [res_simps]: "idx_get ix i = Inr v \<longleftrightarrow> idx_find ix i = Some v"
  by (simp add: idx_get_def res_simps)

lemma modify_table_Inr [res_simps]:
  "modify_table i f d = Inr d' \<longleftrightarrow>
     (\<exists>t t'. idx_find (tables d) i = Some t \<and> f t = Inr t' \<and> d' = set_table i t' d)"
  by (auto simp: modify_table_def res_simps)

lemma push_frame [simp]:
  "tables (push_applied_operation v d) = tables d" "rooms (push_applied_operation v d) = rooms d"
  "players (push_applied_operation v d) = players d" "balances (push_applied_operation v d) = balances d"
  "votings (push_applied_operation v d) = votings d" "parameters (push_applied_operation v d) = parameters d"
  "head_block_time (push_applied_operation v d) = head_block_time d"
  "pending_buy_ins (push_applied_operation v d) = pending_buy_ins d"
  "pending_buy_outs (push_applied_operation v d) = pending_buy_outs d"
  "buy_ins (push_applied_operation v d) = buy_ins d" "witnesses (push_applied_operation v d) = witnesses d"
  "pending_votes (push_applied_operation v d) = pending_votes d"
  "vestings (push_applied_operation v d) = vestings d" "alives (push_applied_operation v d) = alives d"
  "block_interval (push_applied_operation v d) = block_interval d"
  "measurements (push_applied_operation v d) = measurements d"
  "applied (push_applied_operation v d) = v # applied d"
  by (simp_all add: push_applied_operation_def)

lemma push_held [held_simps, simp]: "held x (push_applied_operation v d) = held x d"
  by (simp add: held_def push_applied_operation_def)

lemma push_ok [wf_intros, simp]: "db_ok (push_applied_operation v d) \<longleftrightarrow> db_ok d"
  by (simp add: db_ok_def balances_ok_def push_applied_operation_def)

lemma db_ok_tableD: "db_ok d \<Longrightarrow> idx_find (tables d) i = Some t \<Longrightarrow> table_ok t"
  by (auto simp: db_ok_def dest: idx_allD)

text \<open>
  An update that touches neither balances, tables, reserved buy-ins, deferred buy-outs, rooms nor
  vesting balances keeps the invariant and the funds.
\<close>

definition same_funds :: "database \<Rightarrow> database \<Rightarrow> bool" where
  "same_funds d d' \<longleftrightarrow> balances d' = balances d \<and> tables d' = tables d \<and>
     pending_buy_ins d' = pending_buy_ins d \<and> rooms d' = rooms d \<and> vestings d' = vestings d \<and>
     pending_buy_outs d' = pending_buy_outs d"

lemma same_funds_held: "same_funds d d' \<Longrightarrow> held x d' = held x d"
  by (simp add: same_funds_def held_def)

lemma same_funds_ok: "same_funds d d' \<Longrightarrow> db_ok d' = db_ok d"
  by (simp add: same_funds_def db_ok_def balances_ok_def)

lemma same_funds_refl [simp]: "same_funds d d"
  by (simp add: same_funds_def)

lemma same_funds_trans: "same_funds d d' \<Longrightarrow> same_funds d' d'' \<Longrightarrow> same_funds d d''"
  by (simp add: same_funds_def)

lemma same_funds_updates [simp]:
  "same_funds d (e\<lparr>votings := v\<rparr>) \<longleftrightarrow> same_funds d e"
  "same_funds d (e\<lparr>pending_votes := pv\<rparr>) \<longleftrightarrow> same_funds d e"
  "same_funds d (e\<lparr>alives := al\<rparr>) \<longleftrightarrow> same_funds d e"
  "same_funds d (e\<lparr>buy_ins := b\<rparr>) \<longleftrightarrow> same_funds d e"
  "same_funds d (e\<lparr>accounts := ac\<rparr>) \<longleftrightarrow> same_funds d e"
  "same_funds d (e\<lparr>measurements := m\<rparr>) \<longleftrightarrow> same_funds d e"
  "same_funds d (e\<lparr>players := p\<rparr>) \<longleftrightarrow> same_funds d e"
  "same_funds d (e\<lparr>witnesses := w\<rparr>) \<longleftrightarrow> same_funds d e"
  "same_funds d (e\<lparr>invitations := iv\<rparr>) \<longleftrightarrow> same_funds d e"
  "same_funds d (push_applied_operation op e) \<longleftrightarrow> same_funds d e"
  "same_funds d (push_all ops e) \<longleftrightarrow> same_funds d e"
  by (simp_all add: same_funds_def push_applied_operation_def push_all_form)

text \<open>
  How an operation changes the funds: from a good state it leads to a good state and adds \<open>f x\<close> to
  the funds of every asset \<open>x\<close>. An operation conserves the funds when it adds nothing.
\<close>

definition gives :: "(nat \<Rightarrow> int) \<Rightarrow> database \<Rightarrow> database \<Rightarrow> bool" where
  "gives f d d' \<longleftrightarrow> (db_ok d \<longrightarrow> db_ok d' \<and> (\<forall>x. held x d' = held x d + f x))"

abbreviation conserves :: "database \<Rightarrow> database \<Rightarrow> bool" where
  "conserves \<equiv> gives (\<lambda>_. 0)"

lemma gives_trans: "gives f d d' \<Longrightarrow> gives g d' d'' \<Longrightarrow> gives (\<lambda>x. f x + g x) d d''"
  by (simp add: gives_def)

lemma conserves_trans [trans]: "conserves d d' \<Longrightarrow> conserves d' d'' \<Longrightarrow> conserves d d''"
  using gives_trans [of "\<lambda>_. 0" d d' "\<lambda>_. 0" d''] by simp

lemma conserves_refl [simp]: "conserves d d"
  by (simp add: gives_def)

lemma same_funds_conserves: "same_funds d d' \<Longrightarrow> conserves d d'"
  by (simp add: gives_def same_funds_held same_funds_ok)

lemma gives_same_funds_left: "same_funds d d' \<Longrightarrow> gives f d' d'' \<longleftrightarrow> gives f d d''"
  by (simp add: gives_def same_funds_held same_funds_ok)

lemma gives_same_funds_right: "same_funds d' d'' \<Longrightarrow> gives f d d'' \<longleftrightarrow> gives f d d'"
  by (simp add: gives_def same_funds_held same_funds_ok)

lemma gives_pre: "same_funds d d' \<Longrightarrow> gives f d' d'' \<Longrightarrow> gives f d d''"
  by (simp add: gives_same_funds_left)

lemma gives_post: "gives f d d' \<Longrightarrow> same_funds d' d'' \<Longrightarrow> gives f d d''"
  by (simp add: gives_same_funds_right)

lemma gives_ok: "gives f d d' \<Longrightarrow> db_ok d \<Longrightarrow> db_ok d'"
  by (simp add: gives_def)

lemma adjust_balance_gives: "adjust_balance a delta d = Inr d' \<Longrightarrow> gives (\<lambda>x. funds x delta) d d'"
  by (simp add: gives_def adjust_balance_ok adjust_balance_held)

lemma set_table_gives:
  assumes "idx_find (tables d) i = Some t" and "table_ok t \<Longrightarrow> table_ok t'"
    and "\<And>x. table_ok t \<Longrightarrow> table_funds x t' = table_funds x t + f x"
  shows "gives f d (set_table i t' d)"
  unfolding gives_def
proof
  assume ok: "db_ok d"
  then have t: "table_ok t" using assms(1) by (rule db_ok_tableD)
  show "db_ok (set_table i t' d) \<and> (\<forall>x. held x (set_table i t' d) = held x d + f x)"
    using set_table_ok [OF ok assms(2) [OF t]] set_table_held [OF assms(1)] assms(3) [OF t] by simp
qed

lemma set_room_gives:
  assumes "idx_find (rooms d) i = Some r" and "asset_id (pending_rake r') = asset_id (pending_rake r)"
    and "\<And>x. funds x (pending_rake r') = funds x (pending_rake r) + f x"
  shows "gives f d (d\<lparr>rooms := idx_set i r' (rooms d)\<rparr>)"
proof -
  have "idx_all (\<lambda>r. asset_id (pending_rake r) = CORE) (idx_set i r' (rooms d))"
    if "idx_all (\<lambda>r. asset_id (pending_rake r) = CORE) (rooms d)"
    using that assms(1,2) by (intro wf_intros) (auto dest: idx_allD)
  then show ?thesis
    using assms by (simp add: gives_def db_ok_def balances_ok_def held_def)
qed

lemma efold_conserves:
  assumes "\<And>x s s'. x \<in> set xs \<Longrightarrow> f x s = Inr s' \<Longrightarrow> conserves s s'" and "efold f xs s = Inr s'"
  shows "conserves s s'"
  by (rule efold_invariant [where P = "conserves s", OF _ conserves_refl assms(2)])
    (blast intro: assms(1) conserves_trans)

end
