(* ===== verification/Table_Ops.thy ===== *)
theory Table_Ops
  imports Chain_State
begin

text \<open>
  Rooms, tables and players: the evaluators of \<^verbatim>\<open>room_evaluators.cpp\<close>,
  \<^verbatim>\<open>table_evaluators.cpp\<close> and \<^verbatim>\<open>player_evaluators.cpp\<close>, and the weight of a table in the
  allocation order (\<^verbatim>\<open>table_object::set_weight\<close>). Each operation is a stateless validation, an
  evaluation that only reads the state, and an application. The results: every operation keeps the
  invariant and moves no funds, only the owner of a room changes its tables, and a table without a
  heartbeat always has a negative weight.
\<close>

section \<open>The weight of a table\<close>

text \<open>
  The rating is a signed 32-bit number. For a table that is not alive the source negates it, after
  replacing a rating that is not positive by the least number; that negation is a signed overflow,
  here the wrap-around of the two's complement.
\<close>

definition set_weight :: "table_id \<Rightarrow> database \<Rightarrow> database res" where
  "set_weight i d =
     ebind (idx_get (tables d) i) (\<lambda>t.
       if HARDFORK_PLAYCHAIN_2_TIME \<le> head_block_time d then
         ebind (idx_get (rooms d) (tb_room t)) (\<lambda>r.
           let new_weight = rating r
           in if is_table_alive d i then Inr (set_table i (t\<lparr>weight := new_weight\<rparr>) d)
              else let new_weight = (if sint new_weight \<le> 0 then 0x80000000 else new_weight)
                   in Inr (set_table i (t\<lparr>weight := - new_weight\<rparr>) d))
       else Inr (set_table i (t\<lparr>weight := 0\<rparr>) d))"

definition alive_for_table :: "table_id \<Rightarrow> database \<Rightarrow> database res" where
  "alive_for_table i d =
     ebind (idx_get (tables d) i) (\<lambda>t.
     ebind (case find_alive d i of
              Some (j, alive) \<Rightarrow>
                Inr (d\<lparr>alives := idx_set j (alive\<lparr>al_expiration :=
                  head_block_time d + table_alive_expiration_seconds (parameters d)\<rparr>) (alives d)\<rparr>)
            | None \<Rightarrow>
                ebind (idx_create (\<lambda>a b. al_table a = al_table b)
                         \<lparr>al_table = i, al_created = head_block_time d,
                          al_expiration = head_block_time d + table_alive_expiration_seconds (parameters d)\<rparr>
                         (alives d)) (\<lambda>(j, ix). Inr (d\<lparr>alives := ix\<rparr>)))
       (set_weight i))"

section \<open>Table operations\<close>

definition new_table :: table_object where
  "new_table =
     \<lparr>tb_room = 0, tb_metadata = [], tb_required_witnesses = 0,
      tb_min_accepted_proposal_asset = core_asset 0, pending_proposals = fm_empty, cash = fm_empty,
      playing_cash = fm_empty, game_created = time_min, game_expiration = time_min,
      tb_voted_witnesses = fm_empty, weight = 0, occupied_places = 0\<rparr>"

definition table_create_evaluate :: "database \<Rightarrow> table_create_operation \<Rightarrow> unit res" where
  "table_create_evaluate d op =
     ebind (check (is_room_exists d (tc_room op)) ''Room does not exist'') (\<lambda>_.
     ebind (is_room_owner d (tc_owner op) (tc_room op)) (\<lambda>own.
       check own ''Wrong room owner''))"

definition table_create_apply :: "table_create_operation \<Rightarrow> database \<Rightarrow> database res" where
  "table_create_apply op d =
     ebind (idx_get (tables d) PLAYCHAIN_NULL_TABLE) (\<lambda>_.
     ebind (idx_create (\<lambda>a b. False)
              (new_table\<lparr>tb_room := tc_room op, tb_metadata := tc_metadata op,
                 tb_required_witnesses := tc_required_witnesses op,
                 tb_min_accepted_proposal_asset := tc_min_accepted_proposal_asset op,
                 game_created := time_min, game_expiration := time_max\<rparr>)
              (tables d)) (\<lambda>(i, ix).
       set_weight i (d\<lparr>tables := ix\<rparr>)))"

definition table_update_evaluate :: "database \<Rightarrow> table_update_operation \<Rightarrow> unit res" where
  "table_update_evaluate d op =
     ebind (check (is_table_exists d (tu_table op)) ''Table does not exist'') (\<lambda>_.
     ebind (is_table_id_owner d (tu_owner op) (tu_table op)) (\<lambda>own.
     ebind (check own ''Wrong table owner'') (\<lambda>_.
     ebind (idx_get (tables d) (tu_table op)) (\<lambda>t.
     ebind (check (is_free t) ''Can't update table while playing'') (\<lambda>_.
     ebind (check (\<not> is_table_voting d (tu_table op)) ''Can't update table while voting'') (\<lambda>_.
       if HARDFORK_PLAYCHAIN_3_TIME \<le> head_block_time d \<and> tb_metadata t \<noteq> tu_metadata op
       then check (\<not> is_table_alive d (tu_table op)) ''Can't update table metadata while table alive''
       else Inr ()))))))"

definition table_update_apply :: "table_update_operation \<Rightarrow> database \<Rightarrow> database res" where
  "table_update_apply op d =
     modify_table (tu_table op) (\<lambda>t.
       Inr (t\<lparr>tb_metadata := tu_metadata op, tb_required_witnesses := tu_required_witnesses op,
              tb_min_accepted_proposal_asset := tu_min_accepted_proposal_asset op\<rparr>)) d"

definition table_alive_evaluate :: "database \<Rightarrow> tables_alive_operation \<Rightarrow> unit res" where
  "table_alive_evaluate d op =
     efold (\<lambda>t _.
       ebind (check (is_table_exists d t) ''Table does not exist'') (\<lambda>_.
       ebind (is_table_id_owner d (ta_owner op) t) (\<lambda>own. check own ''Wrong table owner'')))
       (fs_items (ta_tables op)) ()"

definition table_alive_apply :: "tables_alive_operation \<Rightarrow> database \<Rightarrow> database res" where
  "table_alive_apply op d = efold alive_for_table (fs_items (ta_tables op)) d"

section \<open>Room operations\<close>

definition room_clash :: "room_object \<Rightarrow> room_object \<Rightarrow> bool" where
  "room_clash a b \<longleftrightarrow> rm_owner a = rm_owner b \<and> rm_metadata a = rm_metadata b"

definition new_room :: room_object where
  "new_room =
     \<lparr>rm_owner = 0, rm_server_url = [], rm_metadata = [],
      rm_protocol_version = new_version_ext, rating = 0, last_rating_update = time_min,
      prev_rating = 0, last_updated_table = 0, weight_sum_by_time_factor = 1,
      measurement_sum_by_time_factor = 1, measurement_quantity = 1, pending_rake = core_asset 0,
      rm_balance = None\<rparr>"

definition room_create_evaluate :: "database \<Rightarrow> room_create_operation \<Rightarrow> unit res" where
  "room_create_evaluate d op =
     ebind (version_ext_from_variant (rc_protocol_version op) new_version_ext) (\<lambda>_.
       check (idx_lookup (\<lambda>i r. rm_owner r = rc_owner op \<and> rm_metadata r = rc_metadata op) (rooms d) = None)
         ''There is the same room that is owned by account'')"

text \<open>The owner of a first room becomes a game witness.\<close>

definition ensure_game_witness :: "account_id \<Rightarrow> database \<Rightarrow> database res" where
  "ensure_game_witness owner d =
     (if find_witness d owner = None
      then ebind (idx_create (\<lambda>a b. gw_account a = gw_account b)
                    \<lparr>gw_account = owner, gw_balance = None\<rparr> (witnesses d)) (\<lambda>(i, ix).
             Inr (push_applied_operation (Game_witness_create owner) (d\<lparr>witnesses := ix\<rparr>)))
      else Inr d)"

definition room_create_apply :: "room_create_operation \<Rightarrow> database \<Rightarrow> database res" where
  "room_create_apply op d =
     ebind (idx_get (rooms d) PLAYCHAIN_NULL_ROOM) (\<lambda>_.
     ebind (idx_get (witnesses d) PLAYCHAIN_NULL_GAME_WITNESS) (\<lambda>_.
     ebind (ensure_game_witness (rc_owner op) d) (\<lambda>d.
     ebind (version_ext_from_variant (rc_protocol_version op) new_version_ext) (\<lambda>v.
     ebind (idx_create room_clash
              (new_room\<lparr>rm_owner := rc_owner op, rm_server_url := rc_server_url op,
                 rm_metadata := rc_metadata op, rm_protocol_version := v,
                 rating := (if HARDFORK_PLAYCHAIN_5_TIME \<le> head_block_time d
                            then ucast (average_room_rating d) else 0)\<rparr>)
              (rooms d)) (\<lambda>(i, ix).
       Inr (d\<lparr>rooms := ix\<rparr>))))))"

definition room_update_evaluate :: "database \<Rightarrow> room_update_operation \<Rightarrow> unit res" where
  "room_update_evaluate d op =
     ebind (version_ext_from_variant (ru_protocol_version op) new_version_ext) (\<lambda>_.
     ebind (check (is_room_exists d (ru_room op)) ''Room does not exist'') (\<lambda>_.
     ebind (is_room_owner d (ru_owner op) (ru_room op)) (\<lambda>own.
       check own ''Wrong room owner'')))"

text \<open>\<^verbatim>\<open>modify\<close> fails when the new value takes a unique key of another object.\<close>

definition room_update_apply :: "room_update_operation \<Rightarrow> database \<Rightarrow> database res" where
  "room_update_apply op d =
     ebind (idx_get (rooms d) (ru_room op)) (\<lambda>r.
     ebind (version_ext_from_variant (ru_protocol_version op) (rm_protocol_version r)) (\<lambda>v.
       let r' = r\<lparr>rm_server_url := ru_server_url op, rm_metadata := ru_metadata op,
                  rm_protocol_version := v\<rparr>
       in if list_ex (\<lambda>(j, q). j \<noteq> ru_room op \<and> room_clash r' q) (idx_items (rooms d))
          then Inl Not_unique
          else Inr (d\<lparr>rooms := idx_set (ru_room op) r' (rooms d)\<rparr>)))"

section \<open>Player operations\<close>

definition create_player :: "account_id \<Rightarrow> player_id \<Rightarrow> database \<Rightarrow> (player_id \<times> database) res" where
  "create_player account inviter d =
     ebind (idx_get (players d) PLAYCHAIN_NULL_PLAYER) (\<lambda>_.
     ebind (idx_create (\<lambda>a b. pl_account a = pl_account b)
              \<lparr>pl_account = account, pl_inviter = inviter, pending_fees = [],
               pending_parent_invitation_fees = fm_empty, pl_balance = None\<rparr>
              (players d)) (\<lambda>(i, ix).
       Inr (i, d\<lparr>players := ix\<rparr>)))"

definition player_create_by_room_owner_evaluate ::
    "database \<Rightarrow> player_create_by_room_owner_operation \<Rightarrow> unit res" where
  "player_create_by_room_owner_evaluate d op =
     ebind (check (is_account_exists d (pc_account op)) ''Account doesn't exist'') (\<lambda>_.
     ebind (check (is_room_owner_any d (pc_room_owner op)) ''Table owner doesn't own table'') (\<lambda>_.
       check (\<not> is_player_exists d (pc_account op)) ''Account is already player''))"

definition player_create_by_room_owner_apply ::
    "player_create_by_room_owner_operation \<Rightarrow> database \<Rightarrow> database res" where
  "player_create_by_room_owner_apply op d =
     ebind (create_player (pc_account op) PLAYCHAIN_NULL_PLAYER d) (\<lambda>(i, d'). Inr d')"

section \<open>Weights and heartbeats\<close>

lemma set_weight_cases:
  assumes "set_weight i d = Inr d'"
  obtains t w where "idx_find (tables d) i = Some t" "d' = set_table i (t\<lparr>weight := w\<rparr>) d"
  using assms by (auto simp: set_weight_def res_simps Let_def split: if_splits)

lemma table_weight_ok [simp]:
  "table_ok (t\<lparr>weight := w\<rparr>) \<longleftrightarrow> table_ok t" "table_funds x (t\<lparr>weight := w\<rparr>) = table_funds x t"
  by (simp_all add: table_ok_def seats_ok_def seated_def table_funds_def)

lemma set_weight_conserves: "set_weight i d = Inr d' \<Longrightarrow> conserves d d'"
  by (erule set_weight_cases) (auto intro!: set_table_gives)

lemma minus_of_positive: "0 < sint w \<Longrightarrow> sint (- w) = - sint (w :: 32 word)"
proof -
  assume "0 < sint w"
  then have "- (2 ^ 31) \<le> - sint w" "- sint w < 2 ^ 31"
    using sint_lt [of w] by simp_all
  then have "signed_take_bit 31 (- sint w) = - sint w"
    by (simp add: signed_take_bit_int_eq_self)
  moreover have "sint (- w) = signed_take_bit 31 (- sint w)"
    by (simp add: sint_word_ariths)
  ultimately show ?thesis by simp
qed

text \<open>After \<open>set_weight\<close> the weight tells whether the table has a heartbeat.\<close>

lemma set_weight_value:
  assumes "set_weight i d = Inr d'" and "HARDFORK_PLAYCHAIN_2_TIME \<le> head_block_time d"
  shows "\<exists>t r t'. idx_find (tables d) i = Some t \<and> idx_find (rooms d) (tb_room t) = Some r \<and>
    idx_find (tables d') i = Some t' \<and>
    (if is_table_alive d i then weight t' = rating r
     else if 0 < sint (rating r) then sint (weight t') = - sint (rating r)
     else sint (weight t') = - (2 ^ 31))"
proof -
  obtain t r where t: "idx_find (tables d) i = Some t" and r: "idx_find (rooms d) (tb_room t) = Some r"
    using assms by (auto simp: set_weight_def res_simps)
  let ?w = "if is_table_alive d i then rating r
            else - (if sint (rating r) \<le> 0 then 0x80000000 else rating r)"
  have "d' = set_table i (t\<lparr>weight := ?w\<rparr>) d"
    using assms t r by (simp add: set_weight_def idx_get_def Let_def split: if_splits)
  then have "idx_find (tables d') i = Some (t\<lparr>weight := ?w\<rparr>)" by simp
  then show ?thesis using t r minus_of_positive [of "rating r"] by (intro exI conjI) (auto simp: not_less)
qed

lemma alive_for_table_conserves: "alive_for_table i d = Inr d' \<Longrightarrow> conserves d d'"
  unfolding alive_for_table_def
  by (auto simp: res_simps gives_same_funds_left split: option.splits
      dest!: set_weight_conserves intro: gives_same_funds_left [THEN iffD1, rotated])

lemma table_create_conserves:
  assumes "table_create_apply op d = Inr d'"
  shows "conserves d d'"
proof -
  let ?t = "new_table\<lparr>tb_room := tc_room op, tb_metadata := tc_metadata op,
      tb_required_witnesses := tc_required_witnesses op,
      tb_min_accepted_proposal_asset := tc_min_accepted_proposal_asset op,
      game_created := time_min, game_expiration := time_max\<rparr>"
  obtain i ix where c: "idx_create (\<lambda>a b. False) ?t (tables d) = Inr (i, ix)"
    and w: "set_weight i (d\<lparr>tables := ix\<rparr>) = Inr d'"
    using assms unfolding table_create_apply_def by (auto simp: ebind_Inr)
  have "table_ok ?t" "\<And>x. table_funds x ?t = 0"
    by (simp_all add: new_table_def table_ok_def seats_ok_def seated_def table_funds_def)
  then have "conserves d (d\<lparr>tables := ix\<rparr>)"
    using idx_all_create [OF c] idx_sum_create [OF c]
    by (simp add: gives_def db_ok_def held_def balances_ok_def)
  with set_weight_conserves [OF w] show ?thesis by (blast intro: conserves_trans)
qed

lemma table_update_conserves: "table_update_apply op d = Inr d' \<Longrightarrow> conserves d d'"
  by (auto simp: table_update_apply_def res_simps table_ok_def seats_ok_def seated_def table_funds_def
      intro!: set_table_gives)

lemma table_alive_conserves: "table_alive_apply op d = Inr d' \<Longrightarrow> conserves d d'"
  unfolding table_alive_apply_def by (rule efold_conserves [OF alive_for_table_conserves])

lemma ensure_game_witness_same_funds: "ensure_game_witness a d = Inr d' \<Longrightarrow> same_funds d d'"
  by (auto simp: ensure_game_witness_def ebind_Inr same_funds_def push_applied_operation_def split: if_splits)

lemma create_room_conserves:
  assumes "idx_create room_clash r (rooms d) = Inr (i, ix)" and "pending_rake r = core_asset 0"
  shows "conserves d (d\<lparr>rooms := ix\<rparr>)"
  using idx_sum_create [OF assms(1)] assms(2) idx_all_create [OF assms(1), of "\<lambda>r. asset_id (pending_rake r) = CORE"]
  by (simp add: gives_def db_ok_def balances_ok_def held_def funds_def)

lemma room_create_conserves:
  assumes "room_create_apply op d = Inr d'"
  shows "conserves d d'"
proof -
  obtain e where e: "ensure_game_witness (rc_owner op) d = Inr e" and "conserves e d'"
    using assms unfolding room_create_apply_def ebind_Inr
    by (fastforce simp: new_room_def intro!: create_room_conserves)
  then show ?thesis
    using ensure_game_witness_same_funds [OF e] by (simp add: gives_same_funds_left)
qed

lemma room_update_conserves: "room_update_apply op d = Inr d' \<Longrightarrow> conserves d d'"
  by (auto simp: room_update_apply_def res_simps Let_def intro!: set_room_gives split: if_splits)

lemma create_player_same_funds: "create_player a p d = Inr (i, d') \<Longrightarrow> same_funds d d'"
  by (auto simp: create_player_def res_simps)

lemma player_create_conserves: "player_create_by_room_owner_apply op d = Inr d' \<Longrightarrow> conserves d d'"
  by (auto simp: player_create_by_room_owner_apply_def ebind_Inr
      intro: same_funds_conserves create_player_same_funds)

end
