(* ===== verification/Scenario.thy ===== *)
theory Scenario
  imports Table_Ops
begin

text \<open>
  A small concrete chain on which the theorems of the development are evaluated: room 1 of account
  10 with the tables 1 and 2 (room 0, table 0, player 0 and witness 0 are the special null
  objects), three players with the accounts 11, 12 and 13, the room owner as game witness 1, and
  money on the accounts. The block time is past the last hard fork.
\<close>

definition sample_room :: room_object where
  "sample_room = new_room\<lparr>rm_owner := 10, rm_metadata := ''hold-em'', rating := 100\<rparr>"

definition sample_table :: table_object where
  "sample_table = new_table\<lparr>tb_room := 1, tb_metadata := ''t'', weight := 100, game_expiration := time_max\<rparr>"

definition sample_player :: "account_id \<Rightarrow> player_object" where
  "sample_player a =
     \<lparr>pl_account = a, pl_inviter = 0, pending_fees = [], pending_parent_invitation_fees = fm_empty,
      pl_balance = None\<rparr>"

text \<open>Account \<open>a\<close> has one key; the special accounts and the room owner are lifetime members.\<close>

definition sample_key :: "account_id \<Rightarrow> string" where
  "sample_key a = ''key'' @ replicate a CHR ''1''"

definition sample_authority :: "account_id \<Rightarrow> account_authority" where
  "sample_authority a =
     \<lparr>weight_threshold = 1, account_auths = fm_empty, key_auths = fm_of_list [(sample_key a, 1)]\<rparr>"

definition sample_account :: "account_id \<Rightarrow> account_object" where
  "sample_account a =
     \<lparr>ac_name = replicate (a + 1) CHR ''a'', ac_owner = sample_authority a, ac_active = sample_authority a,
      membership_expiration_date = (if a \<le> 10 then time_max else 0)\<rparr>"

definition of_objects :: "'a list \<Rightarrow> 'a index" where
  "of_objects xs = \<lparr>next_id = length xs, objs = fm_of_list (zip [0..<length xs] xs)\<rparr>"

definition sample_db :: database where
  "sample_db =
     \<lparr>head_block_time = 1600000000, block_interval = 3, maintenance_interval = 3600,
      cashback_vesting_period_seconds = 86400, average_room_rating = 0,
      parameters = default_parameters,
      maximum_authority_membership = 10,
      accounts = \<lparr>next_id = 14,
        objs = fm_of_list (map (\<lambda>a. (a, sample_account a)) [0, 1, 2, 3, 4, 5, 10, 11, 12, 13])\<rparr>,
      balances = fm_of_list [((10, 0), 1000), ((11, 0), 500), ((12, 0), 500), ((13, 0), 500)],
      players = of_objects (map sample_player [0, 11, 12, 13]),
      witnesses = of_objects [\<lparr>gw_account = 0, gw_balance = None\<rparr>, \<lparr>gw_account = 10, gw_balance = None\<rparr>],
      rooms = of_objects [new_room\<lparr>rm_owner := 4\<rparr>, sample_room],
      tables = of_objects [new_table\<lparr>game_expiration := time_max\<rparr>, sample_table, sample_table],
      votings = idx_empty, pending_votes = idx_empty,
      alives = of_objects [\<lparr>al_table = 1, al_created = 1599999999, al_expiration = 1600000599\<rparr>],
      pending_buy_ins =
        of_objects [\<lparr>pb_player = 3, pb_uid = [], pb_amount = core_asset 0, pb_metadata = [],
          pb_protocol_version = \<lparr>base = 0, vmetadata = []\<rparr>, pb_created = 0, pb_expiration = time_max,
          pb_table = 0, pb_player_iternal = 0\<rparr>],
      buy_ins = idx_empty,
      pending_buy_outs = idx_empty, measurements = idx_empty, invitations = idx_empty,
      vestings = idx_empty, transfer_restricted = fm_of_list [(0, False), (1, True)], next_available_vote_id = 0, committee_members = idx_empty,
      active_games_committee_members = [],
      committee_active = \<lparr>weight_threshold = 1, account_auths = fm_of_list [(5, 1)]\<rparr>,
      pending_parameters = None, applied = []\<rparr>"

text \<open>The same chain with a player waiting at table 1 with 200 in cash, and two of them.\<close>

definition sample_buy_in :: "account_id \<Rightarrow> int \<Rightarrow> buy_in_table_operation" where
  "sample_buy_in a n =
     \<lparr>bit_fee = core_asset 0, bit_player = a, bit_table = 1, bit_table_owner = 10,
      bit_amount = core_asset n\<rparr>"

text \<open>A computation that does not fail, and its result.\<close>

definition succeeds :: "'a res \<Rightarrow> bool" where
  "succeeds r \<longleftrightarrow> (case r of Inl e \<Rightarrow> False | Inr x \<Rightarrow> True)"

definition result_of :: "'a \<Rightarrow> 'a res \<Rightarrow> 'a" where
  "result_of x r = (case r of Inl e \<Rightarrow> x | Inr y \<Rightarrow> y)"

lemma succeedsE: "succeeds r \<Longrightarrow> r = Inr (result_of x r)"
  by (auto simp: succeeds_def result_of_def split: sum.splits)


text \<open>
  A digest of votes that can be computed: the content of the vote itself. The digest of all zeros is
  the empty content.
\<close>

fun sample_digest :: "voting_data \<Rightarrow> (nat \<times> int \<times> int) list" where
  "sample_digest (Initial i) = (1, 0, 0) # map (\<lambda>(a, c). (a, amount c, 0)) (fm_items (gi_cash i))"
| "sample_digest (Result r) =
     (2, 0, 0) # map (\<lambda>(a, g). (a, amount (gr_cash g), amount (gr_rake g))) (fm_items (res_cash r))"

text \<open>The externals of the sample chain; a signature is the digest that was signed and the key, separated by a bar.\<close>

definition sample_externals :: "(nat \<times> int \<times> int) list externals" where
  "sample_externals =
     \<lparr>game_digest = sample_digest, no_digest = [], self_merge = (\<lambda>voters votes. votes), chain_id = ''chain'',
      invitation_digest = (\<lambda>c name uid. c @ name @ uid),
      public_key = (\<lambda>signature digest.
        let signed = takeWhile (\<lambda>c. c \<noteq> CHR ''|'') signature
        in Inr (if signed = digest then tl (dropWhile (\<lambda>c. c \<noteq> CHR ''|'') signature) else ''nobody''))\<rparr>"

definition sample_start :: "account_id \<Rightarrow> game_start_playing_check_operation" where
  "sample_start voter =
     \<lparr>gsp_fee = core_asset 0, gsp_table = 1, gsp_table_owner = 10, gsp_voter = voter,
      gsp_initial_data = \<lparr>gi_cash = fm_of_list [(11, core_asset 100), (12, core_asset 100)], gi_info = []\<rparr>\<rparr>"

definition sample_result :: "account_id \<Rightarrow> game_result_check_operation" where
  "sample_result voter =
     \<lparr>grc_fee = core_asset 0, grc_table = 1, grc_table_owner = 10, grc_voter = voter,
      grc_result = \<lparr>res_cash = fm_of_list
        [(11, \<lparr>gr_cash = core_asset 190, gr_rake = core_asset 10\<rparr>),
         (12, \<lparr>gr_cash = core_asset 0, gr_rake = core_asset 0\<rparr>)], res_log = []\<rparr>\<rparr>"

end
