(* ===== verification/Buy_In_Out.thy ===== *)
theory Buy_In_Out
  imports Scenario
begin

text \<open>
  Buying in and out of a table (\<^verbatim>\<open>buy_in_buy_out_evaluators.cpp\<close>): direct buy-ins, reserved
  buy-ins that the chain later allocates to a table, their cancellation and resolution, buy-outs
  (deferred while the player is in a game), and the expiry of buy-ins. The results: every operation
  keeps the invariant and conserves the funds of every asset, on all branches; a buy-out never pays
  more than the player has at the table; the loop that cancels all reservations of a player ends and
  leaves none.
\<close>

section \<open>Reservations\<close>

definition check_pending_buy_in :: "database \<Rightarrow> bool \<Rightarrow> account_id \<Rightarrow> string \<Rightarrow> unit res" where
  "check_pending_buy_in d exists player uid =
     (let chk = (exists \<noteq> (find_pending_buy_in d player uid = None))
      in if exists then check chk ''Buy-in must exist'' else check chk ''Buy-in must not exist'')"

abbreviation check_pending_buy_in_exists :: "database \<Rightarrow> account_id \<Rightarrow> string \<Rightarrow> unit res" where
  "check_pending_buy_in_exists d \<equiv> check_pending_buy_in d True"

abbreviation check_pending_buy_in_not_exists :: "database \<Rightarrow> account_id \<Rightarrow> string \<Rightarrow> unit res" where
  "check_pending_buy_in_not_exists d \<equiv> check_pending_buy_in d False"

text \<open>The measurement of the room's rating that a reservation started is dropped with it.\<close>

definition remove_measurement :: "pending_buy_in_id \<Rightarrow> database \<Rightarrow> database" where
  "remove_measurement b d =
     (case find_measurement d b of
        None \<Rightarrow> d
      | Some (j, m) \<Rightarrow> d\<lparr>measurements := idx_remove j (measurements d)\<rparr>)"

definition leave_allocated_table :: "pending_buy_in_id \<Rightarrow> pending_buy_in_object \<Rightarrow> database \<Rightarrow> database res" where
  "leave_allocated_table b buy_in d =
     (if is_allocated buy_in then
        ebind (idx_get (tables d) (pb_table buy_in)) (\<lambda>_.
        ebind (get_player d (pb_player buy_in)) (\<lambda>(pid, player).
          modify_table (pb_table buy_in) (\<lambda>t. Inr (remove_pending_proposal pid t))
            (remove_measurement b d)))
      else Inr d)"

definition cancel_pending_buyin :: "pending_buy_in_id \<Rightarrow> database \<Rightarrow> database res" where
  "cancel_pending_buyin b d =
     ebind (idx_get (pending_buy_ins d) b) (\<lambda>buy_in.
     ebind (leave_allocated_table b buy_in d) (\<lambda>d.
     ebind (adjust_balance (pb_player buy_in) (pb_amount buy_in) d) (\<lambda>d.
       Inr (d\<lparr>pending_buy_ins := idx_remove b (pending_buy_ins d)\<rparr>))))"

section \<open>Registered buy-ins\<close>

definition prolong_life_for_by_in :: "nat \<Rightarrow> database \<Rightarrow> database res" where
  "prolong_life_for_by_in j d =
     ebind (idx_get (buy_ins d) j) (\<lambda>b.
       Inr (d\<lparr>buy_ins := idx_set j (b\<lparr>bi_updated := head_block_time d,
              bi_expiration := head_block_time d + buy_in_expiration_seconds (parameters d)\<rparr>) (buy_ins d)\<rparr>))"

definition register_buy_in :: "player_id \<Rightarrow> table_id \<Rightarrow> database \<Rightarrow> database res" where
  "register_buy_in pid tid d =
     (case find_buy_in d tid pid of
        None \<Rightarrow>
          ebind (idx_create (\<lambda>a b. bi_table a = bi_table b \<and> bi_player a = bi_player b)
                   \<lparr>bi_player = pid, bi_table = tid, bi_created = head_block_time d,
                    bi_updated = head_block_time d,
                    bi_expiration = head_block_time d + buy_in_expiration_seconds (parameters d)\<rparr>
                   (buy_ins d)) (\<lambda>(j, ix).
            Inr (d\<lparr>buy_ins := ix\<rparr>))
      | Some (j, b) \<Rightarrow> prolong_life_for_by_in j d)"

definition register_buy_in_alive :: "player_id \<Rightarrow> table_id \<Rightarrow> database \<Rightarrow> database res" where
  "register_buy_in_alive pid tid d = ebind (register_buy_in pid tid d) (alive_for_table tid)"

definition cleanup_buy_ins :: "table_id \<Rightarrow> database \<Rightarrow> database" where
  "cleanup_buy_ins tid d =
     d\<lparr>buy_ins := fold (\<lambda>(j, b). idx_remove j)
                   (filter (\<lambda>(j, b). bi_table b = tid) (idx_items (buy_ins d))) (buy_ins d)\<rparr>"

section \<open>Buying out\<close>

text \<open>
  A player who is not in the game, or has enough cash beside the game, is paid at once; else the
  wish is stored until the game ends.
\<close>

definition buy_out_allowed :: "player_id \<Rightarrow> asset \<Rightarrow> table_object \<Rightarrow> bool res" where
  "buy_out_allowed pid amt t =
     (if \<not> is_playing_player t pid then Inr True
      else case fm_find (cash t) pid of
             Some c \<Rightarrow> asset_le amt c
           | None \<Rightarrow> Inr False)"

definition remove_buy_out :: "player_id \<Rightarrow> table_id \<Rightarrow> database \<Rightarrow> database" where
  "remove_buy_out pid tid d =
     (case find_buy_out d pid tid of
        None \<Rightarrow> d
      | Some (j, b) \<Rightarrow> d\<lparr>pending_buy_outs := idx_remove j (pending_buy_outs d)\<rparr>)"

definition defer_buy_out :: "player_id \<Rightarrow> table_id \<Rightarrow> asset \<Rightarrow> database \<Rightarrow> database res" where
  "defer_buy_out pid tid amt d =
     (if 0 < amount amt then
        (case find_buy_out d pid tid of
           None \<Rightarrow>
             ebind (idx_create (\<lambda>a b. po_player a = po_player b \<and> po_table a = po_table b)
                      \<lparr>po_table = tid, po_player = pid, po_amount = amt\<rparr> (pending_buy_outs d)) (\<lambda>(j, ix).
               Inr (d\<lparr>pending_buy_outs := ix\<rparr>))
         | Some (j, b) \<Rightarrow>
             Inr (d\<lparr>pending_buy_outs := idx_set j (b\<lparr>po_amount := amt\<rparr>) (pending_buy_outs d)\<rparr>))
      else Inr (remove_buy_out pid tid d))"

definition buy_out_table :: "player_id \<Rightarrow> account_id \<Rightarrow> table_id \<Rightarrow> asset \<Rightarrow> database \<Rightarrow> database res" where
  "buy_out_table pid account tid amt d =
     ebind (idx_get (tables d) tid) (\<lambda>t.
     ebind (buy_out_allowed pid amt t) (\<lambda>allow.
       if allow then
         ebind (adjust_balance account amt d) (\<lambda>d1.
         ebind (modify_table tid (\<lambda>t. ebind (asset_neg amt) (\<lambda>m. adjust_cash pid m t)) d1) (\<lambda>d2.
           Inr (remove_buy_out pid tid d2)))
       else defer_buy_out pid tid amt d))"

text \<open>The buy-in is dropped when nothing is left at the table, else its life is prolonged.\<close>

definition close_or_prolong :: "nat \<Rightarrow> table_id \<Rightarrow> player_id \<Rightarrow> account_id \<Rightarrow> asset \<Rightarrow> database \<Rightarrow> database res" where
  "close_or_prolong j tid pid account amt d =
     ebind (idx_get (tables d) tid) (\<lambda>t.
       if amount (get_cash_balance t pid) < 1 then
         ebind (if 0 < amount amt
                then ebind (table_owner d t) (\<lambda>owner.
                  Inr (push_applied_operation (Buy_in_expire account tid owner amt) d))
                else Inr d) (\<lambda>d.
           Inr (d\<lparr>buy_ins := idx_remove j (buy_ins d)\<rparr>))
       else prolong_life_for_by_in j d)"

definition expire_buy_in :: "nat \<Rightarrow> table_id \<Rightarrow> database \<Rightarrow> database res" where
  "expire_buy_in j tid d =
     ebind (idx_get (buy_ins d) j) (\<lambda>b.
     ebind (idx_get (players d) (bi_player b)) (\<lambda>player.
     ebind (idx_get (tables d) tid) (\<lambda>t.
       let pid = bi_player b; amt = get_cash_balance t pid
       in ebind (if 0 < amount amt then buy_out_table pid (pl_account player) tid amt d else Inr d)
            (close_or_prolong j tid pid (pl_account player) amt))))"

section \<open>The evaluators\<close>

definition buy_in_table_evaluate :: "database \<Rightarrow> buy_in_table_operation \<Rightarrow> unit res" where
  "buy_in_table_evaluate d op =
     ebind (check (is_player_exists d (bit_player op)) ''Only player can participate game'') (\<lambda>_.
     ebind (check (is_table_exists d (bit_table op)) ''Table does not exist'') (\<lambda>_.
     ebind (is_table_id_owner d (bit_table_owner op) (bit_table op)) (\<lambda>own.
     ebind (check own ''Wrong table owner'') (\<lambda>_.
     ebind (idx_get (tables d) (bit_table op)) (\<lambda>t.
     ebind (table_owner d t) (\<lambda>owner.
       check (owner \<noteq> bit_player op) ''Can't buyin to own table''))))))"

definition buy_in_table_apply :: "buy_in_table_operation \<Rightarrow> database \<Rightarrow> database res" where
  "buy_in_table_apply op d =
     ebind (get_player d (bit_player op)) (\<lambda>(pid, player).
     ebind (asset_neg (bit_amount op)) (\<lambda>m.
     ebind (adjust_balance (bit_player op) m d) (\<lambda>d.
     ebind (modify_table (bit_table op) (adjust_cash pid (bit_amount op)) d) (\<lambda>d.
       register_buy_in_alive pid (bit_table op) d))))"

definition buy_out_table_evaluate :: "database \<Rightarrow> buy_out_table_operation \<Rightarrow> unit res" where
  "buy_out_table_evaluate d op =
     ebind (check (is_player_exists d (bot_player op)) ''Only player can out game'') (\<lambda>_.
     ebind (check (is_table_exists d (bot_table op)) ''Table does not exist'') (\<lambda>_.
     ebind (is_table_id_owner d (bot_table_owner op) (bot_table op)) (\<lambda>own.
     ebind (check own ''Wrong table owner'') (\<lambda>_.
     ebind (get_player d (bot_player op)) (\<lambda>(pid, player).
     ebind (idx_get (tables d) (bot_table op)) (\<lambda>t.
     ebind (check (is_waiting_at_table t pid \<or> is_playing_player t pid)
              ''There is no the player at the table'') (\<lambda>_.
       if \<not> is_playing_player t pid then
         ebind (of_option Null_deref (fm_find (cash t) pid)) (\<lambda>c.
         ebind (asset_le (bot_amount op) c) (\<lambda>le. check le ''Insufficient funds''))
       else Inr ())))))))"

definition buy_out_table_apply :: "buy_out_table_operation \<Rightarrow> database \<Rightarrow> database res" where
  "buy_out_table_apply op d =
     ebind (get_player d (bot_player op)) (\<lambda>(pid, player).
       buy_out_table pid (pl_account player) (bot_table op) (bot_amount op) d)"

definition count_pending_buy_ins :: "database \<Rightarrow> account_id \<Rightarrow> nat" where
  "count_pending_buy_ins d player =
     length (filter (\<lambda>(i, b). pb_player b = player) (idx_items (pending_buy_ins d)))"

definition buy_in_reserve_evaluate :: "database \<Rightarrow> buy_in_reserve_operation \<Rightarrow> unit res" where
  "buy_in_reserve_evaluate d op =
     ebind (version_ext_from_variant (bir_protocol_version op) new_version_ext) (\<lambda>_.
     ebind (check (is_player_exists d (bir_player op)) ''Only player can reserve place'') (\<lambda>_.
     ebind (check_pending_buy_in_not_exists d (bir_player op) (bir_uid op)) (\<lambda>_.
       check (count_pending_buy_ins d (bir_player op) < amount_reserving_places_per_user (parameters d))
         ''Limit is exceeded. Client Code = 20180011'')))"

definition buy_in_reserve_apply :: "buy_in_reserve_operation \<Rightarrow> database \<Rightarrow> database res" where
  "buy_in_reserve_apply op d =
     ebind (idx_get (pending_buy_ins d) PLAYCHAIN_NULL_PENDING_BUYIN) (\<lambda>_.
     ebind (get_player d (bir_player op)) (\<lambda>(pid, player).
     ebind (asset_neg (bir_amount op)) (\<lambda>m.
     ebind (adjust_balance (bir_player op) m d) (\<lambda>d.
     ebind (version_ext_from_variant (bir_protocol_version op) new_version_ext) (\<lambda>v.
     ebind (idx_create (\<lambda>a b. pb_player a = pb_player b \<and> pb_uid a = pb_uid b)
              \<lparr>pb_player = bir_player op, pb_uid = bir_uid op, pb_amount = bir_amount op,
               pb_metadata = bir_metadata op, pb_protocol_version = v, pb_created = head_block_time d,
               pb_expiration =
                 head_block_time d + pending_buyin_proposal_lifetime_limit_in_seconds (parameters d),
               pb_table = PLAYCHAIN_NULL_TABLE, pb_player_iternal = pid\<rparr>
              (pending_buy_ins d)) (\<lambda>(b, ix).
       Inr (d\<lparr>pending_buy_ins := ix\<rparr>)))))))"

definition buy_in_cancel_evaluate :: "database \<Rightarrow> buy_in_reserving_cancel_operation \<Rightarrow> unit res" where
  "buy_in_cancel_evaluate d op =
     ebind (check (is_player_exists d (brc_player op)) ''Only player can cancel place reserving'') (\<lambda>_.
       check_pending_buy_in_exists d (brc_player op) (brc_uid op))"

definition buy_in_cancel_apply :: "buy_in_reserving_cancel_operation \<Rightarrow> database \<Rightarrow> database res" where
  "buy_in_cancel_apply op d =
     ebind (of_option Null_deref (find_pending_buy_in d (brc_player op) (brc_uid op))) (\<lambda>(b, buy_in).
       cancel_pending_buyin b d)"

definition buy_in_reserving_resolve_evaluate ::
    "database \<Rightarrow> buy_in_reserving_resolve_operation \<Rightarrow> unit res" where
  "buy_in_reserving_resolve_evaluate d op =
     ebind (check (is_table_exists d (brr_table op)) ''Table does not exist'') (\<lambda>_.
     ebind (idx_get (tables d) (brr_table op)) (\<lambda>t.
     ebind (is_table_id_owner d (brr_table_owner op) (brr_table op)) (\<lambda>own.
     ebind (check own ''Wrong table owner'') (\<lambda>_.
     ebind (check (is_pending_buy_in_exists d (brr_pending_buyin op)) ''Pending buy-in does not exist'') (\<lambda>_.
     ebind (idx_get (pending_buy_ins d) (brr_pending_buyin op)) (\<lambda>buyin.
     ebind (get_player d (pb_player buyin)) (\<lambda>(pid, player).
       check (fm_find (pending_proposals t) pid = Some (brr_pending_buyin op))
         ''Pending buy-in does not exist at table'')))))))"

definition resolve_measurement :: "pending_buy_in_id \<Rightarrow> database \<Rightarrow> database" where
  "resolve_measurement b d =
     (case find_measurement d b of
        None \<Rightarrow> d
      | Some (j, m) \<Rightarrow>
          d\<lparr>measurements := idx_set j (m\<lparr>ms_waiting_resolve := False, ms_weight := 1\<rparr>) (measurements d)\<rparr>)"

definition buy_in_reserving_resolve_apply ::
    "buy_in_reserving_resolve_operation \<Rightarrow> database \<Rightarrow> database res" where
  "buy_in_reserving_resolve_apply op d =
     ebind (idx_get (tables d) (brr_table op)) (\<lambda>_.
     ebind (idx_get (pending_buy_ins d) (brr_pending_buyin op)) (\<lambda>buyin.
     ebind (get_player d (pb_player buyin)) (\<lambda>(pid, player).
     ebind (modify_table (brr_table op)
              (\<lambda>t. adjust_cash pid (pb_amount buyin) (remove_pending_proposal pid t))
              (resolve_measurement (brr_pending_buyin op) d)) (\<lambda>d.
       register_buy_in_alive pid (brr_table op)
         (d\<lparr>pending_buy_ins := idx_remove (brr_pending_buyin op) (pending_buy_ins d)\<rparr>)))))"

definition buy_in_reserving_cancel_all_evaluate ::
    "database \<Rightarrow> buy_in_reserving_cancel_all_operation \<Rightarrow> unit res" where
  "buy_in_reserving_cancel_all_evaluate d op =
     ebind (check (is_player_exists d (bra_player op)) ''Only player can cancel place reserving'') (\<lambda>_.
       check (0 < count_pending_buy_ins d (bra_player op)) ''There no any pending buyin'')"

section \<open>Which parts of the state change\<close>

lemma measurement_same_funds [simp]:
  "same_funds d (remove_measurement b d)" "same_funds d (resolve_measurement b d)"
  by (simp_all add: remove_measurement_def resolve_measurement_def split: option.split)

lemma measurement_frame [simp]:
  "tables (remove_measurement b d) = tables d" "tables (resolve_measurement b d) = tables d"
  "pending_buy_ins (remove_measurement b d) = pending_buy_ins d"
  "pending_buy_ins (resolve_measurement b d) = pending_buy_ins d"
  "tables (remove_buy_out pid tid d) = tables d"
  by (simp_all add: remove_measurement_def resolve_measurement_def remove_buy_out_def split: option.split)

lemma buy_outs_conserves:
  "(idx_all (\<lambda>b. 0 \<le> amount (po_amount b)) (pending_buy_outs d) \<Longrightarrow> idx_all (\<lambda>b. 0 \<le> amount (po_amount b)) ix) \<Longrightarrow>
     conserves d (d\<lparr>pending_buy_outs := ix\<rparr>)"
  by (simp add: gives_def db_ok_def balances_ok_def held_def)

lemma remove_buy_out_conserves: "conserves d (remove_buy_out pid tid d)"
  by (auto simp: remove_buy_out_def intro: buy_outs_conserves wf_intros split: option.split)

lemma defer_buy_out_conserves: "defer_buy_out pid tid amt d = Inr d' \<Longrightarrow> conserves d d'"
  by (auto simp: defer_buy_out_def ebind_Inr split: if_splits option.splits
      intro!: buy_outs_conserves remove_buy_out_conserves intro: idx_all_create wf_intros)

lemma prolong_life_same_funds: "prolong_life_for_by_in j d = Inr d' \<Longrightarrow> same_funds d d'"
  by (auto simp: prolong_life_for_by_in_def res_simps)

lemma register_buy_in_same_funds: "register_buy_in pid tid d = Inr d' \<Longrightarrow> same_funds d d'"
  by (auto simp: register_buy_in_def ebind_Inr split: option.splits intro: prolong_life_same_funds)

lemma register_buy_in_alive_conserves:
  assumes "register_buy_in_alive pid tid d = Inr d'"
  shows "conserves d d'"
proof -
  obtain e where e: "register_buy_in pid tid d = Inr e" and "alive_for_table tid e = Inr d'"
    using assms by (auto simp: register_buy_in_alive_def ebind_Inr)
  then show ?thesis
    using register_buy_in_same_funds [OF e] alive_for_table_conserves
    by (simp add: gives_same_funds_left [symmetric])
qed

lemma cleanup_buy_ins_same_funds [simp]: "same_funds d (cleanup_buy_ins tid d)"
  by (simp add: cleanup_buy_ins_def)

section \<open>Cancelling a reservation\<close>

lemma leave_allocated_table_conserves:
  assumes "leave_allocated_table b buy_in d = Inr d'"
  shows "conserves d d'"
proof (cases "is_allocated buy_in")
  case True
  then obtain pid t where t: "idx_find (tables d) (pb_table buy_in) = Some t"
    and d': "d' = set_table (pb_table buy_in) (remove_pending_proposal pid t) (remove_measurement b d)"
    using assms by (auto simp: leave_allocated_table_def res_simps)
  have "conserves (remove_measurement b d) d'"
    unfolding d' by (rule set_table_gives) (use t in \<open>auto intro: wf_intros\<close>)
  then show ?thesis by (rule gives_pre [rotated]) simp
qed (use assms in \<open>simp add: leave_allocated_table_def\<close>)

lemma leave_allocated_table_frame:
  assumes "leave_allocated_table b buy_in d = Inr d'"
  shows "pending_buy_ins d' = pending_buy_ins d"
  using assms by (auto simp: leave_allocated_table_def res_simps split: if_splits)

lemma remove_pending_buy_in_gives:
  assumes "idx_find (pending_buy_ins d) b = Some buy_in"
  shows "gives (\<lambda>x. - funds x (pb_amount buy_in)) d (d\<lparr>pending_buy_ins := idx_remove b (pending_buy_ins d)\<rparr>)"
  using assms by (auto simp: gives_def db_ok_def balances_ok_def held_def intro: wf_intros)

lemma cancel_pending_buyin_frame:
  assumes "cancel_pending_buyin b d = Inr d'"
  shows "b \<in> fm_keys (objs (pending_buy_ins d))"
    and "pending_buy_ins d' = idx_remove b (pending_buy_ins d)"
  using assms leave_allocated_table_frame adjust_balance_frame(6)
  by (fastforce simp: cancel_pending_buyin_def res_simps idx_find_def intro: fm_find_Some_keys)+

lemma cancel_pending_buyin_conserves:
  assumes "cancel_pending_buyin b d = Inr d'"
  shows "conserves d d'"
proof -
  obtain buy_in e f where b: "idx_find (pending_buy_ins d) b = Some buy_in"
    and e: "leave_allocated_table b buy_in d = Inr e"
    and f: "adjust_balance (pb_player buy_in) (pb_amount buy_in) e = Inr f"
    and d': "d' = f\<lparr>pending_buy_ins := idx_remove b (pending_buy_ins f)\<rparr>"
    using assms by (auto simp: cancel_pending_buyin_def res_simps)
  have "idx_find (pending_buy_ins f) b = Some buy_in"
    using b leave_allocated_table_frame [OF e] adjust_balance_frame(6) [OF f] by simp
  then have "gives (\<lambda>x. - funds x (pb_amount buy_in)) f d'"
    unfolding d' by (rule remove_pending_buy_in_gives)
  with adjust_balance_gives [OF f] have "conserves e d'"
    by (auto dest: gives_trans)
  then show ?thesis
    using leave_allocated_table_conserves [OF e] by (blast intro: conserves_trans)
qed

text \<open>
  \<^verbatim>\<open>while (itr != end) { cancel; itr = find(player); }\<close>: each round removes one reservation, so the
  loop ends.
\<close>

function cancel_all_loop :: "account_id \<Rightarrow> database \<Rightarrow> database res" where
  "cancel_all_loop player d =
     (case idx_lookup (\<lambda>i b. pb_player b = player) (pending_buy_ins d) of
        None \<Rightarrow> Inr d
      | Some (b, buy_in) \<Rightarrow> ebind (cancel_pending_buyin b d) (cancel_all_loop player))"
  by pat_completeness auto

termination
proof (relation "measure (\<lambda>(player, d). card (fm_keys (objs (pending_buy_ins d))))")
  fix player d b buy_in d'
  assume "cancel_pending_buyin b d = Inr d'"
  note f = cancel_pending_buyin_frame [OF this]
  then have "card (fm_keys (objs (pending_buy_ins d'))) < card (fm_keys (objs (pending_buy_ins d)))"
    by (simp add: idx_remove_def card_Diff1_less del: card_Diff_insert)
  then show "((player, d'), (player, d)) \<in> measure (\<lambda>(player, d). card (fm_keys (objs (pending_buy_ins d))))"
    by simp
qed simp

declare cancel_all_loop.simps [simp del]

definition buy_in_reserving_cancel_all_apply ::
    "buy_in_reserving_cancel_all_operation \<Rightarrow> database \<Rightarrow> database res" where
  "buy_in_reserving_cancel_all_apply op d = cancel_all_loop (bra_player op) d"

lemma cancel_all_loop_cases:
  assumes "cancel_all_loop player d = Inr d'"
  obtains (none) "idx_lookup (\<lambda>i b. pb_player b = player) (pending_buy_ins d) = None" "d' = d"
    | (step) b buy_in e where
      "idx_lookup (\<lambda>i b. pb_player b = player) (pending_buy_ins d) = Some (b, buy_in)"
      "cancel_pending_buyin b d = Inr e" "cancel_all_loop player e = Inr d'"
proof (cases "idx_lookup (\<lambda>i b. pb_player b = player) (pending_buy_ins d)")
  case None
  moreover have "d' = d"
    using assms by (subst (asm) cancel_all_loop.simps) (simp add: None)
  ultimately show ?thesis by (rule none)
next
  case (Some r)
  obtain b buy_in where r: "r = (b, buy_in)" by (cases r)
  have "ebind (cancel_pending_buyin b d) (cancel_all_loop player) = Inr d'"
    using assms by (subst (asm) cancel_all_loop.simps) (simp add: Some r)
  then show ?thesis using Some r by (auto simp: ebind_Inr intro: step)
qed

lemma cancel_all_loop_conserves: "cancel_all_loop player d = Inr d' \<Longrightarrow> conserves d d'"
proof (induction player d rule: cancel_all_loop.induct)
  case (1 player d)
  from "1.prems" show ?case
  proof (cases rule: cancel_all_loop_cases)
    case (step b buy_in e)
    from 1(1) [OF step(1) refl step(2,3)] cancel_pending_buyin_conserves [OF step(2)]
    show ?thesis by (blast intro: conserves_trans)
  qed simp
qed

lemma cancel_all_loop_leaves_none:
  "cancel_all_loop player d = Inr d' \<Longrightarrow>
     idx_find (pending_buy_ins d') b = Some buy_in \<Longrightarrow> pb_player buy_in \<noteq> player"
proof (induction player d rule: cancel_all_loop.induct)
  case (1 player d)
  from "1.prems"(1) show ?case
  proof (cases rule: cancel_all_loop_cases)
    case none
    then show ?thesis using "1.prems"(2) by (simp add: idx_lookup_None)
  next
    case (step b buy_in e)
    from 1(1) [OF step(1) refl step(2,3) "1.prems"(2)] show ?thesis .
  qed
qed

section \<open>The evaluators conserve the funds\<close>

lemma adjust_cash_gives:
  assumes "modify_table tid (adjust_cash pid amt) d = Inr d'"
    and "\<And>t. idx_find (tables d) tid = Some t \<Longrightarrow> table_ok t \<Longrightarrow>
           0 \<le> amount (get_cash_balance t pid) + amount amt"
  shows "gives (\<lambda>x. funds x amt) d d'"
  using assms by (auto simp: modify_table_Inr adjust_cash_funds intro!: set_table_gives intro: adjust_cash_ok)

lemma get_cash_balance_nonneg: "table_ok t \<Longrightarrow> 0 \<le> amount (get_cash_balance t pid)"
  by (auto simp: get_cash_balance_def table_ok_def split: option.split dest: cash_okD)

lemma buy_in_table_conserves:
  assumes "buy_in_table_apply op d = Inr d'" and "0 < amount (bit_amount op)"
  shows "conserves d d'"
proof -
  obtain pid m e f where m: "asset_neg (bit_amount op) = Inr m"
    and e: "adjust_balance (bit_player op) m d = Inr e"
    and f: "modify_table (bit_table op) (adjust_cash pid (bit_amount op)) e = Inr f"
    and d': "register_buy_in_alive pid (bit_table op) f = Inr d'"
    using assms(1) by (auto simp: buy_in_table_apply_def ebind_Inr)
  have "gives (\<lambda>x. funds x (bit_amount op)) e f"
    using f by (rule adjust_cash_gives) (use assms(2) get_cash_balance_nonneg in force)
  with adjust_balance_gives [OF e] have "conserves d f"
    by (auto simp: funds_neg [OF m] dest: gives_trans)
  with register_buy_in_alive_conserves [OF d'] show ?thesis by (blast intro: conserves_trans)
qed

lemma buy_out_table_conserves:
  assumes "buy_out_table pid account tid amt d = Inr d'"
    and "\<And>t. idx_find (tables d) tid = Some t \<Longrightarrow> \<not> is_playing_player t pid \<Longrightarrow>
           amount amt \<le> amount (get_cash_balance t pid)"
  shows "conserves d d'"
proof -
  obtain t allow where t: "idx_find (tables d) tid = Some t"
    and allow: "buy_out_allowed pid amt t = Inr allow"
    using assms(1) by (auto simp: buy_out_table_def res_simps)
  show ?thesis
  proof (cases allow)
    case False
    then have "defer_buy_out pid tid amt d = Inr d'"
      using assms(1) t allow by (simp add: buy_out_table_def idx_get_def)
    then show ?thesis by (rule defer_buy_out_conserves)
  next
    case True
    then have le: "amount amt \<le> amount (get_cash_balance t pid)"
      using allow assms(2) [OF t]
      by (auto simp: buy_out_allowed_def get_cash_balance_def res_simps split: if_splits option.splits)
    obtain e m f where e: "adjust_balance account amt d = Inr e" and m: "asset_neg amt = Inr m"
      and f: "modify_table tid (adjust_cash pid m) e = Inr f" and d': "d' = remove_buy_out pid tid f"
      using assms(1) t allow True
      by (cases "asset_neg amt") (auto simp: buy_out_table_def idx_get_def ebind_Inr modify_table_def)
    have "gives (\<lambda>x. funds x m) e f"
      using f by (rule adjust_cash_gives)
        (use t le m adjust_balance_frame(1) [OF e] in \<open>auto simp: asset_neg_Inr\<close>)
    with adjust_balance_gives [OF e] have "conserves d f"
      by (auto simp: funds_neg [OF m] dest: gives_trans)
    then show ?thesis unfolding d' using remove_buy_out_conserves by (blast intro: conserves_trans)
  qed
qed

lemma buy_out_op_conserves:
  assumes "buy_out_table_evaluate d op = Inr u" and "buy_out_table_apply op d = Inr d'"
  shows "conserves d d'"
proof -
  obtain pid player t where p: "get_player d (bot_player op) = Inr (pid, player)"
    and t: "idx_find (tables d) (bot_table op) = Some t"
    and g: "\<not> is_playing_player t pid \<Longrightarrow> amount (bot_amount op) \<le> amount (get_cash_balance t pid)"
    using assms(1)
    by (auto simp: buy_out_table_evaluate_def res_simps get_cash_balance_def split: if_splits)
  have "buy_out_table pid (pl_account player) (bot_table op) (bot_amount op) d = Inr d'"
    using assms(2) p by (simp add: buy_out_table_apply_def)
  then show ?thesis by (rule buy_out_table_conserves) (use t g in simp)
qed

lemma create_pending_buy_in_gives:
  assumes "idx_create clash b (pending_buy_ins d) = Inr (i, ix)" and "0 \<le> amount (pb_amount b)"
  shows "gives (\<lambda>x. funds x (pb_amount b)) d (d\<lparr>pending_buy_ins := ix\<rparr>)"
  using idx_sum_create [OF assms(1)] idx_all_create [OF assms(1)] assms(2)
  by (simp add: gives_def db_ok_def balances_ok_def held_def)

lemma buy_in_reserve_conserves:
  assumes "buy_in_reserve_apply op d = Inr d'" and "0 < amount (bir_amount op)"
  shows "conserves d d'"
proof -
  obtain m e clash b i ix where m: "asset_neg (bir_amount op) = Inr m"
    and e: "adjust_balance (bir_player op) m d = Inr e"
    and c: "idx_create clash b (pending_buy_ins e) = Inr (i, ix)" "pb_amount b = bir_amount op"
    and d': "d' = e\<lparr>pending_buy_ins := ix\<rparr>"
    using assms(1) unfolding buy_in_reserve_apply_def ebind_Inr
    by (elim exE conjE) (force simp: ebind_Inr split: prod.splits)
  have "gives (\<lambda>x. funds x (bir_amount op)) e d'"
    using create_pending_buy_in_gives [OF c(1)] assms(2) by (simp add: c(2) d')
  with adjust_balance_gives [OF e] show ?thesis
    by (auto simp: funds_neg [OF m] dest: gives_trans)
qed

lemma buy_in_cancel_conserves: "buy_in_cancel_apply op d = Inr d' \<Longrightarrow> conserves d d'"
  by (auto simp: buy_in_cancel_apply_def res_simps intro: cancel_pending_buyin_conserves)

lemma buy_in_reserving_cancel_all_conserves:
  "buy_in_reserving_cancel_all_apply op d = Inr d' \<Longrightarrow> conserves d d'"
  by (auto simp: buy_in_reserving_cancel_all_apply_def intro: cancel_all_loop_conserves)

lemma seat_reserved_gives:
  assumes "modify_table tid (\<lambda>t. adjust_cash pid amt (remove_pending_proposal pid t)) d = Inr d'"
    and "0 \<le> amount amt"
  shows "gives (\<lambda>x. funds x amt) d d'"
proof -
  obtain t t' where t: "idx_find (tables d) tid = Some t"
    and a: "adjust_cash pid amt (remove_pending_proposal pid t) = Inr t'" and d': "d' = set_table tid t' d"
    using assms(1) by (auto simp: modify_table_Inr)
  have "0 \<le> amount (get_cash_balance (remove_pending_proposal pid t) pid) + amount amt" if "table_ok t"
    using get_cash_balance_nonneg [OF remove_pending_proposal_ok [OF that]] assms(2) by (simp add: add_nonneg_nonneg)
  then show ?thesis
    unfolding d' using t adjust_cash_funds [OF a] adjust_cash_ok [OF a]
    by (auto intro!: set_table_gives intro: remove_pending_proposal_ok)
qed

lemma buy_in_reserving_resolve_conserves:
  assumes "buy_in_reserving_resolve_apply op d = Inr d'"
  shows "conserves d d'"
proof -
  let ?b = "brr_pending_buyin op"
  obtain buyin pid e where b: "idx_find (pending_buy_ins d) ?b = Some buyin"
    and e: "modify_table (brr_table op) (\<lambda>t. adjust_cash pid (pb_amount buyin) (remove_pending_proposal pid t))
              (resolve_measurement ?b d) = Inr e"
    and r: "register_buy_in_alive pid (brr_table op)
              (e\<lparr>pending_buy_ins := idx_remove ?b (pending_buy_ins e)\<rparr>) = Inr d'"
    using assms by (auto simp: buy_in_reserving_resolve_apply_def ebind_Inr idx_get_Inr)
  let ?f = "e\<lparr>pending_buy_ins := idx_remove ?b (pending_buy_ins e)\<rparr>"
  have eb: "idx_find (pending_buy_ins e) ?b = Some buyin"
    using e b by (auto simp: modify_table_Inr)
  have "conserves d ?f" if "db_ok d"
  proof -
    have "0 \<le> amount (pb_amount buyin)"
      using that b by (auto simp: db_ok_def dest: idx_allD)
    from gives_pre [OF _ seat_reserved_gives [OF e this]]
    have "gives (\<lambda>x. funds x (pb_amount buyin)) d e" by simp
    from gives_trans [OF this remove_pending_buy_in_gives [OF eb]] show ?thesis by simp
  qed
  then have "conserves d ?f" by (auto simp: gives_def)
  with register_buy_in_alive_conserves [OF r] show ?thesis by (blast intro: conserves_trans)
qed

lemma close_or_prolong_same_funds: "close_or_prolong j tid pid a amt d = Inr d' \<Longrightarrow> same_funds d d'"
  unfolding close_or_prolong_def
  by (auto simp: ebind_Inr split: if_splits intro: prolong_life_same_funds)

lemma expire_buy_in_conserves:
  assumes "expire_buy_in j tid d = Inr d'"
  shows "conserves d d'"
proof -
  obtain b player t e where "idx_find (buy_ins d) j = Some b"
    and "idx_find (players d) (bi_player b) = Some player" and t: "idx_find (tables d) tid = Some t"
    and e: "(if 0 < amount (get_cash_balance t (bi_player b))
             then buy_out_table (bi_player b) (pl_account player) tid (get_cash_balance t (bi_player b)) d
             else Inr d) = Inr e"
    and c: "close_or_prolong j tid (bi_player b) (pl_account player) (get_cash_balance t (bi_player b)) e = Inr d'"
    using assms unfolding expire_buy_in_def Let_def ebind_Inr idx_get_Inr
    by (elim exE conjE) (rule that)
  have "conserves d e"
  proof (cases "0 < amount (get_cash_balance t (bi_player b))")
    case True
    then have "buy_out_table (bi_player b) (pl_account player) tid (get_cash_balance t (bi_player b)) d = Inr e"
      using e by simp
    then show ?thesis by (rule buy_out_table_conserves) (simp add: t)
  qed (use e in simp)
  then show ?thesis using close_or_prolong_same_funds [OF c] by (rule gives_post)
qed

end
