(* ===== verification/Voting.thy ===== *)
theory Voting
  imports Buy_In_Out
begin

text \<open>
  Voting at a table (\<^verbatim>\<open>game_evaluators_impl.cpp\<close>): who may vote, what a vote must satisfy
  (\<^verbatim>\<open>validate_ivariants\<close>), how votes are collected while players, witnesses and the table owner
  send them, and how the collected votes are tallied (\<^verbatim>\<open>voting_impl\<close>). The digest of a vote, \<^verbatim>\<open>fc::ripemd160\<close> of
  its serialization, is one of the externals. Nothing is assumed of it; what the theorems say of equal votes they say
  of votes with equal digests.
\<close>

section \<open>Votes\<close>

fun vote_table :: "vote_op \<Rightarrow> table_id" where
  "vote_table (Vote_start op) = gsp_table op"
| "vote_table (Vote_result op) = grc_table op"

fun vote_table_owner :: "vote_op \<Rightarrow> account_id" where
  "vote_table_owner (Vote_start op) = gsp_table_owner op"
| "vote_table_owner (Vote_result op) = grc_table_owner op"

fun vote_voter :: "vote_op \<Rightarrow> account_id" where
  "vote_voter (Vote_start op) = gsp_voter op"
| "vote_voter (Vote_result op) = grc_voter op"

fun vote_data :: "vote_op \<Rightarrow> voting_data" where
  "vote_data (Vote_start op) = Initial (gsp_initial_data op)"
| "vote_data (Vote_result op) = Result (grc_result op)"

fun same_vote_kind :: "vote_op \<Rightarrow> vote_op \<Rightarrow> bool" where
  "same_vote_kind (Vote_start _) (Vote_start _) = True"
| "same_vote_kind (Vote_result _) (Vote_result _) = True"
| "same_vote_kind _ _ = False"

fun is_valid_voter :: "database \<Rightarrow> table_object \<Rightarrow> vote_op \<Rightarrow> bool res" where
  "is_valid_voter d t op =
     ebind (check (is_player_exists d (vote_voter op)) ''Invalid player'') (\<lambda>_.
     ebind (get_player d (vote_voter op)) (\<lambda>(pid, player).
       Inr (case op of Vote_start _ \<Rightarrow> is_waiting_at_table t pid | Vote_result _ \<Rightarrow> is_playing_player t pid)))"

section \<open>What a vote must satisfy\<close>

text \<open>
  The players of a vote to start a game: each has a positive amount and cash at the table. The first
  component of the result is false when one of them fails.
\<close>

fun collect_initial :: "database \<Rightarrow> table_object \<Rightarrow> (account_id \<times> asset) list \<Rightarrow>
    (player_id, asset) flat_map \<Rightarrow> bool \<times> (player_id, asset) flat_map" where
  "collect_initial d t [] m = (True, m)"
| "collect_initial d t ((account, c) # rest) m =
     (if amount c \<le> 0 then (False, m)
      else case find_player d account of
             None \<Rightarrow> (False, m)
           | Some (pid, player) \<Rightarrow>
               if \<not> fm_count (cash t) pid then (False, m)
               else collect_initial d t rest (fm_put pid c m))"

text \<open>Every matched player has at least the amount of the vote at the table.\<close>

fun enough_cash :: "(player_id \<times> asset) list \<Rightarrow> (player_id, asset) flat_map \<Rightarrow> bool res" where
  "enough_cash [] m = Inr True"
| "enough_cash ((pid, c) # rest) m =
     (case fm_find m pid of
        None \<Rightarrow> enough_cash rest m
      | Some v \<Rightarrow> ebind (asset_less c v) (\<lambda>l. if l then Inr False else enough_cash rest m))"

text \<open>The players of the vote of the table owner, before hard fork 11.\<close>

fun etalon_players :: "database \<Rightarrow> (account_id \<times> asset) list \<Rightarrow> player_id flat_set \<Rightarrow> player_id flat_set res" where
  "etalon_players d [] s = Inr s"
| "etalon_players d ((account, c) # rest) s =
     ebind (get_player d account) (\<lambda>(pid, player). etalon_players d rest (fs_insert pid s))"

definition matches_etalon :: "database \<Rightarrow> table_id \<Rightarrow> (player_id, asset) flat_map \<Rightarrow> bool res" where
  "matches_etalon d tid cash_initial =
     (case find_voting d tid of
        Some (j, tv) \<Rightarrow>
          (case tv_etalon_vote tv of
             Some (Initial e) \<Rightarrow>
               if fm_size cash_initial \<noteq> fm_size (gi_cash e) then Inr False
               else ebind (etalon_players d (fm_items (gi_cash e)) fm_empty) (\<lambda>s.
                      Inr (list_all (\<lambda>pid. fm_count cash_initial pid) (fs_items s)))
           | _ \<Rightarrow> Inr True)
      | None \<Rightarrow> Inr True)"

definition validate_initial :: "database \<Rightarrow> table_id \<Rightarrow> table_object \<Rightarrow> game_initial_data \<Rightarrow> bool res" where
  "validate_initial d tid t i =
     (if fm_is_empty (gi_cash i) then Inr (head_block_time d < HARDFORK_PLAYCHAIN_6_TIME)
      else case collect_initial d t (fm_items (gi_cash i)) fm_empty of
             (False, _) \<Rightarrow> Inr False
           | (True, cash_initial) \<Rightarrow>
               ebind (enough_cash (fm_items (cash t)) cash_initial) (\<lambda>enough.
                 if \<not> enough then Inr False
                 else if HARDFORK_PLAYCHAIN_1_TIME \<le> head_block_time d
                      then matches_etalon d tid cash_initial
                      else Inr True))"

fun collect_result :: "database \<Rightarrow> (account_id \<times> gamer_cash_result) list \<Rightarrow>
    (player_id, asset) flat_map \<Rightarrow> bool \<times> (player_id, asset) flat_map" where
  "collect_result d [] m = (True, m)"
| "collect_result d ((account, r) # rest) m =
     (if amount (gr_cash r) < 0 \<or> amount (gr_rake r) < 0 then (False, m)
      else case find_player d account of
             None \<Rightarrow> (False, m)
           | Some (pid, player) \<Rightarrow> collect_result d rest (fm_put pid (gr_cash r) m))"

text \<open>What the matched players brought into the game and what the result gives them and the room.\<close>

fun sum_balances :: "database \<Rightarrow> (account_id, gamer_cash_result) flat_map \<Rightarrow>
    (player_id \<times> asset) list \<Rightarrow> asset \<times> asset \<Rightarrow> (asset \<times> asset) res" where
  "sum_balances d rs [] acc = Inr acc"
| "sum_balances d rs ((pid, c) # rest) (in_balance, out_balance) =
     ebind (asset_plus in_balance c) (\<lambda>in_balance.
     ebind (idx_get (players d) pid) (\<lambda>player.
     ebind (of_option Not_found (fm_find rs (pl_account player))) (\<lambda>r.
     ebind (asset_plus out_balance (gr_cash r)) (\<lambda>out_balance.
     ebind (asset_plus out_balance (gr_rake r)) (\<lambda>out_balance.
       sum_balances d rs rest (in_balance, out_balance))))))"

definition validate_result :: "database \<Rightarrow> table_object \<Rightarrow> game_result \<Rightarrow> bool res" where
  "validate_result d t r =
     (if fm_is_empty (res_cash r) then Inr True
      else case collect_result d (fm_items (res_cash r)) fm_empty of
             (False, _) \<Rightarrow> Inr False
           | (True, cash_result) \<Rightarrow>
               let matched = filter (\<lambda>(pid, c). fm_count cash_result pid) (fm_items (playing_cash t))
               in if length matched \<noteq> fm_size cash_result then Inr False
                  else ebind (sum_balances d (res_cash r) matched (core_asset 0, core_asset 0)) (\<lambda>(i, out).
                         Inr (i = out)))"

fun validate_ivariants :: "database \<Rightarrow> table_id \<Rightarrow> table_object \<Rightarrow> voting_data \<Rightarrow> bool res" where
  "validate_ivariants d tid t (Initial i) = validate_initial d tid t i"
| "validate_ivariants d tid t (Result r) = validate_result d t r"

section \<open>Who may vote\<close>

definition check_incoming_vote :: "database \<Rightarrow> table_id \<Rightarrow> table_object \<Rightarrow> vote_op \<Rightarrow> unit res" where
  "check_incoming_vote d tid t op =
     ebind (case find_voting d tid of
              Some (j, tv) \<Rightarrow> check (\<not> fm_count (tv_votes tv) (vote_voter op)) ''Voter has already voted''
            | None \<Rightarrow> check (find_pending_vote d tid (vote_voter op) = None) ''Voter has already voted'') (\<lambda>_.
     ebind (is_game_witness d t (vote_voter op)) (\<lambda>w.
     ebind (if w then Inr True
            else ebind (is_table_owner d t (vote_voter op)) (\<lambda>own.
                   if own then Inr True else is_valid_voter d t op)) (\<lambda>allowed.
     ebind (check allowed ''Invalid voter'') (\<lambda>_.
     ebind (validate_ivariants d tid t (vote_data op)) (\<lambda>ok.
       check ok ''Invalid vote data'')))))"

definition check_pending_vote ::
    "database \<Rightarrow> table_id \<Rightarrow> table_object \<Rightarrow> table_voting_object \<Rightarrow> vote_op \<Rightarrow> unit res" where
  "check_pending_vote d tid t tv op =
     ebind (if fm_count (tv_required_player_voters tv) (vote_voter op) then Inr True
            else ebind (is_game_witness d t (vote_voter op)) (\<lambda>w.
                   if w then Inr True else is_table_owner d t (vote_voter op))) (\<lambda>allowed.
     ebind (check allowed ''Invalid voter'') (\<lambda>_.
     ebind (validate_ivariants d tid t (vote_data op)) (\<lambda>ok.
       check ok ''Invalid vote data'')))"

section \<open>Tallying\<close>

definition group_votes :: "(voting_data \<Rightarrow> 'h::linorder) \<Rightarrow> account_votes \<Rightarrow> ('h, account_votes) flat_map" where
  "group_votes dg votes =
     fold (\<lambda>(a, v) m.
             let g = (case fm_find m (dg v) of None \<Rightarrow> fm_empty | Some g \<Rightarrow> g)
             in fm_put (dg v) (if fm_count g a then g else fm_put a v g) m)
       (fm_items votes) fm_empty"

fun vote_less :: "'h::linorder \<times> account_votes \<Rightarrow> 'h \<times> account_votes \<Rightarrow> bool" where
  "vote_less (h, g) (h', g') = (if fm_size g = fm_size g' then h < h' else fm_size g < fm_size g')"

fun max_vote :: "('h::linorder \<times> account_votes) list \<Rightarrow> ('h \<times> account_votes) option" where
  "max_vote [] = None"
| "max_vote (x # xs) = Some (fold (\<lambda>y best. if vote_less y best then best else y) xs x)"

text \<open>
  \<^verbatim>\<open>boost::merge\<close> of the voters and the accounts collected so far, inserted into those accounts: a copy as long as
  there are none, otherwise the range that is read changes under the merge.
\<close>

definition merge_votes :: "'h externals \<Rightarrow> account_votes \<Rightarrow> account_votes \<Rightarrow> account_votes" where
  "merge_votes ext voters acc = (if fm_is_empty acc then voters else self_merge ext voters acc)"

definition voting_impl ::
    "'h::linorder externals \<Rightarrow> account_votes \<Rightarrow> nat \<Rightarrow> (voting_data \<times> account_votes) option" where
  "voting_impl ext votes requied =
     (let votes_by_content = group_votes (game_digest ext) votes
      in if fm_is_empty votes_by_content then None
         else let miss = (fm_size votes_by_content - 1) * GRAPHENE_100_PERCENT div fm_size votes
              in if int (miss mod 2 ^ 16) \<le> int GRAPHENE_100_PERCENT - int requied then
                   (case max_vote (fm_items votes_by_content) of
                      None \<Rightarrow> None
                    | Some (h, g) \<Rightarrow>
                        if h \<noteq> no_digest ext then
                          (case fm_items g of
                             [] \<Rightarrow> None
                           | (a, v) # _ \<Rightarrow>
                               Some (v, fold (\<lambda>(h', g'). merge_votes ext g')
                                          (fm_items (fm_erase h votes_by_content)) fm_empty))
                        else None)
                 else None)"

text \<open>
  \<^verbatim>\<open>voting\<close>: the tally, then the voting object is removed. With a consensus, the witnesses who
  voted for it are kept.
\<close>

fun drop_witnesses :: "database \<Rightarrow> table_object \<Rightarrow> account_id list \<Rightarrow> witness_id flat_set \<Rightarrow> witness_id flat_set res" where
  "drop_witnesses d t [] ws = Inr ws"
| "drop_witnesses d t (a # as) ws =
     ebind (get_witness_if_exist d t a) (\<lambda>w.
       drop_witnesses d t as (case w of None \<Rightarrow> ws | Some i \<Rightarrow> fm_erase i ws))"

definition voting ::
    "'h::linorder externals \<Rightarrow> nat \<Rightarrow> table_object \<Rightarrow> nat \<Rightarrow> database \<Rightarrow>
     ((voting_data \<times> witness_id flat_set \<times> account_votes) option \<times> database) res" where
  "voting ext j t requied d =
     ebind (idx_get (votings d) j) (\<lambda>tv.
     ebind (case voting_impl ext (tv_votes tv) requied of
              None \<Rightarrow> Inr None
            | Some (v, invalid) \<Rightarrow>
                let ws = tv_voted_witnesses tv
                in if fm_is_empty ws then Inr (Some (v, ws, invalid))
                   else ebind (drop_witnesses d t (map fst (fm_items invalid)) ws) (\<lambda>ws.
                          Inr (Some (v, ws, invalid)))) (\<lambda>outcome.
       Inr (outcome, d\<lparr>votings := idx_remove j (votings d)\<rparr>)))"

section \<open>Collecting votes\<close>

definition calculate_witnesses_allowed_for_substitution :: "nat \<Rightarrow> nat \<Rightarrow> nat" where
  "calculate_witnesses_allowed_for_substitution required_voters percent =
     required_voters * percent div GRAPHENE_100_PERCENT"

fun accounts_of_players :: "database \<Rightarrow> player_id list \<Rightarrow> account_id flat_set \<Rightarrow> account_id flat_set res" where
  "accounts_of_players d [] s = Inr s"
| "accounts_of_players d (pid # ps) s =
     ebind (idx_get (players d) pid) (\<lambda>player. accounts_of_players d ps (fs_insert (pl_account player) s))"

fun set_required_voters ::
    "database \<Rightarrow> table_object \<Rightarrow> account_id \<Rightarrow> nat \<Rightarrow> voting_data \<Rightarrow> table_voting_object \<Rightarrow> table_voting_object res" where
  "set_required_voters d t voter percent (Initial i) tv =
     ebind (table_owner d t) (\<lambda>owner.
       if head_block_time d < HARDFORK_PLAYCHAIN_11_TIME then
         if voter \<noteq> owner then Inr tv
         else let s = fs_of_list (map fst (fm_items (gi_cash i)))
              in Inr (tv\<lparr>tv_required_player_voters := s, tv_etalon_vote := Some (Initial i),
                         tv_witnesses_allowed_for_substitution :=
                           calculate_witnesses_allowed_for_substitution (fm_size s) percent\<rparr>)
       else let s = fs_insert owner (fs_of_list (map fst (fm_items (gi_cash i))))
            in Inr (tv\<lparr>tv_required_player_voters := s,
                       tv_witnesses_allowed_for_substitution :=
                         calculate_witnesses_allowed_for_substitution (fm_size s) percent\<rparr>))"
| "set_required_voters d t voter percent (Result r) tv =
     ebind (accounts_of_players d (map fst (fm_items (playing_cash t))) fm_empty) (\<lambda>s.
       Inr (tv\<lparr>tv_required_player_voters := s,
               tv_witnesses_allowed_for_substitution :=
                 calculate_witnesses_allowed_for_substitution (fm_size s) percent\<rparr>))"

definition set_voter ::
    "database \<Rightarrow> table_object \<Rightarrow> account_id \<Rightarrow> voting_data \<Rightarrow> table_voting_object \<Rightarrow> table_voting_object res" where
  "set_voter d t voter v tv =
     ebind (if fm_count (tv_required_player_voters tv) voter
            then Inr (tv\<lparr>tv_required_player_voters := fm_erase voter (tv_required_player_voters tv)\<rparr>)
            else ebind (get_witness_if_exist d t voter) (\<lambda>w.
                   Inr (case w of
                          None \<Rightarrow> tv
                        | Some i \<Rightarrow>
                            tv\<lparr>tv_voted_witnesses := fs_insert i (tv_voted_witnesses tv),
                               tv_required_witness_voters :=
                                 (case v of
                                    Initial _ \<Rightarrow> fs_insert i (tv_required_witness_voters tv)
                                  | Result _ \<Rightarrow> fm_erase i (tv_required_witness_voters tv))\<rparr>))) (\<lambda>tv.
       Inr (tv\<lparr>tv_votes := fm_put voter v (tv_votes tv)\<rparr>))"

definition is_required_players_with_substitution_of_witnesses :: "table_voting_object \<Rightarrow> bool" where
  "is_required_players_with_substitution_of_witnesses tv \<longleftrightarrow>
     \<not> fm_is_empty (tv_voted_witnesses tv) \<and>
     tv_witnesses_allowed_for_substitution tv \<le> fm_size (tv_voted_witnesses tv) \<and>
     fm_size (tv_required_player_voters tv) \<le> tv_witnesses_allowed_for_substitution tv"

fun is_the_required_number_of_voters :: "table_object \<Rightarrow> table_voting_object \<Rightarrow> voting_data \<Rightarrow> bool" where
  "is_the_required_number_of_voters t tv (Initial _) =
     (if fm_size (tv_voted_witnesses tv) < tb_required_witnesses t then False
      else if fm_is_empty (tv_required_player_voters tv) then True
      else is_required_players_with_substitution_of_witnesses tv)"
| "is_the_required_number_of_voters t tv (Result _) =
     (if \<not> fm_is_empty (tv_required_witness_voters tv) then False
      else if fm_is_empty (tv_required_player_voters tv) then True
      else is_required_players_with_substitution_of_witnesses tv)"

definition new_voting :: "table_id \<Rightarrow> time \<Rightarrow> nat \<Rightarrow> witness_id flat_set \<Rightarrow> table_voting_object" where
  "new_voting tid now voting_seconds required_witnesses =
     \<lparr>tv_table = tid, tv_created = now, tv_expiration = now + voting_seconds,
      tv_scheduled_voting = time_max, tv_votes = fm_empty, tv_witnesses_allowed_for_substitution = 0,
      tv_required_player_voters = fm_empty, tv_required_witness_voters = required_witnesses,
      tv_voted_witnesses = fm_empty, tv_etalon_vote = None\<rparr>"

text \<open>
  \<^verbatim>\<open>collect_votes_impl\<close> opens the voting with the first vote, or adds a vote; the flag
  \<^verbatim>\<open>voters_collected\<close> is only written in the second case. The result is the number of the voting
  object, the flag and the new state.
\<close>

definition collect_votes ::
    "table_id \<Rightarrow> table_object \<Rightarrow> account_id \<Rightarrow> voting_data \<Rightarrow> nat \<Rightarrow> nat \<Rightarrow> witness_id flat_set \<Rightarrow>
     bool \<Rightarrow> database \<Rightarrow> (nat \<times> bool \<times> database) res" where
  "collect_votes tid t voter v voting_seconds percent required_witnesses collected d =
     (case find_voting d tid of
        None \<Rightarrow>
          ebind (set_required_voters d t voter percent v
                   (new_voting tid (head_block_time d) voting_seconds required_witnesses)) (\<lambda>tv.
          ebind (set_voter d t voter v tv) (\<lambda>tv.
          ebind (idx_create (\<lambda>a b. tv_table a = tv_table b) tv (votings d)) (\<lambda>(j, ix).
            Inr (j, collected, d\<lparr>votings := ix\<rparr>))))
      | Some (j, tv) \<Rightarrow>
          ebind (set_voter d t voter v tv) (\<lambda>tv.
            Inr (j, is_the_required_number_of_voters t tv v, d\<lparr>votings := idx_set j tv (votings d)\<rparr>)))"

definition push_fail_vote :: "vote_op \<Rightarrow> database \<Rightarrow> database" where
  "push_fail_vote op d =
     push_applied_operation
       (Game_event (vote_table op) (vote_table_owner op) (Fail_vote (vote_voter op) (vote_data op))) d"

text \<open>\<^verbatim>\<open>fc::assert_exception\<close>: what the handler around a pending vote catches.\<close>

fun is_assert_exception :: "err \<Rightarrow> bool" where
  "is_assert_exception (Assert _) = True"
| "is_assert_exception Not_found = True"
| "is_assert_exception Not_unique = True"
| "is_assert_exception _ = False"

text \<open>One round of the loop over the pending votes.\<close>

definition take_pending_vote ::
    "table_id \<Rightarrow> nat \<Rightarrow> nat \<Rightarrow> nat \<Rightarrow> witness_id flat_set \<Rightarrow> vote_op \<Rightarrow> nat \<times> pending_table_vote_object \<Rightarrow>
     bool \<times> database \<Rightarrow> (bool \<times> database) res" where
  "take_pending_vote tid j voting_seconds percent required_witnesses op pending s =
     (case (pending, s) of ((i, vote_obj), (collected, d)) \<Rightarrow>
        ebind (if \<not> same_vote_kind op (pv_vote vote_obj)
               then Inr (collected, push_fail_vote (pv_vote vote_obj) d)
               else let pending_op = pv_vote vote_obj;
                        attempt =
                          ebind (idx_get (tables d) tid) (\<lambda>t.
                          ebind (idx_get (votings d) j) (\<lambda>tv.
                          ebind (check_pending_vote d tid t tv pending_op) (\<lambda>_.
                          ebind (collect_votes tid t (vote_voter pending_op) (vote_data pending_op)
                                   voting_seconds percent required_witnesses collected d) (\<lambda>(_, r).
                            Inr r))))
                    in (case attempt of
                          Inr r \<Rightarrow> Inr r
                        | Inl e \<Rightarrow>
                            if is_assert_exception e then Inr (collected, push_fail_vote pending_op d)
                            else Inl e)) (\<lambda>(collected, d).
          Inr (collected, d\<lparr>pending_votes := idx_remove i (pending_votes d)\<rparr>)))"

text \<open>When enough voters voted, the tally is scheduled for the next block.\<close>

definition schedule_voting :: "nat \<Rightarrow> database \<Rightarrow> database res" where
  "schedule_voting j d =
     ebind (idx_get (votings d) j) (\<lambda>tv.
       if tv_scheduled_voting tv = time_max then
         let s = head_block_time d + block_interval d
         in Inr (d\<lparr>votings := idx_set j
                   (tv\<lparr>tv_scheduled_voting := s,
                       tv_expiration := (if tv_expiration tv \<le> s then s + block_interval d
                                         else tv_expiration tv)\<rparr>) (votings d)\<rparr>)
       else Inr d)"

text \<open>Before hard fork 11 the pending votes of all tables were taken.\<close>

definition pending_votes_of :: "database \<Rightarrow> table_id \<Rightarrow> (nat \<times> pending_table_vote_object) list" where
  "pending_votes_of d tid =
     (if head_block_time d < HARDFORK_PLAYCHAIN_11_TIME then sort_key (\<lambda>(i, v). pv_table v) (idx_items (pending_votes d))
      else filter (\<lambda>(i, v). pv_table v = tid) (idx_items (pending_votes d)))"

definition try_voting ::
    "table_id \<Rightarrow> witness_id flat_set \<Rightarrow> nat \<Rightarrow> nat \<Rightarrow> vote_op \<Rightarrow> database \<Rightarrow> database res" where
  "try_voting tid required_witnesses voting_seconds percent op d =
     ebind (idx_get (tables d) tid) (\<lambda>t.
     ebind (if is_table_voting d tid then Inr False
            else ebind (is_game_witness d t (vote_voter op)) (\<lambda>w.
                   if w then Inr False
                   else ebind (is_table_owner d t (vote_voter op)) (\<lambda>own. Inr (\<not> own)))) (\<lambda>postpone.
       if postpone then
         ebind (idx_create (\<lambda>a b. pv_table a = pv_table b \<and> pv_voter a = pv_voter b)
                  \<lparr>pv_table = tid, pv_voter = vote_voter op, pv_vote = op\<rparr> (pending_votes d)) (\<lambda>(i, ix).
           Inr (d\<lparr>pending_votes := ix\<rparr>))
       else
         ebind (collect_votes tid t (vote_voter op) (vote_data op) voting_seconds percent
                  required_witnesses False d) (\<lambda>(j, collected, d).
         ebind (efold (take_pending_vote tid j voting_seconds percent required_witnesses op)
                  (pending_votes_of d tid) (collected, d)) (\<lambda>(collected, d).
         ebind (if collected then schedule_voting j d else Inr d) (\<lambda>d.
           alive_for_table tid d)))))"

section \<open>The tally is a plurality vote\<close>

definition ballots :: "(voting_data \<Rightarrow> 'h) \<Rightarrow> account_votes \<Rightarrow> 'h \<Rightarrow> account_votes" where
  "ballots dg votes h = fm_filter (\<lambda>a v. dg v = h) votes"

definition group_step ::
    "(voting_data \<Rightarrow> 'h::linorder) \<Rightarrow> account_id \<times> voting_data \<Rightarrow> ('h, account_votes) flat_map \<Rightarrow>
     ('h, account_votes) flat_map" where
  "group_step dg = (\<lambda>(a, v) m.
     let g = (case fm_find m (dg v) of None \<Rightarrow> fm_empty | Some g \<Rightarrow> g)
     in fm_put (dg v) (if fm_count g a then g else fm_put a v g) m)"

lemma group_votes_fold: "group_votes dg votes = fold (group_step dg) (fm_items votes) fm_empty"
  by (simp add: group_votes_def group_step_def)

lemma fm_of_list_Nil [simp]: "fm_of_list [] = fm_empty"
  by (simp add: fm_of_list_def)

lemma fm_of_list_snoc [simp]: "fm_of_list (xs @ [(k, v)]) = fm_put k v (fm_of_list xs)"
  by (simp add: fm_of_list_def)

lemma group_step_find:
  assumes "distinct (map fst xs)"
  shows "fm_find (fold (group_step dg) xs fm_empty) h =
    (let ys = filter (\<lambda>(a, v). dg v = h) xs in if ys = [] then None else Some (fm_of_list ys))"
  using assms
proof (induction xs arbitrary: h rule: rev_induct)
  case (snoc p xs)
  obtain a v where p: "p = (a, v)" by (cases p)
  let ?m = "fold (group_step dg) xs fm_empty"
  let ?g = "case fm_find ?m (dg v) of None \<Rightarrow> fm_empty | Some g \<Rightarrow> g"
  have IH: "fm_find ?m h = (let ys = filter (\<lambda>(a, v). dg v = h) xs in if ys = [] then None else Some (fm_of_list ys))" for h
    using snoc by simp
  then have g: "?g = fm_of_list (filter (\<lambda>(b, w). dg w = dg v) xs)"
    by (simp add: Let_def)
  have "a \<notin> fst ` set xs" using snoc.prems p by simp
  then have "map_of (rev (filter (\<lambda>(b, w). dg w = dg v) xs)) a = None"
    by (auto simp: map_of_eq_None_iff)
  then have "a \<notin> fm_keys ?g"
    unfolding g by (metis fm_find_of_list fm_find_None_iff)
  then show ?case
    using IH by (auto simp: p group_step_def Let_def g)
qed simp

lemma group_votes_find:
  "fm_find (group_votes dg votes) h =
     (if fm_is_empty (ballots dg votes h) then None else Some (ballots dg votes h))"
proof -
  have "fm_is_empty (ballots dg votes h) \<longleftrightarrow> filter (\<lambda>(a, v). dg v = h) (fm_items votes) = []"
    by (simp only: fm_is_empty_def ballots_def fm_items_filter)
  then show ?thesis
    by (simp only: group_votes_fold group_step_find [OF fm_items_distinct] Let_def
        fm_filter_of_list [of "\<lambda>a v. dg v = h" for h] ballots_def)
qed

abbreviation vote_rank :: "'h \<times> account_votes \<Rightarrow> nat \<times> 'h" where
  "vote_rank x \<equiv> (fm_size (snd x), fst x)"

lemma vote_less_rank: "vote_less x y \<longleftrightarrow> vote_rank x < vote_rank y"
  by (cases x; cases y) (auto simp: less_prod_def)

lemma fold_max_vote:
  "fold (\<lambda>y b. if vote_less y b then b else y) ys x \<in> insert x (set ys) \<and>
   (\<forall>y \<in> insert x (set ys). vote_rank y \<le> vote_rank (fold (\<lambda>y b. if vote_less y b then b else y) ys x))"
proof (induction ys arbitrary: x)
  case (Cons y ys)
  let ?z = "if vote_less y x then x else y"
  have "vote_rank x \<le> vote_rank ?z" "vote_rank y \<le> vote_rank ?z"
    by (auto simp: vote_less_rank not_less)
  moreover note Cons [of ?z]
  ultimately show ?case by (auto split: if_splits intro: order_trans)
qed simp

lemma max_vote_Some:
  assumes "max_vote xs = Some m"
  shows "m \<in> set xs" and "y \<in> set xs \<Longrightarrow> vote_rank y \<le> vote_rank m"
proof -
  obtain x ys where xs: "xs = x # ys" using assms by (cases xs) auto
  then have m: "m = fold (\<lambda>y b. if vote_less y b then b else y) ys x" using assms by simp
  show "m \<in> set xs" "y \<in> set xs \<Longrightarrow> vote_rank y \<le> vote_rank m"
    using fold_max_vote [of ys x] unfolding m xs by auto
qed

lemma max_vote_None: "max_vote xs = None \<longleftrightarrow> xs = []"
  by (cases xs) simp_all

definition contents :: "(voting_data \<Rightarrow> 'h) \<Rightarrow> account_votes \<Rightarrow> 'h set" where
  "contents dg votes = {dg v |a v. fm_find votes a = Some v}"

lemma ballots_find [simp]:
  "fm_find (ballots dg votes h) a =
     (case fm_find votes a of None \<Rightarrow> None | Some v \<Rightarrow> if dg v = h then Some v else None)"
  by (simp add: ballots_def)

lemma ballots_empty_iff: "fm_is_empty (ballots dg votes h) \<longleftrightarrow> h \<notin> contents dg votes"
proof -
  have "fm_keys (ballots dg votes h) = {} \<longleftrightarrow> (\<forall>a. fm_find (ballots dg votes h) a = None)"
    by (auto simp: fm_keys_def simp del: ballots_find)
  also have "\<dots> \<longleftrightarrow> h \<notin> contents dg votes"
    by (auto simp: contents_def split: option.split)
  finally show ?thesis by simp
qed

lemma group_votes_keys: "fm_keys (group_votes dg votes) = contents dg votes"
  unfolding fm_keys_def by (auto simp: group_votes_find ballots_empty_iff [unfolded fm_is_empty_iff] split: if_splits)

lemma group_votes_items: "(h, g) \<in> set (fm_items (group_votes dg votes)) \<longleftrightarrow>
    h \<in> contents dg votes \<and> g = ballots dg votes h"
  unfolding fm_find_items [symmetric] group_votes_find ballots_empty_iff by auto

text \<open>With two contents the accounts reported are exactly those outside the winning group.\<close>

lemma losing_groups:
  assumes "card (contents (game_digest ext) votes) \<le> 2" and "h \<in> contents (game_digest ext) votes"
  shows "fold (\<lambda>(h', g'). merge_votes ext g') (fm_items (fm_erase h (group_votes (game_digest ext) votes))) fm_empty =
     fm_filter (\<lambda>a w. game_digest ext w \<noteq> h) votes"
proof -
  let ?dg = "game_digest ext" and ?m = "fm_erase h (group_votes (game_digest ext) votes)"
  have keys: "fm_keys ?m = contents ?dg votes - {h}" by (simp add: group_votes_keys)
  have content: "?dg w \<in> contents ?dg votes" if "fm_find votes a = Some w" for a w using that by (auto simp: contents_def)
  have "finite (contents ?dg votes)" using finite_fm_keys [of "group_votes ?dg votes"] by (simp add: group_votes_keys)
  then have "length (fm_items ?m) \<le> 1"
    using assms card_Diff_singleton [of h "contents ?dg votes"] fm_size_card [of ?m] by (simp only: fm_size_def keys)
  then consider "fm_items ?m = []" | h' g where "fm_items ?m = [(h', g)]"
    by (cases "fm_items ?m") (auto simp del: fm_items_simps)
  then show ?thesis
  proof cases
    case 1
    then have "contents ?dg votes - {h} = {}" using keys set_items_keys [of ?m] by simp
    then have "fm_find (fm_filter (\<lambda>a w. ?dg w \<noteq> h) votes) a = None" for a
      using content by (auto split: option.split)
    then show ?thesis unfolding 1 by (intro fm_eqI) simp
  next
    case 2
    then have "contents ?dg votes - {h} = {h'}" using keys set_items_keys [of ?m] by simp
    moreover have "(h', g) \<in> set (fm_items ?m)" using 2 by simp
    then have "fm_find ?m h' = Some g" unfolding fm_find_items [symmetric] .
    then have "g = ballots ?dg votes h'" by (auto simp: group_votes_find split: if_splits)
    ultimately have "g = fm_filter (\<lambda>a w. ?dg w \<noteq> h) votes"
      using content by (intro fm_eqI) (auto split: option.splits)
    then show ?thesis unfolding 2 by (simp add: merge_votes_def)
  qed
qed

lemma contents_card: "card (contents dg votes) \<le> fm_size votes"
proof -
  have "contents dg votes = (\<lambda>a. dg (the (fm_find votes a))) ` fm_keys votes"
    by (force simp: contents_def fm_keys_def image_iff)
  then show ?thesis by (simp add: fm_size_card card_image_le)
qed

text \<open>The least account of a group casts the vote that is taken.\<close>

lemma fm_items_Cons:
  assumes "fm_items m = (a, v) # xs"
  shows "fm_find m a = Some v" and "fm_find m b = Some w \<Longrightarrow> a \<le> b"
proof -
  show "fm_find m a = Some v" by (simp add: fm_find_items assms)
  show "a \<le> b" if "fm_find m b = Some w"
    using that fm_items_sorted [of m] by (auto simp: fm_find_items assms)
qed

definition tally_accepts :: "(voting_data \<Rightarrow> 'h) \<Rightarrow> account_votes \<Rightarrow> nat \<Rightarrow> bool" where
  "tally_accepts dg votes requied \<longleftrightarrow>
     fm_keys votes \<noteq> {} \<and>
     (card (contents dg votes) - 1) * GRAPHENE_100_PERCENT div fm_size votes + requied \<le> GRAPHENE_100_PERCENT"

lemma miss_small:
  "(card (contents dg votes) - 1) * GRAPHENE_100_PERCENT div fm_size votes \<le> GRAPHENE_100_PERCENT"
proof (cases "fm_size votes = 0")
  case False
  have "(card (contents dg votes) - 1) * GRAPHENE_100_PERCENT \<le> fm_size votes * GRAPHENE_100_PERCENT"
    using contents_card [of dg votes] by simp
  then show ?thesis using False by (metis div_le_mono nonzero_mult_div_cancel_left)
qed simp

lemma contents_empty_iff: "contents dg votes = {} \<longleftrightarrow> fm_keys votes = {}"
  by (auto simp: contents_def fm_keys_def)

definition tally_outcome :: "'h::linorder externals \<Rightarrow> account_votes \<Rightarrow> (voting_data \<times> account_votes) option" where
  "tally_outcome ext votes =
     (case max_vote (fm_items (group_votes (game_digest ext) votes)) of
        None \<Rightarrow> None
      | Some (h, g) \<Rightarrow>
          if h = no_digest ext then None
          else case fm_items g of
                 [] \<Rightarrow> None
               | (a, v) # _ \<Rightarrow>
                   Some (v, fold (\<lambda>(h', g'). merge_votes ext g') (fm_items (fm_erase h (group_votes (game_digest ext) votes))) fm_empty))"

lemma voting_impl_split:
  "voting_impl ext votes requied =
     (if tally_accepts (game_digest ext) votes requied then tally_outcome ext votes else None)"
proof -
  have size: "fm_size (group_votes dg votes) = card (contents dg votes)" for dg :: "voting_data \<Rightarrow> 'a"
    by (simp add: fm_size_card group_votes_keys)
  have "int (m mod 2 ^ 16) \<le> int GRAPHENE_100_PERCENT - int requied \<longleftrightarrow> m + requied \<le> GRAPHENE_100_PERCENT"
    if "m \<le> GRAPHENE_100_PERCENT" for m
    using that by auto
  from this [OF miss_small] show ?thesis
    unfolding voting_impl_def tally_accepts_def tally_outcome_def Let_def size
      fm_is_empty_iff group_votes_keys contents_empty_iff
    by (auto split: option.splits list.splits simp del: fm_items_simps)
qed

text \<open>
  The outcome is the vote of the largest group, the greater digest deciding between groups of the
  same size; with two contents the accounts reported as invalid are exactly the other voters.
\<close>

lemma tally_outcome_Some:
  assumes "tally_outcome ext votes = Some (v, invalid)" and dg: "dg = game_digest ext"
  shows "\<exists>a. fm_find votes a = Some v \<and> (\<forall>b w. fm_find votes b = Some w \<longrightarrow> dg w = dg v \<longrightarrow> a \<le> b)"
    and "dg v \<noteq> no_digest ext"
    and "card (contents dg votes) \<le> 2 \<Longrightarrow> invalid = fm_filter (\<lambda>a w. dg w \<noteq> dg v) votes"
    and "fm_find votes b = Some w \<Longrightarrow>
      (fm_size (ballots dg votes (dg w)), dg w) \<le> (fm_size (ballots dg votes (dg v)), dg v)"
proof -
  obtain h g a xs where m: "max_vote (fm_items (group_votes dg votes)) = Some (h, g)"
    and g: "fm_items g = (a, v) # xs" and "h \<noteq> no_digest ext"
    and inv: "invalid = fold (\<lambda>(h', g'). merge_votes ext g') (fm_items (fm_erase h (group_votes dg votes))) fm_empty"
    using assms(1) by (auto simp: tally_outcome_def dg simp del: fm_items_simps split: option.splits if_splits list.splits)
  have hg: "h \<in> contents dg votes" "g = ballots dg votes h"
    using max_vote_Some(1) [OF m] by (simp_all add: group_votes_items)
  have a: "fm_find votes a = Some v" "dg v = h"
    using fm_items_Cons(1) [OF g] by (auto simp: hg(2) split: option.splits if_splits)
  have "a \<le> b" if "fm_find votes b = Some w" "dg w = dg v" for b w
    using that a by (intro fm_items_Cons(2) [OF g, of _ w]) (simp add: hg(2))
  with a show "\<exists>a. fm_find votes a = Some v \<and> (\<forall>b w. fm_find votes b = Some w \<longrightarrow> dg w = dg v \<longrightarrow> a \<le> b)"
    by blast
  show "dg v \<noteq> no_digest ext" using a \<open>h \<noteq> no_digest ext\<close> by simp
  show "invalid = fm_filter (\<lambda>a w. dg w \<noteq> dg v) votes" if "card (contents dg votes) \<le> 2"
    using losing_groups [of ext votes h] that hg(1) a(2) inv unfolding dg by simp
  show "(fm_size (ballots dg votes (dg w)), dg w) \<le> (fm_size (ballots dg votes (dg v)), dg v)"
    if "fm_find votes b = Some w"
  proof -
    have "(dg w, ballots dg votes (dg w)) \<in> set (fm_items (group_votes dg votes))"
      using that by (auto simp: group_votes_items contents_def)
    from max_vote_Some(2) [OF m this] show ?thesis by (simp add: a hg)
  qed
qed

lemma tally_outcome_None:
  assumes "tally_outcome ext votes = None" and "fm_keys votes \<noteq> {}"
  shows "no_digest ext \<in> contents (game_digest ext) votes"
proof -
  let ?dg = "game_digest ext"
  obtain h g where m: "max_vote (fm_items (group_votes ?dg votes)) = Some (h, g)"
    using assms(2) by (cases "max_vote (fm_items (group_votes ?dg votes))")
      (auto simp: max_vote_None fm_is_empty_def [symmetric] group_votes_keys contents_empty_iff)
  then have hg: "h \<in> contents ?dg votes" "g = ballots ?dg votes h"
    using max_vote_Some(1) [OF m] by (simp_all add: group_votes_items)
  then have "fm_items g \<noteq> []"
    using ballots_empty_iff [of ?dg votes h] by (simp add: fm_is_empty_def del: fm_is_empty_iff)
  with assms(1) m have "h = no_digest ext"
    by (auto simp: tally_outcome_def split: list.splits if_splits)
  with hg show ?thesis by simp
qed

section \<open>What a valid result says about the funds\<close>

text \<open>The player of an account.\<close>

definition acct_pid :: "database \<Rightarrow> account_id \<Rightarrow> player_id" where
  "acct_pid d a = fst (the (find_player d a))"

lemma find_player_Some:
  "find_player d a = Some (pid, player) \<Longrightarrow> idx_find (players d) pid = Some player \<and> pl_account player = a"
  by (auto simp: find_player_def dest: idx_lookup_Some)

lemma acct_pid_player:
  "find_player d a \<noteq> None \<Longrightarrow> \<exists>player. idx_find (players d) (acct_pid d a) = Some player \<and> pl_account player = a"
  using find_player_Some by (fastforce simp: acct_pid_def)

lemma acct_pid_inj: "(\<And>a. a \<in> A \<Longrightarrow> find_player d a \<noteq> None) \<Longrightarrow> inj_on (acct_pid d) A"
  by (rule inj_onI) (metis acct_pid_player option.inject)

lemma collect_result_True:
  assumes "collect_result d xs m = (True, m')"
  shows "\<forall>(a, r) \<in> set xs. 0 \<le> amount (gr_cash r) \<and> 0 \<le> amount (gr_rake r) \<and> find_player d a \<noteq> None"
    and "fm_keys m' = fm_keys m \<union> acct_pid d ` fst ` set xs"
  using assms
  by (induction d xs m rule: collect_result.induct)
    (auto simp: acct_pid_def split: if_splits option.splits prod.splits)

lemma sum_balances_Inr:
  assumes "sum_balances d rs ms (i, out) = Inr (i', out')"
  shows "amount i' = amount i + (\<Sum>(pid, c) \<leftarrow> ms. amount c)" (is ?A)
    and "amount out' = amount out + (\<Sum>(pid, c) \<leftarrow> ms.
      let r = the (fm_find rs (pl_account (the (idx_find (players d) pid))))
      in amount (gr_cash r) + amount (gr_rake r))" (is ?B)
    and "\<forall>(pid, c) \<in> set ms. \<forall>r. fm_find rs (pl_account (the (idx_find (players d) pid))) = Some r \<longrightarrow>
      asset_id (gr_cash r) = asset_id out \<and> asset_id (gr_rake r) = asset_id out" (is ?C)
proof -
  have "?A \<and> ?B \<and> ?C"
    using assms
  proof (induction ms arbitrary: i out)
    case (Cons p xs)
    obtain pid c where p: "p = (pid, c)" by (cases p)
    obtain player r where *: "idx_find (players d) pid = Some player" "fm_find rs (pl_account player) = Some r"
      "asset_id i = asset_id c" "asset_id (gr_cash r) = asset_id out" "asset_id (gr_rake r) = asset_id out"
      and s: "sum_balances d rs xs
          (\<lparr>amount = amount i + amount c, asset_id = asset_id i\<rparr>,
           \<lparr>amount = amount out + amount (gr_cash r) + amount (gr_rake r), asset_id = asset_id out\<rparr>) = Inr (i', out')"
      using Cons.prems by (auto simp: p res_simps)
    from Cons.IH [OF s] show ?case using * by (auto simp: p Let_def)
  qed auto
  then show ?A ?B ?C by blast+
qed

lemma filter_items_sum:
  fixes f :: "'k::linorder \<Rightarrow> 'v \<Rightarrow> int"
  shows "(\<Sum>(k, v) \<leftarrow> filter (\<lambda>(k, v). P k) (fm_items m). f k v) = (\<Sum>k \<in> {k \<in> fm_keys m. P k}. f k (the (fm_find m k)))"
proof -
  have keys: "fm_keys (fm_filter (\<lambda>k v. P k) m) = {k \<in> fm_keys m. P k}"
    by (auto simp: fm_keys_def split: option.splits if_splits)
  have "(\<Sum>(k, v) \<leftarrow> filter (\<lambda>(k, v). P k) (fm_items m). f k v) = fm_ksum f (fm_filter (\<lambda>k v. P k) m)"
    by (simp add: fm_ksum_def)
  also have "\<dots> = (\<Sum>k \<in> {k \<in> fm_keys m. P k}. f k (the (fm_find m k)))"
    unfolding fm_ksum_alt keys by (rule sum.cong) (auto simp: fm_keys_def)
  finally show ?thesis .
qed

text \<open>
  A valid result is a redistribution: it names players of the game only, gives nobody a negative
  amount, is in the core asset, and the cash and rake it gives add up to what these players had in
  the game.
\<close>

lemma validate_result_True:
  assumes v: "validate_result d t r = Inr True" and ne: "fm_keys (res_cash r) \<noteq> {}"
  shows "fm_find (res_cash r) a = Some g \<Longrightarrow>
      0 \<le> amount (gr_cash g) \<and> 0 \<le> amount (gr_rake g) \<and> find_player d a \<noteq> None \<and>
      acct_pid d a \<in> fm_keys (playing_cash t) \<and>
      asset_id (gr_cash g) = CORE \<and> asset_id (gr_rake g) = CORE" (is "_ \<Longrightarrow> ?P a g")
    and "fm_sum (\<lambda>g. amount (gr_cash g) + amount (gr_rake g)) (res_cash r) =
      fm_ksum (\<lambda>a g. amount (the (fm_find (playing_cash t) (acct_pid d a)))) (res_cash r)"
proof -
  let ?K = "fm_keys (res_cash r)"
  obtain m where m: "collect_result d (fm_items (res_cash r)) fm_empty = (True, m)"
    using v ne by (cases "collect_result d (fm_items (res_cash r)) fm_empty") (auto simp: validate_result_def split: bool.splits)
  let ?ms = "filter (\<lambda>(pid, c). fm_count m pid) (fm_items (playing_cash t))"
  have keys: "fm_keys m = acct_pid d ` ?K"
    using collect_result_True(2) [OF m] by (simp flip: set_items_keys)
  have each: "0 \<le> amount (gr_cash g) \<and> 0 \<le> amount (gr_rake g) \<and> find_player d a \<noteq> None"
    if "fm_find (res_cash r) a = Some g" for a g
    using collect_result_True(1) [OF m] that by (auto simp: fm_find_items)
  have inj: "inj_on (acct_pid d) ?K"
    by (rule acct_pid_inj) (use each fm_keys_find in blast)
  have len: "length ?ms = fm_size m"
    using v ne m by (auto simp: validate_result_def Let_def split: if_splits)
  then obtain i out where s: "sum_balances d (res_cash r) ?ms (core_asset 0, core_asset 0) = Inr (i, out)"
    and io: "i = out"
    using v ne m by (auto simp: validate_result_def Let_def res_simps)
  have "{p \<in> fm_keys (playing_cash t). fm_count m p} \<subseteq> fm_keys m" by auto
  then have sub: "{p \<in> fm_keys (playing_cash t). fm_count m p} = fm_keys m"
    using len by (intro card_subset_eq) (simp_all add: length_filter_keys fm_size_card)
  have acct: "pl_account (the (idx_find (players d) (acct_pid d a))) = a" if "a \<in> ?K" for a
    using that each acct_pid_player fm_keys_find by (metis option.sel)
  have reindex: "(\<Sum>(pid, c) \<leftarrow> ?ms. f pid c) =
      (\<Sum>a \<in> ?K. f (acct_pid d a) (the (fm_find (playing_cash t) (acct_pid d a))))" for f :: "nat \<Rightarrow> asset \<Rightarrow> int"
    unfolding filter_items_sum sub keys by (simp add: sum.reindex [OF inj])
  show "?P a g" if a: "fm_find (res_cash r) a = Some g"
  proof -
    have aK: "a \<in> ?K" using a by (rule fm_find_Some_keys)
    then have p: "acct_pid d a \<in> fm_keys (playing_cash t)" using sub keys by blast
    then obtain c where "(acct_pid d a, c) \<in> set ?ms"
      using aK keys by (auto simp flip: fm_find_items dest!: fm_keys_find)
    then show ?thesis
      using sum_balances_Inr(3) [OF s] each [OF a] p a acct [OF aK] by fastforce
  qed
  show "fm_sum (\<lambda>g. amount (gr_cash g) + amount (gr_rake g)) (res_cash r) =
      fm_ksum (\<lambda>a g. amount (the (fm_find (playing_cash t) (acct_pid d a)))) (res_cash r)"
    using sum_balances_Inr(1,2) [OF s] io acct unfolding reindex fm_ksum_alt by (simp add: Let_def)
qed

end
