(* ===== verification/Game.thy ===== *)
theory Game
  imports Voting
begin

text \<open>
  The life of a game (\<^verbatim>\<open>game_evaluators_impl.cpp\<close>, \<^verbatim>\<open>game_evaluators.cpp\<close>): starting a game by
  consensus, applying its result, resolving the buy-outs deferred during the game, rolling a game or
  a whole table back, expiry of votings, and the evaluators of votes in force since hard fork 8. The
  results: starting a game with valid data, applying a valid result and rolling back conserve the
  funds of every asset and keep the invariant of the chain state; a rolled-back table is empty and
  its players have their money back.
\<close>

section \<open>Deferred buy-outs\<close>

definition take_from_result :: "account_id \<Rightarrow> asset \<Rightarrow> game_result \<Rightarrow> (asset \<times> game_result) res" where
  "take_from_result account amt r =
     (case fm_find (res_cash r) account of
        None \<Rightarrow> Inr (amt, r)
      | Some g \<Rightarrow>
          ebind (asset_min (gr_cash g) amt) (\<lambda>c.
          ebind (asset_minus amt c) (\<lambda>left.
          ebind (asset_minus (gr_cash g) c) (\<lambda>c'.
            Inr (left, r\<lparr>res_cash := fm_put account (g\<lparr>gr_cash := c'\<rparr>) (res_cash r)\<rparr>)))))"

definition take_from_cash :: "table_id \<Rightarrow> player_id \<Rightarrow> asset \<Rightarrow> database \<Rightarrow> (asset \<times> database) res" where
  "take_from_cash tid pid amt d =
     ebind (idx_get (tables d) tid) (\<lambda>t.
       if 0 < amount amt \<and> is_waiting_at_table t pid then
         ebind (asset_min (get_cash_balance t pid) amt) (\<lambda>c.
         ebind (asset_minus amt c) (\<lambda>left.
         ebind (asset_neg c) (\<lambda>m.
         ebind (modify_table tid (adjust_cash pid m) d) (\<lambda>d. Inr (left, d)))))
       else Inr (amt, d))"

definition take_from_playing_cash ::
    "table_id \<Rightarrow> player_id \<Rightarrow> account_id \<Rightarrow> game_result \<Rightarrow> asset \<Rightarrow> database \<Rightarrow> (asset \<times> database) res" where
  "take_from_playing_cash tid pid account r amt d =
     ebind (idx_get (tables d) tid) (\<lambda>t.
       if 0 < amount amt \<and> is_playing_player t pid \<and> \<not> fm_count (res_cash r) account then
         ebind (asset_min (get_playing_cash_balance t pid) amt) (\<lambda>c.
         ebind (asset_minus amt c) (\<lambda>left.
         ebind (asset_neg c) (\<lambda>m.
         ebind (modify_table tid (adjust_playing_cash pid m) d) (\<lambda>d. Inr (left, d)))))
       else Inr (amt, d))"

definition pay_buy_out ::
    "table_id \<Rightarrow> account_id \<Rightarrow> account_id \<Rightarrow> asset \<Rightarrow> asset \<Rightarrow> database \<Rightarrow> database res" where
  "pay_buy_out tid owner account amt left d =
     ebind (asset_minus amt left) (\<lambda>allowed.
     ebind (if 0 < amount allowed then
              ebind (adjust_balance account allowed d) (\<lambda>d.
                Inr (push_applied_operation (Game_event tid owner (Buy_out_allowed account allowed)) d))
            else Inr d) (\<lambda>d.
       Inr (if 0 < amount left
            then push_applied_operation (Game_event tid owner (Fraud_buy_out account left allowed)) d
            else d)))"

definition resolve_buyout ::
    "table_id \<Rightarrow> account_id \<Rightarrow> nat \<times> pending_buy_out_object \<Rightarrow> game_result \<times> database \<Rightarrow>
     (game_result \<times> database) res" where
  "resolve_buyout tid owner = (\<lambda>(j, buyout) (r, d).
     ebind (idx_get (players d) (po_player buyout)) (\<lambda>player.
     ebind (take_from_result (pl_account player) (po_amount buyout) r) (\<lambda>(left, r).
     ebind (take_from_cash tid (po_player buyout) left d) (\<lambda>(left, d).
     ebind (take_from_playing_cash tid (po_player buyout) (pl_account player) r left d) (\<lambda>(left, d).
     ebind (pay_buy_out tid owner (pl_account player) (po_amount buyout) left d) (\<lambda>d.
       Inr (r, d\<lparr>pending_buy_outs := idx_remove j (pending_buy_outs d)\<rparr>)))))))"

definition buy_outs_at :: "database \<Rightarrow> table_id \<Rightarrow> (nat \<times> pending_buy_out_object) list" where
  "buy_outs_at d tid = filter (\<lambda>(j, b). po_table b = tid) (idx_items (pending_buy_outs d))"

definition pending_buyouts_resolve ::
    "table_id \<Rightarrow> account_id \<Rightarrow> game_result \<Rightarrow> database \<Rightarrow> (game_result \<times> database) res" where
  "pending_buyouts_resolve tid owner r d = efold (resolve_buyout tid owner) (buy_outs_at d tid) (r, d)"

section \<open>Buy-ins of the players of a game\<close>

text \<open>
  \<^verbatim>\<open>with_registration_buy_in\<close>: after the callback, the players who were in the game and have cash
  are registered as bought in again.
\<close>

definition with_registration_buy_in ::
    "table_id \<Rightarrow> (database \<Rightarrow> (database \<times> 'a) res) \<Rightarrow> database \<Rightarrow> (database \<times> 'a) res" where
  "with_registration_buy_in tid callback d =
     ebind (idx_get (tables d) tid) (\<lambda>t.
     let participants = map fst (fm_items (playing_cash t))
     in ebind (callback d) (\<lambda>(d, x).
        ebind (idx_get (tables d) tid) (\<lambda>t.
        ebind (efold (\<lambda>pid. register_buy_in pid tid)
                 (filter (\<lambda>pid. fm_count (cash t) pid) participants) d) (\<lambda>d.
          Inr (d, x)))))"

definition resolve_buy_in :: "table_id \<Rightarrow> bool \<Rightarrow> nat \<times> buy_in_object \<Rightarrow> database \<Rightarrow> database res" where
  "resolve_buy_in tid clear = (\<lambda>(j, b) d.
     ebind (idx_get (tables d) tid) (\<lambda>t.
       if clear \<or> \<not> fm_count (cash t) (bi_player b)
       then Inr (d\<lparr>buy_ins := idx_remove j (buy_ins d)\<rparr>)
       else if head_block_time d < HARDFORK_PLAYCHAIN_7_TIME then prolong_life_for_by_in j d
       else Inr d))"

definition obsolete_buyins_resolve :: "table_id \<Rightarrow> bool \<Rightarrow> database \<Rightarrow> database res" where
  "obsolete_buyins_resolve tid clear d =
     efold (resolve_buy_in tid clear)
       (filter (\<lambda>(j, b). bi_table b = tid) (idx_items (buy_ins d))) d"

section \<open>Cleaning up votes\<close>

definition remove_pending_vote :: "nat \<times> pending_table_vote_object \<Rightarrow> database \<Rightarrow> database" where
  "remove_pending_vote = (\<lambda>(i, v) d.
     (push_fail_vote (pv_vote v) d)\<lparr>pending_votes := idx_remove i (pending_votes d)\<rparr>)"

definition cleanup_pending_votes :: "table_id \<Rightarrow> database \<Rightarrow> database" where
  "cleanup_pending_votes tid d =
     (if HARDFORK_PLAYCHAIN_1_TIME \<le> head_block_time d
      then fold remove_pending_vote
             (filter (\<lambda>(i, v). pv_table v = tid) (idx_items (pending_votes d))) d
      else d)"

definition cleanup_voting :: "table_id \<Rightarrow> database \<Rightarrow> database" where
  "cleanup_voting tid d =
     (case find_voting d tid of
        None \<Rightarrow> d
      | Some (j, tv) \<Rightarrow> d\<lparr>votings := idx_remove j (votings d)\<rparr>)"

section \<open>Rollback\<close>

text \<open>All that players have at the table, in the game or beside it.\<close>

definition rolling_cash :: "table_object \<Rightarrow> (player_id, asset) flat_map res" where
  "rolling_cash t =
     efold (\<lambda>(pid, c) m.
       ebind (asset_plus (case fm_find m pid of None \<Rightarrow> core_asset 0 | Some a \<Rightarrow> a) c) (\<lambda>a.
         Inr (fm_put pid a m)))
       (fm_items (cash t)) (playing_cash t)"

definition return_buy_in ::
    "table_id \<Rightarrow> account_id \<Rightarrow> player_id \<times> asset \<Rightarrow> database \<Rightarrow> database res" where
  "return_buy_in tid owner = (\<lambda>(pid, c) d.
     ebind (idx_get (players d) pid) (\<lambda>player.
       adjust_balance (pl_account player) c
         (push_applied_operation (Game_event tid owner (Buy_in_return (pl_account player) c)) d)))"

definition announce_cash_return ::
    "table_id \<Rightarrow> account_id \<Rightarrow> player_id \<times> asset \<Rightarrow> database \<Rightarrow> database res" where
  "announce_cash_return tid owner = (\<lambda>(pid, c) d.
     ebind (idx_get (players d) pid) (\<lambda>player.
       Inr (push_applied_operation (Game_event tid owner (Game_cash_return (pl_account player) c)) d)))"

definition clear_table :: "bool \<Rightarrow> table_object \<Rightarrow> table_object res" where
  "clear_table full_clear t =
     (let t = t\<lparr>game_created := time_min, game_expiration := time_max\<rparr>
      in if full_clear then Inr (clear_cash (clear_playing_cash t))
         else ebind (efold (\<lambda>(pid, c). adjust_cash pid c) (fm_items (playing_cash t)) t) (\<lambda>t.
                Inr (clear_playing_cash t)))"

definition rollback_impl :: "table_id \<Rightarrow> bool \<Rightarrow> database \<Rightarrow> database res" where
  "rollback_impl tid full_clear d =
     ebind (idx_get (tables d) tid) (\<lambda>t.
     ebind (table_owner d t) (\<lambda>owner.
     ebind (pending_buyouts_resolve tid owner \<lparr>res_cash = fm_empty, res_log = []\<rparr>
              (push_applied_operation (Game_event tid owner Game_rollback) d)) (\<lambda>(_, d).
     ebind (idx_get (tables d) tid) (\<lambda>t.
     ebind (if full_clear
            then ebind (rolling_cash t) (\<lambda>m. efold (return_buy_in tid owner) (fm_items m) d)
            else efold (announce_cash_return tid owner) (fm_items (playing_cash t)) d) (\<lambda>d.
     ebind (modify_table tid (clear_table full_clear) d) (\<lambda>d.
       Inr (cleanup_pending_votes tid d)))))))"

definition rollback :: "table_id \<Rightarrow> bool \<Rightarrow> database \<Rightarrow> database res" where
  "rollback tid full_clear d =
     (if HARDFORK_PLAYCHAIN_10_TIME \<le> head_block_time d then
        ebind (if \<not> full_clear
               then ebind (with_registration_buy_in tid
                             (\<lambda>d. ebind (rollback_impl tid full_clear d) (\<lambda>d. Inr (d, ()))) d) (\<lambda>(d, _). Inr d)
               else ebind (rollback_impl tid full_clear d) (\<lambda>d. Inr (cleanup_buy_ins tid d))) (\<lambda>d.
          Inr (cleanup_voting tid d))
      else
        ebind (rollback_impl tid full_clear d) (obsolete_buyins_resolve tid full_clear))"

abbreviation rollback_table :: "table_id \<Rightarrow> database \<Rightarrow> database res" where
  "rollback_table tid \<equiv> rollback tid True"

abbreviation rollback_game :: "table_id \<Rightarrow> database \<Rightarrow> database res" where
  "rollback_game tid \<equiv> rollback tid False"

section \<open>Starting a game\<close>

text \<open>The amounts of the vote, by player.\<close>

definition players_cash ::
    "database \<Rightarrow> (account_id \<times> asset) list \<Rightarrow> (player_id, asset) flat_map \<Rightarrow> (player_id, asset) flat_map res" where
  "players_cash d =
     efold (\<lambda>(account, c) m. ebind (get_player d account) (\<lambda>(pid, player). Inr (fm_put pid c m)))"

definition stake :: "player_id \<times> asset \<Rightarrow> table_object \<Rightarrow> table_object res" where
  "stake = (\<lambda>(pid, c) t.
     ebind (adjust_playing_cash pid c t) (\<lambda>t.
     ebind (asset_neg c) (\<lambda>m. adjust_cash pid m t)))"

definition fraud_start_event ::
    "table_id \<Rightarrow> account_id \<Rightarrow> string \<Rightarrow> account_id \<times> voting_data \<Rightarrow> database \<Rightarrow> database res" where
  "fraud_start_event tid owner info = (\<lambda>(a, v) d.
     (case v of
        Initial i \<Rightarrow>
          Inr (push_applied_operation (Game_event tid owner (Fraud_game_start_playing_check a (gi_info i) info)) d)
      | Result _ \<Rightarrow> Inl Bad_variant))"

definition apply_start_playing_with_consensus ::
    "table_id \<Rightarrow> voting_data \<Rightarrow> witness_id flat_set \<Rightarrow> account_votes \<Rightarrow> database \<Rightarrow> database res" where
  "apply_start_playing_with_consensus tid valid_vote required_witnesses invalid d =
     (case valid_vote of
        Result _ \<Rightarrow> Inl Bad_variant
      | Initial i \<Rightarrow>
          ebind (idx_get (tables d) tid) (\<lambda>t.
          ebind (table_owner d t) (\<lambda>owner.
          ebind (players_cash d (fm_items (gi_cash i)) fm_empty) (\<lambda>cash_playing.
          ebind (efold stake (fm_items cash_playing) t) (\<lambda>t.
            efold (fraud_start_event tid owner (gi_info i)) (fm_items invalid)
              (push_applied_operation (Game_event tid owner (Game_start_playing_validated i))
                (set_table tid
                   (t\<lparr>game_created := head_block_time d,
                      game_expiration := head_block_time d + game_lifetime_limit_in_seconds (parameters d),
                      tb_voted_witnesses := required_witnesses\<rparr>) d)))))))"

section \<open>Applying a result\<close>

text \<open>
  The rake of a player waits in the list of pending fees of the player for its distribution; the
  amounts the players get are collected.
\<close>

definition collect_rake ::
    "string \<Rightarrow> room_id \<Rightarrow> witness_id flat_set \<Rightarrow> account_id \<times> gamer_cash_result \<Rightarrow>
     asset \<times> (player_id, asset) flat_map \<times> database \<Rightarrow> (asset \<times> (player_id, asset) flat_map \<times> database) res" where
  "collect_rake meta room required_witnesses = (\<lambda>(account, g) (room_rake, cash_result, d).
     ebind (get_player d account) (\<lambda>(pid, player).
     ebind (if 0 < amount (gr_rake g) then
              ebind (asset_plus room_rake (gr_rake g)) (\<lambda>room_rake.
                Inr (room_rake,
                  d\<lparr>players := idx_set pid
                      (player\<lparr>pending_fees := pending_fees player @
                         [\<lparr>ds_getter = account, ds_metadata = meta, ds_amount = amount (gr_rake g),
                           ds_asset_id = asset_id (gr_rake g), pf_room = room,
                           pf_witnesses = required_witnesses\<rparr>]\<rparr>) (players d)\<rparr>))
            else Inr (room_rake, d)) (\<lambda>(room_rake, d).
       Inr (room_rake, fm_put pid (gr_cash g) cash_result, d))))"

definition add_pending_rake :: "room_id \<Rightarrow> asset \<Rightarrow> database \<Rightarrow> database res" where
  "add_pending_rake room room_rake d =
     ebind (idx_get (rooms d) room) (\<lambda>r.
     ebind (asset_plus (pending_rake r) room_rake) (\<lambda>a.
       Inr (d\<lparr>rooms := idx_set room (r\<lparr>pending_rake := a\<rparr>) (rooms d)\<rparr>)))"

text \<open>\<^verbatim>\<open>playing_cash[p]\<close> inserts a zero amount for a player who has none.\<close>

definition settle_player :: "player_id \<times> asset \<Rightarrow> table_object \<Rightarrow> table_object res" where
  "settle_player = (\<lambda>(pid, new_amount) t.
     ebind (if 0 < amount new_amount then adjust_cash pid new_amount t else Inr t) (\<lambda>t.
     let t = (case fm_find (playing_cash t) pid of
                None \<Rightarrow> t\<lparr>playing_cash := fm_put pid (core_asset 0) (playing_cash t)\<rparr>
              | Some _ \<Rightarrow> t)
     in ebind (asset_neg (get_playing_cash_balance t pid)) (\<lambda>m. adjust_playing_cash pid m t)))"

definition return_rest :: "player_id \<times> asset \<Rightarrow> table_object \<Rightarrow> table_object res" where
  "return_rest = (\<lambda>(pid, c) t.
     ebind (asset_neg c) (\<lambda>m.
     ebind (adjust_playing_cash pid m t) (\<lambda>t. adjust_cash pid c t)))"

definition settle_table :: "(player_id, asset) flat_map \<Rightarrow> table_object \<Rightarrow> table_object res" where
  "settle_table cash_result t =
     ebind (efold settle_player (fm_items cash_result) t) (\<lambda>t.
     ebind (efold return_rest (fm_items (playing_cash t)) t) (\<lambda>t.
       Inr (t\<lparr>game_created := time_min, game_expiration := time_max, tb_voted_witnesses := fm_empty\<rparr>)))"

definition apply_result_impl ::
    "table_id \<Rightarrow> account_id \<Rightarrow> witness_id flat_set \<Rightarrow> game_result \<Rightarrow> database \<Rightarrow> (database \<times> game_result) res" where
  "apply_result_impl tid owner required_witnesses r d =
     ebind (pending_buyouts_resolve tid owner r d) (\<lambda>(r, d).
     ebind (idx_get (tables d) tid) (\<lambda>t.
     ebind (efold (collect_rake (tb_metadata t) (tb_room t) required_witnesses) (fm_items (res_cash r))
              (core_asset 0, fm_empty, d)) (\<lambda>(room_rake, cash_result, d).
     ebind (add_pending_rake (tb_room t) room_rake d) (\<lambda>d.
     ebind (modify_table tid (settle_table cash_result) d) (\<lambda>d.
       Inr (push_applied_operation (Game_event tid owner (Game_result_validated r)) d, r))))))"

definition fraud_result_event ::
    "table_id \<Rightarrow> account_id \<Rightarrow> string \<Rightarrow> account_id \<times> voting_data \<Rightarrow> database \<Rightarrow> database res" where
  "fraud_result_event tid owner log = (\<lambda>(a, v) d.
     (case v of
        Result r \<Rightarrow>
          Inr (push_applied_operation (Game_event tid owner (Fraud_game_result_check a (res_log r) log)) d)
      | Initial _ \<Rightarrow> Inl Bad_variant))"

definition apply_game_result_with_consensus ::
    "table_id \<Rightarrow> voting_data \<Rightarrow> witness_id flat_set \<Rightarrow> account_votes \<Rightarrow> database \<Rightarrow> database res" where
  "apply_game_result_with_consensus tid valid_vote required_witnesses invalid d =
     (case valid_vote of
        Initial _ \<Rightarrow> Inl Bad_variant
      | Result r \<Rightarrow>
          ebind (idx_get (tables d) tid) (\<lambda>t.
          ebind (table_owner d t) (\<lambda>owner.
          ebind (if fm_is_empty (res_cash r)
                 then ebind (rollback tid False d) (\<lambda>d. Inr (d, r))
                 else if HARDFORK_PLAYCHAIN_10_TIME \<le> head_block_time d
                      then with_registration_buy_in tid (apply_result_impl tid owner required_witnesses r) d
                      else ebind (apply_result_impl tid owner required_witnesses r d) (\<lambda>(d, r).
                           ebind (obsolete_buyins_resolve tid False d) (\<lambda>d. Inr (d, r)))) (\<lambda>(d, r).
            efold (fraud_result_event tid owner (res_log r)) (fm_items invalid) d))))"

section \<open>The end of a voting\<close>

definition expire_voting_for_playing :: "nat \<Rightarrow> table_id \<Rightarrow> database \<Rightarrow> database res" where
  "expire_voting_for_playing j tid d =
     ebind (idx_get (tables d) tid) (\<lambda>t.
     ebind (table_owner d t) (\<lambda>owner.
       Inr (cleanup_pending_votes tid
             ((push_applied_operation (Game_event tid owner Fail_expire_game_start_playing) d)
                \<lparr>votings := idx_remove j (votings d)\<rparr>))))"

definition scheduled_voting_for_results ::
    "'h::linorder externals \<Rightarrow> nat \<Rightarrow> table_id \<Rightarrow> database \<Rightarrow> database res" where
  "scheduled_voting_for_results ext j tid d =
     ebind (idx_get (tables d) tid) (\<lambda>t.
     ebind (voting ext j t (voting_for_results_requied_percent (parameters d)) d) (\<lambda>(outcome, d).
     ebind (case outcome of
              Some (v, ws, invalid) \<Rightarrow> apply_game_result_with_consensus tid v ws invalid d
            | None \<Rightarrow>
                ebind (table_owner d t) (\<lambda>owner.
                  rollback_game tid (push_applied_operation (Game_event tid owner Fail_consensus_game_result) d))) (\<lambda>d.
       Inr (cleanup_pending_votes tid d))))"

definition expire_voting_for_results ::
    "'h::linorder externals \<Rightarrow> nat \<Rightarrow> table_id \<Rightarrow> database \<Rightarrow> database res" where
  "expire_voting_for_results ext j tid d =
     ebind (idx_get (tables d) tid) (\<lambda>t.
     ebind (idx_get (votings d) j) (\<lambda>tv.
       if fm_size (tv_required_player_voters tv) \<le> fm_size (playing_cash t) \<and>
          min_votes_for_results (parameters d) \<le>
            fm_size (playing_cash t) - fm_size (tv_required_player_voters tv)
       then scheduled_voting_for_results ext j tid d
       else ebind (table_owner d t) (\<lambda>owner.
              rollback_game tid
                (push_applied_operation (Game_event tid owner Fail_expire_game_result)
                  (d\<lparr>votings := idx_remove j (votings d)\<rparr>)))))"

text \<open>
  Since hard fork 9 the votes to start a game are checked again when they are tallied: what the
  players have at the table may have changed.
\<close>

definition recheck_vote ::
    "table_id \<Rightarrow> account_id \<times> voting_data \<Rightarrow> bool \<times> account_votes \<times> database \<Rightarrow>
     (bool \<times> account_votes \<times> database) res" where
  "recheck_vote tid = (\<lambda>(voter, v) (any_invalid, valid_votes, d).
     (case v of
        Result _ \<Rightarrow> Inl Bad_variant
      | Initial i \<Rightarrow>
          ebind (idx_get (tables d) tid) (\<lambda>t.
          ebind (validate_initial d tid t i) (\<lambda>ok.
            if \<not> ok then
              ebind (table_owner d t) (\<lambda>owner.
                Inr (True, valid_votes,
                  push_fail_vote (Vote_start \<lparr>gsp_fee = core_asset 0, gsp_table = tid,
                    gsp_table_owner = owner, gsp_voter = voter, gsp_initial_data = i\<rparr>) d))
            else Inr (any_invalid, fm_put voter v valid_votes, d)))))"

definition recheck_votes :: "nat \<Rightarrow> table_id \<Rightarrow> database \<Rightarrow> database res" where
  "recheck_votes j tid d =
     (if HARDFORK_PLAYCHAIN_9_TIME \<le> head_block_time d then
        ebind (idx_get (votings d) j) (\<lambda>tv.
        ebind (efold (recheck_vote tid) (fm_items (tv_votes tv)) (False, fm_empty, d))
          (\<lambda>(any_invalid, valid_votes, d).
            Inr (if any_invalid
                 then d\<lparr>votings := idx_set j (tv\<lparr>tv_votes := valid_votes\<rparr>) (votings d)\<rparr>
                 else d)))
      else Inr d)"

definition scheduled_voting_for_playing ::
    "'h::linorder externals \<Rightarrow> nat \<Rightarrow> table_id \<Rightarrow> database \<Rightarrow> database res" where
  "scheduled_voting_for_playing ext j tid d =
     ebind (recheck_votes j tid d) (\<lambda>d.
     ebind (idx_get (tables d) tid) (\<lambda>t.
     ebind (idx_get (votings d) j) (\<lambda>tv.
     ebind (if min_votes_for_playing (parameters d) \<le> fm_size (tv_votes tv)
            then voting ext j t (voting_for_playing_requied_percent (parameters d)) d
            else Inr (None, d)) (\<lambda>(outcome, d).
     ebind (case outcome of
              Some (v, ws, invalid) \<Rightarrow> apply_start_playing_with_consensus tid v ws invalid d
            | None \<Rightarrow>
                ebind (table_owner d t) (\<lambda>owner.
                  Inr (push_applied_operation
                        (Game_event tid owner Fail_consensus_game_start_playing) d))) (\<lambda>d.
       Inr (cleanup_pending_votes tid d))))))"

section \<open>The evaluators\<close>

text \<open>
  \<^verbatim>\<open>find_implementation\<close>: the implementations are sorted by the time from which they are in force;
  the first one is taken until the second one is in force, and so on.
\<close>

fun find_implementation :: "time \<Rightarrow> (time \<times> 'i) list \<Rightarrow> 'i res" where
  "find_implementation now [] = Inl Null_deref"
| "find_implementation now [(since, impl)] = Inr impl"
| "find_implementation now ((since, impl) # (since', impl') # impls) =
     (if since' \<le> now then find_implementation now ((since', impl') # impls) else Inr impl)"

definition game_start_evaluate_v2 :: "database \<Rightarrow> game_start_playing_check_operation \<Rightarrow> unit res" where
  "game_start_evaluate_v2 d op =
     ebind (check (is_table_exists d (gsp_table op)) ''Table does not exist'') (\<lambda>_.
     ebind (idx_get (tables d) (gsp_table op)) (\<lambda>t.
     ebind (is_table_owner d t (gsp_table_owner op)) (\<lambda>own.
     ebind (check own ''Wrong table owner'') (\<lambda>_.
     ebind (check (2 \<le> fm_size (gi_cash (gsp_initial_data op)))
              ''Invalid data to vote. At least two players required'') (\<lambda>_.
     ebind (check (is_free t) ''Wrong type of voting. There is game on table'') (\<lambda>_.
       check_incoming_vote d (gsp_table op) t (Vote_start op)))))))"

definition game_start_apply_v2 :: "game_start_playing_check_operation \<Rightarrow> database \<Rightarrow> database res" where
  "game_start_apply_v2 op d =
     try_voting (gsp_table op) fm_empty (voting_for_playing_expiration_seconds (parameters d))
       (percentage_of_voter_witness_substitution_while_voting_for_playing (parameters d)) (Vote_start op) d"

definition game_result_evaluate_v2 :: "database \<Rightarrow> game_result_check_operation \<Rightarrow> unit res" where
  "game_result_evaluate_v2 d op =
     ebind (check (is_table_exists d (grc_table op)) ''Table does not exist'') (\<lambda>_.
     ebind (idx_get (tables d) (grc_table op)) (\<lambda>t.
     ebind (is_table_owner d t (grc_table_owner op)) (\<lambda>own.
     ebind (check own ''Wrong table owner'') (\<lambda>_.
     ebind (check (is_playing t) ''Wrong type of voting. There is no game on table'') (\<lambda>_.
       check_incoming_vote d (grc_table op) t (Vote_result op))))))"

definition game_result_apply_v2 :: "game_result_check_operation \<Rightarrow> database \<Rightarrow> database res" where
  "game_result_apply_v2 op d =
     ebind (idx_get (tables d) (grc_table op)) (\<lambda>t.
       try_voting (grc_table op) (tb_voted_witnesses t) (voting_for_results_expiration_seconds (parameters d))
         (percentage_of_voter_witness_substitution_while_voting_for_results (parameters d)) (Vote_result op) d)"

definition game_reset_evaluate :: "database \<Rightarrow> game_reset_operation \<Rightarrow> unit res" where
  "game_reset_evaluate d op =
     ebind (check (is_table_exists d (grs_table op)) ''Table does not exist'') (\<lambda>_.
     ebind (is_table_id_owner d (grs_table_owner op) (grs_table op)) (\<lambda>own.
       check own ''Wrong table owner''))"

definition game_reset_apply :: "game_reset_operation \<Rightarrow> database \<Rightarrow> database res" where
  "game_reset_apply op d =
     ebind (if \<not> grs_rollback_table op then rollback_game (grs_table op) d
            else rollback_table (grs_table op) d) (\<lambda>d.
       alive_for_table (grs_table op)
         (if head_block_time d < HARDFORK_PLAYCHAIN_10_TIME then cleanup_voting (grs_table op) d else d))"

end
