(* ===== verification/Game_Obsolete.thy ===== *)
theory Game_Obsolete
  imports Game
begin

text \<open>
  The evaluators of votes in force before hard fork 8 (\<^verbatim>\<open>game_evaluators_obsolete.cpp\<close>): a vote is
  tallied in the operation that completes the voting, not in the next block. The evaluators of
  \<^verbatim>\<open>game_evaluators.cpp\<close> choose between them and the current ones by the time of the head block
  (\<^verbatim>\<open>find_implementation\<close>). The branch for one broken block of the test network is not modelled.
\<close>

definition check_voter :: "database \<Rightarrow> table_id \<Rightarrow> table_object \<Rightarrow> account_id \<Rightarrow> unit res" where
  "check_voter d tid t voter =
     (case find_voting d tid of
        Some (j, tv) \<Rightarrow>
          ebind (check (\<not> fm_count (tv_votes tv) voter) ''Voter has already voted'') (\<lambda>_.
          ebind (if fm_count (tv_required_player_voters tv) voter then Inr True
                 else ebind (is_game_witness d t voter) (\<lambda>w.
                        if w then Inr True else is_table_owner d t voter)) (\<lambda>allowed.
            check allowed ''Invalid voter''))
      | None \<Rightarrow> check (find_pending_vote d tid voter = None) ''Voter has already voted'')"

text \<open>A vote is collected and, when it is the last one, tallied. The flag says that votes are
  still awaited.\<close>

definition apply_start_playing_check_voting ::
    "'h::linorder externals \<Rightarrow> table_id \<Rightarrow> game_start_playing_check_operation \<Rightarrow> database \<Rightarrow>
     (bool \<times> database) res" where
  "apply_start_playing_check_voting ext tid op d =
     ebind (idx_get (tables d) tid) (\<lambda>t.
     ebind (collect_votes tid t (gsp_voter op) (Initial (gsp_initial_data op))
              (voting_for_playing_expiration_seconds (parameters d))
              (percentage_of_voter_witness_substitution_while_voting_for_playing (parameters d))
              fm_empty False d) (\<lambda>(j, collected, d).
       if collected then
         ebind (voting ext j t (voting_for_playing_requied_percent (parameters d)) d) (\<lambda>(outcome, d).
         ebind (case outcome of
                  Some (v, ws, invalid) \<Rightarrow> apply_start_playing_with_consensus tid v ws invalid d
                | None \<Rightarrow>
                    ebind (table_owner d t) (\<lambda>owner.
                      Inr (push_applied_operation (Game_event tid owner Fail_consensus_game_start_playing) d))) (\<lambda>d.
           Inr (False, d)))
       else Inr (True, d)))"

definition apply_game_result_check_voting ::
    "'h::linorder externals \<Rightarrow> table_id \<Rightarrow> game_result_check_operation \<Rightarrow> database \<Rightarrow>
     (bool \<times> database) res" where
  "apply_game_result_check_voting ext tid op d =
     ebind (idx_get (tables d) tid) (\<lambda>t.
     ebind (collect_votes tid t (grc_voter op) (Result (grc_result op))
              (voting_for_results_expiration_seconds (parameters d))
              (percentage_of_voter_witness_substitution_while_voting_for_results (parameters d))
              (tb_voted_witnesses t) False d) (\<lambda>(j, collected, d).
       if collected then
         ebind (voting ext j t (voting_for_results_requied_percent (parameters d)) d) (\<lambda>(outcome, d).
         ebind (case outcome of
                  Some (v, ws, invalid) \<Rightarrow> apply_game_result_with_consensus tid v ws invalid d
                | None \<Rightarrow>
                    ebind (table_owner d t) (\<lambda>owner.
                      rollback tid False
                        (push_applied_operation (Game_event tid owner Fail_consensus_game_result) d))) (\<lambda>d.
           Inr (False, d)))
       else Inr (True, d)))"

fun apply_check_voting ::
    "'h::linorder externals \<Rightarrow> table_id \<Rightarrow> vote_op \<Rightarrow> database \<Rightarrow> (bool \<times> database) res" where
  "apply_check_voting ext tid (Vote_start op) d = apply_start_playing_check_voting ext tid op d"
| "apply_check_voting ext tid (Vote_result op) d = apply_game_result_check_voting ext tid op d"

text \<open>
  One round of the loop over the pending votes of the table. A vote that was removed meanwhile is an
  access to a removed object.
\<close>

definition apply_pending_vote ::
    "'h::linorder externals \<Rightarrow> table_id \<Rightarrow> vote_op \<Rightarrow> nat \<times> pending_table_vote_object \<Rightarrow>
     bool \<times> database \<Rightarrow> (bool \<times> database) res" where
  "apply_pending_vote ext tid op pending s =
     (case (pending, s) of ((i, _), (wait_next_vote, d)) \<Rightarrow>
        ebind (of_option Null_deref (idx_find (pending_votes d) i)) (\<lambda>vote_obj.
        ebind (if wait_next_vote then
                 let pending_op = pv_vote vote_obj
                 in if \<not> same_vote_kind op pending_op then Inl Bad_variant
                    else if head_block_time d < HARDFORK_PLAYCHAIN_1_TIME
                    then apply_check_voting ext tid pending_op d
                    else ebind (idx_get (tables d) tid) (\<lambda>t.
                         ebind (validate_ivariants d tid t (vote_data pending_op)) (\<lambda>ok.
                           if ok then apply_check_voting ext tid pending_op d
                           else Inr (wait_next_vote, push_fail_vote pending_op d)))
               else Inr (wait_next_vote, d)) (\<lambda>(wait_next_vote, d).
          ebind (of_option Null_deref (idx_find (pending_votes d) i)) (\<lambda>_.
            Inr (wait_next_vote, d\<lparr>pending_votes := idx_remove i (pending_votes d)\<rparr>)))))"

definition vote_apply_v1 ::
    "'h::linorder externals \<Rightarrow> table_id \<Rightarrow> vote_op \<Rightarrow> bool \<Rightarrow> database \<Rightarrow> database res" where
  "vote_apply_v1 ext tid op postpone d =
     (if postpone then
        ebind (idx_create (\<lambda>a b. pv_table a = pv_table b \<and> pv_voter a = pv_voter b)
                 \<lparr>pv_table = tid, pv_voter = vote_voter op, pv_vote = op\<rparr> (pending_votes d)) (\<lambda>(i, ix).
          Inr (d\<lparr>pending_votes := ix\<rparr>))
      else
        ebind (apply_check_voting ext tid op d) (\<lambda>(wait_next_vote, d).
        ebind (efold (apply_pending_vote ext tid op)
                 (filter (\<lambda>(i, v). pv_table v = tid) (idx_items (pending_votes d))) (wait_next_vote, d)) (\<lambda>(w, d).
          alive_for_table tid d)))"

definition game_start_evaluate_v1 :: "database \<Rightarrow> game_start_playing_check_operation \<Rightarrow> unit res" where
  "game_start_evaluate_v1 d op =
     ebind (check (is_table_exists d (gsp_table op)) ''Table does not exist'') (\<lambda>_.
     ebind (idx_get (tables d) (gsp_table op)) (\<lambda>t.
     ebind (is_table_owner d t (gsp_table_owner op)) (\<lambda>own.
     ebind (check own ''Wrong table owner'') (\<lambda>_.
     ebind (check (is_free t) ''Wrong type of voting. There is game on table'') (\<lambda>_.
     ebind (check (2 \<le> fm_size (gi_cash (gsp_initial_data op)))
              ''Invalid data to vote. At least two players required'') (\<lambda>_.
     ebind (check (\<not> is_table_voting_for_results d (gsp_table op)) ''Wrong type of voting'') (\<lambda>_.
     ebind (check_voter d (gsp_table op) t (gsp_voter op)) (\<lambda>_.
     ebind (validate_initial d (gsp_table op) t (gsp_initial_data op)) (\<lambda>ok.
       check ok ''Invalid initial data'')))))))))"

definition game_start_apply_v1 ::
    "'h::linorder externals \<Rightarrow> game_start_playing_check_operation \<Rightarrow> database \<Rightarrow> database res" where
  "game_start_apply_v1 ext op d =
     ebind (idx_get (tables d) (gsp_table op)) (\<lambda>t.
     ebind (is_table_owner d t (gsp_voter op)) (\<lambda>own.
       vote_apply_v1 ext (gsp_table op) (Vote_start op) (\<not> is_table_voting d (gsp_table op) \<and> \<not> own) d))"

definition game_result_evaluate_v1 :: "database \<Rightarrow> game_result_check_operation \<Rightarrow> unit res" where
  "game_result_evaluate_v1 d op =
     ebind (check (is_table_exists d (grc_table op)) ''Table does not exist'') (\<lambda>_.
     ebind (idx_get (tables d) (grc_table op)) (\<lambda>t.
     ebind (is_table_owner d t (grc_table_owner op)) (\<lambda>own.
     ebind (check own ''Wrong table owner'') (\<lambda>_.
     ebind (check (is_playing t) ''Wrong type of voting. There is no game on table'') (\<lambda>_.
     ebind (check (\<not> is_table_voting_for_playing d (grc_table op)) ''Wrong type of voting'') (\<lambda>_.
     ebind (check_voter d (grc_table op) t (grc_voter op)) (\<lambda>_.
     ebind (validate_result d t (grc_result op)) (\<lambda>ok.
       check ok ''Invalid result''))))))))"

definition game_result_apply_v1 ::
    "'h::linorder externals \<Rightarrow> game_result_check_operation \<Rightarrow> database \<Rightarrow> database res" where
  "game_result_apply_v1 ext op d =
     ebind (idx_get (tables d) (grc_table op)) (\<lambda>t.
     ebind (is_game_witness d t (grc_voter op)) (\<lambda>w.
     ebind (is_table_owner d t (grc_voter op)) (\<lambda>own.
       vote_apply_v1 ext (grc_table op) (Vote_result op)
         (\<not> is_table_voting d (grc_table op) \<and> \<not> w \<and> \<not> own) d)))"

section \<open>The choice of the implementation\<close>

definition game_start_playing_check_evaluate :: "database \<Rightarrow> game_start_playing_check_operation \<Rightarrow> unit res" where
  "game_start_playing_check_evaluate d op =
     ebind (find_implementation (head_block_time d)
              [(0, game_start_evaluate_v1), (HARDFORK_PLAYCHAIN_8_TIME, game_start_evaluate_v2)])
       (\<lambda>impl. impl d op)"

definition game_start_playing_check_apply ::
    "'h::linorder externals \<Rightarrow> game_start_playing_check_operation \<Rightarrow> database \<Rightarrow> database res" where
  "game_start_playing_check_apply ext op d =
     ebind (find_implementation (head_block_time d)
              [(0, game_start_apply_v1 ext), (HARDFORK_PLAYCHAIN_8_TIME, game_start_apply_v2)])
       (\<lambda>impl. impl op d)"

definition game_result_check_evaluate :: "database \<Rightarrow> game_result_check_operation \<Rightarrow> unit res" where
  "game_result_check_evaluate d op =
     ebind (find_implementation (head_block_time d)
              [(0, game_result_evaluate_v1), (HARDFORK_PLAYCHAIN_8_TIME, game_result_evaluate_v2)])
       (\<lambda>impl. impl d op)"

definition game_result_check_apply ::
    "'h::linorder externals \<Rightarrow> game_result_check_operation \<Rightarrow> database \<Rightarrow> database res" where
  "game_result_check_apply ext op d =
     ebind (find_implementation (head_block_time d)
              [(0, game_result_apply_v1 ext), (HARDFORK_PLAYCHAIN_8_TIME, game_result_apply_v2)])
       (\<lambda>impl. impl op d)"

lemma current_evaluators:
  assumes "HARDFORK_PLAYCHAIN_8_TIME \<le> head_block_time d"
  shows "game_start_playing_check_evaluate d = game_start_evaluate_v2 d"
    and "game_start_playing_check_apply ext op1 d = game_start_apply_v2 op1 d"
    and "game_result_check_evaluate d = game_result_evaluate_v2 d"
    and "game_result_check_apply ext op2 d = game_result_apply_v2 op2 d"
  using assms
  by (simp_all add: game_start_playing_check_evaluate_def game_start_playing_check_apply_def
      game_result_check_evaluate_def game_result_check_apply_def fun_eq_iff)

text \<open>
  The implementation that is chosen is the latest one in force, when the first one is in force from
  the beginning and they are sorted by time.
\<close>

lemma find_implementation_latest:
  assumes "sorted_wrt (<) (map fst impls)" and "impls \<noteq> []" and "fst (hd impls) \<le> now"
  shows "\<exists>since impl. (since, impl) \<in> set impls \<and> since \<le> now \<and> find_implementation now impls = Inr impl \<and>
    (\<forall>(s, i) \<in> set impls. s \<le> now \<longrightarrow> s \<le> since)"
  using assms
proof (induction now impls rule: find_implementation.induct)
  case (3 now since impl since' impl' impls)
  show ?case
  proof (cases "since' \<le> now")
    case True
    with 3 obtain s i where "(s, i) \<in> set ((since', impl') # impls)" "s \<le> now"
      "find_implementation now ((since', impl') # impls) = Inr i"
      "\<forall>(t, j) \<in> set ((since', impl') # impls). t \<le> now \<longrightarrow> t \<le> s"
      by auto
    with True 3(2) show ?thesis by (intro exI [of _ s] exI [of _ i]) fastforce
  next
    case False
    with 3(2,4) show ?thesis by (intro exI [of _ since] exI [of _ impl]) fastforce
  qed
qed auto

end
