(* ===== verification/Game_Funds.thy ===== *)
theory Game_Funds
  imports Game
begin

text \<open>
  Conservation of the funds through the life of a game: resolving deferred buy-outs, starting a game,
  applying its result, rolling it back. A result is a redistribution of what the players have in the
  game; the buy-outs are paid out of the result first, so the proof follows the funds from the
  playing cash through the result into balances, cash and the pending rake of the room.
\<close>

section \<open>Deferred buy-outs\<close>

definition result_funds :: "nat \<Rightarrow> game_result \<Rightarrow> int" where
  "result_funds x r = fm_sum (\<lambda>g. funds x (gr_cash g)) (res_cash r)"

definition result_nonneg :: "game_result \<Rightarrow> bool" where
  "result_nonneg r \<longleftrightarrow> (\<forall>a g. fm_find (res_cash r) a = Some g \<longrightarrow> 0 \<le> amount (gr_cash g))"

text \<open>Two results with the same players and the same rake.\<close>

definition same_rakes :: "game_result \<Rightarrow> game_result \<Rightarrow> bool" where
  "same_rakes r r' \<longleftrightarrow>
     (\<forall>a. map_option gr_rake (fm_find (res_cash r') a) = map_option gr_rake (fm_find (res_cash r) a)) \<and>
     res_log r' = res_log r"

lemma same_rakes_keys: "same_rakes r r' \<Longrightarrow> fm_keys (res_cash r') = fm_keys (res_cash r)"
proof -
  assume "same_rakes r r'"
  then have "fm_find (res_cash r') a = None \<longleftrightarrow> fm_find (res_cash r) a = None" for a
    unfolding same_rakes_def by (metis map_option_is_None)
  then show ?thesis by (simp add: fm_find_None_iff set_eq_iff)
qed

lemma same_rakes_refl [simp]: "same_rakes r r"
  by (simp add: same_rakes_def)

lemma same_rakes_trans: "same_rakes r r' \<Longrightarrow> same_rakes r' r'' \<Longrightarrow> same_rakes r r''"
  by (simp add: same_rakes_def)

text \<open>What a step takes: part of the amount, never more than is there.\<close>

definition part_of :: "asset \<Rightarrow> asset \<Rightarrow> bool" where
  "part_of left amt \<longleftrightarrow> 0 \<le> amount left \<and> amount left \<le> amount amt \<and> asset_id left = asset_id amt"

lemma part_of_refl: "0 \<le> amount a \<Longrightarrow> part_of a a"
  by (simp add: part_of_def)

lemma part_of_trans: "part_of a b \<Longrightarrow> part_of b c \<Longrightarrow> part_of a c"
  by (auto simp: part_of_def)

lemma part_of_nonneg: "part_of a b \<Longrightarrow> 0 \<le> amount a"
  by (simp add: part_of_def)

lemma take_min:
  assumes "asset_min have_it amt = Inr c" "asset_minus amt c = Inr left" "0 \<le> amount amt" "0 \<le> amount have_it"
  shows "part_of left amt" "part_of c have_it" "\<And>x. funds x c = funds x amt - funds x left"
  using assms by (auto simp: part_of_def asset_min_Inr asset_minus_Inr funds_def split: if_splits)

lemma take_from_result_Inr:
  assumes "take_from_result account amt r = Inr (left, r')" and "0 \<le> amount amt" and "result_nonneg r"
  shows "part_of left amt \<and> result_nonneg r' \<and> same_rakes r r' \<and>
    (\<forall>x. result_funds x r' = result_funds x r - (funds x amt - funds x left))"
proof (cases "fm_find (res_cash r) account")
  case None
  then show ?thesis using assms by (simp add: take_from_result_def part_of_refl)
next
  case (Some g)
  then obtain c c' where c: "asset_min (gr_cash g) amt = Inr c" "asset_minus amt c = Inr left"
    and c': "asset_minus (gr_cash g) c = Inr c'"
    and r': "r' = r\<lparr>res_cash := fm_put account (g\<lparr>gr_cash := c'\<rparr>) (res_cash r)\<rparr>"
    using assms(1) by (auto simp: take_from_result_def ebind_Inr)
  have g: "0 \<le> amount (gr_cash g)" using assms(3) Some by (simp add: result_nonneg_def)
  note t = take_min [OF c assms(2) g]
  have "0 \<le> amount c'" using t(2) c' by (auto simp: part_of_def asset_minus_Inr)
  moreover have "result_funds x r' = result_funds x r - (funds x amt - funds x left)" for x
    using Some t(3) [of x] funds_minus [OF c', of x] by (simp add: result_funds_def r')
  ultimately show ?thesis
    using t(1) assms(3) Some by (auto simp: r' result_nonneg_def same_rakes_def)
qed

text \<open>What the buy-outs leave alone.\<close>

definition same_world :: "database \<Rightarrow> database \<Rightarrow> bool" where
  "same_world d d' \<longleftrightarrow> players d' = players d \<and> rooms d' = rooms d \<and> witnesses d' = witnesses d \<and>
     head_block_time d' = head_block_time d \<and> parameters d' = parameters d \<and> votings d' = votings d"

lemma same_world_refl [simp]: "same_world d d"
  by (simp add: same_world_def)

lemma same_world_trans: "same_world d d' \<Longrightarrow> same_world d' d'' \<Longrightarrow> same_world d d''"
  by (simp add: same_world_def)

lemma same_world_updates [simp]:
  "same_world d (set_table i t e) \<longleftrightarrow> same_world d e"
  "same_world d (push_applied_operation v e) \<longleftrightarrow> same_world d e"
  "same_world d (e\<lparr>pending_buy_outs := b\<rparr>) \<longleftrightarrow> same_world d e"
  by (simp_all add: same_world_def push_applied_operation_def)

lemma adjust_balance_world: "adjust_balance a delta d = Inr d' \<Longrightarrow> same_world d d'"
  using adjust_balance_frame [of a delta d d'] by (simp add: same_world_def)

definition same_game :: "table_id \<Rightarrow> player_id set \<Rightarrow> database \<Rightarrow> database \<Rightarrow> bool" where
  "same_game tid P d d' \<longleftrightarrow>
     (\<exists>t t'. idx_find (tables d) tid = Some t \<and> idx_find (tables d') tid = Some t' \<and>
        tb_room t' = tb_room t \<and> tb_metadata t' = tb_metadata t \<and>
        (\<forall>p \<in> P. fm_find (playing_cash t') p = fm_find (playing_cash t) p))"

lemma same_game_refl: "idx_find (tables d) tid = Some t \<Longrightarrow> same_game tid P d d"
  by (auto simp: same_game_def)

lemma same_game_trans: "same_game tid P d d' \<Longrightarrow> same_game tid P d' d'' \<Longrightarrow> same_game tid P d d''"
  by (auto simp: same_game_def)

lemma same_game_tables: "tables d'' = tables d' \<Longrightarrow> same_game tid P d d' \<Longrightarrow> same_game tid P d d''"
  by (simp add: same_game_def)

lemma take_from_cash_Inr:
  assumes "take_from_cash tid pid amt d = Inr (left, d')" and "db_ok d" and "0 \<le> amount amt"
  shows "part_of left amt \<and> same_world d d' \<and> same_game tid P d d' \<and>
    gives (\<lambda>x. funds x left - funds x amt) d d'"
proof -
  obtain t where t: "idx_find (tables d) tid = Some t"
    using assms(1) by (auto simp: take_from_cash_def res_simps)
  show ?thesis
  proof (cases "0 < amount amt \<and> is_waiting_at_table t pid")
    case False
    then have "left = amt" "d' = d"
      using assms(1) t by (auto simp: take_from_cash_def idx_get_def split: if_splits)
    then show ?thesis using assms(3) t by (auto simp: part_of_refl intro: same_game_refl)
  next
    case True
    obtain c m where c: "asset_min (get_cash_balance t pid) amt = Inr c" "asset_minus amt c = Inr left"
      and m: "asset_neg c = Inr m" and d': "modify_table tid (adjust_cash pid m) d = Inr d'"
      using assms(1) t True by (auto simp: take_from_cash_def idx_get_def ebind_Inr)
    have "table_ok t" using assms(2) t by (rule db_ok_tableD)
    note tm = take_min [OF c assms(3) get_cash_balance_nonneg [OF this]]
    have "gives (\<lambda>x. funds x m) d d'"
      using d' by (rule adjust_cash_gives) (use t tm(2) m in \<open>auto simp: part_of_def asset_neg_Inr\<close>)
    moreover have "funds x m = funds x left - funds x amt" for x
      using tm(3) [of x] funds_neg [OF m, of x] by simp
    moreover obtain t' where a: "adjust_cash pid m t = Inr t'" and dd: "d' = set_table tid t' d"
      using d' t by (auto simp: modify_table_Inr)
    ultimately show ?thesis
      using tm(1) t adjust_cash_frame [OF a] by (simp add: same_game_def)
  qed
qed

lemma get_playing_cash_balance_nonneg: "table_ok t \<Longrightarrow> 0 \<le> amount (get_playing_cash_balance t pid)"
  by (auto simp: get_playing_cash_balance_def table_ok_def split: option.split dest: cash_okD)

lemma adjust_playing_cash_gives:
  assumes "modify_table tid (adjust_playing_cash pid amt) d = Inr d'"
    and "\<And>t. idx_find (tables d) tid = Some t \<Longrightarrow> table_ok t \<Longrightarrow>
           0 \<le> amount (get_playing_cash_balance t pid) + amount amt"
  shows "gives (\<lambda>x. funds x amt) d d'"
  using assms by (auto simp: modify_table_Inr adjust_playing_cash_funds
      intro!: set_table_gives intro: adjust_playing_cash_ok)

lemma take_from_playing_cash_Inr:
  assumes "take_from_playing_cash tid pid account r amt d = Inr (left, d')" and "db_ok d" and "0 \<le> amount amt"
    and P: "account \<notin> fm_keys (res_cash r) \<Longrightarrow> pid \<notin> P"
  shows "part_of left amt \<and> same_world d d' \<and> same_game tid P d d' \<and>
    gives (\<lambda>x. funds x left - funds x amt) d d'"
proof -
  obtain t where t: "idx_find (tables d) tid = Some t"
    using assms(1) by (auto simp: take_from_playing_cash_def res_simps)
  show ?thesis
  proof (cases "0 < amount amt \<and> is_playing_player t pid \<and> \<not> fm_count (res_cash r) account")
    case False
    then have "left = amt" "d' = d"
      using assms(1) t by (auto simp: take_from_playing_cash_def idx_get_def split: if_splits)
    then show ?thesis using assms(3) t by (auto simp: part_of_refl intro: same_game_refl)
  next
    case True
    obtain c m where c: "asset_min (get_playing_cash_balance t pid) amt = Inr c" "asset_minus amt c = Inr left"
      and m: "asset_neg c = Inr m" and d': "modify_table tid (adjust_playing_cash pid m) d = Inr d'"
      using assms(1) t True by (auto simp: take_from_playing_cash_def idx_get_def ebind_Inr)
    have "table_ok t" using assms(2) t by (rule db_ok_tableD)
    note tm = take_min [OF c assms(3) get_playing_cash_balance_nonneg [OF this]]
    have "gives (\<lambda>x. funds x m) d d'"
      using d' by (rule adjust_playing_cash_gives) (use t tm(2) m in \<open>auto simp: part_of_def asset_neg_Inr\<close>)
    moreover have "funds x m = funds x left - funds x amt" for x
      using tm(3) [of x] funds_neg [OF m, of x] by simp
    moreover obtain t' where a: "adjust_playing_cash pid m t = Inr t'" and dd: "d' = set_table tid t' d"
      using d' t by (auto simp: modify_table_Inr)
    moreover have "pid \<notin> P" using P True by simp
    then have "\<forall>p \<in> P. fm_find (playing_cash t') p = fm_find (playing_cash t) p"
      using adjust_playing_cash_frame(7) [OF a] by metis
    ultimately show ?thesis
      using tm(1) t adjust_playing_cash_frame(3,6) [OF a] by (simp add: same_game_def)
  qed
qed

lemma pay_buy_out_Inr:
  assumes "pay_buy_out tid owner account amt left d = Inr d'" and "part_of left amt"
  shows "same_world d d' \<and> tables d' = tables d \<and> gives (\<lambda>x. funds x amt - funds x left) d d'"
proof -
  obtain allowed e where a: "asset_minus amt left = Inr allowed"
    and e: "(if 0 < amount allowed then
               ebind (adjust_balance account allowed d) (\<lambda>d.
                 Inr (push_applied_operation (Game_event tid owner (Buy_out_allowed account allowed)) d))
             else Inr d) = Inr e"
    and d': "d' = (if 0 < amount left
        then push_applied_operation (Game_event tid owner (Fraud_buy_out account left allowed)) e else e)"
    using assms(1) unfolding pay_buy_out_def ebind_Inr by blast
  have f: "funds x allowed = funds x amt - funds x left" for x by (rule funds_minus [OF a])
  have "same_world d e \<and> tables e = tables d \<and> gives (\<lambda>x. funds x allowed) d e"
  proof (cases "0 < amount allowed")
    case True
    then obtain b where b: "adjust_balance account allowed d = Inr b"
      and e': "e = push_applied_operation (Game_event tid owner (Buy_out_allowed account allowed)) b"
      using e by (auto simp: ebind_Inr)
    show ?thesis
      using adjust_balance_world [OF b] adjust_balance_frame(1) [OF b] adjust_balance_gives [OF b]
      unfolding e' by (auto simp: push_applied_form [of _ b] same_world_def
          intro: gives_post [of _ d b] simp: same_funds_def)
  next
    case False
    then have "funds x allowed = 0" for x
      using a assms(2) by (auto simp: part_of_def asset_minus_Inr funds_def)
    then show ?thesis using e False by simp
  qed
  then show ?thesis
    unfolding d' f by (auto simp: push_applied_form intro: gives_post simp: same_funds_def same_world_def)
qed

text \<open>
  The invariant of the loop over the deferred buy-outs: what a buy-out takes from the result goes to
  a balance, so the funds of the chain and of the result together stay the same.
\<close>

definition buyout_inv :: "table_id \<Rightarrow> game_result \<Rightarrow> database \<Rightarrow> game_result \<times> database \<Rightarrow> bool" where
  "buyout_inv tid r0 d0 = (\<lambda>(r, d).
     db_ok d \<and> (\<forall>x. held x d + result_funds x r = held x d0 + result_funds x r0) \<and>
     same_rakes r0 r \<and> result_nonneg r \<and> same_world d0 d \<and>
     same_game tid (acct_pid d0 ` fm_keys (res_cash r0)) d0 d)"

lemma acct_pid_world: "same_world d d' \<Longrightarrow> acct_pid d' = acct_pid d"
  by (simp add: same_world_def acct_pid_def find_player_def fun_eq_iff)

lemma find_player_world: "same_world d d' \<Longrightarrow> find_player d' = find_player d"
  by (simp add: same_world_def find_player_def fun_eq_iff)

lemma remove_buy_out_entry: "conserves d (d\<lparr>pending_buy_outs := idx_remove j (pending_buy_outs d)\<rparr>)"
  by (rule buy_outs_conserves) (rule idx_all_remove)

lemma resolve_buyout_inv:
  assumes inv: "buyout_inv tid r0 d0 (r, d)"
    and step: "resolve_buyout tid owner (j, buyout) (r, d) = Inr (r', d')"
    and amt: "0 \<le> amount (po_amount buyout)"
    and known: "\<And>a. a \<in> fm_keys (res_cash r0) \<Longrightarrow> find_player d0 a \<noteq> None"
  shows "buyout_inv tid r0 d0 (r', d')"
proof -
  let ?P = "acct_pid d0 ` fm_keys (res_cash r0)"
  let ?amt = "po_amount buyout" let ?pid = "po_player buyout"
  obtain player l1 l2 l3 e1 e2 e3 where p: "idx_find (players d) ?pid = Some player"
    and s1: "take_from_result (pl_account player) ?amt r = Inr (l1, r')"
    and s2: "take_from_cash tid ?pid l1 d = Inr (l2, e1)"
    and s3: "take_from_playing_cash tid ?pid (pl_account player) r' l2 e1 = Inr (l3, e2)"
    and s4: "pay_buy_out tid owner (pl_account player) ?amt l3 e2 = Inr e3"
    and d': "d' = e3\<lparr>pending_buy_outs := idx_remove j (pending_buy_outs e3)\<rparr>"
    using step by (auto simp: resolve_buyout_def ebind_Inr idx_get_Inr)
  have ok: "db_ok d" and nn: "result_nonneg r" and w: "same_world d0 d" and rk: "same_rakes r0 r"
    using inv by (auto simp: buyout_inv_def)
  note t1 = take_from_result_Inr [OF s1 amt nn]
  then have l1: "0 \<le> amount l1" by (auto intro: part_of_nonneg)
  note t2 = take_from_cash_Inr [OF s2 ok l1, of ?P]
  then have l2: "0 \<le> amount l2" and ok1: "db_ok e1"
    using gives_ok ok by (auto intro: part_of_nonneg)
  have "?pid \<notin> ?P" if new: "pl_account player \<notin> fm_keys (res_cash r')"
  proof
    assume "?pid \<in> ?P"
    then obtain a where a: "a \<in> fm_keys (res_cash r0)" "?pid = acct_pid d0 a" by blast
    then have "pl_account player = a"
      using p acct_pid_player [OF known [OF a(1)]] w by (simp add: same_world_def)
    moreover have "fm_keys (res_cash r') = fm_keys (res_cash r0)"
      using rk t1 same_rakes_keys by blast
    ultimately show False using a new by simp
  qed
  note t3 = take_from_playing_cash_Inr [OF s3 ok1 l2, of ?P, OF this]
  have part: "part_of l3 ?amt" using t1 t2 t3 by (blast intro: part_of_trans)
  note t4 = pay_buy_out_Inr [OF s4 part]
  have g2: "gives (\<lambda>x. funds x l2 - funds x l1) d e1" and g3: "gives (\<lambda>x. funds x l3 - funds x l2) e1 e2"
    and g4: "gives (\<lambda>x. funds x ?amt - funds x l3) e2 e3"
    using t2 t3 t4 by simp_all
  from gives_trans [OF gives_trans [OF g2 gives_trans [OF g3 g4]] remove_buy_out_entry [of e3 j]]
  have "gives (\<lambda>x. funds x ?amt - funds x l1) d d'"
    unfolding d' by (simp add: algebra_simps)
  moreover have "same_game tid ?P d e3"
    using t2 t3 t4 by (blast intro: same_game_trans same_game_tables)
  then have "same_game tid ?P d0 d'"
    using inv unfolding d' by (auto simp: buyout_inv_def intro: same_game_trans same_game_tables)
  moreover have "same_world d0 d'"
    using w t2 t3 t4 unfolding d' by (auto intro: same_world_trans)
  moreover have "same_rakes r0 r'" "result_nonneg r'"
    using rk t1 by (auto intro: same_rakes_trans)
  ultimately show ?thesis
    using inv t1 by (auto simp: buyout_inv_def gives_def)
qed

lemma pending_buyouts_resolve_inv:
  assumes "pending_buyouts_resolve tid owner r d = Inr (r', d')"
    and "db_ok d" and "result_nonneg r" and "idx_find (tables d) tid = Some t"
    and known: "\<And>a. a \<in> fm_keys (res_cash r) \<Longrightarrow> find_player d a \<noteq> None"
  shows "buyout_inv tid r d (r', d')"
  using assms(1) unfolding pending_buyouts_resolve_def
proof (rule efold_invariant [where P = "buyout_inv tid r d", rotated 2])
  show "buyout_inv tid r d (r, d)"
    using assms(2-4) by (simp add: buyout_inv_def same_game_refl)
  fix b s s'
  assume "b \<in> set (buy_outs_at d tid)" and inv: "buyout_inv tid r d s" and step: "resolve_buyout tid owner b s = Inr s'"
  moreover obtain j o1 where b: "b = (j, o1)" by (cases b)
  ultimately have "idx_find (pending_buy_outs d) j = Some o1"
    by (simp add: buy_outs_at_def idx_items_iff)
  then have "0 \<le> amount (po_amount o1)"
    using assms(2) by (auto simp: db_ok_def dest: idx_allD)
  moreover obtain rr dd rr' dd' where "s = (rr, dd)" "s' = (rr', dd')" by (cases s; cases s')
  ultimately show "buyout_inv tid r d s'"
    using resolve_buyout_inv [of tid r d rr dd owner j o1 rr' dd'] inv step known b by blast
qed

section \<open>Buy-in bookkeeping moves no funds\<close>

lemma register_all_same_funds:
  "efold (\<lambda>pid. register_buy_in pid tid) ps d = Inr d' \<Longrightarrow> same_funds d d'"
  by (rule efold_invariant [where P = "same_funds d"]) (auto intro: same_funds_trans register_buy_in_same_funds)

lemma with_registration_conserves:
  assumes "with_registration_buy_in tid callback d = Inr (d', x)"
    and "\<And>e. callback d = Inr (e, x) \<Longrightarrow> conserves d e"
  shows "conserves d d'"
proof -
  obtain e ps where e: "callback d = Inr (e, x)" and r: "efold (\<lambda>pid. register_buy_in pid tid) ps e = Inr d'"
    using assms(1) by (auto simp: with_registration_buy_in_def Let_def ebind_Inr)
  show ?thesis
    by (rule gives_post [OF assms(2) [OF e] register_all_same_funds [OF r]])
qed

lemma resolve_buy_in_same_funds:
  assumes "resolve_buy_in tid clear jb d = Inr d'"
  shows "same_funds d d'"
proof -
  obtain j b t where "jb = (j, b)" and "idx_find (tables d) tid = Some t"
    using assms by (cases jb) (auto simp: resolve_buy_in_def ebind_Inr idx_get_Inr)
  then show ?thesis
    using assms prolong_life_same_funds [of j d d']
    by (simp add: resolve_buy_in_def idx_get_def split: if_splits)
      (metis same_funds_refl same_funds_updates(4))+
qed

lemma obsolete_buyins_resolve_same_funds: "obsolete_buyins_resolve tid clear d = Inr d' \<Longrightarrow> same_funds d d'"
  unfolding obsolete_buyins_resolve_def
  by (erule efold_invariant [where P = "same_funds d", rotated 2])
    (auto intro: same_funds_trans resolve_buy_in_same_funds)

lemma fold_same_funds: "(\<And>x d. same_funds d (f x d)) \<Longrightarrow> same_funds d (fold f xs d)"
proof (induction xs arbitrary: d)
  case (Cons x xs)
  then show ?case using same_funds_trans by fastforce
qed simp

lemma cleanup_same_funds [simp]:
  "same_funds d (cleanup_pending_votes tid d)" "same_funds d (cleanup_voting tid d)"
  by (auto simp: cleanup_pending_votes_def cleanup_voting_def remove_pending_vote_def push_fail_vote_def
      split: option.split intro!: fold_same_funds)

section \<open>Rolling back\<close>

lemma rolling_cash_Inr:
  assumes "rolling_cash t = Inr m" and "cash_ok (cash t)" and "cash_ok (playing_cash t)"
  shows "\<And>x. fm_sum (funds x) m = table_funds x t"
proof -
  let ?f = "\<lambda>(pid, c) m. ebind (asset_plus (case fm_find m pid of None \<Rightarrow> core_asset 0 | Some a \<Rightarrow> a) c) (\<lambda>a.
         Inr (fm_put pid a m))"
  have "fm_sum (funds x) m' = fm_sum (funds x) m0 + (\<Sum>(k, c) \<leftarrow> xs. funds x c)"
    if "efold ?f xs m0 = Inr m'" for xs m0 m' x
    using that
  proof (induction xs arbitrary: m0)
    case (Cons p xs)
    obtain pid c where p: "p = (pid, c)" by (cases p)
    obtain a where a: "asset_plus (case fm_find m0 pid of None \<Rightarrow> core_asset 0 | Some a \<Rightarrow> a) c = Inr a"
      and e: "efold ?f xs (fm_put pid a m0) = Inr m'"
      using Cons.prems by (auto simp: p ebind_Inr)
    from Cons.IH [OF e] funds_plus [OF a, of x] show ?case
      by (auto simp: p funds_def split: option.splits)
  qed simp
  from this [OF assms(1) [unfolded rolling_cash_def]] show "\<And>x. fm_sum (funds x) m = table_funds x t"
    by (simp add: table_funds_def fm_ksum_def)
qed

lemma return_buy_in_Inr:
  assumes "return_buy_in tid owner (pid, c) d = Inr d'"
  shows "tables d' = tables d" "gives (\<lambda>x. funds x c) d d'"
proof -
  obtain account e where e: "same_funds d e" and a: "adjust_balance account c e = Inr d'"
    using assms by (auto simp: return_buy_in_def ebind_Inr intro!: that)
  show "tables d' = tables d"
    using adjust_balance_frame(1) [OF a] e by (simp add: same_funds_def)
  show "gives (\<lambda>x. funds x c) d d'"
    by (rule gives_pre [OF e adjust_balance_gives [OF a]])
qed

lemma return_buy_ins_gives:
  "efold (return_buy_in tid owner) xs d = Inr d' \<Longrightarrow>
     tables d' = tables d \<and> gives (\<lambda>x. \<Sum>(pid, c) \<leftarrow> xs. funds x c) d d'"
proof (induction xs arbitrary: d)
  case (Cons p xs)
  obtain pid c where p: "p = (pid, c)" by (cases p)
  obtain e where e: "return_buy_in tid owner (pid, c) d = Inr e" and r: "efold (return_buy_in tid owner) xs e = Inr d'"
    using Cons.prems by (auto simp: p ebind_Inr)
  from gives_trans [OF return_buy_in_Inr(2) [OF e] conjunct2 [OF Cons.IH [OF r]]] Cons.IH [OF r] return_buy_in_Inr(1) [OF e]
  show ?case by (simp add: p)
qed simp

lemma announce_cash_return_same_funds:
  "efold (announce_cash_return tid owner) xs d = Inr d' \<Longrightarrow> same_funds d d'"
  by (erule efold_invariant [where P = "same_funds d", rotated 2])
    (auto simp: announce_cash_return_def ebind_Inr split: prod.splits)

text \<open>Clearing the table: with a full clear nothing is left, else the playing cash becomes cash again.\<close>

lemma adjust_cash_all:
  assumes "efold (\<lambda>(pid, c). adjust_cash pid c) xs t = Inr t'" and "table_ok t"
    and "\<forall>(pid, c) \<in> set xs. 0 < amount c"
  shows "table_ok t' \<and> playing_cash t' = playing_cash t \<and>
    (\<forall>x. table_funds x t' = table_funds x t + (\<Sum>(pid, c) \<leftarrow> xs. funds x c))"
  using assms
proof (induction xs arbitrary: t)
  case (Cons p xs)
  obtain pid c where p: "p = (pid, c)" by (cases p)
  obtain u where u: "adjust_cash pid c t = Inr u" and r: "efold (\<lambda>(pid, c). adjust_cash pid c) xs u = Inr t'"
    using Cons.prems(1) by (auto simp: p ebind_Inr)
  have "0 \<le> amount (get_cash_balance t pid) + amount c"
    using get_cash_balance_nonneg [OF Cons.prems(2), of pid] Cons.prems(3) by (auto simp: p)
  note f = adjust_cash_funds [OF u this]
  from Cons.IH [OF r adjust_cash_ok [OF u Cons.prems(2)]] Cons.prems(3) f adjust_cash_frame(1) [OF u]
  show ?case by (auto simp: p)
qed simp

lemma game_times_simps [simp]:
  "table_ok (t\<lparr>game_created := a, game_expiration := b\<rparr>) = table_ok t"
  "table_ok (t\<lparr>game_created := a, game_expiration := b, tb_voted_witnesses := w\<rparr>) = table_ok t"
  "table_funds x (t\<lparr>game_created := a, game_expiration := b\<rparr>) = table_funds x t"
  "table_funds x (t\<lparr>game_created := a, game_expiration := b, tb_voted_witnesses := w\<rparr>) = table_funds x t"
  by (simp_all add: table_ok_def seats_ok_def seated_def table_funds_def)

lemma clear_table_full:
  assumes "clear_table True t = Inr t'" and "table_ok t"
  shows "table_ok t' \<and> cash t' = fm_empty \<and> playing_cash t' = fm_empty \<and> table_funds x t' = 0"
proof -
  have "t' = clear_cash (clear_playing_cash (t\<lparr>game_created := time_min, game_expiration := time_max\<rparr>))"
    using assms(1) by (simp add: clear_table_def Let_def)
  then show ?thesis using assms(2) by (simp add: clear_cash_ok clear_playing_cash_ok table_funds_def)
qed

lemma clear_table_game:
  assumes "clear_table False t = Inr t'" and ok: "table_ok t"
  shows "table_ok t' \<and> playing_cash t' = fm_empty \<and> (\<forall>x. table_funds x t' = table_funds x t)"
proof -
  let ?t = "t\<lparr>game_created := time_min, game_expiration := time_max\<rparr>"
  obtain u where u: "efold (\<lambda>(pid, c). adjust_cash pid c) (fm_items (playing_cash t)) ?t = Inr u"
    and t': "t' = clear_playing_cash u"
    using assms(1) by (auto simp: clear_table_def Let_def ebind_Inr)
  have "\<forall>(pid, c) \<in> set (fm_items (playing_cash t)). 0 < amount c"
    using ok by (auto simp: table_ok_def fm_find_items [symmetric] dest: cash_okD)
  from adjust_cash_all [OF u _ this] ok show ?thesis
    by (auto simp: t' clear_funds fm_ksum_def intro: wf_intros)
qed

text \<open>
  The two ways of returning what the players have: to their balances, or to the cash at the table.
\<close>

lemma return_and_clear_conserves:
  assumes t: "idx_find (tables d) tid = Some t"
    and e: "(if full_clear
             then ebind (rolling_cash t) (\<lambda>m. efold (return_buy_in tid owner) (fm_items m) d)
             else efold (announce_cash_return tid owner) (fm_items (playing_cash t)) d) = Inr e"
    and c: "modify_table tid (clear_table full_clear) e = Inr f"
  shows "conserves d f"
proof (cases "db_ok d")
  case True
  then have ok: "table_ok t" using t by (rule db_ok_tableD)
  then have co: "cash_ok (cash t)" "cash_ok (playing_cash t)" by (simp_all add: table_ok_def)
  show ?thesis
  proof (cases full_clear)
    case True
    then obtain m where m: "rolling_cash t = Inr m" and r: "efold (return_buy_in tid owner) (fm_items m) d = Inr e"
      using e by (auto simp: ebind_Inr)
    note g = return_buy_ins_gives [OF r]
    then have te: "idx_find (tables e) tid = Some t" using t by simp
    obtain t' where t': "clear_table True t = Inr t'" and f: "f = set_table tid t' e"
      using c te True by (auto simp: modify_table_Inr)
    have "gives (\<lambda>x. - table_funds x t) e f"
      unfolding f by (rule set_table_gives [OF te]) (use clear_table_full [OF t'] in auto)
    from gives_trans [OF conjunct2 [OF g] this] rolling_cash_Inr [OF m co] show ?thesis
      by (simp add: fm_ksum_def)
  next
    case False
    then have s: "same_funds d e" using e by (auto intro: announce_cash_return_same_funds)
    then have te: "idx_find (tables e) tid = Some t" using t by (simp add: same_funds_def)
    obtain t' where t': "clear_table False t = Inr t'" and f: "f = set_table tid t' e"
      using c te False by (auto simp: modify_table_Inr)
    have "conserves e f"
      unfolding f by (rule set_table_gives [OF te]) (use clear_table_game [OF t'] in auto)
    then show ?thesis by (rule gives_pre [OF s])
  qed
qed (simp add: gives_def)

lemma rollback_impl_conserves:
  assumes "rollback_impl tid full_clear d = Inr d'"
  shows "conserves d d'"
proof (cases "db_ok d")
  case True
  let ?r = "\<lparr>res_cash = fm_empty, res_log = []\<rparr> :: game_result"
  obtain t owner r d1 t1 e f where t: "idx_find (tables d) tid = Some t"
    and b: "pending_buyouts_resolve tid owner ?r (push_applied_operation (Game_event tid owner Game_rollback) d) = Inr (r, d1)"
    and t1: "idx_find (tables d1) tid = Some t1"
    and e: "(if full_clear
             then ebind (rolling_cash t1) (\<lambda>m. efold (return_buy_in tid owner) (fm_items m) d1)
             else efold (announce_cash_return tid owner) (fm_items (playing_cash t1)) d1) = Inr e"
    and f: "modify_table tid (clear_table full_clear) e = Inr f"
    and d': "d' = cleanup_pending_votes tid f"
    using assms unfolding rollback_impl_def ebind_Inr idx_get_Inr by (auto simp: ebind_Inr idx_get_Inr)
  let ?d = "push_applied_operation (Game_event tid owner Game_rollback) d"
  have "buyout_inv tid ?r ?d (r, d1)"
    by (rule pending_buyouts_resolve_inv [OF b]) (use True t in \<open>simp_all add: result_nonneg_def\<close>)
  then have "\<forall>x. held x d1 + result_funds x r = held x d + result_funds x ?r" "same_rakes ?r r" "db_ok d1"
    by (auto simp: buyout_inv_def)
  moreover have "res_cash r = fm_empty"
    by (rule fm_eqI) (use \<open>same_rakes ?r r\<close> in \<open>simp add: same_rakes_def\<close>)
  ultimately have "conserves d d1" by (simp add: gives_def result_funds_def)
  also have "conserves d1 f" by (rule return_and_clear_conserves [OF t1 e f])
  finally show ?thesis unfolding d' by (rule gives_post) simp
qed (simp add: gives_def)

lemma rollback_conserves:
  assumes "rollback tid full_clear d = Inr d'"
  shows "conserves d d'"
proof -
  consider (game) e where "HARDFORK_PLAYCHAIN_10_TIME \<le> head_block_time d"
      "with_registration_buy_in tid (\<lambda>d. ebind (rollback_impl tid full_clear d) (\<lambda>d. Inr (d, ()))) d = Inr (e, ())"
      "d' = cleanup_voting tid e"
    | (full) e where "HARDFORK_PLAYCHAIN_10_TIME \<le> head_block_time d"
      "rollback_impl tid full_clear d = Inr e" "d' = cleanup_voting tid (cleanup_buy_ins tid e)"
    | (old) e where "rollback_impl tid full_clear d = Inr e" "obsolete_buyins_resolve tid full_clear e = Inr d'"
    using assms unfolding rollback_def by (auto simp: ebind_Inr split: if_splits)
  then show ?thesis
  proof cases
    case game
    have "conserves d e"
      by (rule with_registration_conserves [OF game(2)]) (auto simp: ebind_Inr intro: rollback_impl_conserves)
    then show ?thesis unfolding game(3) by (rule gives_post) simp
  next
    case full
    have "same_funds e d'" unfolding full(3) by (rule same_funds_trans [OF cleanup_buy_ins_same_funds cleanup_same_funds(2)])
    then show ?thesis by (rule gives_post [OF rollback_impl_conserves [OF full(2)]])
  next
    case old
    show ?thesis
      by (rule gives_post [OF rollback_impl_conserves [OF old(1)] obsolete_buyins_resolve_same_funds [OF old(2)]])
  qed
qed

section \<open>Starting a game\<close>

definition by_player :: "database \<Rightarrow> (account_id \<times> asset) list \<Rightarrow> (player_id, asset) flat_map \<Rightarrow> (player_id, asset) flat_map" where
  "by_player d xs m = fold (\<lambda>(a, c). fm_put (acct_pid d a) c) xs m"

lemma collect_initial_True:
  "collect_initial d t xs m = (True, m') \<Longrightarrow>
     m' = by_player d xs m \<and>
     (\<forall>(a, c) \<in> set xs. 0 < amount c \<and> find_player d a \<noteq> None \<and> acct_pid d a \<in> fm_keys (cash t))"
  by (induction d t xs m rule: collect_initial.induct)
    (auto simp: by_player_def acct_pid_def split: if_splits option.splits prod.splits)

lemma players_cash_Inr: "players_cash d xs m = Inr m' \<Longrightarrow> m' = by_player d xs m"
  unfolding players_cash_def
  by (induction xs arbitrary: m)
    (auto simp: by_player_def acct_pid_def get_player_def res_simps split: prod.splits)

lemma by_player_find:
  assumes "fm_find (by_player d xs m) pid = Some c"
  shows "(\<exists>a. (a, c) \<in> set xs \<and> acct_pid d a = pid) \<or> fm_find m pid = Some c"
  using assms unfolding by_player_def
  by (induction xs arbitrary: m) (fastforce split: prod.splits if_splits)+

lemma enough_cash_True:
  "enough_cash xs m = Inr True \<Longrightarrow> (pid, c) \<in> set xs \<Longrightarrow> fm_find m pid = Some v \<Longrightarrow>
     asset_id c = asset_id v \<and> amount v \<le> amount c"
  by (induction xs m rule: enough_cash.induct)
    (auto simp: res_simps split: option.splits if_splits)

text \<open>A valid vote to start a game stakes for each player a positive amount the player has at the table.\<close>

lemma validate_initial_True:
  assumes "validate_initial d tid t i = Inr True" and "fm_keys (gi_cash i) \<noteq> {}"
    and "fm_find (by_player d (fm_items (gi_cash i)) fm_empty) pid = Some c"
  shows "0 < amount c" and "amount c \<le> amount (get_cash_balance t pid)"
proof -
  let ?xs = "fm_items (gi_cash i)"
  obtain m where m: "collect_initial d t ?xs fm_empty = (True, m)"
    using assms(1,2)
    by (cases "collect_initial d t ?xs fm_empty") (auto simp: validate_initial_def split: bool.splits)
  then have e: "enough_cash (fm_items (cash t)) m = Inr True"
    using assms(1,2) by (auto simp: validate_initial_def res_simps split: if_splits)
  obtain a where a: "(a, c) \<in> set ?xs" "acct_pid d a = pid"
    using by_player_find [OF assms(3)] by auto
  show "0 < amount c" using collect_initial_True [OF m] a by auto
  have "pid \<in> fm_keys (cash t)" using collect_initial_True [OF m] a by auto
  then obtain b where b: "fm_find (cash t) pid = Some b" by (blast dest: fm_keys_find)
  moreover have "fm_find m pid = Some c" using collect_initial_True [OF m] assms(3) by simp
  ultimately show "amount c \<le> amount (get_cash_balance t pid)"
    using enough_cash_True [OF e, of pid b c] b fm_find_items [of "cash t" pid b] by (simp add: get_cash_balance_def)
qed

lemma adjust_playing_cash_amount:
  assumes "adjust_playing_cash p delta t = Inr t'" and "cash_ok (playing_cash t)"
  shows "amount (get_playing_cash_balance t' p) = max 0 (amount (get_playing_cash_balance t p) + amount delta)"
  using assms by (auto elim!: adjust_playing_cash_cases simp: get_playing_cash_balance_def)

lemma stake_Inr:
  assumes "stake (pid, c) t = Inr t'" and ok: "table_ok t" and c: "0 < amount c" "amount c \<le> amount (get_cash_balance t pid)"
  shows "table_ok t'" and "table_funds x t' = table_funds x t" and "pending_proposals t' = pending_proposals t"
    and "q \<noteq> pid \<Longrightarrow> get_cash_balance t' q = get_cash_balance t q"
    and "q \<noteq> pid \<Longrightarrow> get_playing_cash_balance t' q = get_playing_cash_balance t q"
    and "amount (get_cash_balance t' pid) = amount (get_cash_balance t pid) - amount c"
    and "amount (get_playing_cash_balance t' pid) = amount (get_playing_cash_balance t pid) + amount c"
proof -
  obtain u m where u: "adjust_playing_cash pid c t = Inr u" and m: "asset_neg c = Inr m" and t': "adjust_cash pid m u = Inr t'"
    using assms(1) by (auto simp: stake_def ebind_Inr)
  note fu = adjust_playing_cash_frame [OF u] and ft = adjust_cash_frame [OF t']
  have ok': "table_ok u" using u ok by (rule adjust_playing_cash_ok)
  then show "table_ok t'" by (rule adjust_cash_ok [OF t'])
  have mm: "amount m = - amount c" using m by (simp add: asset_neg_Inr)
  have cu: "get_cash_balance u q = get_cash_balance t q" for q by (simp add: get_cash_balance_def fu)
  have "0 \<le> amount (get_playing_cash_balance t pid) + amount c"
    using get_playing_cash_balance_nonneg [OF ok, of pid] c by simp
  note f1 = adjust_playing_cash_funds [OF u this]
  have "0 \<le> amount (get_cash_balance u pid) + amount m" using c cu mm by simp
  note f2 = adjust_cash_funds [OF t' this]
  show "table_funds x t' = table_funds x t" using f1 f2 funds_neg [OF m] by simp
  show "pending_proposals t' = pending_proposals t" by (simp add: fu ft)
  show "q \<noteq> pid \<Longrightarrow> get_cash_balance t' q = get_cash_balance t q"
    using ft(7) [of q] cu by (simp add: get_cash_balance_def)
  show "q \<noteq> pid \<Longrightarrow> get_playing_cash_balance t' q = get_playing_cash_balance t q"
    using fu(7) [of q] by (simp add: get_playing_cash_balance_def ft)
  show "amount (get_cash_balance t' pid) = amount (get_cash_balance t pid) - amount c"
    using adjust_cash_amount [OF t'] ok' c cu mm by (simp add: table_ok_def)
  show "amount (get_playing_cash_balance t' pid) = amount (get_playing_cash_balance t pid) + amount c"
    using adjust_playing_cash_amount [OF u] ok c get_playing_cash_balance_nonneg [OF ok, of pid]
    by (simp add: table_ok_def get_playing_cash_balance_def ft)
qed

lemma stake_all:
  assumes "efold stake xs t = Inr t'" and "distinct (map fst xs)" and "table_ok t"
    and "\<forall>(pid, c) \<in> set xs. 0 < amount c \<and> amount c \<le> amount (get_cash_balance t pid)"
  shows "table_ok t' \<and> (\<forall>x. table_funds x t' = table_funds x t) \<and>
    (\<forall>q. q \<notin> fst ` set xs \<longrightarrow> get_cash_balance t' q = get_cash_balance t q \<and>
       get_playing_cash_balance t' q = get_playing_cash_balance t q) \<and>
    (\<forall>(q, c) \<in> set xs. amount (get_cash_balance t' q) = amount (get_cash_balance t q) - amount c \<and>
       amount (get_playing_cash_balance t' q) = amount (get_playing_cash_balance t q) + amount c)"
  using assms
proof (induction xs arbitrary: t)
  case (Cons p xs)
  obtain pid c where p: "p = (pid, c)" by (cases p)
  obtain u where u: "stake (pid, c) t = Inr u" and r: "efold stake xs u = Inr t'"
    using Cons.prems(1) by (auto simp: p ebind_Inr)
  have c: "0 < amount c" "amount c \<le> amount (get_cash_balance t pid)" using Cons.prems(4) by (auto simp: p)
  note s = stake_Inr [OF u Cons.prems(3) c]
  have new: "pid \<notin> fst ` set xs" using Cons.prems(2) by (simp add: p)
  have others: "\<forall>(q, c) \<in> set xs. 0 < amount c \<and> amount c \<le> amount (get_cash_balance u q)"
  proof safe
    fix q b assume qb: "(q, b) \<in> set xs"
    then have "q \<noteq> pid" using new by force
    then show "0 < amount b" "amount b \<le> amount (get_cash_balance u q)" using Cons.prems(4) s(4) qb by auto
  qed
  have IH: "table_ok t' \<and> (\<forall>x. table_funds x t' = table_funds x u) \<and>
    (\<forall>q. q \<notin> fst ` set xs \<longrightarrow> get_cash_balance t' q = get_cash_balance u q \<and>
       get_playing_cash_balance t' q = get_playing_cash_balance u q) \<and>
    (\<forall>(q, c) \<in> set xs. amount (get_cash_balance t' q) = amount (get_cash_balance u q) - amount c \<and>
       amount (get_playing_cash_balance t' q) = amount (get_playing_cash_balance u q) + amount c)"
    by (rule Cons.IH [OF r _ s(1) others]) (use Cons.prems(2) in simp)
  have step: "amount (get_cash_balance t' q) = amount (get_cash_balance t q) - amount b \<and>
       amount (get_playing_cash_balance t' q) = amount (get_playing_cash_balance t q) + amount b"
    if "(q, b) \<in> set (p # xs)" for q b
  proof (cases "q = pid")
    case True
    then have "b = c" using that new by (force simp: p)
    then show ?thesis using IH new s(6,7) True by simp
  next
    case False
    then show ?thesis using IH s(4,5) [of q] that by (auto simp: p)
  qed
  moreover have "get_cash_balance t' q = get_cash_balance t q \<and>
      get_playing_cash_balance t' q = get_playing_cash_balance t q" if "q \<notin> fst ` set (p # xs)" for q
    using IH s(4,5) [of q] that by (simp add: p)
  ultimately show ?case using IH s(2) by auto
qed simp

lemma fraud_start_same_funds:
  "efold (fraud_start_event tid owner info) xs d = Inr d' \<Longrightarrow> same_funds d d'"
  by (erule efold_invariant [where P = "same_funds d", rotated 2])
    (auto simp: fraud_start_event_def split: prod.splits voting_data.splits)

lemma fraud_result_same_funds:
  "efold (fraud_result_event tid owner log) xs d = Inr d' \<Longrightarrow> same_funds d d'"
  by (erule efold_invariant [where P = "same_funds d", rotated 2])
    (auto simp: fraud_result_event_def split: prod.splits voting_data.splits)

lemma apply_start_conserves:
  assumes a: "apply_start_playing_with_consensus tid (Initial i) ws invalid d = Inr d'"
    and t: "idx_find (tables d) tid = Some t"
    and v: "validate_initial d tid t i = Inr True" and ne: "fm_keys (gi_cash i) \<noteq> {}"
  shows "conserves d d'"
proof (cases "db_ok d")
  case True
  then have ok: "table_ok t" using t by (rule db_ok_tableD)
  let ?m = "by_player d (fm_items (gi_cash i)) fm_empty"
  obtain owner t' e where s: "efold stake (fm_items ?m) t = Inr t'"
    and e: "e = push_applied_operation (Game_event tid owner (Game_start_playing_validated i))
                (set_table tid (t'\<lparr>game_created := head_block_time d,
                      game_expiration := head_block_time d + game_lifetime_limit_in_seconds (parameters d),
                      tb_voted_witnesses := ws\<rparr>) d)"
    and f: "efold (fraud_start_event tid owner (gi_info i)) (fm_items invalid) e = Inr d'"
    using a t by (auto simp: apply_start_playing_with_consensus_def ebind_Inr idx_get_def dest: players_cash_Inr)
  have stakes: "\<forall>(pid, c) \<in> set (fm_items ?m). 0 < amount c \<and> amount c \<le> amount (get_cash_balance t pid)"
    using validate_initial_True [OF v ne] by (auto simp flip: fm_find_items)
  note st = stake_all [OF s fm_items_distinct ok stakes]
  have "conserves d (set_table tid (t'\<lparr>game_created := head_block_time d,
        game_expiration := head_block_time d + game_lifetime_limit_in_seconds (parameters d),
        tb_voted_witnesses := ws\<rparr>) d)"
    by (rule set_table_gives [OF t]) (use st in auto)
  then have "conserves d e" unfolding e by (rule gives_post) simp
  then show ?thesis using fraud_start_same_funds [OF f] by (rule gives_post)
qed (simp add: gives_def)

section \<open>Applying a result\<close>

text \<open>Changing the fees of a player does not change which player an account is.\<close>

lemma idx_lookup_fst:
  "map_option fst (idx_lookup P ix) = List.find (\<lambda>k. P k (the (idx_find ix k))) (map fst (idx_items ix))"
proof -
  have "List.find (\<lambda>(i, v). P i v) (map (\<lambda>k. (k, f k)) ks) =
      map_option (\<lambda>k. (k, f k)) (List.find (\<lambda>k. P k (f k)) ks)" for f ks
    by (induction ks) auto
  then show ?thesis
    unfolding idx_lookup_def idx_items_def idx_find_def
    by (subst items_by_keys [symmetric]) (simp only: option.map_comp o_def fst_conv option.map_ident)
qed

lemma idx_set_keys:
  assumes "idx_find ix i = Some v"
  shows "map fst (idx_items (idx_set i w ix)) = map fst (idx_items ix)"
proof -
  have "insert i (fm_keys (objs ix)) = fm_keys (objs ix)"
    using assms by (auto simp: idx_find_def dest: fm_find_Some_keys)
  then have "set (map fst (fm_items (fm_put i w (objs ix)))) = set (map fst (fm_items (objs ix)))"
    unfolding set_items_keys by simp
  then show ?thesis
    unfolding idx_items_def idx_set_def
    using fm_items_sorted fm_items_distinct
    by (auto intro!: sorted_distinct_set_unique simp: strict_sorted_iff simp del: fm_items_simps)
qed

lemma idx_lookup_set:
  assumes "idx_find ix i = Some v" and "P i w = P i v"
  shows "map_option fst (idx_lookup P (idx_set i w ix)) = map_option fst (idx_lookup P ix)"
  unfolding idx_lookup_fst idx_set_keys [OF assms(1)]
  by (rule arg_cong2 [where f = List.find]) (use assms in auto)

lemma find_player_update:
  assumes "idx_find (players d) pid = Some p" and "pl_account p' = pl_account p"
  shows "map_option fst (find_player (d\<lparr>players := idx_set pid p' (players d)\<rparr>) a) = map_option fst (find_player d a)"
  unfolding find_player_def using idx_lookup_set [OF assms(1), of "\<lambda>i p. pl_account p = a" p'] assms(2) by simp

lemma acct_pid_eqI: "map_option fst (find_player d' a) = map_option fst (find_player d a) \<Longrightarrow> acct_pid d' a = acct_pid d a"
  unfolding acct_pid_def by (cases "find_player d a"; cases "find_player d' a") auto

lemma collect_rake_step:
  assumes "collect_rake meta room ws (a, g) (rk, m, d) = Inr (rk', m', d')" and "0 \<le> amount (gr_rake g)"
  shows "same_funds d d'" and "m' = fm_put (acct_pid d a) (gr_cash g) m"
    and "funds x rk' = funds x rk + funds x (gr_rake g)" and "acct_pid d' = acct_pid d"
proof -
  obtain pid player where p: "find_player d a = Some (pid, player)" and m': "m' = fm_put pid (gr_cash g) m"
    and r: "(if 0 < amount (gr_rake g) then
              ebind (asset_plus rk (gr_rake g)) (\<lambda>room_rake.
                Inr (room_rake,
                  d\<lparr>players := idx_set pid
                      (player\<lparr>pending_fees := pending_fees player @
                         [\<lparr>ds_getter = a, ds_metadata = meta, ds_amount = amount (gr_rake g),
                           ds_asset_id = asset_id (gr_rake g), pf_room = room,
                           pf_witnesses = ws\<rparr>]\<rparr>) (players d)\<rparr>))
            else Inr (rk, d)) = Inr (rk', d')"
    using assms(1) by (auto simp: collect_rake_def ebind_Inr get_player_def of_option_Inr)
  show "m' = fm_put (acct_pid d a) (gr_cash g) m" by (simp add: m' acct_pid_def p)
  have p': "idx_find (players d) pid = Some player" using find_player_Some [OF p] by simp
  show "same_funds d d'" using r by (auto simp: ebind_Inr split: if_splits)
  show "funds x rk' = funds x rk + funds x (gr_rake g)"
    using r assms(2) by (auto simp: ebind_Inr asset_plus_Inr funds_def split: if_splits)
  show "acct_pid d' = acct_pid d"
    using r find_player_update [OF p'] by (auto simp: ebind_Inr fun_eq_iff intro!: acct_pid_eqI split: if_splits)
qed

lemma collect_rake_all:
  assumes "efold (collect_rake meta room ws) xs (rk, m, d) = Inr (rk', m', d')"
    and "\<forall>(a, g) \<in> set xs. 0 \<le> amount (gr_rake g)"
  shows "same_funds d d' \<and> m' = by_player d (map (\<lambda>(a, g). (a, gr_cash g)) xs) m \<and>
    (\<forall>x. funds x rk' = funds x rk + (\<Sum>(a, g) \<leftarrow> xs. funds x (gr_rake g)))"
  using assms
proof (induction xs arbitrary: rk m d)
  case (Cons p xs)
  obtain a g where p: "p = (a, g)" by (cases p)
  obtain rk1 m1 d1 where s: "collect_rake meta room ws (a, g) (rk, m, d) = Inr (rk1, m1, d1)"
    and r: "efold (collect_rake meta room ws) xs (rk1, m1, d1) = Inr (rk', m', d')"
    using Cons.prems(1) by (auto simp: p ebind_Inr)
  have g: "0 \<le> amount (gr_rake g)" using Cons.prems(2) by (simp add: p)
  note st = collect_rake_step [OF s g]
  from Cons.IH [OF r] Cons.prems(2) st show ?case
    by (auto simp: p by_player_def intro: same_funds_trans)
qed (simp add: by_player_def)

lemma add_pending_rake_gives:
  assumes "add_pending_rake room rk d = Inr d'"
  shows "gives (\<lambda>x. funds x rk) d d'" and "tables d' = tables d"
proof -
  obtain r a where r: "idx_find (rooms d) room = Some r" and a: "asset_plus (pending_rake r) rk = Inr a"
    and d': "d' = d\<lparr>rooms := idx_set room (r\<lparr>pending_rake := a\<rparr>) (rooms d)\<rparr>"
    using assms by (auto simp: add_pending_rake_def ebind_Inr idx_get_Inr)
  show "gives (\<lambda>x. funds x rk) d d'"
    unfolding d' by (rule set_room_gives [OF r]) (use a funds_plus [OF a] in \<open>auto simp: asset_plus_Inr\<close>)
  show "tables d' = tables d" by (simp add: d')
qed

lemma adjust_playing_cash_take_all:
  assumes "asset_neg c = Inr m" and "adjust_playing_cash pid m t = Inr t'" and "fm_find (playing_cash t) pid = Some c"
  shows "playing_cash t' = fm_erase pid (playing_cash t)" and "table_funds x t' = table_funds x t - funds x c"
proof -
  have z: "amount c + amount m = 0" using assms(1) by (simp add: asset_neg_Inr)
  show "playing_cash t' = fm_erase pid (playing_cash t)"
    using assms(2) by (cases rule: adjust_playing_cash_cases) (use assms(3) z in auto)
  show "table_funds x t' = table_funds x t - funds x c"
    using adjust_playing_cash_funds [OF assms(2), of x] funds_neg [OF assms(1), of x] assms(3) z
    by (simp add: get_playing_cash_balance_def)
qed

lemma settle_player_Inr:
  assumes "settle_player (pid, new) t = Inr t'" and ok: "table_ok t" and new: "0 \<le> amount new"
    and c: "fm_find (playing_cash t) pid = Some c"
  shows "table_ok t'" and "playing_cash t' = fm_erase pid (playing_cash t)"
    and "table_funds x t' = table_funds x t + funds x new - funds x c"
proof -
  obtain u where u: "(if 0 < amount new then adjust_cash pid new t else Inr t) = Inr u"
    using assms(1) by (cases "if 0 < amount new then adjust_cash pid new t else Inr t")
      (simp_all add: settle_player_def)
  have "playing_cash u = playing_cash t"
  proof (cases "0 < amount new")
    case True
    then show ?thesis using u adjust_cash_frame(1) [of pid new t u] by simp
  qed (use u in simp)
  then have uc: "fm_find (playing_cash u) pid = Some c" "playing_cash u = playing_cash t" using c by simp_all
  have "ebind (asset_neg c) (\<lambda>m. adjust_playing_cash pid m u) = Inr t'"
    using assms(1) unfolding settle_player_def prod.case u ebind_simps Let_def
    by (simp add: uc(1) get_playing_cash_balance_def)
  then obtain m where m: "asset_neg c = Inr m" and t': "adjust_playing_cash pid m u = Inr t'"
    by (auto simp: ebind_Inr)
  have "table_ok u \<and> table_funds x u = table_funds x t + funds x new"
  proof (cases "0 < amount new")
    case True
    then have a: "adjust_cash pid new t = Inr u" using u by simp
    have "0 \<le> amount (get_cash_balance t pid) + amount new"
      using get_cash_balance_nonneg [OF ok, of pid] True by simp
    from adjust_cash_funds [OF a this] adjust_cash_ok [OF a ok] show ?thesis by simp
  next
    case False
    then show ?thesis using u new ok by (auto simp: funds_def)
  qed
  then show "table_ok t'" "playing_cash t' = fm_erase pid (playing_cash t)"
    "table_funds x t' = table_funds x t + funds x new - funds x c"
    using adjust_playing_cash_take_all [OF m t' uc(1)] uc(2) by (auto intro: adjust_playing_cash_ok [OF t'])
qed

lemma settle_all:
  assumes "efold settle_player xs t = Inr t'" and "distinct (map fst xs)" and "table_ok t"
    and "\<forall>(pid, new) \<in> set xs. 0 \<le> amount new \<and> pid \<in> fm_keys (playing_cash t)"
  shows "table_ok t' \<and>
    (\<forall>x. table_funds x t' = table_funds x t +
       (\<Sum>(pid, new) \<leftarrow> xs. funds x new - funds x (the (fm_find (playing_cash t) pid))))"
  using assms
proof (induction xs arbitrary: t)
  case (Cons p xs)
  obtain pid new where p: "p = (pid, new)" by (cases p)
  obtain u where u: "settle_player (pid, new) t = Inr u" and r: "efold settle_player xs u = Inr t'"
    using Cons.prems(1) by (auto simp: p ebind_Inr)
  have n: "0 \<le> amount new" and "pid \<in> fm_keys (playing_cash t)" using Cons.prems(4) by (auto simp: p)
  then obtain c where c: "fm_find (playing_cash t) pid = Some c" by (blast dest: fm_keys_find)
  note s = settle_player_Inr [OF u Cons.prems(3) n c]
  have fresh: "q \<noteq> pid" if "(q, b) \<in> set xs" for q b
    using that Cons.prems(2) by (force simp: p)
  have "\<forall>(q, b) \<in> set xs. 0 \<le> amount b \<and> q \<in> fm_keys (playing_cash u)"
    using Cons.prems(4) fresh by (auto simp: p s(2))
  from Cons.IH [OF r _ s(1) this] Cons.prems(2)
  have IH: "table_ok t' \<and> (\<forall>x. table_funds x t' = table_funds x u +
       (\<Sum>(q, b) \<leftarrow> xs. funds x b - funds x (the (fm_find (playing_cash u) q))))" by (simp add: p)
  have "(\<Sum>(q, b) \<leftarrow> xs. funds x b - funds x (the (fm_find (playing_cash u) q))) =
      (\<Sum>(q, b) \<leftarrow> xs. funds x b - funds x (the (fm_find (playing_cash t) q)))" for x
    by (rule arg_cong [where f = sum_list], rule map_cong) (use fresh in \<open>auto simp: s(2)\<close>)
  then show ?case using IH s(3) c by (simp add: p)
qed simp

lemma return_rest_all:
  assumes "efold return_rest xs t = Inr t'" and "distinct (map fst xs)" and "table_ok t"
    and "\<forall>(pid, c) \<in> set xs. fm_find (playing_cash t) pid = Some c"
  shows "table_ok t' \<and> (\<forall>x. table_funds x t' = table_funds x t) \<and>
    fm_keys (playing_cash t') = fm_keys (playing_cash t) - fst ` set xs"
  using assms
proof (induction xs arbitrary: t)
  case (Cons p xs)
  obtain pid c where p: "p = (pid, c)" by (cases p)
  obtain m u v where m: "asset_neg c = Inr m" and u: "adjust_playing_cash pid m t = Inr u"
    and v: "adjust_cash pid c u = Inr v" and r: "efold return_rest xs v = Inr t'"
    using Cons.prems(1) by (auto simp: p return_rest_def ebind_Inr)
  have c: "fm_find (playing_cash t) pid = Some c" using Cons.prems(4) by (simp add: p)
  then have pos: "0 < amount c" using Cons.prems(3) by (auto simp: table_ok_def dest: cash_okD)
  note take = adjust_playing_cash_take_all [OF m u c]
  have uok: "table_ok u" by (rule adjust_playing_cash_ok [OF u Cons.prems(3)])
  have "0 \<le> amount (get_cash_balance u pid) + amount c"
    using get_cash_balance_nonneg [OF uok, of pid] pos by simp
  note f = adjust_cash_funds [OF v this] and vok = adjust_cash_ok [OF v uok]
  have pv: "playing_cash v = fm_erase pid (playing_cash t)" using adjust_cash_frame(1) [OF v] take(1) by simp
  have fresh: "q \<noteq> pid" if "(q, b) \<in> set xs" for q b
    using that Cons.prems(2) by (force simp: p)
  have "\<forall>(q, b) \<in> set xs. fm_find (playing_cash v) q = Some b"
    using Cons.prems(4) fresh by (auto simp: pv)
  from Cons.IH [OF r _ vok this] Cons.prems(2) f take(2) show ?case
    by (auto simp: p pv)
qed simp

text \<open>After the settlement nobody is in the game any more.\<close>

lemma settle_table_Inr:
  assumes "settle_table m t = Inr t'" and ok: "table_ok t"
    and m: "\<And>pid new. fm_find m pid = Some new \<Longrightarrow> 0 \<le> amount new \<and> pid \<in> fm_keys (playing_cash t)"
  shows "table_ok t'" and "fm_keys (playing_cash t') = {}"
    and "table_funds x t' = table_funds x t +
      fm_ksum (\<lambda>pid new. funds x new - funds x (the (fm_find (playing_cash t) pid))) m"
proof -
  obtain u v where u: "efold settle_player (fm_items m) t = Inr u"
    and v: "efold return_rest (fm_items (playing_cash u)) u = Inr v"
    and t': "t' = v\<lparr>game_created := time_min, game_expiration := time_max, tb_voted_witnesses := fm_empty\<rparr>"
    using assms(1) by (auto simp: settle_table_def ebind_Inr)
  have "\<forall>(pid, new) \<in> set (fm_items m). 0 \<le> amount new \<and> pid \<in> fm_keys (playing_cash t)"
    using m by (auto simp flip: fm_find_items)
  note s = settle_all [OF u fm_items_distinct ok this]
  have "\<forall>(pid, c) \<in> set (fm_items (playing_cash u)). fm_find (playing_cash u) pid = Some c"
    by (auto simp: fm_find_items)
  note r = return_rest_all [OF v fm_items_distinct conjunct1 [OF s] this]
  show "table_ok t'" "fm_keys (playing_cash t') = {}"
    using r set_items_keys [of "playing_cash u"] by (simp_all add: t')
  show "table_funds x t' = table_funds x t +
      fm_ksum (\<lambda>pid new. funds x new - funds x (the (fm_find (playing_cash t) pid))) m"
    using r s by (simp add: t' fm_ksum_def)
qed

lemma by_player_ksum:
  assumes "distinct (map fst xs)" and "inj_on (acct_pid d) (fst ` set xs)"
    and "acct_pid d ` fst ` set xs \<inter> fm_keys m = {}"
  shows "fm_ksum f (by_player d xs m) = fm_ksum f m + (\<Sum>(a, c) \<leftarrow> xs. f (acct_pid d a) c)"
  using assms unfolding by_player_def
proof (induction xs arbitrary: m)
  case (Cons p xs)
  obtain a c where p: "p = (a, c)" by (cases p)
  have new: "acct_pid d a \<notin> fm_keys m" "acct_pid d a \<notin> acct_pid d ` fst ` set xs"
    using Cons.prems by (auto simp: p inj_on_def)
  have "fm_ksum f (fold (\<lambda>(a, c). fm_put (acct_pid d a) c) xs (fm_put (acct_pid d a) c m)) =
      fm_ksum f (fm_put (acct_pid d a) c m) + (\<Sum>(a, c) \<leftarrow> xs. f (acct_pid d a) c)"
    by (rule Cons.IH) (use Cons.prems new in \<open>auto simp: p\<close>)
  then show ?case using new(1) by (simp add: p fm_find_None_iff fm_ksum_put_new del: fm_ksum_put)
qed simp

lemma rake_sum_same:
  assumes "same_rakes r r'"
  shows "fm_sum (\<lambda>g. funds x (gr_rake g)) (res_cash r') = fm_sum (\<lambda>g. funds x (gr_rake g)) (res_cash r)"
proof -
  have "gr_rake (the (fm_find (res_cash r') a)) = gr_rake (the (fm_find (res_cash r) a))"
    if "a \<in> fm_keys (res_cash r)" for a
  proof -
    from fm_keys_find [OF that] obtain g where g: "fm_find (res_cash r) a = Some g" by blast
    have "map_option gr_rake (fm_find (res_cash r') a) = Some (gr_rake g)"
      using assms g by (simp add: same_rakes_def)
    then show ?thesis using g by auto
  qed
  then show ?thesis
    unfolding fm_ksum_alt same_rakes_keys [OF assms] by (intro sum.cong) simp_all
qed

text \<open>A valid result leaves the funds of every asset as they are.\<close>

lemma result_balance:
  assumes v: "validate_result d t r = Inr True" and ne: "fm_keys (res_cash r) \<noteq> {}" and ok: "table_ok t"
  shows "result_funds x r + fm_sum (\<lambda>g. funds x (gr_rake g)) (res_cash r) =
    fm_ksum (\<lambda>a g. funds x (the (fm_find (playing_cash t) (acct_pid d a)))) (res_cash r)"
proof -
  note each = validate_result_True(1) [OF v ne]
  have core: "asset_id (the (fm_find (playing_cash t) (acct_pid d a))) = CORE" if "a \<in> fm_keys (res_cash r)" for a
    using that each fm_keys_find [of a] ok fm_keys_find [of "acct_pid d a" "playing_cash t"]
    by (force simp: table_ok_def dest: cash_okD)
  have assets: "asset_id (gr_cash (the (fm_find (res_cash r) a))) = CORE \<and>
      asset_id (gr_rake (the (fm_find (res_cash r) a))) = CORE" if "a \<in> fm_keys (res_cash r)" for a
    using that each fm_keys_find [of a "res_cash r"] by force
  show ?thesis
  proof (cases "x = CORE")
    case True
    have "result_funds x r + fm_sum (\<lambda>g. funds x (gr_rake g)) (res_cash r) =
        fm_sum (\<lambda>g. amount (gr_cash g) + amount (gr_rake g)) (res_cash r)"
      unfolding result_funds_def fm_ksum_alt by (simp add: True funds_def assets flip: sum.distrib)
    also note validate_result_True(2) [OF v ne]
    also have "fm_ksum (\<lambda>a g. amount (the (fm_find (playing_cash t) (acct_pid d a)))) (res_cash r) =
        fm_ksum (\<lambda>a g. funds x (the (fm_find (playing_cash t) (acct_pid d a)))) (res_cash r)"
      unfolding fm_ksum_alt by (simp add: True funds_def core)
    finally show ?thesis .
  next
    case False
    then show ?thesis unfolding result_funds_def fm_ksum_alt by (simp add: funds_def assets core)
  qed
qed

lemma same_rakes_find:
  assumes "same_rakes r r'" and "fm_find (res_cash r') a = Some g'"
  shows "\<exists>g. fm_find (res_cash r) a = Some g \<and> gr_rake g = gr_rake g'"
proof -
  have "map_option gr_rake (fm_find (res_cash r) a) = map_option gr_rake (fm_find (res_cash r') a)"
    using assms(1) by (simp add: same_rakes_def)
  then show ?thesis using assms(2) by auto
qed

text \<open>The result after the buy-outs, seen by player: who is paid, and the difference it makes at the table.\<close>

abbreviation result_cash :: "game_result \<Rightarrow> (account_id \<times> asset) list" where
  "result_cash r \<equiv> map (\<lambda>(a, g). (a, gr_cash g)) (fm_items (res_cash r))"

lemma result_by_player_find:
  assumes rk: "same_rakes r r'" and nn: "result_nonneg r'"
    and pl: "\<forall>p \<in> acct_pid d ` fm_keys (res_cash r). fm_find (playing_cash t1) p = fm_find (playing_cash t) p"
    and game: "\<And>a g. fm_find (res_cash r) a = Some g \<Longrightarrow> acct_pid d a \<in> fm_keys (playing_cash t)"
    and new: "fm_find (by_player d (result_cash r') fm_empty) pid = Some new"
  shows "0 \<le> amount new \<and> pid \<in> fm_keys (playing_cash t1)"
proof -
  obtain a g where ag: "fm_find (res_cash r') a = Some g" "new = gr_cash g" "acct_pid d a = pid"
    using by_player_find [OF new] by (auto simp flip: fm_find_items)
  obtain g0 where g0: "fm_find (res_cash r) a = Some g0" using same_rakes_find [OF rk ag(1)] by blast
  then have "fm_find (playing_cash t1) pid = fm_find (playing_cash t) pid"
    using pl ag(3) by (auto dest: fm_find_Some_keys)
  moreover have "pid \<in> fm_keys (playing_cash t)" using game [OF g0] ag(3) by simp
  ultimately show ?thesis using nn ag by (auto simp: result_nonneg_def fm_keys_def)
qed

lemma result_by_player_sum:
  assumes rk: "same_rakes r r'"
    and pl: "\<forall>p \<in> acct_pid d ` fm_keys (res_cash r). fm_find (playing_cash t1) p = fm_find (playing_cash t) p"
    and known: "\<And>a. a \<in> fm_keys (res_cash r) \<Longrightarrow> find_player d a \<noteq> None"
  shows "fm_ksum (\<lambda>pid new. funds x new - funds x (the (fm_find (playing_cash t1) pid)))
           (by_player d (result_cash r') fm_empty) =
    result_funds x r' - fm_ksum (\<lambda>a g. funds x (the (fm_find (playing_cash t) (acct_pid d a)))) (res_cash r)"
proof -
  let ?K = "fm_keys (res_cash r)"
  have "fst ` set (result_cash r') = fst ` set (fm_items (res_cash r'))" by force
  then have fst: "fst ` set (result_cash r') = ?K"
    using set_items_keys [of "res_cash r'"] same_rakes_keys [OF rk] by simp
  have mfst: "map fst (result_cash r') = map fst (fm_items (res_cash r'))" by auto
  have inj: "inj_on (acct_pid d) ?K" by (rule acct_pid_inj) (use known in blast)
  have "fm_ksum (\<lambda>pid new. funds x new - funds x (the (fm_find (playing_cash t1) pid)))
          (by_player d (result_cash r') fm_empty) =
      fm_ksum (\<lambda>a g. funds x (gr_cash g) - funds x (the (fm_find (playing_cash t1) (acct_pid d a)))) (res_cash r')"
    by (subst by_player_ksum)
      (simp_all only: mfst fst inj fm_items_distinct fm_keys_simps,
       simp_all add: fm_ksum_def o_def case_prod_unfold)
  also have "\<dots> = (\<Sum>a \<in> ?K. funds x (gr_cash (the (fm_find (res_cash r') a))) -
        funds x (the (fm_find (playing_cash t) (acct_pid d a))))"
    unfolding fm_ksum_alt same_rakes_keys [OF rk] by (rule sum.cong) (use pl in auto)
  also have "\<dots> = result_funds x r' - fm_ksum (\<lambda>a g. funds x (the (fm_find (playing_cash t) (acct_pid d a)))) (res_cash r)"
    unfolding result_funds_def fm_ksum_alt same_rakes_keys [OF rk] by (rule sum_subtractf)
  finally show ?thesis .
qed

text \<open>Paying the result: rake to the room, cash to the players, and the playing cash is gone.\<close>

lemma pay_result_gives:
  assumes c: "efold (collect_rake meta room ws) (fm_items (res_cash r')) (core_asset 0, fm_empty, d1) = Inr (rk, m, d2)"
    and k: "add_pending_rake room rk d2 = Inr d3" and s: "modify_table tid (settle_table m) d3 = Inr e"
    and t1: "idx_find (tables d1) tid = Some t1" and inv: "buyout_inv tid r d (r', d1)"
    and t: "idx_find (tables d) tid = Some t"
    and v: "validate_result d t r = Inr True" and ne: "fm_keys (res_cash r) \<noteq> {}"
  shows "gives (\<lambda>x. fm_sum (\<lambda>g. funds x (gr_rake g)) (res_cash r) + result_funds x r' -
    fm_ksum (\<lambda>a g. funds x (the (fm_find (playing_cash t) (acct_pid d a)))) (res_cash r)) d1 e"
proof -
  note each = validate_result_True(1) [OF v ne]
  have nn: "result_nonneg r'" and rk': "same_rakes r r'" and w: "same_world d d1"
    and pl: "\<forall>p \<in> acct_pid d ` fm_keys (res_cash r). fm_find (playing_cash t1) p = fm_find (playing_cash t) p"
    using inv t t1 by (auto simp: buyout_inv_def same_game_def)
  have known: "find_player d a \<noteq> None" if "a \<in> fm_keys (res_cash r)" for a
    using each fm_keys_find [OF that] by blast
  have rake0: "\<forall>(a, g) \<in> set (fm_items (res_cash r')). 0 \<le> amount (gr_rake g)"
    using each same_rakes_find [OF rk'] by (fastforce simp flip: fm_find_items)
  note col = collect_rake_all [OF c rake0]
  then have m: "m = by_player d (result_cash r') fm_empty"
    by (simp add: by_player_def acct_pid_world [OF w])
  have t3: "idx_find (tables d3) tid = Some t1"
    using t1 col add_pending_rake_gives(2) [OF k] by (simp add: same_funds_def)
  obtain t' where t': "settle_table m t1 = Inr t'" and e: "e = set_table tid t' d3"
    using s t3 by (auto simp: modify_table_Inr)
  have mm: "0 \<le> amount new \<and> pid \<in> fm_keys (playing_cash t1)" if "fm_find m pid = Some new" for pid new
    by (rule result_by_player_find [OF rk' nn pl _ that [unfolded m]]) (use each in blast)
  have "gives (\<lambda>x. result_funds x r' -
      fm_ksum (\<lambda>a g. funds x (the (fm_find (playing_cash t) (acct_pid d a)))) (res_cash r)) d3 e"
    unfolding e by (rule set_table_gives [OF t3])
      (use settle_table_Inr [OF t' _ mm] result_by_player_sum [OF rk' pl known] m in simp_all)
  note total = gives_trans [OF gives_pre [OF conjunct1 [OF col] add_pending_rake_gives(1) [OF k]] this]
  have "funds x rk = (\<Sum>(a, g) \<leftarrow> fm_items (res_cash r'). funds x (gr_rake g))" for x
    using col by (simp add: funds_def [of x "core_asset 0"])
  then have "funds x rk = fm_sum (\<lambda>g. funds x (gr_rake g)) (res_cash r)" for x
    unfolding rake_sum_same [OF rk', symmetric] by (simp add: fm_ksum_def)
  with total show ?thesis by (simp add: gives_def algebra_simps)
qed

lemma apply_result_impl_conserves:
  assumes a: "apply_result_impl tid owner ws r d = Inr (d', r')"
    and t: "idx_find (tables d) tid = Some t"
    and v: "validate_result d t r = Inr True" and ne: "fm_keys (res_cash r) \<noteq> {}"
  shows "conserves d d'"
proof (cases "db_ok d")
  case ok: True
  note each = validate_result_True(1) [OF v ne]
  obtain d1 t1 rk m d2 d3 e where b: "pending_buyouts_resolve tid owner r d = Inr (r', d1)"
    and t1: "idx_find (tables d1) tid = Some t1"
    and c: "efold (collect_rake (tb_metadata t1) (tb_room t1) ws) (fm_items (res_cash r')) (core_asset 0, fm_empty, d1)
              = Inr (rk, m, d2)"
    and k: "add_pending_rake (tb_room t1) rk d2 = Inr d3"
    and s: "modify_table tid (settle_table m) d3 = Inr e"
    and d': "d' = push_applied_operation (Game_event tid owner (Game_result_validated r')) e"
    using a by (auto simp: apply_result_impl_def ebind_Inr idx_get_Inr)
  have inv: "buyout_inv tid r d (r', d1)"
    by (rule pending_buyouts_resolve_inv [OF b ok _ t])
      (use each fm_keys_find in \<open>auto simp: result_nonneg_def, blast\<close>)
  then have ok1: "db_ok d1" and h1: "\<And>x. held x d1 + result_funds x r' = held x d + result_funds x r"
    by (auto simp: buyout_inv_def)
  note paid = pay_result_gives [OF c k s t1 inv t v ne]
  have "held x e = held x d" for x
    using paid ok1 h1 [of x] result_balance [OF v ne db_ok_tableD [OF ok t], of x] by (simp add: gives_def)
  then show ?thesis using paid ok1 unfolding d' by (simp add: gives_def)
qed (simp add: gives_def)

lemma apply_game_result_conserves:
  assumes a: "apply_game_result_with_consensus tid (Result r) ws invalid d = Inr d'"
    and t: "idx_find (tables d) tid = Some t" and v: "validate_result d t r = Inr True"
  shows "conserves d d'"
proof -
  obtain owner e r' where e: "(if fm_is_empty (res_cash r)
                 then ebind (rollback tid False d) (\<lambda>d. Inr (d, r))
                 else if HARDFORK_PLAYCHAIN_10_TIME \<le> head_block_time d
                      then with_registration_buy_in tid (apply_result_impl tid owner ws r) d
                      else ebind (apply_result_impl tid owner ws r d) (\<lambda>(d, r).
                           ebind (obsolete_buyins_resolve tid False d) (\<lambda>d. Inr (d, r)))) = Inr (e, r')"
    and f: "efold (fraud_result_event tid owner (res_log r')) (fm_items invalid) e = Inr d'"
    using a t by (auto simp: apply_game_result_with_consensus_def ebind_Inr [of "table_owner d t"] idx_get_def
        dest!: ebind_Inr [THEN iffD1])
  consider (cancel) "rollback tid False d = Inr e"
    | (new) "fm_keys (res_cash r) \<noteq> {}" "with_registration_buy_in tid (apply_result_impl tid owner ws r) d = Inr (e, r')"
    | (old) d1 where "fm_keys (res_cash r) \<noteq> {}" "apply_result_impl tid owner ws r d = Inr (d1, r')"
      "obsolete_buyins_resolve tid False d1 = Inr e"
    using e by (auto simp: ebind_Inr split: if_splits)
  then have "conserves d e"
  proof cases
    case new
    then show ?thesis
      by (intro with_registration_conserves [OF new(2)] apply_result_impl_conserves [OF _ t v new(1)])
  next
    case old
    then show ?thesis
      by (intro gives_post [OF apply_result_impl_conserves [OF old(2) t v old(1)] obsolete_buyins_resolve_same_funds])
  qed (rule rollback_conserves)
  then show ?thesis using fraud_result_same_funds [OF f] by (rule gives_post)
qed

end
