(* ===== verification/Votes_Valid.thy ===== *)
theory Votes_Valid
  imports Game_Funds
begin

text \<open>
  Votes for a game result are checked when they arrive and paid out when they are tallied, blocks
  later. This theory shows that in between they stay valid: \<open>votes_ok\<close> says that every vote for a
  result in a voting passes \<^verbatim>\<open>validate_ivariants\<close> against the table as it is now, and every
  operation keeps it. The relation \<open>calm T\<close> says what an operation leaves alone: votings are not
  added or changed, players keep their accounts, and what is in the game at tables outside \<open>T\<close>
  stays. The tally of a voting, its expiry and a reset therefore conserve the funds with no
  assumption on the votes.
\<close>

section \<open>What most operations leave alone\<close>

definition players_le :: "database \<Rightarrow> database \<Rightarrow> bool" where
  "players_le d d' \<longleftrightarrow>
     (\<forall>a i p. find_player d a = Some (i, p) \<longrightarrow> (\<exists>p'. find_player d' a = Some (i, p'))) \<and>
     (\<forall>i p. idx_find (players d) i = Some p \<longrightarrow>
        (\<exists>p'. idx_find (players d') i = Some p' \<and> pl_account p' = pl_account p))"

definition calm :: "table_id set \<Rightarrow> database \<Rightarrow> database \<Rightarrow> bool" where
  "calm T d d' \<longleftrightarrow>
     head_block_time d' = head_block_time d \<and> players_le d d' \<and>
     (\<forall>j tv. idx_find (votings d') j = Some tv \<longrightarrow> idx_find (votings d) j = Some tv) \<and>
     (\<forall>i t. idx_find (tables d) i = Some t \<longrightarrow>
        (\<exists>t'. idx_find (tables d') i = Some t' \<and> (i \<notin> T \<longrightarrow> playing_cash t' = playing_cash t)))"

named_theorems calm_rules \<open>operations that leave votings, players and games alone\<close>

lemma players_le_refl [simp]: "players_le d d"
  by (simp add: players_le_def)

lemma players_le_trans: "players_le d d' \<Longrightarrow> players_le d' d'' \<Longrightarrow> players_le d d''"
  unfolding players_le_def by metis

lemma calm_refl [simp]: "calm T d d"
  by (simp add: calm_def)

lemma calm_trans: "calm T d d' \<Longrightarrow> calm T d' d'' \<Longrightarrow> calm T d d''"
  unfolding calm_def by (elim conjE, intro conjI) (simp, erule (1) players_le_trans, metis, metis)

text \<open>How a call inside a computation is passed: \<open>f_calm [THEN calm_seq]\<close>.\<close>

lemma calm_seq: "ends (calm T e) m \<Longrightarrow> calm T d e \<Longrightarrow> (\<And>e'. calm T d e' \<Longrightarrow> Q e') \<Longrightarrow> ends Q m"
  by (auto simp: ends_def intro: calm_trans)

lemma calm_updates [simp]:
  "calm T d (e\<lparr>balances := b\<rparr>) \<longleftrightarrow> calm T d e"
  "calm T d (e\<lparr>accounts := ac\<rparr>) \<longleftrightarrow> calm T d e"
  "calm T d (e\<lparr>pending_votes := pv\<rparr>) \<longleftrightarrow> calm T d e"
  "calm T d (e\<lparr>alives := al\<rparr>) \<longleftrightarrow> calm T d e"
  "calm T d (e\<lparr>buy_ins := bi\<rparr>) \<longleftrightarrow> calm T d e"
  "calm T d (e\<lparr>pending_buy_ins := pb\<rparr>) \<longleftrightarrow> calm T d e"
  "calm T d (e\<lparr>pending_buy_outs := po\<rparr>) \<longleftrightarrow> calm T d e"
  "calm T d (e\<lparr>measurements := m\<rparr>) \<longleftrightarrow> calm T d e"
  "calm T d (e\<lparr>witnesses := w\<rparr>) \<longleftrightarrow> calm T d e"
  "calm T d (e\<lparr>rooms := r\<rparr>) \<longleftrightarrow> calm T d e"
  "calm T d (e\<lparr>invitations := iv\<rparr>) \<longleftrightarrow> calm T d e"
  "calm T d (e\<lparr>vestings := vb\<rparr>) \<longleftrightarrow> calm T d e"
  "calm T d (e\<lparr>average_room_rating := ar\<rparr>) \<longleftrightarrow> calm T d e"
  "calm T d (push_applied_operation op e) \<longleftrightarrow> calm T d e"
  "calm T d (push_all ops e) \<longleftrightarrow> calm T d e"
  by (simp_all add: calm_def players_le_def find_player_def push_applied_operation_def push_all_form)

lemma calm_set_table:
  assumes "calm T d e" and "idx_find (tables e) i = Some t" and "i \<in> T \<or> playing_cash t' = playing_cash t"
  shows "calm T d (set_table i t' e)"
  using assms by (fastforce simp: calm_def players_le_def find_player_def set_table_def)

lemma calm_drop_voting: "calm T d e \<Longrightarrow> calm T d (e\<lparr>votings := idx_remove j (votings e)\<rparr>)"
  by (auto simp: calm_def players_le_def find_player_def split: if_splits)

text \<open>A player changes but keeps its account, or a player is added.\<close>

lemma players_le_set:
  assumes "idx_find (players d) i = Some p" and "pl_account p' = pl_account p"
  shows "players_le d (d\<lparr>players := idx_set i p' (players d)\<rparr>)"
  unfolding players_le_def
proof (intro conjI allI impI)
  fix a j q assume "find_player d a = Some (j, q)"
  with find_player_update [OF assms, of a]
  show "\<exists>q'. find_player (d\<lparr>players := idx_set i p' (players d)\<rparr>) a = Some (j, q')" by auto
qed (use assms in auto)

lemma find_ins:
  "k \<notin> fst ` set xs \<Longrightarrow> \<not> P (k, v) \<Longrightarrow> List.find P (ins k v xs) = List.find P xs"
  by (induction k v xs rule: ins.induct) auto

lemma players_le_create:
  assumes "idx_find (players d) (next_id (players d)) = None"
    and "\<forall>(i, w) \<in> set (idx_items (players d)). pl_account p \<noteq> pl_account w"
  shows "players_le d (d\<lparr>players := \<lparr>next_id = n, objs = fm_put (next_id (players d)) p (objs (players d))\<rparr>\<rparr>)"
proof -
  let ?k = "next_id (players d)"
  have k: "?k \<notin> fm_keys (objs (players d))"
    using assms(1) by (simp add: idx_find_def fm_find_None_iff)
  then have fresh: "?k \<notin> fst ` set (fm_items (objs (players d)))"
    by (simp flip: set_items_keys)
  have "List.find (\<lambda>(i, q). pl_account q = a) (ins ?k p (fm_items (objs (players d)))) =
      List.find (\<lambda>(i, q). pl_account q = a) (fm_items (objs (players d)))"
    if "find_player d a = Some (j, q)" for a j q
  proof (rule find_ins [OF fresh])
    have "(j, q) \<in> set (idx_items (players d)) \<and> pl_account q = a"
      using that by (auto simp: idx_items_iff dest: find_player_Some)
    then show "\<not> (case (?k, p) of (i, q) \<Rightarrow> pl_account q = a)" using assms(2) by auto
  qed
  then show ?thesis
    using k by (auto simp: players_le_def find_player_def idx_lookup_def idx_items_def idx_find_def
        dest: fm_find_Some_keys)
qed

lemma calm_players: "calm T d e \<Longrightarrow> players_le e (e\<lparr>players := ps\<rparr>) \<Longrightarrow> calm T d (e\<lparr>players := ps\<rparr>)"
  unfolding calm_def using players_le_trans by auto

text \<open>Computations that only read the state.\<close>

lemma ends_reads: "(\<And>x. Q x) \<Longrightarrow> ends Q m"
  by (simp add: ends_def)

lemmas [calm_rules] =
  ends_reads [of _ "asset_neg a" for a] ends_reads [of _ "asset_min a b" for a b]
  ends_reads [of _ "asset_minus a b" for a b] ends_reads [of _ "asset_plus a b" for a b]
  ends_reads [of _ "asset_le a b" for a b] ends_reads [of _ "table_owner d t" for d t]
  ends_reads [of _ "version_ext_from_variant s v" for s v] ends_reads [of _ "get_player d a" for d a]
  ends_reads [of _ "buy_out_allowed p a t" for p a t]

section \<open>The operations on rooms, tables and players\<close>

lemma adjust_balance_calm: "ends (calm T d) (adjust_balance a delta d)"
  by (auto intro!: endsI elim!: adjust_balance_cases)

lemmas [calm_rules] = adjust_balance_calm [THEN calm_seq]

lemma modify_table_calm:
  assumes "\<And>t. idx_find (tables d) i = Some t \<Longrightarrow> ends (\<lambda>t'. i \<in> T \<or> playing_cash t' = playing_cash t) (f t)"
  shows "ends (calm T d) (modify_table i f d)"
  using assms by (auto simp: modify_table_def ends_def res_simps idx_get_Inr intro!: calm_set_table)

lemma adjust_cash_game: "ends (\<lambda>t'. i \<in> T \<or> playing_cash t' = playing_cash t) (adjust_cash p c t)"
  by (auto intro!: endsI dest: adjust_cash_frame)

lemma set_weight_calm: "ends (calm T d) (set_weight i d)"
  by (auto intro!: endsI elim!: set_weight_cases intro: calm_set_table)

lemmas [calm_rules] = set_weight_calm [THEN calm_seq]

lemma alive_for_table_calm: "ends (calm T d) (alive_for_table i d)"
  by (auto simp: alive_for_table_def wp split: option.splits intro!: calm_rules)

lemmas [calm_rules] = alive_for_table_calm [THEN calm_seq]

lemma table_create_calm: "ends (calm T d) (table_create_apply op d)"
proof -
  have "calm T d (d\<lparr>tables := \<lparr>next_id = n, objs = fm_put (next_id (tables d)) t (objs (tables d))\<rparr>\<rparr>)"
    if "idx_find (tables d) (next_id (tables d)) = None" for n t
    using that by (auto simp: calm_def players_le_def find_player_def idx_find_def)
  then show ?thesis
    by (auto simp: table_create_apply_def wp intro!: calm_rules)
qed

lemma table_update_calm: "ends (calm T d) (table_update_apply op d)"
  unfolding table_update_apply_def by (rule modify_table_calm) (simp add: wp)

lemma table_alive_calm: "ends (calm T d) (table_alive_apply op d)"
  unfolding table_alive_apply_def by (rule ends_efold) (auto intro: calm_rules)

lemma ensure_game_witness_calm: "ends (calm T d) (ensure_game_witness a d)"
  by (simp add: ensure_game_witness_def wp)

lemmas [calm_rules] = ensure_game_witness_calm [THEN calm_seq]

lemma room_create_calm: "ends (calm T d) (room_create_apply op d)"
  by (auto simp: room_create_apply_def wp intro!: calm_rules)

lemma room_update_calm: "ends (calm T d) (room_update_apply op d)"
  by (auto simp: room_update_apply_def wp Let_def intro!: calm_rules)

lemma create_player_calm: "ends (\<lambda>(i, e). calm T d e) (create_player a inviter d)"
  by (auto simp: create_player_def wp intro!: calm_players players_le_create)

lemma player_create_calm: "ends (calm T d) (player_create_by_room_owner_apply op d)"
  unfolding player_create_by_room_owner_apply_def ends_simps
  by (rule ends_mono [OF create_player_calm [of T d]]) (auto simp: wp)

section \<open>The operations on buy-ins and buy-outs\<close>

lemma measurement_calm [simp]:
  "calm T d (remove_measurement b e) \<longleftrightarrow> calm T d e" "calm T d (resolve_measurement b e) \<longleftrightarrow> calm T d e"
  "calm T d (remove_buy_out pid tid e) \<longleftrightarrow> calm T d e" "calm T d (cleanup_buy_ins tid e) \<longleftrightarrow> calm T d e"
  by (simp_all add: remove_measurement_def resolve_measurement_def remove_buy_out_def cleanup_buy_ins_def
      split: option.split)

lemma prolong_life_calm: "ends (calm T d) (prolong_life_for_by_in j d)"
  by (simp add: prolong_life_for_by_in_def wp)

lemmas [calm_rules] = prolong_life_calm [THEN calm_seq]

lemma register_buy_in_calm: "ends (calm T d) (register_buy_in pid tid d)"
  by (auto simp: register_buy_in_def wp split: option.splits intro!: calm_rules)

lemmas [calm_rules] = register_buy_in_calm [THEN calm_seq]

lemma register_buy_in_alive_calm: "ends (calm T d) (register_buy_in_alive pid tid d)"
  by (auto simp: register_buy_in_alive_def wp intro!: calm_rules)

lemmas [calm_rules] = register_buy_in_alive_calm [THEN calm_seq]

lemma leave_allocated_table_calm: "ends (calm T d) (leave_allocated_table b buy_in d)"
proof -
  have "ends (calm T d) (modify_table i (\<lambda>t. Inr (remove_pending_proposal pid t)) (remove_measurement b d))" for i pid
    by (rule modify_table_calm [THEN calm_seq]) (simp_all add: wp proposal_frames)
  then show ?thesis
    by (auto simp: leave_allocated_table_def wp get_player_def)
qed

lemmas [calm_rules] = leave_allocated_table_calm [THEN calm_seq]

lemma cancel_pending_buyin_calm: "ends (calm T d) (cancel_pending_buyin b d)"
  by (auto simp: cancel_pending_buyin_def wp intro!: calm_rules)

lemma cancel_all_loop_calm: "cancel_all_loop player d = Inr d' \<Longrightarrow> calm T d d'"
proof (induction player d rule: cancel_all_loop.induct)
  case (1 player d)
  from "1.prems" show ?case
  proof (cases rule: cancel_all_loop_cases)
    case (step b buy_in e)
    from 1(1) [OF step(1) refl step(2,3)] endsD [OF cancel_pending_buyin_calm step(2)]
    show ?thesis by (blast intro: calm_trans)
  qed simp
qed

lemma cash_calm: "ends (calm T d) (modify_table i (adjust_cash p c) d)"
  by (rule modify_table_calm) (rule adjust_cash_game)

lemmas [calm_rules] = cash_calm [THEN calm_seq]

lemma defer_buy_out_calm: "ends (calm T d) (defer_buy_out pid tid amt d)"
  by (auto simp: defer_buy_out_def wp split: option.splits)

lemma pay_out_calm: "ends (calm T d) (modify_table tid (\<lambda>t. ebind (asset_neg amt) (\<lambda>m. adjust_cash pid m t)) d)"
  by (rule modify_table_calm) (auto simp: wp intro!: calm_rules adjust_cash_game)

lemmas [calm_rules] = defer_buy_out_calm [THEN calm_seq] pay_out_calm [THEN calm_seq]

lemma buy_out_table_calm: "ends (calm T d) (buy_out_table pid account tid amt d)"
  by (auto simp: buy_out_table_def wp intro!: calm_rules)

lemmas [calm_rules] = buy_out_table_calm [THEN calm_seq]

lemma close_or_prolong_calm: "ends (calm T d) (close_or_prolong j tid pid account amt d)"
  by (auto simp: close_or_prolong_def wp intro!: calm_rules)

lemmas [calm_rules] = close_or_prolong_calm [THEN calm_seq]

lemma expire_buy_in_calm: "ends (calm T d) (expire_buy_in j tid d)"
  by (auto simp: expire_buy_in_def wp Let_def intro!: calm_rules)

lemma buy_in_table_calm: "ends (calm T d) (buy_in_table_apply op d)"
  by (auto simp: buy_in_table_apply_def wp intro!: calm_rules) simp_all

lemma buy_out_op_calm: "ends (calm T d) (buy_out_table_apply op d)"
  by (auto simp: buy_out_table_apply_def wp intro!: calm_rules)

lemma buy_in_reserve_calm: "ends (calm T d) (buy_in_reserve_apply op d)"
  by (auto simp: buy_in_reserve_apply_def wp intro!: calm_rules) simp_all

lemmas [calm_rules] = cancel_pending_buyin_calm [THEN calm_seq]

lemma buy_in_cancel_calm: "ends (calm T d) (buy_in_cancel_apply op d)"
  by (auto simp: buy_in_cancel_apply_def wp intro!: calm_rules)

lemma buy_in_reserving_cancel_all_calm: "ends (calm T d) (buy_in_reserving_cancel_all_apply op d)"
  by (auto simp: buy_in_reserving_cancel_all_apply_def intro!: endsI cancel_all_loop_calm)

lemma seat_reserved_calm:
  "ends (calm T d) (modify_table i (\<lambda>t. adjust_cash p c (remove_pending_proposal p t)) d)"
  by (rule modify_table_calm) (auto intro!: endsI dest!: adjust_cash_frame(1) simp: proposal_frames)

lemmas [calm_rules] = seat_reserved_calm [THEN calm_seq]

lemma buy_in_reserving_resolve_calm: "ends (calm T d) (buy_in_reserving_resolve_apply op d)"
  by (auto simp: buy_in_reserving_resolve_apply_def wp intro!: calm_rules) simp_all

section \<open>The end of a game\<close>

lemma playing_cash_calm: "tid \<in> T \<Longrightarrow> ends (calm T d) (modify_table tid f d)"
  by (rule modify_table_calm) (simp add: ends_def)

lemma take_from_cash_calm: "ends (\<lambda>(a, e). calm T d e) (take_from_cash tid pid amt d)"
  by (auto simp: take_from_cash_def wp intro!: calm_rules)

lemma take_from_playing_cash_calm:
  "ends (\<lambda>(a, e). calm {tid} d e) (take_from_playing_cash tid pid account r amt d)"
  by (auto simp: take_from_playing_cash_def wp intro!: calm_rules playing_cash_calm)

lemma pay_buy_out_calm: "ends (calm T d) (pay_buy_out tid owner account amt lft d)"
  by (auto simp: pay_buy_out_def wp intro!: calm_rules)

lemma calm_pair_seq:
  "ends (\<lambda>(x, e'). calm T e e') m \<Longrightarrow> calm T d e \<Longrightarrow> (\<And>x e'. calm T d e' \<Longrightarrow> Q (x, e')) \<Longrightarrow> ends Q m"
  by (auto simp: ends_def) (meson calm_trans)

lemma take_from_result_reads: "(\<And>x. Q x) \<Longrightarrow> ends Q (take_from_result a b r)"
  by (simp add: ends_def)

lemmas [calm_rules] = pay_buy_out_calm [THEN calm_seq] take_from_cash_calm [THEN calm_pair_seq]
  take_from_playing_cash_calm [THEN calm_pair_seq] take_from_result_reads

lemma resolve_buyout_calm: "ends (\<lambda>(r', e). calm {tid} d e) (resolve_buyout tid owner b (r, d))"
  by (auto simp: resolve_buyout_def wp split: prod.splits intro!: calm_rules)

lemma pending_buyouts_resolve_calm: "ends (\<lambda>(r', e). calm {tid} d e) (pending_buyouts_resolve tid owner r d)"
  unfolding pending_buyouts_resolve_def
  by (rule ends_efold) (auto intro!: resolve_buyout_calm [THEN calm_pair_seq])

lemmas [calm_rules] = pending_buyouts_resolve_calm [THEN calm_pair_seq]

lemma fold_calm: "(\<And>x e. calm T d e \<Longrightarrow> calm T d (f x e)) \<Longrightarrow> calm T d e \<Longrightarrow> calm T d (fold f xs e)"
  by (induction xs arbitrary: e) auto

lemma cleanup_pending_votes_calm: "calm T d e \<Longrightarrow> calm T d (cleanup_pending_votes tid e)"
  unfolding cleanup_pending_votes_def
  by (auto simp: remove_pending_vote_def push_fail_vote_def intro!: fold_calm)

lemma cleanup_voting_calm: "calm T d e \<Longrightarrow> calm T d (cleanup_voting tid e)"
  by (auto simp: cleanup_voting_def intro: calm_drop_voting split: option.split)

lemma return_buy_in_calm: "ends (calm T d) (return_buy_in tid owner b d)"
  by (auto simp: return_buy_in_def wp split: prod.splits intro!: calm_rules)

lemma announce_cash_return_calm: "ends (calm T d) (announce_cash_return tid owner b d)"
  by (auto simp: announce_cash_return_def wp split: prod.splits)

lemma efold_calm:
  assumes "\<And>x e. ends (calm T e) (f x e)"
  shows "ends (calm T d) (efold f xs d)"
  by (rule ends_efold) (auto intro: assms [THEN calm_seq])

lemmas [calm_rules] = efold_calm [OF return_buy_in_calm, THEN calm_seq]
  efold_calm [OF announce_cash_return_calm, THEN calm_seq] ends_reads [of _ "rolling_cash t" for t]
  playing_cash_calm [of tid "{tid}" for tid, OF insertI1, THEN calm_seq]

lemma rollback_impl_calm: "ends (calm {tid} d) (rollback_impl tid full_clear d)"
  by (auto simp: rollback_impl_def wp intro!: calm_rules cleanup_pending_votes_calm)

lemmas [calm_rules] = rollback_impl_calm [THEN calm_seq]

lemma with_registration_calm:
  assumes "ends (\<lambda>(e, x). calm T d e) (callback d)"
  shows "ends (\<lambda>(e, x). calm T d e) (with_registration_buy_in tid callback d)"
  unfolding with_registration_buy_in_def
  using assms by (auto simp: wp Let_def split: prod.splits elim!: ends_mono
      intro!: efold_calm [OF register_buy_in_calm, THEN calm_seq])

lemma resolve_buy_in_calm: "ends (calm T d) (resolve_buy_in tid clear b d)"
  by (auto simp: resolve_buy_in_def wp split: prod.splits intro!: calm_rules)

lemma obsolete_buyins_resolve_calm: "ends (calm T d) (obsolete_buyins_resolve tid clear d)"
  unfolding obsolete_buyins_resolve_def by (rule efold_calm) (rule resolve_buy_in_calm)

lemmas [calm_rules] = obsolete_buyins_resolve_calm [THEN calm_seq]

lemma rollback_calm: "ends (calm {tid} d) (rollback tid full_clear d)"
proof -
  have "ends (\<lambda>(e, x). calm {tid} d e)
      (with_registration_buy_in tid (\<lambda>d. ebind (rollback_impl tid full_clear d) (\<lambda>d. Inr (d, ()))) d)"
    by (rule with_registration_calm) (auto simp: wp intro!: calm_rules)
  then show ?thesis
    by (auto simp: rollback_def wp intro!: calm_rules cleanup_voting_calm elim!: ends_mono)
qed

lemmas [calm_rules] = rollback_calm [THEN calm_seq]

lemma fraud_events_calm:
  "ends (calm T d) (fraud_start_event tid owner info p d)" "ends (calm T d) (fraud_result_event tid owner info p d)"
  by (auto simp: fraud_start_event_def fraud_result_event_def wp split: prod.splits voting_data.splits)

lemmas [calm_rules] = fraud_events_calm [THEN efold_calm, THEN calm_seq]

lemma collect_rake_calm:
  "ends (\<lambda>(rk', m', e). calm T d e) (collect_rake meta room ws b (rk, m, d))"
proof -
  have "players_le d (d\<lparr>players := idx_set pid (p\<lparr>pending_fees := fs\<rparr>) (players d)\<rparr>)"
    if "find_player d a = Some (pid, p)" for a pid p fs
    by (rule players_le_set) (use find_player_Some [OF that] in auto)
  then show ?thesis
    by (auto simp: collect_rake_def get_player_def wp split: prod.splits intro!: calm_rules calm_players)
qed

lemma collect_rakes_calm:
  "ends (\<lambda>(rk', m', e). calm T d e) (efold (collect_rake meta room ws) bs (rk, m, d))"
  by (rule ends_efold) (auto intro!: ends_mono [OF collect_rake_calm] intro: calm_trans)

lemma add_pending_rake_calm: "ends (calm T d) (add_pending_rake room rk d)"
  by (auto simp: add_pending_rake_def wp intro!: calm_rules)

lemma calm_triple_seq:
  "ends (\<lambda>(x, y, e'). calm T e e') m \<Longrightarrow> calm T d e \<Longrightarrow> (\<And>x y e'. calm T d e' \<Longrightarrow> Q (x, y, e')) \<Longrightarrow> ends Q m"
  by (auto simp: ends_def) (meson calm_trans)

lemmas [calm_rules] = add_pending_rake_calm [THEN calm_seq] collect_rakes_calm [THEN calm_triple_seq]

lemma apply_result_impl_calm: "ends (\<lambda>(e, r'). calm {tid} d e) (apply_result_impl tid owner ws r d)"
  by (auto simp: apply_result_impl_def wp intro!: calm_rules)

lemma calm_fst_seq:
  "ends (\<lambda>(e', x). calm T e e') m \<Longrightarrow> calm T d e \<Longrightarrow> (\<And>x e'. calm T d e' \<Longrightarrow> Q (e', x)) \<Longrightarrow> ends Q m"
  by (auto simp: ends_def) (meson calm_trans)

lemmas [calm_rules] = apply_result_impl_calm [THEN calm_fst_seq]
  with_registration_calm [where callback = "apply_result_impl tid owner ws r" for tid owner ws r,
    OF apply_result_impl_calm, THEN calm_fst_seq]

lemma apply_game_result_calm: "ends (calm {tid} d) (apply_game_result_with_consensus tid v ws invalid d)"
  by (auto simp: apply_game_result_with_consensus_def wp split: voting_data.splits intro!: calm_rules)

lemma apply_start_calm: "ends (calm {tid} d) (apply_start_playing_with_consensus tid v ws invalid d)"
  by (auto simp: apply_start_playing_with_consensus_def wp split: voting_data.splits
      intro!: calm_rules ends_reads [of _ "players_cash d m e" for d m e]
        ends_reads [of _ "efold stake m t" for m t] calm_set_table)

section \<open>Votes stay valid\<close>

text \<open>
  There is at most one voting for a table, and every vote for a result that it holds is valid for
  the game that is played at the table now.
\<close>

definition votes_ok :: "database \<Rightarrow> bool" where
  "votes_ok d \<longleftrightarrow>
     (\<forall>j k tv tw. idx_find (votings d) j = Some tv \<longrightarrow> idx_find (votings d) k = Some tw \<longrightarrow>
        tv_table tv = tv_table tw \<longrightarrow> j = k) \<and>
     (\<forall>j tv a r. idx_find (votings d) j = Some tv \<longrightarrow> fm_find (tv_votes tv) a = Some (Result r) \<longrightarrow>
        (\<exists>t. idx_find (tables d) (tv_table tv) = Some t \<and> validate_result d t r = Inr True))"

lemma collect_result_le:
  assumes "players_le d d'" and "collect_result d xs m = (True, m')"
  shows "collect_result d' xs m = (True, m')"
  using assms(2)
proof (induction xs arbitrary: m)
  case (Cons x xs)
  obtain a g where x: "x = (a, g)" by (cases x)
  then obtain i p where p: "find_player d a = Some (i, p)"
    using Cons.prems by (auto split: if_splits option.splits)
  then obtain p' where "find_player d' a = Some (i, p')" using assms(1) unfolding players_le_def by blast
  then show ?case using Cons p by (auto simp: x split: if_splits)
qed simp

lemma sum_balances_le:
  assumes "players_le d d'" and "sum_balances d rs xs acc = Inr r"
  shows "sum_balances d' rs xs acc = Inr r"
  using assms
proof (induction d rs xs acc rule: sum_balances.induct)
  case (2 d rs pid c rest i out)
  obtain i' p g o1 o2 where s: "asset_plus i c = Inr i'" "idx_find (players d) pid = Some p"
      "fm_find rs (pl_account p) = Some g" "asset_plus out (gr_cash g) = Inr o1" "asset_plus o1 (gr_rake g) = Inr o2"
    and rest: "sum_balances d rs rest (i', o2) = Inr r"
    using "2.prems"(2) by (auto simp: ebind_Inr idx_get_Inr of_option_Inr)
  obtain p' where "idx_find (players d') pid = Some p'" "pl_account p' = pl_account p"
    using "2.prems"(1) s(2) unfolding players_le_def by blast
  moreover have "sum_balances d' rs rest (i', o2) = Inr r"
    by (rule "2.IH" [OF s(1) _ _ s(4) s(5) "2.prems"(1) rest, of p]) (simp_all add: s idx_get_Inr of_option_Inr)
  ultimately show ?case using s by (simp add: idx_get_def)
qed simp

lemma validate_result_le:
  assumes le: "players_le d d'" and cash: "playing_cash t' = playing_cash t"
    and v: "validate_result d t r = Inr True"
  shows "validate_result d' t' r = Inr True"
proof (cases "fm_is_empty (res_cash r)")
  case False
  obtain m a where m: "collect_result d (fm_items (res_cash r)) fm_empty = (True, m)"
    and n: "length (filter (\<lambda>(pid, c). fm_count m pid) (fm_items (playing_cash t))) = fm_size m"
    and a: "sum_balances d (res_cash r) (filter (\<lambda>(pid, c). fm_count m pid) (fm_items (playing_cash t)))
        (core_asset 0, core_asset 0) = Inr (a, a)"
    using v False by (auto simp: validate_result_def Let_def ebind_Inr split: prod.splits bool.splits if_splits)
  show ?thesis
    using False n by (simp add: validate_result_def Let_def collect_result_le [OF le m] cash
        sum_balances_le [OF le a] del: fm_count_iff fm_is_empty_iff)
qed (simp add: validate_result_def)

lemma votes_ok_calm:
  assumes "votes_ok d" and "calm T d d'"
    and "\<And>j tv. idx_find (votings d') j = Some tv \<Longrightarrow> tv_table tv \<notin> T"
  shows "votes_ok d'"
proof -
  have sub: "idx_find (votings d) j = Some tv" if "idx_find (votings d') j = Some tv" for j tv
    using assms(2) that by (auto simp: calm_def)
  have "\<exists>t. idx_find (tables d') (tv_table tv) = Some t \<and> validate_result d' t r = Inr True"
    if tv: "idx_find (votings d') j = Some tv" and a: "fm_find (tv_votes tv) a = Some (Result r)" for j tv a r
  proof -
    obtain t where t: "idx_find (tables d) (tv_table tv) = Some t" "validate_result d t r = Inr True"
      using assms(1) sub [OF tv] a unfolding votes_ok_def by blast
    then obtain t' where "idx_find (tables d') (tv_table tv) = Some t'" "playing_cash t' = playing_cash t"
      using assms(2) assms(3) [OF tv] unfolding calm_def by blast
    with t assms(2) show ?thesis by (auto simp: calm_def intro: validate_result_le)
  qed
  with sub assms(1) show ?thesis unfolding votes_ok_def by metis
qed

lemma votes_ok_calm_all: "votes_ok d \<Longrightarrow> calm {} d d' \<Longrightarrow> votes_ok d'"
  by (rule votes_ok_calm) auto

end
