(* ===== verification/Consensus.thy ===== *)
theory Consensus
  imports Votes_Valid
begin

text \<open>
  The tally of votings, their expiry, the evaluators of votes and the reset of a table, on a chain
  that is past hard fork 10: each keeps the invariant of the chain (balances and tables are good,
  every vote for a result is valid) and the funds of every asset, whatever the votes are.
\<close>

definition chain_ok :: "database \<Rightarrow> bool" where
  "chain_ok d \<longleftrightarrow> HARDFORK_PLAYCHAIN_10_TIME \<le> head_block_time d \<and> db_ok d \<and> votes_ok d"

text \<open>An operation is sound when it keeps the invariant, the funds and the time.\<close>

definition sound :: "database \<Rightarrow> database \<Rightarrow> bool" where
  "sound d d' \<longleftrightarrow>
     (chain_ok d \<longrightarrow> chain_ok d' \<and> (\<forall>x. held x d' = held x d) \<and> head_block_time d' = head_block_time d)"

lemma sound_refl [simp]: "sound d d"
  by (simp add: sound_def)

lemma sound_trans: "sound d d' \<Longrightarrow> sound d' d'' \<Longrightarrow> sound d d''"
  by (simp add: sound_def)

lemma sound_seq: "ends (sound e) m \<Longrightarrow> sound d e \<Longrightarrow> (\<And>e'. sound d e' \<Longrightarrow> Q e') \<Longrightarrow> ends Q m"
  by (auto simp: ends_def intro: sound_trans)

lemma efold_sound:
  assumes "\<And>x e. x \<in> set xs \<Longrightarrow> ends (sound e) (f x e)"
  shows "ends (sound d) (efold f xs d)"
  by (rule ends_efold) (auto intro: assms [THEN sound_seq])

lemma soundI:
  assumes "conserves d d'" and "head_block_time d' = head_block_time d" and "votes_ok d \<Longrightarrow> votes_ok d'"
  shows "sound d d'"
  using assms by (simp add: sound_def chain_ok_def gives_def)

text \<open>An operation that conserves the funds and leaves the games alone is sound.\<close>

lemma sound_calm: "calm {} d d' \<Longrightarrow> conserves d d' \<Longrightarrow> sound d d'"
  by (rule soundI) (auto simp: calm_def intro: votes_ok_calm_all)

section \<open>Votings are unique\<close>

lemma votes_ok_unique:
  assumes "votes_ok d" and "idx_find (votings d) j = Some tv" and "idx_find (votings d) k = Some tw"
    and "tv_table tv = tv_table tw"
  shows "j = k"
  using assms unfolding votes_ok_def by blast

lemma votes_ok_drop:
  assumes "votes_ok d" and "calm {tid} d d'" and "idx_find (votings d) j = Some tv" and "tv_table tv = tid"
    and "idx_find (votings d') j = None"
  shows "votes_ok d'"
proof (rule votes_ok_calm [OF assms(1,2)])
  fix k tw assume k: "idx_find (votings d') k = Some tw"
  then have "idx_find (votings d) k = Some tw" using assms(2) by (simp add: calm_def)
  with k assms(5) votes_ok_unique [OF assms(1,3)] assms(4) show "tv_table tw \<notin> {tid}" by auto
qed

lemma votes_ok_cleanup:
  assumes "votes_ok d" and "calm {tid} d e"
  shows "votes_ok (cleanup_voting tid e)"
proof (rule votes_ok_calm [OF assms(1) cleanup_voting_calm [OF assms(2)]])
  fix k tw assume k: "idx_find (votings (cleanup_voting tid e)) k = Some tw"
  show "tv_table tw \<notin> {tid}"
  proof (cases "find_voting e tid")
    case None
    then have "\<forall>i v. idx_find (votings e) i = Some v \<longrightarrow> tv_table v \<noteq> tid"
      by (simp add: find_voting_def idx_lookup_None)
    then show ?thesis using k None by (auto simp: cleanup_voting_def)
  next
    case (Some p)
    then obtain j tv where f: "find_voting e tid = Some (j, tv)" by (cases p) auto
    then have j: "idx_find (votings e) j = Some tv" "tv_table tv = tid"
      unfolding find_voting_def by (auto dest: idx_lookup_Some)
    have "k \<noteq> j" "idx_find (votings e) k = Some tw"
      using k f by (auto simp: cleanup_voting_def split: if_splits)
    moreover have "idx_find (votings d) k = Some tw" "idx_find (votings d) j = Some tv"
      using j(1) calculation(2) assms(2) by (auto simp: calm_def)
    ultimately show ?thesis using votes_ok_unique [OF assms(1)] j(2) by blast
  qed
qed

section \<open>Rollback and reset\<close>

lemma rollback_votes_ok:
  assumes r: "rollback tid full_clear d = Inr d'" and "votes_ok d"
    and "HARDFORK_PLAYCHAIN_10_TIME \<le> head_block_time d"
  shows "votes_ok d'"
proof -
  have "ends (\<lambda>(e, x). calm {tid} d e)
      (with_registration_buy_in tid (\<lambda>d. ebind (rollback_impl tid full_clear d) (\<lambda>d. Inr (d, ()))) d)"
    by (rule with_registration_calm) (auto simp: wp intro!: calm_rules)
  moreover obtain e where d': "d' = cleanup_voting tid e" and
    e: "(if \<not> full_clear
         then ebind (with_registration_buy_in tid
                       (\<lambda>d. ebind (rollback_impl tid full_clear d) (\<lambda>d. Inr (d, ()))) d) (\<lambda>(d, _). Inr d)
         else ebind (rollback_impl tid full_clear d) (\<lambda>d. Inr (cleanup_buy_ins tid d))) = Inr e"
    using r assms(3) by (auto simp: rollback_def ebind_Inr)
  ultimately have "calm {tid} d e"
    by (auto simp: ebind_Inr ends_def split: if_splits dest: endsD [OF rollback_impl_calm])
  then show ?thesis unfolding d' using assms(2) by (blast intro: votes_ok_cleanup)
qed

lemma rollback_sound: "ends (sound d) (rollback tid full_clear d)"
proof (rule endsI)
  fix d' assume r: "rollback tid full_clear d = Inr d'"
  have "head_block_time d' = head_block_time d" using endsD [OF rollback_calm r] by (simp add: calm_def)
  then show "sound d d'"
    using rollback_conserves [OF r] rollback_votes_ok [OF r] by (simp add: sound_def chain_ok_def gives_def)
qed

lemma sound_same: "sound d e \<Longrightarrow> calm {} e e' \<Longrightarrow> same_funds e e' \<Longrightarrow> sound d e'"
  by (blast intro: sound_trans sound_calm same_funds_conserves)

lemma alive_for_table_sound: "ends (sound d) (alive_for_table tid d)"
  by (rule endsI) (blast intro: sound_calm alive_for_table_conserves endsD [OF alive_for_table_calm])

lemma cleanup_pending_votes_same_funds: "same_funds d (cleanup_pending_votes tid d)"
  by simp

lemma cleanup_pending_votes_sound: "sound d e \<Longrightarrow> sound d (cleanup_pending_votes tid e)"
  by (erule sound_same) (auto intro: cleanup_pending_votes_calm)

lemma rollback_time: "rollback tid f d = Inr d' \<Longrightarrow> head_block_time d' = head_block_time d"
  using endsD [OF rollback_calm] by (auto simp: calm_def)

lemma game_reset_sound:
  assumes "HARDFORK_PLAYCHAIN_10_TIME \<le> head_block_time d"
  shows "ends (sound d) (game_reset_apply op d)"
  unfolding game_reset_apply_def
  using assms by (auto simp: ends_def ebind_Inr rollback_time split: if_splits
      intro: sound_trans endsD [OF rollback_sound] endsD [OF alive_for_table_sound])

section \<open>The tally\<close>

text \<open>The voting is removed, and a consensus is one of its votes.\<close>

lemma voting_Inr:
  assumes "voting ext j t requied d = Inr (outcome, d')"
  shows "d' = d\<lparr>votings := idx_remove j (votings d)\<rparr>"
    and "outcome = Some (v, ws, invalid) \<Longrightarrow>
      \<exists>tv a. idx_find (votings d) j = Some tv \<and> fm_find (tv_votes tv) a = Some v"
proof -
  obtain tv where tv: "idx_find (votings d) j = Some tv"
    and o: "(case voting_impl ext (tv_votes tv) requied of
              None \<Rightarrow> Inr None
            | Some (v, invalid) \<Rightarrow>
                let ws = tv_voted_witnesses tv
                in if fm_is_empty ws then Inr (Some (v, ws, invalid))
                   else ebind (drop_witnesses d t (map fst (fm_items invalid)) ws) (\<lambda>ws.
                          Inr (Some (v, ws, invalid)))) = Inr outcome"
    and d': "d' = d\<lparr>votings := idx_remove j (votings d)\<rparr>"
    using assms unfolding voting_def by (auto simp: ebind_Inr idx_get_Inr)
  show "d' = d\<lparr>votings := idx_remove j (votings d)\<rparr>" by (rule d')
  assume "outcome = Some (v, ws, invalid)"
  then have "\<exists>i. voting_impl ext (tv_votes tv) requied = Some (v, i)"
    using o by (auto simp: Let_def ebind_Inr split: option.splits if_splits)
  then show "\<exists>tv a. idx_find (votings d) j = Some tv \<and> fm_find (tv_votes tv) a = Some v"
    using tv tally_outcome_Some(1) [OF _ refl] by (fastforce simp: voting_impl_split split: if_splits)
qed

lemma votings_frame [simp]:
  "players_le d (d\<lparr>votings := vs\<rparr>)" "head_block_time (d\<lparr>votings := vs\<rparr>) = head_block_time d"
  by (simp_all add: players_le_def find_player_def)

text \<open>What the end of a voting does, after the voting was removed, is sound when it is calm
  elsewhere and conserves the funds.\<close>

lemma sound_after_drop:
  assumes "idx_find (votings d) j = Some tv" and "tv_table tv = tid"
    and "calm {tid} (d\<lparr>votings := idx_remove j (votings d)\<rparr>) d'"
    and "votes_ok d \<Longrightarrow> conserves (d\<lparr>votings := idx_remove j (votings d)\<rparr>) d'"
  shows "sound d d'"
proof (cases "chain_ok d")
  case True
  let ?d = "d\<lparr>votings := idx_remove j (votings d)\<rparr>"
  have c: "calm {tid} d d'" by (rule calm_trans [OF calm_drop_voting [OF calm_refl] assms(3)])
  have "idx_find (votings d') j = None"
    using assms(3) by (cases "idx_find (votings d') j") (fastforce simp: calm_def)+
  then have "votes_ok d'" using True by (intro votes_ok_drop [OF _ c assms(1,2)]) (auto simp: chain_ok_def)
  moreover have "conserves d d'"
    using True by (intro gives_pre [OF _ assms(4)]) (simp_all add: chain_ok_def)
  ultimately show ?thesis using c by (auto intro!: soundI simp: calm_def)
qed (simp add: sound_def)

text \<open>A failed voting for a result is announced and the game is rolled back.\<close>

lemma announced_rollback:
  assumes "rollback tid f (push_applied_operation op d) = Inr e"
  shows "calm {tid} d e" and "conserves d e"
proof -
  show "calm {tid} d e" by (rule calm_trans [OF _ endsD [OF rollback_calm assms]]) simp
  show "conserves d e" by (rule gives_pre [OF _ rollback_conserves [OF assms]]) simp
qed

text \<open>A consensus on a valid result conserves the funds.\<close>

lemma agreed_result_conserves:
  assumes tv: "idx_find (votings d) j = Some tv" and t: "idx_find (tables d) (tv_table tv) = Some t"
    and v: "voting ext j t requied d = Inr (Some (v, ws, invalid), d1)"
    and e: "apply_game_result_with_consensus (tv_table tv) v ws invalid d1 = Inr e" and ok: "votes_ok d"
  shows "conserves d1 e"
proof -
  note d1 = voting_Inr(1) [OF v]
  obtain a where a: "fm_find (tv_votes tv) a = Some v" using voting_Inr(2) [OF v refl] tv by auto
  obtain r where r: "v = Result r"
    using e by (cases v) (auto simp: apply_game_result_with_consensus_def)
  have "validate_result d t r = Inr True"
    using ok a tv t r unfolding votes_ok_def by fastforce
  then have "validate_result d1 t r = Inr True"
    unfolding d1 by (rule validate_result_le [rotated 2]) simp_all
  then show ?thesis
    using apply_game_result_conserves [OF e [unfolded r]] t unfolding d1 by simp
qed

lemma scheduled_voting_for_results_sound:
  assumes tv: "idx_find (votings d) j = Some tv" and tid: "tv_table tv = tid"
  shows "ends (sound d) (scheduled_voting_for_results ext j tid d)"
proof (rule endsI)
  fix d' assume "scheduled_voting_for_results ext j tid d = Inr d'"
  then obtain t outcome d1 e where t: "idx_find (tables d) tid = Some t"
    and v: "voting ext j t (voting_for_results_requied_percent (parameters d)) d = Inr (outcome, d1)"
    and e: "(case outcome of
              Some (v, ws, invalid) \<Rightarrow> apply_game_result_with_consensus tid v ws invalid d1
            | None \<Rightarrow>
                ebind (table_owner d1 t) (\<lambda>owner.
                  rollback_game tid (push_applied_operation (Game_event tid owner Fail_consensus_game_result) d1))) = Inr e"
    and d': "d' = cleanup_pending_votes tid e"
    unfolding scheduled_voting_for_results_def by (auto simp: ebind_Inr idx_get_Inr)
  note d1 = voting_Inr(1) [OF v]
  have "calm {tid} d1 e \<and> (votes_ok d \<longrightarrow> conserves d1 e)"
  proof (cases outcome)
    case None
    then show ?thesis using e announced_rollback by (auto simp: ebind_Inr)
  next
    case (Some p)
    then obtain v' ws invalid where p: "outcome = Some (v', ws, invalid)" by (cases p) auto
    then have ap: "apply_game_result_with_consensus tid v' ws invalid d1 = Inr e" using e by simp
    show ?thesis
      using endsD [OF apply_game_result_calm ap] agreed_result_conserves [OF tv _ v [unfolded p]] ap t tid by simp
  qed
  then have "sound d e" unfolding d1 by (intro sound_after_drop [OF tv tid]) auto
  then show "sound d d'" unfolding d' by (rule cleanup_pending_votes_sound)
qed

lemma expire_voting_for_results_sound:
  assumes tv: "idx_find (votings d) j = Some tv" and tid: "tv_table tv = tid"
  shows "ends (sound d) (expire_voting_for_results ext j tid d)"
proof (rule endsI)
  fix d' assume "expire_voting_for_results ext j tid d = Inr d'"
  then consider "scheduled_voting_for_results ext j tid d = Inr d'"
    | owner where "rollback tid False (push_applied_operation (Game_event tid owner Fail_expire_game_result)
          (d\<lparr>votings := idx_remove j (votings d)\<rparr>)) = Inr d'"
    by (auto simp: expire_voting_for_results_def ebind_Inr split: if_splits)
  then show "sound d d'"
  proof cases
    case 2
    from announced_rollback [OF 2] show ?thesis by (intro sound_after_drop [OF tv tid]) auto
  qed (rule endsD [OF scheduled_voting_for_results_sound [OF assms]])
qed

lemma expire_voting_for_playing_sound:
  assumes tv: "idx_find (votings d) j = Some tv" and tid: "tv_table tv = tid"
  shows "ends (sound d) (expire_voting_for_playing j tid d)"
proof (rule endsI)
  fix d' assume "expire_voting_for_playing j tid d = Inr d'"
  then obtain op where d': "d' = cleanup_pending_votes tid
      ((push_applied_operation op d)\<lparr>votings := idx_remove j (votings d)\<rparr>)"
    by (auto simp: expire_voting_for_playing_def ebind_Inr)
  have "(push_applied_operation op d)\<lparr>votings := idx_remove j (votings d)\<rparr> =
      push_applied_operation op (d\<lparr>votings := idx_remove j (votings d)\<rparr>)"
    by (simp add: push_applied_operation_def)
  then have "sound d ((push_applied_operation op d)\<lparr>votings := idx_remove j (votings d)\<rparr>)"
    by (auto intro!: sound_after_drop [OF tv tid] same_funds_conserves)
  then show "sound d d'" unfolding d' by (rule cleanup_pending_votes_sound)
qed

section \<open>Votes to start a game\<close>

lemma collect_initial_le:
  assumes "players_le d d'" and "cash t' = cash t" and "collect_initial d t xs m = (True, m')"
  shows "collect_initial d' t' xs m = (True, m')"
  using assms(3)
proof (induction xs arbitrary: m)
  case (Cons x xs)
  obtain a c where x: "x = (a, c)" by (cases x)
  then obtain i p where p: "find_player d a = Some (i, p)"
    using Cons.prems by (auto split: if_splits option.splits)
  then obtain p' where "find_player d' a = Some (i, p')" using assms(1) unfolding players_le_def by blast
  then show ?case using Cons p assms(2) by (auto simp: x split: if_splits)
qed simp

text \<open>A vote to start a game that is valid stays valid when the voting is removed.\<close>

lemma validate_initial_le:
  assumes "players_le d d'" and "cash t' = cash t" and "head_block_time d' = head_block_time d"
    and "find_voting d' tid = None" and "validate_initial d tid t i = Inr True"
  shows "validate_initial d' tid t' i = Inr True"
proof (cases "fm_is_empty (gi_cash i)")
  case False
  obtain m where m: "collect_initial d t (fm_items (gi_cash i)) fm_empty = (True, m)"
    and e: "enough_cash (fm_items (cash t)) m = Inr True"
    using assms(5) False
    by (auto simp: validate_initial_def ebind_Inr split: prod.splits bool.splits if_splits)
  show ?thesis
    using False by (simp add: validate_initial_def collect_initial_le [OF assms(1,2) m] assms(2,4) e
        matches_etalon_def del: fm_is_empty_iff)
qed (use assms in \<open>simp add: validate_initial_def\<close>)

text \<open>The votes that pass the second check are valid for the players and the cash of now.\<close>

definition start_valid :: "database \<Rightarrow> table_id \<Rightarrow> table_object \<Rightarrow> voting_data \<Rightarrow> bool" where
  "start_valid d tid t v \<longleftrightarrow>
     (\<exists>e i. players e = players d \<and> head_block_time e = head_block_time d \<and> v = Initial i \<and>
        validate_initial e tid t i = Inr True)"

definition recheck_inv ::
    "table_id \<Rightarrow> database \<Rightarrow> table_object \<Rightarrow> bool \<times> account_votes \<times> database \<Rightarrow> bool" where
  "recheck_inv tid d t = (\<lambda>(any_invalid, votes, e).
     (\<exists>evs. e = d\<lparr>applied := evs\<rparr>) \<and> (\<forall>a v. fm_find votes a = Some v \<longrightarrow> start_valid d tid t v))"

lemma recheck_inv_push: "recheck_inv tid d t (b, votes, e) \<Longrightarrow> recheck_inv tid d t (b', votes, push_fail_vote op e)"
  by (auto simp: recheck_inv_def push_fail_vote_def push_applied_operation_def)

lemma recheck_vote_inv:
  assumes t: "idx_find (tables d) tid = Some t" and s: "recheck_inv tid d t (inval, votes, e)"
    and r: "recheck_vote tid (a, v) (inval, votes, e) = Inr (inval', votes', e')"
  shows "recheck_inv tid d t (inval', votes', e')" and "\<not> inval' \<Longrightarrow> \<not> inval \<and> start_valid d tid t v"
proof -
  obtain i where v: "v = Initial i" using r by (cases v) (auto simp: recheck_vote_def)
  obtain evs where e: "e = d\<lparr>applied := evs\<rparr>" using s by (auto simp: recheck_inv_def)
  have te: "idx_find (tables e) tid = Some t" using t e by simp
  then obtain ok where ok: "validate_initial e tid t i = Inr ok"
    using r by (auto simp: recheck_vote_def v ebind_Inr idx_get_def)
  have "recheck_inv tid d t (inval', votes', e') \<and> (\<not> inval' \<longrightarrow> \<not> inval \<and> start_valid d tid t v)"
  proof (cases ok)
    case True
    then have st: "start_valid d tid t v"
      unfolding start_valid_def using ok v by (intro exI [of _ e] exI [of _ i]) (simp add: e)
    have "inval' = inval" "votes' = fm_put a v votes" "e' = e"
      using r True ok te v by (auto simp: recheck_vote_def idx_get_def)
    then show ?thesis using s st by (auto simp: recheck_inv_def)
  next
    case False
    then obtain owner where "inval'" "votes' = votes"
      "e' = push_fail_vote (Vote_start \<lparr>gsp_fee = core_asset 0, gsp_table = tid,
                    gsp_table_owner = owner, gsp_voter = a, gsp_initial_data = i\<rparr>) e"
      using r ok te v by (auto simp: recheck_vote_def idx_get_def ebind_Inr)
    then show ?thesis using recheck_inv_push [OF s] by simp
  qed
  then show "recheck_inv tid d t (inval', votes', e')" and "\<not> inval' \<Longrightarrow> \<not> inval \<and> start_valid d tid t v"
    by auto
qed

lemma recheck_all:
  assumes t: "idx_find (tables d) tid = Some t" and "recheck_inv tid d t (inval, votes, e)"
    and "efold (recheck_vote tid) bs (inval, votes, e) = Inr (inval', votes', e')"
  shows "recheck_inv tid d t (inval', votes', e') \<and>
    (\<not> inval' \<longrightarrow> \<not> inval \<and> (\<forall>(a, v) \<in> set bs. start_valid d tid t v))"
  using assms(2,3)
proof (induction bs arbitrary: inval votes e)
  case (Cons b bs)
  obtain a v where b: "b = (a, v)" by (cases b)
  obtain i1 v1 e1 where r: "recheck_vote tid (a, v) (inval, votes, e) = Inr (i1, v1, e1)"
    and rest: "efold (recheck_vote tid) bs (i1, v1, e1) = Inr (inval', votes', e')"
    using Cons.prems(2) by (auto simp: b ebind_Inr)
  note st = recheck_vote_inv [OF t Cons.prems(1) r]
  from Cons.IH [OF st(1) rest] st(2) show ?case by (auto simp: b)
qed auto

lemma idx_set_same: "idx_find ix j = Some v \<Longrightarrow> idx_set j v ix = ix"
proof -
  assume "idx_find ix j = Some v"
  then have "fm_put j v (objs ix) = objs ix" by (intro fm_eqI) (simp add: idx_find_def)
  then show ?thesis by (simp add: idx_set_def)
qed

lemma recheck_votes_Inr:
  assumes "recheck_votes j tid d = Inr e" and "HARDFORK_PLAYCHAIN_9_TIME \<le> head_block_time d"
    and tv: "idx_find (votings d) j = Some tv" and t: "idx_find (tables d) tid = Some t"
  obtains evs votes where "e = d\<lparr>applied := evs, votings := idx_set j (tv\<lparr>tv_votes := votes\<rparr>) (votings d)\<rparr>"
    and "\<And>a v. fm_find votes a = Some v \<Longrightarrow> start_valid d tid t v"
proof -
  obtain inval votes d1 where f: "efold (recheck_vote tid) (fm_items (tv_votes tv)) (False, fm_empty, d) = Inr (inval, votes, d1)"
    and e: "e = (if inval then d1\<lparr>votings := idx_set j (tv\<lparr>tv_votes := votes\<rparr>) (votings d1)\<rparr> else d1)"
    using assms(1,2) tv by (auto simp: recheck_votes_def ebind_Inr idx_get_Inr idx_get_def)
  have "recheck_inv tid d t (False, fm_empty, d)" by (auto simp: recheck_inv_def intro: exI [of _ "applied d"])
  note r = recheck_all [OF t this f]
  then obtain evs where d1: "d1 = d\<lparr>applied := evs\<rparr>" by (auto simp: recheck_inv_def)
  show ?thesis
  proof (cases inval)
    case True
    then show ?thesis using that [where evs = evs and votes = votes] r by (auto simp: e d1 recheck_inv_def)
  next
    case False
    have "idx_set j tv (votings d) = votings d" by (rule idx_set_same [OF tv])
    then have "e = d\<lparr>applied := evs, votings := idx_set j (tv\<lparr>tv_votes := tv_votes tv\<rparr>) (votings d)\<rparr>"
      using False by (simp add: e d1)
    moreover have "start_valid d tid t v" if "fm_find (tv_votes tv) a = Some v" for a v
      using r False that by (auto simp: fm_find_items)
    ultimately show ?thesis by (rule that)
  qed
qed

text \<open>A voting whose votes change stays good when its votes for results are valid.\<close>

lemma votes_ok_set:
  assumes ok: "votes_ok d" and tv: "idx_find (votings d) j = Some tv" and "tv_table tw = tv_table tv"
    and "\<And>a r. fm_find (tv_votes tw) a = Some (Result r) \<Longrightarrow>
      \<exists>t. idx_find (tables d) (tv_table tw) = Some t \<and> validate_result d t r = Inr True"
  shows "votes_ok (d\<lparr>votings := idx_set j tw (votings d)\<rparr>)"
proof -
  let ?d = "d\<lparr>votings := idx_set j tw (votings d)\<rparr>"
  have v: "validate_result d t r = Inr True \<Longrightarrow> validate_result ?d t r = Inr True" for t r
    by (rule validate_result_le) simp_all
  have "\<exists>t. idx_find (tables d) (tv_table u) = Some t \<and> validate_result d t r = Inr True"
    if "idx_find (votings ?d) k = Some u" "fm_find (tv_votes u) a = Some (Result r)" for k u a r
    using that ok assms(4) unfolding votes_ok_def by (auto split: if_splits)
  moreover have "k = l" if u: "idx_find (votings ?d) k = Some u" and w: "idx_find (votings ?d) l = Some w"
    and eq: "tv_table u = tv_table w" for k l u w
  proof -
    obtain u' where "idx_find (votings d) k = Some u'" "tv_table u' = tv_table u"
      using u tv assms(3) by (cases "k = j") auto
    moreover obtain w' where "idx_find (votings d) l = Some w'" "tv_table w' = tv_table w"
      using w tv assms(3) by (cases "l = j") auto
    ultimately show ?thesis using votes_ok_unique [OF ok] eq by simp
  qed
  moreover have "tables ?d = tables d" by simp
  ultimately show ?thesis unfolding votes_ok_def using v by metis
qed

lemma recheck_votes_sound:
  assumes r: "recheck_votes j tid d = Inr e" and tv: "idx_find (votings d) j = Some tv"
    and t: "idx_find (tables d) tid = Some t"
  shows "sound d e"
proof (cases "chain_ok d")
  case True
  then have hf: "HARDFORK_PLAYCHAIN_9_TIME \<le> head_block_time d" and ok: "votes_ok d"
    by (simp_all add: chain_ok_def HARDFORK_PLAYCHAIN_10_TIME_def HARDFORK_PLAYCHAIN_9_TIME_def)
  obtain evs votes where e: "e = d\<lparr>applied := evs, votings := idx_set j (tv\<lparr>tv_votes := votes\<rparr>) (votings d)\<rparr>"
    and votes: "\<And>a v. fm_find votes a = Some v \<Longrightarrow> start_valid d tid t v"
    using recheck_votes_Inr [OF r hf tv t] by blast
  have "votes_ok (d\<lparr>applied := evs\<rparr>)"
    by (rule votes_ok_calm_all [OF ok]) (simp add: calm_def players_le_def find_player_def)
  then have "votes_ok ((d\<lparr>applied := evs\<rparr>)\<lparr>votings := idx_set j (tv\<lparr>tv_votes := votes\<rparr>) (votings d)\<rparr>)"
    using votes_ok_set [of "d\<lparr>applied := evs\<rparr>" j tv "tv\<lparr>tv_votes := votes\<rparr>"] tv votes
    by (auto simp: start_valid_def)
  moreover have "same_funds d e" by (simp add: e same_funds_def)
  ultimately show ?thesis by (intro soundI same_funds_conserves) (simp_all add: e)
qed (simp add: sound_def)

text \<open>A consensus to start a game with the rechecked votes conserves the funds.\<close>

lemma validate_initial_nonempty:
  "validate_initial d tid t i = Inr True \<Longrightarrow> HARDFORK_PLAYCHAIN_6_TIME \<le> head_block_time d \<Longrightarrow>
     fm_keys (gi_cash i) \<noteq> {}"
  by (auto simp: validate_initial_def)

lemma find_voting_dropped:
  assumes "votes_ok d" and "idx_find (votings d) j = Some tv"
  shows "find_voting (d\<lparr>votings := idx_remove j (votings d)\<rparr>) (tv_table tv) = None"
  using votes_ok_unique [OF assms] by (auto simp: find_voting_def idx_lookup_None split: if_splits)

lemma agreed_start_conserves:
  assumes tv: "idx_find (votings d) j = Some tv" and t: "idx_find (tables d) (tv_table tv) = Some t"
    and v: "voting ext j t requied d = Inr (Some (v, ws, invalid), d1)"
    and e: "apply_start_playing_with_consensus (tv_table tv) v ws invalid d1 = Inr e"
    and ok: "chain_ok d" and st: "\<And>a v. fm_find (tv_votes tv) a = Some v \<Longrightarrow> start_valid d (tv_table tv) t v"
  shows "conserves d1 e"
proof -
  note d1 = voting_Inr(1) [OF v]
  have hf: "HARDFORK_PLAYCHAIN_6_TIME \<le> head_block_time d"
    using ok by (simp add: chain_ok_def HARDFORK_PLAYCHAIN_10_TIME_def HARDFORK_PLAYCHAIN_6_TIME_def)
  have "start_valid d (tv_table tv) t v" using voting_Inr(2) [OF v refl] tv st by auto
  then obtain e0 i where e0: "players e0 = players d" "head_block_time e0 = head_block_time d"
    and i: "v = Initial i" and val: "validate_initial e0 (tv_table tv) t i = Inr True"
    unfolding start_valid_def by blast
  have "players_le e0 d1" using e0 by (simp add: d1 players_le_def find_player_def)
  then have "validate_initial d1 (tv_table tv) t i = Inr True"
    by (rule validate_initial_le [OF _ refl _ _ val])
      (use e0 ok find_voting_dropped [OF _ tv] in \<open>simp_all add: d1 chain_ok_def\<close>)
  moreover have "fm_keys (gi_cash i) \<noteq> {}"
    using validate_initial_nonempty [OF val] hf e0 by simp
  ultimately show ?thesis
    using apply_start_conserves [OF e [unfolded i]] t by (simp add: d1)
qed

lemma start_valid_cong:
  "players e = players d \<Longrightarrow> head_block_time e = head_block_time d \<Longrightarrow> start_valid e tid t v = start_valid d tid t v"
  by (simp add: start_valid_def)

lemma recheck_votes_tables: "recheck_votes j tid d = Inr e \<Longrightarrow> tables e = tables d"
proof -
  have "ends (\<lambda>(b, v, e). tables e = tables d) (efold (recheck_vote tid) bs (b, v, d))" for bs b v
    by (rule ends_efold) (auto simp: recheck_vote_def wp push_fail_vote_def split: prod.splits voting_data.splits
        intro!: ends_reads [of _ "validate_initial d tid t i" for d tid t i] calm_rules)
  then show "recheck_votes j tid d = Inr e \<Longrightarrow> tables e = tables d"
    by (fastforce simp: recheck_votes_def ebind_Inr ends_def split: if_splits)
qed

text \<open>The tally after the second check.\<close>

lemma tally_start_sound:
  assumes ok: "chain_ok d" and tv: "idx_find (votings d) j = Some tv" and t: "idx_find (tables d) (tv_table tv) = Some t"
    and st: "\<And>a v. fm_find (tv_votes tv) a = Some v \<Longrightarrow> start_valid d (tv_table tv) t v"
    and v: "voting ext j t requied d = Inr (outcome, d1)"
    and f: "(case outcome of
              Some (v, ws, invalid) \<Rightarrow> apply_start_playing_with_consensus (tv_table tv) v ws invalid d1
            | None \<Rightarrow>
                ebind (table_owner d1 t) (\<lambda>owner.
                  Inr (push_applied_operation
                        (Game_event (tv_table tv) owner Fail_consensus_game_start_playing) d1))) = Inr f"
  shows "sound d f"
proof -
  note d1 = voting_Inr(1) [OF v]
  have "calm {tv_table tv} d1 f \<and> conserves d1 f"
  proof (cases outcome)
    case None
    then show ?thesis using f by (auto simp: ebind_Inr intro!: same_funds_conserves)
  next
    case (Some p)
    then obtain v' ws invalid where p: "outcome = Some (v', ws, invalid)" by (cases p) auto
    then have ap: "apply_start_playing_with_consensus (tv_table tv) v' ws invalid d1 = Inr f" using f by simp
    show ?thesis
      using endsD [OF apply_start_calm ap] agreed_start_conserves [OF tv t v [unfolded p] ap ok st] by simp
  qed
  then show ?thesis unfolding d1 by (intro sound_after_drop [OF tv refl]) auto
qed

lemma scheduled_voting_for_playing_sound:
  assumes tv: "idx_find (votings d) j = Some tv" and tid: "tv_table tv = tid"
  shows "ends (sound d) (scheduled_voting_for_playing ext j tid d)"
proof (rule endsI)
  fix d' assume "scheduled_voting_for_playing ext j tid d = Inr d'"
  then obtain t e tw outcome d1 f where r: "recheck_votes j tid d = Inr e"
    and te: "idx_find (tables e) tid = Some t" and tw: "idx_find (votings e) j = Some tw"
    and o: "(if min_votes_for_playing (parameters e) \<le> fm_size (tv_votes tw)
            then voting ext j t (voting_for_playing_requied_percent (parameters e)) e
            else Inr (None, e)) = Inr (outcome, d1)"
    and f: "(case outcome of
              Some (v, ws, invalid) \<Rightarrow> apply_start_playing_with_consensus tid v ws invalid d1
            | None \<Rightarrow>
                ebind (table_owner d1 t) (\<lambda>owner.
                  Inr (push_applied_operation
                        (Game_event tid owner Fail_consensus_game_start_playing) d1))) = Inr f"
    and d': "d' = cleanup_pending_votes tid f"
    unfolding scheduled_voting_for_playing_def by (auto simp: ebind_Inr idx_get_Inr)
  have t: "idx_find (tables d) tid = Some t" using te recheck_votes_tables [OF r] by simp
  note se = recheck_votes_sound [OF r tv t]
  have "sound e f" if ok: "chain_ok d"
  proof -
    have hf: "HARDFORK_PLAYCHAIN_9_TIME \<le> head_block_time d"
      using ok by (simp add: chain_ok_def HARDFORK_PLAYCHAIN_10_TIME_def HARDFORK_PLAYCHAIN_9_TIME_def)
    obtain evs votes where e: "e = d\<lparr>applied := evs, votings := idx_set j (tv\<lparr>tv_votes := votes\<rparr>) (votings d)\<rparr>"
      and votes: "\<And>a v. fm_find votes a = Some v \<Longrightarrow> start_valid d tid t v"
      using recheck_votes_Inr [OF r hf tv t] by blast
    have w: "tv_table tw = tid" "\<And>a v. fm_find (tv_votes tw) a = Some v \<Longrightarrow> start_valid e tid t v"
      using tw votes tid by (auto simp: e start_valid_cong [of "d\<lparr>applied := evs, votings := vs\<rparr>" d for vs])
    show ?thesis
    proof (cases "min_votes_for_playing (parameters e) \<le> fm_size (tv_votes tw)")
      case True
      have v: "voting ext j t (voting_for_playing_requied_percent (parameters e)) e = Inr (outcome, d1)"
        using o True by simp
      show ?thesis
        by (rule tally_start_sound [OF _ tw _ _ v]) (use ok se te w f in \<open>simp_all only: sound_def simp_thms\<close>)
    next
      case False
      then show ?thesis using o f by (auto simp: ebind_Inr intro: sound_same [OF sound_refl])
    qed
  qed
  then have "sound d f" using se by (simp add: sound_def)
  then show "sound d d'" unfolding d' by (rule cleanup_pending_votes_sound)
qed

section \<open>Incoming votes\<close>

text \<open>
  What taking a vote changes: votings and pending votes only. The invariant is kept when the vote
  is valid for the table.
\<close>

definition vote_valid :: "database \<Rightarrow> table_id \<Rightarrow> voting_data \<Rightarrow> bool" where
  "vote_valid d tid v \<longleftrightarrow>
     (\<forall>r. v = Result r \<longrightarrow> (\<exists>t. idx_find (tables d) tid = Some t \<and> validate_result d t r = Inr True))"

definition balloted :: "database \<Rightarrow> database \<Rightarrow> bool" where
  "balloted d e \<longleftrightarrow>
     same_funds d e \<and> players e = players d \<and> head_block_time e = head_block_time d \<and> (votes_ok d \<longrightarrow> votes_ok e)"

lemma balloted_refl [simp]: "balloted d d"
  by (simp add: balloted_def)

lemma balloted_trans: "balloted d e \<Longrightarrow> balloted e f \<Longrightarrow> balloted d f"
  by (auto simp: balloted_def intro: same_funds_trans)

lemma balloted_sound: "balloted d e \<Longrightarrow> sound d e"
  by (rule soundI) (auto simp: balloted_def intro: same_funds_conserves)

lemma balloted_calm: "calm {} d e \<Longrightarrow> same_funds d e \<Longrightarrow> players e = players d \<Longrightarrow> balloted d e"
  by (auto simp: balloted_def calm_def intro: votes_ok_calm_all)

lemma balloted_updates [simp]:
  "balloted d e \<Longrightarrow> balloted d (e\<lparr>pending_votes := ps\<rparr>)"
  "balloted d e \<Longrightarrow> balloted d (push_applied_operation op e)"
  by (erule balloted_trans, rule balloted_calm; simp)+

lemma vote_valid_balloted: "balloted d e \<Longrightarrow> vote_valid d tid v \<Longrightarrow> vote_valid e tid v"
proof -
  assume b: "balloted d e"
  then have "validate_result d t r = Inr True \<Longrightarrow> validate_result e t r = Inr True" for t r
    by (intro validate_result_le [of d e t t]) (auto simp: balloted_def players_le_def find_player_def)
  then show "vote_valid d tid v \<Longrightarrow> vote_valid e tid v"
    using b by (auto simp: vote_valid_def balloted_def same_funds_def)
qed

lemma set_required_voters_frame:
  "set_required_voters d t voter percent v tv = Inr tw \<Longrightarrow> tv_table tw = tv_table tv \<and> tv_votes tw = tv_votes tv"
  by (cases v) (auto simp: ebind_Inr Let_def split: if_splits)

lemma set_voter_frame:
  "set_voter d t voter v tv = Inr tw \<Longrightarrow> tv_table tw = tv_table tv \<and> tv_votes tw = fm_put voter v (tv_votes tv)"
  by (auto simp: set_voter_def ebind_Inr split: if_splits option.splits)

lemma collect_votes_balloted:
  assumes c: "collect_votes tid t voter v secs percent ws collected d = Inr (j, collected', d')"
    and v: "vote_valid d tid v"
  shows "balloted d d'"
proof (cases "find_voting d tid")
  case None
  obtain tw ix where tw: "tv_table tw = tid" "tv_votes tw = fm_put voter v fm_empty"
    and ix: "idx_create (\<lambda>a b. tv_table a = tv_table b) tw (votings d) = Inr (j, ix)"
    and d': "d' = d\<lparr>votings := ix\<rparr>"
    using c None by (auto simp: collect_votes_def ebind_Inr new_voting_def
        dest!: set_voter_frame set_required_voters_frame)
  have le: "validate_result d u r = Inr True \<Longrightarrow> validate_result d' u r = Inr True" for u r
    by (rule validate_result_le) (simp_all add: d')
  have find: "idx_find ix k = (if k = j then Some tw else idx_find (votings d) k)" for k
    by (rule idx_create_find [OF ix])
  have new: "tv_table u \<noteq> tid" if "idx_find (votings d) k = Some u" for k u
    using None that by (auto simp: find_voting_def idx_lookup_None)
  have "votes_ok d'" if ok: "votes_ok d"
    unfolding votes_ok_def
  proof (intro conjI allI impI)
    fix k l u w assume "idx_find (votings d') k = Some u" "idx_find (votings d') l = Some w" "tv_table u = tv_table w"
    then show "k = l" using new tw(1) votes_ok_unique [OF ok, of k u l w] by (auto simp: d' find split: if_splits)
  next
    fix k u a r assume "idx_find (votings d') k = Some u" "fm_find (tv_votes u) a = Some (Result r)"
    then have "\<exists>t. idx_find (tables d) (tv_table u) = Some t \<and> validate_result d t r = Inr True"
      using ok v tw unfolding votes_ok_def vote_valid_def by (auto simp: d' find split: if_splits)
    then show "\<exists>t. idx_find (tables d') (tv_table u) = Some t \<and> validate_result d' t r = Inr True"
      using le by (auto simp: d')
  qed
  then show ?thesis by (simp add: balloted_def d')
next
  case (Some p)
  then obtain k tv where p: "find_voting d tid = Some (k, tv)" by (cases p) auto
  then have k: "idx_find (votings d) k = Some tv" "tv_table tv = tid"
    unfolding find_voting_def by (auto dest: idx_lookup_Some)
  obtain tw where tw: "tv_table tw = tid" "tv_votes tw = fm_put voter v (tv_votes tv)"
    and d': "d' = d\<lparr>votings := idx_set k tw (votings d)\<rparr>"
    using c p k by (auto simp: collect_votes_def ebind_Inr dest!: set_voter_frame)
  have "votes_ok d'" if ok: "votes_ok d"
    unfolding d'
  proof (rule votes_ok_set [OF ok k(1)])
    fix a r assume "fm_find (tv_votes tw) a = Some (Result r)"
    then consider "v = Result r" | "fm_find (tv_votes tv) a = Some (Result r)"
      by (auto simp: tw(2) split: if_splits)
    then show "\<exists>t. idx_find (tables d) (tv_table tw) = Some t \<and> validate_result d t r = Inr True"
      unfolding tw(1) k(2) [symmetric]
      by cases (use v k ok in \<open>simp add: vote_valid_def\<close>, use k ok in \<open>unfold votes_ok_def, blast\<close>)
  qed (simp add: tw k)
  then show ?thesis by (simp add: balloted_def d')
qed

lemma take_pending_vote_balloted:
  assumes "balloted d e"
  shows "ends (\<lambda>(c, f). balloted d f) (take_pending_vote tid j secs percent ws op p (collected, e))"
proof -
  obtain i vote_obj where p: "p = (i, vote_obj)" by (cases p)
  let ?op = "pv_vote vote_obj"
  have "balloted d f"
    if t: "idx_find (tables e) tid = Some t"
      and k: "check_pending_vote e tid t tv ?op = Inr u"
      and c: "collect_votes tid t (vote_voter ?op) (vote_data ?op) secs percent ws collected e = Inr (j', c', f)"
    for t tv u j' c' f
  proof -
    have "vote_valid e tid (vote_data ?op)"
      using k t by (cases ?op) (auto simp: check_pending_vote_def ebind_Inr check_Inr vote_valid_def)
    then show ?thesis using collect_votes_balloted [OF c] assms by (blast intro: balloted_trans)
  qed
  then show ?thesis
    using assms unfolding p take_pending_vote_def Let_def
    by (auto simp: ends_def ebind_Inr idx_get_Inr push_fail_vote_def split: if_splits sum.splits)
qed

lemma schedule_voting_balloted:
  assumes "schedule_voting j d = Inr e"
  shows "balloted d e"
proof -
  obtain tv where tv: "idx_find (votings d) j = Some tv" using assms by (auto simp: schedule_voting_def res_simps)
  have set: "balloted d (d\<lparr>votings := idx_set j tw (votings d)\<rparr>)"
    if "tv_table tw = tv_table tv" "tv_votes tw = tv_votes tv" for tw
  proof -
    have "votes_ok (d\<lparr>votings := idx_set j tw (votings d)\<rparr>)" if ok: "votes_ok d"
      by (rule votes_ok_set [OF ok tv])
        (use ok tv \<open>tv_table tw = _\<close> \<open>tv_votes tw = _\<close> in \<open>unfold votes_ok_def, fastforce+\<close>)
    then show ?thesis by (simp add: balloted_def)
  qed
  show ?thesis
    using assms tv unfolding schedule_voting_def idx_get_def
    by (cases "tv_scheduled_voting tv = time_max") (auto simp: Let_def intro!: set)
qed

lemma try_voting_cases:
  assumes "try_voting tid ws secs percent op d = Inr d'"
  obtains (postponed) ix where "d' = d\<lparr>pending_votes := ix\<rparr>"
    | (taken) t j c d1 c' d2 d3 where
      "collect_votes tid t (vote_voter op) (vote_data op) secs percent ws False d = Inr (j, c, d1)"
      "efold (take_pending_vote tid j secs percent ws op) (pending_votes_of d1 tid) (c, d1) = Inr (c', d2)"
      "(if c' then schedule_voting j d2 else Inr d2) = Inr d3" "alive_for_table tid d3 = Inr d'"
proof -
  obtain t postpone where "idx_find (tables d) tid = Some t" and
    r: "(if postpone then
         ebind (idx_create (\<lambda>a b. pv_table a = pv_table b \<and> pv_voter a = pv_voter b)
                  \<lparr>pv_table = tid, pv_voter = vote_voter op, pv_vote = op\<rparr> (pending_votes d)) (\<lambda>(i, ix).
           Inr (d\<lparr>pending_votes := ix\<rparr>))
       else
         ebind (collect_votes tid t (vote_voter op) (vote_data op) secs percent ws False d) (\<lambda>(j, collected, d).
         ebind (efold (take_pending_vote tid j secs percent ws op)
                  (pending_votes_of d tid) (collected, d)) (\<lambda>(collected, d).
         ebind (if collected then schedule_voting j d else Inr d) (\<lambda>d.
           alive_for_table tid d)))) = Inr d'"
    using assms unfolding try_voting_def ebind_Inr idx_get_Inr by blast
  show ?thesis
  proof (cases postpone)
    case True
    then show ?thesis using r by (auto simp: ebind_Inr intro: postponed)
  next
    case False
    obtain j c d1 where c: "collect_votes tid t (vote_voter op) (vote_data op) secs percent ws False d = Inr (j, c, d1)"
      and r1: "ebind (efold (take_pending_vote tid j secs percent ws op) (pending_votes_of d1 tid) (c, d1)) (\<lambda>(collected, d).
         ebind (if collected then schedule_voting j d else Inr d) (\<lambda>d. alive_for_table tid d)) = Inr d'"
      using r False by (auto simp: ebind_Inr [of "collect_votes tid t a v s p w b d" for a v s p w b d])
    obtain c' d2 where f: "efold (take_pending_vote tid j secs percent ws op) (pending_votes_of d1 tid) (c, d1) = Inr (c', d2)"
      and r2: "ebind (if c' then schedule_voting j d2 else Inr d2) (\<lambda>d. alive_for_table tid d) = Inr d'"
      using r1 by (auto simp: ebind_Inr [of "efold g xs s" for g xs s])
    then show ?thesis using taken [OF c f] by (auto simp: ebind_Inr)
  qed
qed

lemma try_voting_sound:
  assumes v: "vote_valid d tid (vote_data op)"
  shows "ends (sound d) (try_voting tid ws secs percent op d)"
proof (rule endsI)
  fix d' assume "try_voting tid ws secs percent op d = Inr d'"
  then show "sound d d'"
  proof (cases rule: try_voting_cases)
    case postponed
    then show ?thesis by (auto intro: balloted_sound)
  next
    case (taken t j c d1 c' d2 d3)
    have "balloted d d1" by (rule collect_votes_balloted [OF taken(1) v])
    then have "ends (\<lambda>(c, f). balloted d f)
        (efold (take_pending_vote tid j secs percent ws op) (pending_votes_of d1 tid) (c, d1))"
      by (intro ends_efold) (auto intro: take_pending_vote_balloted)
    from endsD [OF this taken(2)] have "balloted d d2" by simp
    moreover have "balloted d2 d3"
      using taken(3) by (auto split: if_splits intro: schedule_voting_balloted)
    ultimately have "sound d d3" by (blast intro: balloted_trans balloted_sound)
    then show ?thesis using endsD [OF alive_for_table_sound taken(4)] by (rule sound_trans)
  qed
qed

lemma checked_vote_valid:
  assumes "check_incoming_vote d tid t op = Inr u" and "idx_find (tables d) tid = Some t"
  shows "vote_valid d tid (vote_data op)"
  using assms by (cases op) (auto simp: check_incoming_vote_def ebind_Inr check_Inr vote_valid_def)

lemma game_start_sound:
  assumes "game_start_evaluate_v2 d op = Inr u"
  shows "ends (sound d) (game_start_apply_v2 op d)"
proof -
  have "vote_valid d (gsp_table op) (vote_data (Vote_start op))" by (simp add: vote_valid_def)
  then show ?thesis unfolding game_start_apply_v2_def by (rule try_voting_sound)
qed

lemma game_result_sound:
  assumes "game_result_evaluate_v2 d op = Inr u"
  shows "ends (sound d) (game_result_apply_v2 op d)"
proof -
  obtain t where t: "idx_find (tables d) (grc_table op) = Some t"
    and c: "check_incoming_vote d (grc_table op) t (Vote_result op) = Inr ()"
    using assms by (auto simp: game_result_evaluate_v2_def ebind_Inr idx_get_Inr)
  show ?thesis
    unfolding game_result_apply_v2_def using t
    by (simp add: wp) (rule try_voting_sound [OF checked_vote_valid [OF c t]])
qed

end
