(* ===== verification/Vesting.thy ===== *)
theory Vesting
  imports Scenario
begin

text \<open>
  Vesting balances (\<^verbatim>\<open>vesting_balance_object.cpp\<close>, \<^verbatim>\<open>vesting_balance_evaluator.cpp\<close>,
  \<^verbatim>\<open>database::deposit_lazy_vesting\<close>): the three policies, deposits, withdrawals, the operations that open a
  balance and withdraw from it. The policies share a contract: at most the balance may be withdrawn, what
  was allowed stays allowed, and several withdrawals never give more than one at the end would have.
  The 128-bit products of a balance and a number of seconds cannot overflow, since a balance fits 63 and
  a number of seconds 32 bits; they are natural numbers here.
\<close>

section \<open>The policies\<close>

definition GRAPHENE_MAX_SHARE_SUPPLY :: int where
  "GRAPHENE_MAX_SHARE_SUPPLY = 1000000000000000"

definition sum_below_max_shares :: "asset \<Rightarrow> asset \<Rightarrow> bool res" where
  "sum_below_max_shares a b =
     (if amount a \<le> GRAPHENE_MAX_SHARE_SUPPLY \<and> amount b \<le> GRAPHENE_MAX_SHARE_SUPPLY
      then ebind (share (amount a + amount b)) (\<lambda>s. Inr (s \<le> GRAPHENE_MAX_SHARE_SUPPLY))
      else Inr False)"

subsection \<open>Linear vesting\<close>

definition linear_total_vested :: "linear_vesting_policy \<Rightarrow> nat \<Rightarrow> int" where
  "linear_total_vested p elapsed =
     (if elapsed < vesting_duration_seconds p
      then int (nat (begin_balance p) * elapsed div vesting_duration_seconds p)
      else begin_balance p)"

definition linear_allowed_withdraw :: "linear_vesting_policy \<Rightarrow> int \<Rightarrow> time \<Rightarrow> int res" where
  "linear_allowed_withdraw p balance now =
     (if begin_timestamp p < now \<and> vesting_cliff_seconds p \<le> now - begin_timestamp p
      then ebind (share (begin_balance p - balance)) (\<lambda>withdrawn_already.
             share (linear_total_vested p (now - begin_timestamp p) - withdrawn_already))
      else Inr 0)"

subsection \<open>Coin days destroyed\<close>

definition compute_coin_seconds_earned :: "cdd_vesting_policy \<Rightarrow> int \<Rightarrow> time \<Rightarrow> nat" where
  "compute_coin_seconds_earned p balance now =
     min (coin_seconds_earned p + nat balance * (now - coin_seconds_earned_last_update p))
       (nat balance * max (vesting_seconds p) 1)"

definition update_coin_seconds_earned :: "int \<Rightarrow> time \<Rightarrow> cdd_vesting_policy \<Rightarrow> cdd_vesting_policy" where
  "update_coin_seconds_earned balance now p =
     p\<lparr>coin_seconds_earned := compute_coin_seconds_earned p balance now,
       coin_seconds_earned_last_update := now\<rparr>"

definition cdd_allowed_withdraw :: "cdd_vesting_policy \<Rightarrow> int \<Rightarrow> time \<Rightarrow> int" where
  "cdd_allowed_withdraw p balance now =
     (if now \<le> start_claim p then 0
      else int (compute_coin_seconds_earned p balance now div max (vesting_seconds p) 1))"

definition cdd_on_withdraw :: "int \<Rightarrow> time \<Rightarrow> int \<Rightarrow> cdd_vesting_policy \<Rightarrow> cdd_vesting_policy" where
  "cdd_on_withdraw balance now amt p =
     (let p = update_coin_seconds_earned balance now p
      in p\<lparr>coin_seconds_earned := coin_seconds_earned p - nat amt * max (vesting_seconds p) 1\<rparr>)"

text \<open>The product of a vested deposit is computed in 64 bits; an overflow there is an error of the model.\<close>

definition cdd_on_deposit_vested :: "int \<Rightarrow> time \<Rightarrow> int \<Rightarrow> cdd_vesting_policy \<Rightarrow> cdd_vesting_policy res" where
  "cdd_on_deposit_vested balance now amt p =
     (let p = update_coin_seconds_earned balance now p
      in ebind (share (amt * int (max (vesting_seconds p) 1))) (\<lambda>seconds.
           Inr (p\<lparr>coin_seconds_earned := coin_seconds_earned p + nat seconds\<rparr>)))"

section \<open>Vesting balances\<close>

text \<open>The visitors of \<^verbatim>\<open>vesting_balance_object\<close> choose the policy.\<close>

fun policy_allowed_withdraw :: "vesting_policy \<Rightarrow> int \<Rightarrow> time \<Rightarrow> int res" where
  "policy_allowed_withdraw (Linear_vesting p) balance now = linear_allowed_withdraw p balance now"
| "policy_allowed_withdraw (Cdd_vesting p) balance now = Inr (cdd_allowed_withdraw p balance now)"
| "policy_allowed_withdraw Instant_vesting balance now = Inr balance"

fun policy_on_withdraw :: "vesting_policy \<Rightarrow> int \<Rightarrow> time \<Rightarrow> int \<Rightarrow> vesting_policy" where
  "policy_on_withdraw (Linear_vesting p) balance now amt = Linear_vesting p"
| "policy_on_withdraw (Cdd_vesting p) balance now amt = Cdd_vesting (cdd_on_withdraw balance now amt p)"
| "policy_on_withdraw Instant_vesting balance now amt = Instant_vesting"

fun policy_on_deposit :: "vesting_policy \<Rightarrow> int \<Rightarrow> time \<Rightarrow> vesting_policy" where
  "policy_on_deposit (Linear_vesting p) balance now = Linear_vesting p"
| "policy_on_deposit (Cdd_vesting p) balance now = Cdd_vesting (update_coin_seconds_earned balance now p)"
| "policy_on_deposit Instant_vesting balance now = Instant_vesting"

fun policy_on_deposit_vested :: "vesting_policy \<Rightarrow> int \<Rightarrow> time \<Rightarrow> int \<Rightarrow> vesting_policy res" where
  "policy_on_deposit_vested (Linear_vesting p) balance now amt =
     Inl (Assert ''May not deposit vested into a linear vesting balance.'')"
| "policy_on_deposit_vested (Cdd_vesting p) balance now amt =
     ebind (cdd_on_deposit_vested balance now amt p) (\<lambda>p. Inr (Cdd_vesting p))"
| "policy_on_deposit_vested Instant_vesting balance now amt = Inr Instant_vesting"

definition get_allowed_withdraw :: "time \<Rightarrow> vesting_balance_object \<Rightarrow> asset res" where
  "get_allowed_withdraw now vb =
     ebind (policy_allowed_withdraw (vb_policy vb) (amount (vb_amount vb)) now) (\<lambda>n.
       Inr \<lparr>amount = n, asset_id = asset_id (vb_amount vb)\<rparr>)"

text \<open>Only the policy of coin days compares amounts of different assets, which raises.\<close>

definition is_withdraw_allowed :: "time \<Rightarrow> asset \<Rightarrow> vesting_balance_object \<Rightarrow> bool res" where
  "is_withdraw_allowed now amt vb =
     (case vb_policy vb of
        Cdd_vesting p \<Rightarrow> ebind (get_allowed_withdraw now vb) (asset_le amt)
      | _ \<Rightarrow> if asset_id amt = asset_id (vb_amount vb) then ebind (get_allowed_withdraw now vb) (asset_le amt)
             else Inr False)"

definition is_deposit_allowed :: "asset \<Rightarrow> vesting_balance_object \<Rightarrow> bool res" where
  "is_deposit_allowed amt vb =
     (if asset_id amt = asset_id (vb_amount vb) then sum_below_max_shares amt (vb_amount vb) else Inr False)"

definition is_deposit_vested_allowed :: "asset \<Rightarrow> vesting_balance_object \<Rightarrow> bool res" where
  "is_deposit_vested_allowed amt vb =
     (case vb_policy vb of Cdd_vesting p \<Rightarrow> is_deposit_allowed amt vb | _ \<Rightarrow> Inr False)"

definition vesting_deposit :: "time \<Rightarrow> asset \<Rightarrow> vesting_balance_object \<Rightarrow> vesting_balance_object res" where
  "vesting_deposit now amt vb =
     ebind (asset_plus (vb_amount vb) amt) (\<lambda>a.
       Inr (vb\<lparr>vb_amount := a, vb_policy := policy_on_deposit (vb_policy vb) (amount (vb_amount vb)) now\<rparr>))"

definition vesting_deposit_vested :: "time \<Rightarrow> asset \<Rightarrow> vesting_balance_object \<Rightarrow> vesting_balance_object res" where
  "vesting_deposit_vested now amt vb =
     ebind (policy_on_deposit_vested (vb_policy vb) (amount (vb_amount vb)) now (amount amt)) (\<lambda>p.
     ebind (asset_plus (vb_amount vb) amt) (\<lambda>a. Inr (vb\<lparr>vb_amount := a, vb_policy := p\<rparr>)))"

definition vesting_withdraw :: "time \<Rightarrow> asset \<Rightarrow> vesting_balance_object \<Rightarrow> vesting_balance_object res" where
  "vesting_withdraw now amt vb =
     ebind (asset_minus (vb_amount vb) amt) (\<lambda>a.
       Inr (vb\<lparr>vb_amount := a, vb_policy := policy_on_withdraw (vb_policy vb) (amount (vb_amount vb)) now (amount amt)\<rparr>))"

text \<open>
  A deposit goes to the vesting balance the receiver has, when its owner, its policy and its period fit;
  else a new vesting balance is opened and its number returned. Deposits are core asset.
\<close>

definition usable_vesting ::
    "database \<Rightarrow> nat option \<Rightarrow> nat \<Rightarrow> account_id \<Rightarrow> (nat \<times> vesting_balance_object) option res" where
  "usable_vesting d ovbid secs owner =
     (case ovbid of
        None \<Rightarrow> Inr None
      | Some v \<Rightarrow> ebind (idx_get (vestings d) v) (\<lambda>vbo.
          Inr (if vb_owner vbo \<noteq> owner then None
               else case vb_policy vbo of
                      Cdd_vesting p \<Rightarrow> if vesting_seconds p \<noteq> secs then None else Some (v, vbo)
                    | _ \<Rightarrow> None)))"

definition deposit_lazy_vesting ::
    "nat option \<Rightarrow> int \<Rightarrow> nat \<Rightarrow> account_id \<Rightarrow> database \<Rightarrow> (nat option \<times> database) res" where
  "deposit_lazy_vesting ovbid amt req_vesting_seconds req_owner d =
     (if amt = 0 then Inr (None, d)
      else ebind (usable_vesting d ovbid req_vesting_seconds req_owner) (\<lambda>found.
           case found of
             Some (v, vbo) \<Rightarrow>
               ebind (vesting_deposit (head_block_time d) (core_asset amt) vbo) (\<lambda>vbo.
                 Inr (None, d\<lparr>vestings := idx_set v vbo (vestings d)\<rparr>))
           | None \<Rightarrow>
               ebind (idx_create (\<lambda>a b. False)
                        \<lparr>vb_owner = req_owner, vb_amount = core_asset amt,
                         vb_policy = Cdd_vesting \<lparr>vesting_seconds = req_vesting_seconds, coin_seconds_earned = 0,
                           start_claim = 0, coin_seconds_earned_last_update = head_block_time d\<rparr>\<rparr>
                        (vestings d)) (\<lambda>(v, ix).
                 Inr (Some v, d\<lparr>vestings := ix\<rparr>))))"

section \<open>The operations\<close>

datatype vesting_policy_initializer =
  Linear_initializer (li_begin_timestamp: time) (li_cliff_seconds: nat) (li_duration_seconds: nat)
| Cdd_initializer (ci_start_claim: time) (ci_vesting_seconds: nat)
| Instant_initializer

record vesting_balance_create_operation =
  vbc_fee :: asset
  vbc_creator :: account_id
  vbc_owner :: account_id
  vbc_amount :: asset
  vbc_policy :: vesting_policy_initializer

record vesting_balance_withdraw_operation =
  vbw_fee :: asset
  vbw_vesting_balance :: nat
  vbw_owner :: account_id
  vbw_amount :: asset

definition vesting_balance_create_validate :: "vesting_balance_create_operation \<Rightarrow> unit res" where
  "vesting_balance_create_validate op =
     ebind (check (0 \<le> amount (vbc_fee op)) ''fee.amount >= 0'') (\<lambda>_.
       check (0 < amount (vbc_amount op)) ''amount.amount > 0'')"

definition vesting_balance_withdraw_validate :: "vesting_balance_withdraw_operation \<Rightarrow> unit res" where
  "vesting_balance_withdraw_validate op =
     ebind (check (0 \<le> amount (vbw_fee op)) ''fee.amount >= 0'') (\<lambda>_.
       check (0 < amount (vbw_amount op)) ''amount.amount > 0'')"

definition HARDFORK_1268_TIME :: time where
  "HARDFORK_1268_TIME = 1556028120"

definition check_vesting_balance_policy_hf_1268 :: "time \<Rightarrow> vesting_policy_initializer \<Rightarrow> unit res" where
  "check_vesting_balance_policy_hf_1268 block_time p =
     (if block_time < HARDFORK_1268_TIME
      then check (p \<noteq> Instant_initializer) ''Instant vesting policy is only available after HARDFORK_1268_TIME!''
      else Inr ())"

definition vesting_balance_create_evaluate :: "database \<Rightarrow> vesting_balance_create_operation \<Rightarrow> unit res" where
  "vesting_balance_create_evaluate d op =
     ebind (if is_account_exists d (vbc_creator op) then Inr () else Inl Not_found) (\<lambda>_.
     ebind (if is_account_exists d (vbc_owner op) then Inr () else Inl Not_found) (\<lambda>_.
     ebind (check (0 < amount (vbc_amount op)) ''op.amount.amount > 0'') (\<lambda>_.
     ebind (asset_le (vbc_amount op) (get_balance d (vbc_creator op) (asset_id (vbc_amount op)))) (\<lambda>enough.
     ebind (check enough ''d.get_balance >= op.amount'') (\<lambda>_.
     ebind (of_option Not_found (fm_find (transfer_restricted d) (asset_id (vbc_amount op)))) (\<lambda>restricted.
     ebind (check (\<not> restricted) ''!is_transfer_restricted()'') (\<lambda>_.
       check_vesting_balance_policy_hf_1268 (head_block_time d) (vbc_policy op))))))))"

fun init_policy :: "vesting_policy_initializer \<Rightarrow> int \<Rightarrow> time \<Rightarrow> vesting_policy" where
  "init_policy (Linear_initializer begin_time cliff duration) init_balance now =
     Linear_vesting \<lparr>begin_timestamp = begin_time, vesting_cliff_seconds = cliff,
       vesting_duration_seconds = duration, begin_balance = init_balance\<rparr>"
| "init_policy (Cdd_initializer claim secs) init_balance now =
     Cdd_vesting \<lparr>vesting_seconds = secs, coin_seconds_earned = 0, start_claim = claim,
       coin_seconds_earned_last_update = now\<rparr>"
| "init_policy Instant_initializer init_balance now = Instant_vesting"

definition vesting_balance_create_apply :: "vesting_balance_create_operation \<Rightarrow> database \<Rightarrow> database res" where
  "vesting_balance_create_apply op d =
     ebind (asset_le (vbc_amount op) (get_balance d (vbc_creator op) (asset_id (vbc_amount op)))) (\<lambda>enough.
     ebind (check enough ''d.get_balance >= op.amount'') (\<lambda>_.
     ebind (asset_neg (vbc_amount op)) (\<lambda>m.
     ebind (adjust_balance (vbc_creator op) m d) (\<lambda>d.
     ebind (idx_create (\<lambda>a b. False)
              \<lparr>vb_owner = vbc_owner op, vb_amount = vbc_amount op,
               vb_policy = init_policy (vbc_policy op) (amount (vbc_amount op)) (head_block_time d)\<rparr>
              (vestings d)) (\<lambda>(v, ix). Inr (d\<lparr>vestings := ix\<rparr>))))))"

definition vesting_balance_withdraw_evaluate :: "database \<Rightarrow> vesting_balance_withdraw_operation \<Rightarrow> unit res" where
  "vesting_balance_withdraw_evaluate d op =
     ebind (idx_get (vestings d) (vbw_vesting_balance op)) (\<lambda>vbo.
     ebind (check (vbw_owner op = vb_owner vbo) ''op.owner == vbo.owner'') (\<lambda>_.
     ebind (is_withdraw_allowed (head_block_time d) (vbw_amount op) vbo) (\<lambda>allowed.
     ebind (check allowed ''vbo.is_withdraw_allowed( now, op.amount )'') (\<lambda>_.
       if is_account_exists d (vbw_owner op) then Inr () else Inl Not_found))))"

definition vesting_balance_withdraw_apply :: "vesting_balance_withdraw_operation \<Rightarrow> database \<Rightarrow> database res" where
  "vesting_balance_withdraw_apply op d =
     ebind (idx_get (vestings d) (vbw_vesting_balance op)) (\<lambda>vbo.
     ebind (vesting_withdraw (head_block_time d) (vbw_amount op) vbo) (\<lambda>vbo.
       adjust_balance (vbw_owner op) (vbw_amount op)
         (d\<lparr>vestings := idx_set (vbw_vesting_balance op) vbo (vestings d)\<rparr>)))"

section \<open>Deposits and withdrawals keep the invariant\<close>

lemma vesting_deposit_ok:
  "vesting_deposit now amt vb = Inr vb' \<Longrightarrow> vesting_ok vb \<Longrightarrow> 0 \<le> amount amt \<Longrightarrow> vesting_ok vb'"
  by (cases "vb_policy vb") (auto simp: vesting_deposit_def vesting_ok_def res_simps)

lemma usable_vesting_found: "usable_vesting d ov secs owner = Inr (Some (i, vb)) \<Longrightarrow> idx_find (vestings d) i = Some vb"
  by (auto simp: usable_vesting_def ebind_Inr idx_get_Inr split: option.splits if_splits vesting_policy.splits)

lemma deposit_lazy_vesting_cases:
  assumes "deposit_lazy_vesting ov amt secs owner d = Inr (v, d')"
  obtains (none) "amt = 0" "d' = d"
  | (old) i vb vb' where "idx_find (vestings d) i = Some vb"
      "vesting_deposit (head_block_time d) (core_asset amt) vb = Inr vb'"
      "d' = d\<lparr>vestings := idx_set i vb' (vestings d)\<rparr>"
  | (new) vb i ix where "idx_create (\<lambda>a b. False) vb (vestings d) = Inr (i, ix)" "vb_amount vb = core_asset amt"
      "d' = d\<lparr>vestings := ix\<rparr>" "vesting_ok vb \<longleftrightarrow> 0 \<le> amt"
proof (cases "amt = 0")
  case True
  then show thesis using assms none by (simp add: deposit_lazy_vesting_def)
next
  case False
  then obtain found where found: "usable_vesting d ov secs owner = Inr found"
    and r: "(case found of
             Some (v, vbo) \<Rightarrow>
               ebind (vesting_deposit (head_block_time d) (core_asset amt) vbo) (\<lambda>vbo.
                 Inr (None, d\<lparr>vestings := idx_set v vbo (vestings d)\<rparr>))
           | None \<Rightarrow>
               ebind (idx_create (\<lambda>a b. False)
                        \<lparr>vb_owner = owner, vb_amount = core_asset amt,
                         vb_policy = Cdd_vesting \<lparr>vesting_seconds = secs, coin_seconds_earned = 0,
                           start_claim = 0, coin_seconds_earned_last_update = head_block_time d\<rparr>\<rparr>
                        (vestings d)) (\<lambda>(v, ix). Inr (Some v, d\<lparr>vestings := ix\<rparr>))) = Inr (v, d')"
    using assms unfolding deposit_lazy_vesting_def if_not_P [OF False] ebind_Inr by blast
  show thesis
  proof (cases found)
    case None
    with r obtain i ix where c: "idx_create (\<lambda>a b. False)
        \<lparr>vb_owner = owner, vb_amount = core_asset amt,
         vb_policy = Cdd_vesting \<lparr>vesting_seconds = secs, coin_seconds_earned = 0,
           start_claim = 0, coin_seconds_earned_last_update = head_block_time d\<rparr>\<rparr> (vestings d) = Inr (i, ix)"
      "d' = d\<lparr>vestings := ix\<rparr>"
      by (simp add: ebind_Inr split_beta) (metis prod.collapse)
    show thesis by (rule new [OF c(1) _ c(2)]) (simp_all add: vesting_ok_def)
  next
    case (Some p)
    then obtain i vb where p: "found = Some (i, vb)" by (cases p) simp
    with r obtain vb' where "vesting_deposit (head_block_time d) (core_asset amt) vb = Inr vb'"
      "d' = d\<lparr>vestings := idx_set i vb' (vestings d)\<rparr>" by (simp add: ebind_Inr) blast
    then show thesis by (rule old [OF usable_vesting_found [OF found [unfolded p]]])
  qed
qed

section \<open>The contract of a policy\<close>

text \<open>
  What a policy promises for a balance it accepts at a time: what may be withdrawn is covered by the
  balance, the policy accepts what a withdrawal and time leave, and a withdrawal now takes at least its
  amount from what may be withdrawn later.
\<close>

locale vesting_contract =
  fixes good :: "'p \<Rightarrow> int \<Rightarrow> time \<Rightarrow> bool"
    and allowed :: "'p \<Rightarrow> int \<Rightarrow> time \<Rightarrow> int"
    and withdrawn :: "'p \<Rightarrow> int \<Rightarrow> time \<Rightarrow> int \<Rightarrow> 'p"
  assumes covered: "good p b t \<Longrightarrow> 0 \<le> allowed p b t \<and> allowed p b t \<le> b"
    and good_later: "good p b t \<Longrightarrow> t \<le> u \<Longrightarrow> good p b u"
    and withdrawn_good: "good p b t \<Longrightarrow> 0 \<le> a \<Longrightarrow> a \<le> allowed p b t \<Longrightarrow> good (withdrawn p b t a) (b - a) t"
    and no_gain: "good p b t \<Longrightarrow> 0 \<le> a \<Longrightarrow> a \<le> allowed p b t \<Longrightarrow> t \<le> u \<Longrightarrow>
      allowed (withdrawn p b t a) (b - a) u \<le> allowed p b u - a"
begin

text \<open>Withdrawals one after the other, at times that do not go back.\<close>

primrec takes :: "'p \<Rightarrow> int \<Rightarrow> time \<Rightarrow> (time \<times> int) list \<Rightarrow> bool" where
  "takes p b t [] \<longleftrightarrow> True"
| "takes p b t (w # ws) \<longleftrightarrow> (case w of (u, a) \<Rightarrow>
     t \<le> u \<and> 0 \<le> a \<and> a \<le> allowed p b u \<and> takes (withdrawn p b u a) (b - a) u ws)"

lemma takes_no_gain:
  "good p b t \<Longrightarrow> takes p b t ws \<Longrightarrow> t \<le> v \<Longrightarrow> \<forall>(u, a) \<in> set ws. u \<le> v \<Longrightarrow> sum_list (map snd ws) \<le> allowed p b v"
proof (induction ws arbitrary: p b t)
  case Nil
  then show ?case using covered good_later by simp
next
  case (Cons w ws)
  obtain u a where w: "w = (u, a)" by (cases w)
  with Cons have step: "good p b u" "0 \<le> a" "a \<le> allowed p b u" "u \<le> v" using good_later by auto
  then have "good (withdrawn p b u a) (b - a) u" by (simp add: withdrawn_good)
  then have "sum_list (map snd ws) \<le> allowed (withdrawn p b u a) (b - a) v"
    using Cons w step by (intro Cons.IH [of _ _ u]) auto
  then show ?case using no_gain [OF step] w by simp
qed

end

subsection \<open>Linear vesting\<close>

abbreviation linear_claimable :: "linear_vesting_policy \<Rightarrow> time \<Rightarrow> bool" where
  "linear_claimable p t \<equiv> begin_timestamp p < t \<and> vesting_cliff_seconds p \<le> t - begin_timestamp p"

definition linear_allowed :: "linear_vesting_policy \<Rightarrow> int \<Rightarrow> time \<Rightarrow> int" where
  "linear_allowed p b t =
     (if linear_claimable p t then linear_total_vested p (t - begin_timestamp p) - (begin_balance p - b) else 0)"

definition linear_good :: "linear_vesting_policy \<Rightarrow> int \<Rightarrow> time \<Rightarrow> bool" where
  "linear_good p b t \<longleftrightarrow> 0 \<le> b \<and> b \<le> begin_balance p \<and> begin_balance p < 2 ^ 63 \<and>
     (if linear_claimable p t then begin_balance p - b \<le> linear_total_vested p (t - begin_timestamp p)
      else b = begin_balance p)"

lemma linear_total_vested_bounds:
  assumes "0 \<le> begin_balance p"
  shows "0 \<le> linear_total_vested p e" "linear_total_vested p e \<le> begin_balance p"
proof -
  have "nat (begin_balance p) * e div vesting_duration_seconds p \<le> nat (begin_balance p)" if "e < vesting_duration_seconds p"
  proof -
    have "nat (begin_balance p) * e div vesting_duration_seconds p \<le> nat (begin_balance p) * vesting_duration_seconds p div vesting_duration_seconds p"
      by (rule div_le_mono) (use that in simp)
    then show ?thesis using that by simp
  qed
  then show "0 \<le> linear_total_vested p e" "linear_total_vested p e \<le> begin_balance p"
    using assms by (simp_all add: linear_total_vested_def) linarith
qed

lemma linear_total_vested_mono:
  assumes "0 \<le> begin_balance p" and "e \<le> f"
  shows "linear_total_vested p e \<le> linear_total_vested p f"
proof (cases "f < vesting_duration_seconds p")
  case True
  then show ?thesis using assms(2) by (simp add: linear_total_vested_def div_le_mono)
next
  case False
  then show ?thesis using linear_total_vested_bounds(2) [OF assms(1), of e] by (simp add: linear_total_vested_def)
qed

lemma linear_allowed_withdraw_eq: "linear_good p b t \<Longrightarrow> linear_allowed_withdraw p b t = Inr (linear_allowed p b t)"
  using linear_total_vested_bounds [of p "t - begin_timestamp p"]
  by (auto simp: linear_allowed_withdraw_def linear_allowed_def linear_good_def share_def share_ok_def)

interpretation linear: vesting_contract linear_good linear_allowed "\<lambda>p b t a. p"
proof
  fix p b t a and u :: time
  assume good: "linear_good p b t"
  have vested: "linear_total_vested p e \<le> begin_balance p" "e \<le> f \<Longrightarrow> linear_total_vested p e \<le> linear_total_vested p f"
    "0 \<le> linear_total_vested p e" for e f
    using good by (auto simp: linear_good_def intro: linear_total_vested_bounds linear_total_vested_mono)
  show "0 \<le> linear_allowed p b t \<and> linear_allowed p b t \<le> b"
    using good vested(1) [of "t - begin_timestamp p"] by (auto simp: linear_good_def linear_allowed_def)
  show "linear_good p b u" if "t \<le> u"
    using good that vested(2) [OF diff_le_mono [OF that, of "begin_timestamp p"]] vested(3) [of "u - begin_timestamp p"]
    by (auto simp: linear_good_def split: if_splits)
  assume a: "0 \<le> a" "a \<le> linear_allowed p b t"
  show "linear_good p (b - a) t"
    using good a vested(1) [of "t - begin_timestamp p"] by (auto simp: linear_good_def linear_allowed_def split: if_splits)
  show "linear_allowed p (b - a) u \<le> linear_allowed p b u - a" if "t \<le> u"
    using a that by (auto simp: linear_allowed_def split: if_splits)
qed

subsection \<open>Coin days destroyed\<close>

definition cdd_good :: "cdd_vesting_policy \<Rightarrow> int \<Rightarrow> time \<Rightarrow> bool" where
  "cdd_good p b t \<longleftrightarrow> 0 \<le> b \<and> coin_seconds_earned_last_update p \<le> t"

lemma cdd_fields [simp]:
  "vesting_seconds (cdd_on_withdraw b t a p) = vesting_seconds p" "start_claim (cdd_on_withdraw b t a p) = start_claim p"
  "coin_seconds_earned_last_update (cdd_on_withdraw b t a p) = t"
  "coin_seconds_earned (cdd_on_withdraw b t a p) = compute_coin_seconds_earned p b t - nat a * max (vesting_seconds p) 1"
  by (simp_all add: cdd_on_withdraw_def update_coin_seconds_earned_def Let_def)

text \<open>The seconds that are left after a withdrawal, later on.\<close>

lemma cdd_seconds_left:
  assumes "cdd_good p b t" and "0 \<le> a" and "a \<le> b" and "t \<le> u"
    and enough: "nat a * max (vesting_seconds p) 1 \<le> compute_coin_seconds_earned p b t"
  shows "compute_coin_seconds_earned (cdd_on_withdraw b t a p) (b - a) u + nat a * max (vesting_seconds p) 1
    \<le> compute_coin_seconds_earned p b u"
proof -
  define v where "v = max (vesting_seconds p) 1"
  define l where "l = coin_seconds_earned_last_update p"
  have b: "nat (b - a) + nat a = nat b" using assms by simp
  have cap: "nat (b - a) * v + nat a * v = nat b * v" unfolding b [symmetric] add_mult_distrib ..
  have "nat b * (t - l) + nat b * (u - t) = nat b * (u - l)"
    using assms by (simp flip: add_mult_distrib2 add: cdd_good_def l_def)
  moreover have "nat (b - a) * (u - t) \<le> nat b * (u - t)" using assms by (intro mult_le_mono1 nat_mono) simp
  moreover have "compute_coin_seconds_earned p b t \<le> coin_seconds_earned p + nat b * (t - l)"
    by (simp add: compute_coin_seconds_earned_def l_def)
  ultimately have "compute_coin_seconds_earned p b t + nat (b - a) * (u - t) \<le> coin_seconds_earned p + nat b * (u - l)"
    by linarith
  then have earned: "compute_coin_seconds_earned p b t - nat a * v + nat (b - a) * (u - t) + nat a * v
      \<le> coin_seconds_earned p + nat b * (u - l)"
    using enough unfolding v_def by linarith
  have "min (compute_coin_seconds_earned p b t - nat a * v + nat (b - a) * (u - t)) (nat (b - a) * v) + nat a * v
      \<le> min (coin_seconds_earned p + nat b * (u - l)) (nat b * v)"
    unfolding cap [symmetric] using earned by (simp add: min_le_iff_disj) linarith
  then show ?thesis
    unfolding compute_coin_seconds_earned_def [of p b u] compute_coin_seconds_earned_def [of "cdd_on_withdraw b t a p"]
      cdd_fields v_def l_def .
qed

lemma cdd_allowed_iff:
  assumes "start_claim p < t" and "0 \<le> a"
  shows "a \<le> cdd_allowed_withdraw p b t \<longleftrightarrow> nat a * max (vesting_seconds p) 1 \<le> compute_coin_seconds_earned p b t"
  using assms by (simp add: cdd_allowed_withdraw_def zle_int less_eq_div_iff_mult_less_eq flip: nat_le_iff)

lemma cdd_allowed_nonneg: "0 \<le> cdd_allowed_withdraw p b t"
  by (simp add: cdd_allowed_withdraw_def)

lemma cdd_allowed_covered: "0 \<le> b \<Longrightarrow> cdd_allowed_withdraw p b t \<le> b"
proof -
  assume b: "0 \<le> b"
  let ?v = "max (vesting_seconds p) 1"
  have "compute_coin_seconds_earned p b t div ?v \<le> nat b * ?v div ?v"
    by (rule div_le_mono) (simp add: compute_coin_seconds_earned_def)
  then have "compute_coin_seconds_earned p b t div ?v \<le> nat b" by simp
  then show ?thesis using b by (simp add: cdd_allowed_withdraw_def nat_le_iff le_nat_iff)
qed

lemma cdd_no_gain:
  assumes "cdd_good p b t" and "0 \<le> a" and "a \<le> cdd_allowed_withdraw p b t" and "t \<le> u"
  shows "cdd_allowed_withdraw (cdd_on_withdraw b t a p) (b - a) u \<le> cdd_allowed_withdraw p b u - a"
proof (cases "start_claim p < t")
  case True
  let ?q = "cdd_on_withdraw b t a p" and ?v = "max (vesting_seconds p) 1"
  let ?c = "cdd_allowed_withdraw ?q (b - a) u"
  have "a \<le> b" using assms cdd_allowed_covered [of b p t] by (simp add: cdd_good_def)
  then have left: "compute_coin_seconds_earned ?q (b - a) u + nat a * ?v \<le> compute_coin_seconds_earned p b u"
    using assms True by (intro cdd_seconds_left) (simp_all add: cdd_allowed_iff)
  have "nat ?c * ?v \<le> compute_coin_seconds_earned ?q (b - a) u"
    using True assms(4) cdd_allowed_iff [of ?q u ?c "b - a"] cdd_allowed_nonneg by simp
  with left have "nat (?c + a) * ?v \<le> compute_coin_seconds_earned p b u"
    using assms(2) cdd_allowed_nonneg [of ?q "b - a" u] by (simp add: nat_add_distrib add_mult_distrib)
  then have "?c + a \<le> cdd_allowed_withdraw p b u"
    using True assms cdd_allowed_nonneg [of ?q "b - a" u] by (subst cdd_allowed_iff) simp_all
  then show ?thesis by simp
next
  case False
  then have "a = 0" using assms by (simp add: cdd_allowed_withdraw_def)
  have "compute_coin_seconds_earned (cdd_on_withdraw b t 0 p) b u \<le> compute_coin_seconds_earned p b u"
    using cdd_seconds_left [OF assms(1) _ _ assms(4), of 0] assms(1) by (simp add: cdd_good_def)
  then show ?thesis using \<open>a = 0\<close> by (simp add: cdd_allowed_withdraw_def div_le_mono)
qed

interpretation cdd: vesting_contract cdd_good cdd_allowed_withdraw "\<lambda>p b t a. cdd_on_withdraw b t a p"
proof
  fix p b t a and u :: time
  assume good: "cdd_good p b t"
  show "0 \<le> cdd_allowed_withdraw p b t \<and> cdd_allowed_withdraw p b t \<le> b"
    using good cdd_allowed_nonneg cdd_allowed_covered by (simp add: cdd_good_def)
  show "cdd_good p b u" if "t \<le> u" using good that by (simp add: cdd_good_def)
  assume a: "0 \<le> a" "a \<le> cdd_allowed_withdraw p b t"
  show "cdd_good (cdd_on_withdraw b t a p) (b - a) t"
    using good a cdd_allowed_covered [of b p t] by (simp add: cdd_good_def)
  show "cdd_allowed_withdraw (cdd_on_withdraw b t a p) (b - a) u \<le> cdd_allowed_withdraw p b u - a" if "t \<le> u"
    using good a that by (rule cdd_no_gain)
qed

subsection \<open>Every policy\<close>

interpretation instant: vesting_contract "\<lambda>p b t. 0 \<le> b" "\<lambda>p b t. b" "\<lambda>p b t a. p"
  by unfold_locales auto

fun policy_good :: "vesting_policy \<Rightarrow> int \<Rightarrow> time \<Rightarrow> bool" where
  "policy_good (Linear_vesting p) b t \<longleftrightarrow> linear_good p b t"
| "policy_good (Cdd_vesting p) b t \<longleftrightarrow> cdd_good p b t"
| "policy_good Instant_vesting b t \<longleftrightarrow> 0 \<le> b"

fun policy_allowed :: "vesting_policy \<Rightarrow> int \<Rightarrow> time \<Rightarrow> int" where
  "policy_allowed (Linear_vesting p) b t = linear_allowed p b t"
| "policy_allowed (Cdd_vesting p) b t = cdd_allowed_withdraw p b t"
| "policy_allowed Instant_vesting b t = b"

lemma policy_allowed_withdraw_eq: "policy_good p b t \<Longrightarrow> policy_allowed_withdraw p b t = Inr (policy_allowed p b t)"
  by (cases p) (simp_all add: linear_allowed_withdraw_eq)

interpretation policy: vesting_contract policy_good policy_allowed policy_on_withdraw
proof
  fix p b t a and u :: time
  assume good: "policy_good p b t"
  then show "0 \<le> policy_allowed p b t \<and> policy_allowed p b t \<le> b"
    by (cases p) (auto dest: linear.covered cdd.covered)
  show "policy_good p b u" if "t \<le> u"
    using good that by (cases p) (auto intro: linear.good_later cdd.good_later)
  assume a: "0 \<le> a" "a \<le> policy_allowed p b t"
  then show "policy_good (policy_on_withdraw p b t a) (b - a) t"
    using good by (cases p) (auto intro: linear.withdrawn_good cdd.withdrawn_good)
  show "policy_allowed (policy_on_withdraw p b t a) (b - a) u \<le> policy_allowed p b u - a" if "t \<le> u"
    using good a that by (cases p) (auto intro: linear.no_gain cdd.no_gain)
qed

section \<open>Withdrawals of a balance\<close>

abbreviation vesting_good :: "vesting_balance_object \<Rightarrow> time \<Rightarrow> bool" where
  "vesting_good vb t \<equiv> policy_good (vb_policy vb) (amount (vb_amount vb)) t \<and> amount (vb_amount vb) < 2 ^ 63"

lemma is_withdraw_allowed_iff:
  assumes "vesting_good vb t" and "asset_id amt = asset_id (vb_amount vb)"
  shows "is_withdraw_allowed t amt vb = Inr (amount amt \<le> policy_allowed (vb_policy vb) (amount (vb_amount vb)) t)"
proof -
  have "get_allowed_withdraw t vb =
      Inr \<lparr>amount = policy_allowed (vb_policy vb) (amount (vb_amount vb)) t, asset_id = asset_id (vb_amount vb)\<rparr>"
    using assms(1) by (simp add: get_allowed_withdraw_def policy_allowed_withdraw_eq)
  with assms(2) show ?thesis
    by (cases "vb_policy vb") (auto simp: is_withdraw_allowed_def asset_le_Inr)
qed

lemma is_withdraw_allowed_asset: "is_withdraw_allowed t amt vb = Inr True \<Longrightarrow> asset_id amt = asset_id (vb_amount vb)"
  by (auto simp: is_withdraw_allowed_def get_allowed_withdraw_def res_simps split: vesting_policy.splits if_splits)

text \<open>One withdrawal as the operation does it, at a time and of an amount that is not negative.\<close>

definition withdraw_at :: "time \<times> asset \<Rightarrow> vesting_balance_object \<Rightarrow> vesting_balance_object res" where
  "withdraw_at w vb = (case w of (now, amt) \<Rightarrow>
     ebind (check (0 < amount amt) ''amount.amount > 0'') (\<lambda>_.
     ebind (is_withdraw_allowed now amt vb) (\<lambda>allowed.
     ebind (check allowed ''vbo.is_withdraw_allowed( now, op.amount )'') (\<lambda>_. vesting_withdraw now amt vb))))"

lemma withdraw_at_Inr:
  "withdraw_at (now, amt) vb = Inr vb' \<longleftrightarrow>
     0 < amount amt \<and> is_withdraw_allowed now amt vb = Inr True \<and> vesting_withdraw now amt vb = Inr vb'"
  by (auto simp: withdraw_at_def res_simps)

lemma withdraw_at_takes:
  assumes "efold withdraw_at ws vb = Inr vb'" and "vesting_good vb t" and "sorted (t # map fst ws)"
  shows "policy.takes (vb_policy vb) (amount (vb_amount vb)) t (map (\<lambda>(u, c). (u, amount c)) ws) \<and>
    amount (vb_amount vb') = amount (vb_amount vb) - sum_list (map (\<lambda>(u, c). amount c) ws)"
  using assms
proof (induction ws arbitrary: vb t)
  case (Cons w ws)
  obtain u c where w: "w = (u, c)" by (cases w)
  have good: "vesting_good vb u" using Cons.prems w policy.good_later by auto
  from Cons.prems(1) w obtain vb1 where pos: "0 < amount c" and ok: "is_withdraw_allowed u c vb = Inr True"
    and one: "vesting_withdraw u c vb = Inr vb1" and more: "efold withdraw_at ws vb1 = Inr vb'"
    by (auto simp: withdraw_at_Inr ebind_Inr)
  then have a: "amount c \<le> policy_allowed (vb_policy vb) (amount (vb_amount vb)) u"
    using is_withdraw_allowed_iff [OF good is_withdraw_allowed_asset [OF ok]] by simp
  have vb1: "vb_policy vb1 = policy_on_withdraw (vb_policy vb) (amount (vb_amount vb)) u (amount c)"
    "amount (vb_amount vb1) = amount (vb_amount vb) - amount c"
    using one by (auto simp: vesting_withdraw_def res_simps)
  then have "vesting_good vb1 u" using good a pos policy.withdrawn_good [of "vb_policy vb"] by simp
  from Cons.IH [OF more this] Cons.prems(3) w vb1 a pos show ?case by simp
qed simp

section \<open>The operations keep the funds\<close>

lemma set_vestings_gives:
  assumes "idx_all vesting_ok (vestings d) \<Longrightarrow> idx_all vesting_ok ix"
    and "\<And>x. idx_sum (\<lambda>v. funds x (vb_amount v)) ix = idx_sum (\<lambda>v. funds x (vb_amount v)) (vestings d) + f x"
  shows "gives f d (d\<lparr>vestings := ix\<rparr>)"
  using assms by (auto simp: gives_def db_ok_def balances_ok_def held_def)

lemma policy_allowed_withdraw_covered:
  assumes "policy_allowed_withdraw (vb_policy vb) (amount (vb_amount vb)) t = Inr n" and "vesting_ok vb"
  shows "n \<le> amount (vb_amount vb)"
proof (cases "vb_policy vb")
  case (Linear_vesting p)
  then show ?thesis using assms linear_total_vested_bounds(2) [of p "t - begin_timestamp p"]
    by (auto simp: linear_allowed_withdraw_def vesting_ok_def res_simps split: if_splits)
next
  case (Cdd_vesting p)
  then show ?thesis using assms cdd_allowed_covered by (auto simp: vesting_ok_def)
qed (use assms in auto)

lemma is_withdraw_allowed_covered:
  assumes "is_withdraw_allowed t amt vb = Inr True" and "vesting_ok vb"
  shows "amount amt \<le> amount (vb_amount vb)"
  using assms policy_allowed_withdraw_covered [OF _ assms(2), of t]
  by (fastforce simp: is_withdraw_allowed_def get_allowed_withdraw_def res_simps split: vesting_policy.splits if_splits)

lemma vesting_withdraw_ok:
  "vesting_withdraw t amt vb = Inr vb' \<Longrightarrow> vesting_ok vb \<Longrightarrow> amount amt \<le> amount (vb_amount vb) \<Longrightarrow> vesting_ok vb'"
  by (cases "vb_policy vb") (auto simp: vesting_withdraw_def vesting_ok_def res_simps)

lemma vesting_balance_create_conserves:
  assumes "vesting_balance_create_apply op d = Inr d'" and "0 < amount (vbc_amount op)"
  shows "conserves d d'"
proof -
  obtain m e vb v ix where m: "asset_neg (vbc_amount op) = Inr m" and a: "adjust_balance (vbc_creator op) m d = Inr e"
    and c: "idx_create (\<lambda>a b. False) vb (vestings e) = Inr (v, ix)" and d': "d' = e\<lparr>vestings := ix\<rparr>"
    and vb: "vb = \<lparr>vb_owner = vbc_owner op, vb_amount = vbc_amount op,
      vb_policy = init_policy (vbc_policy op) (amount (vbc_amount op)) (head_block_time e)\<rparr>"
    using assms(1) unfolding vesting_balance_create_apply_def by (force simp: ebind_Inr)
  have "vesting_ok vb" using assms(2) vb by (cases "vbc_policy op") (simp_all add: vesting_ok_def)
  then have "gives (\<lambda>x. funds x (vbc_amount op)) e d'"
    unfolding d' using idx_all_create [OF c] idx_sum_create [OF c] vb by (intro set_vestings_gives) auto
  from gives_trans [OF adjust_balance_gives [OF a] this] funds_neg [OF m] show ?thesis by simp
qed

lemma vesting_balance_withdraw_conserves:
  assumes "vesting_balance_withdraw_apply op d = Inr d'" and "vesting_balance_withdraw_evaluate d op = Inr ()"
  shows "conserves d d'"
proof -
  obtain vb vb' where vb: "idx_find (vestings d) (vbw_vesting_balance op) = Some vb"
    and w: "vesting_withdraw (head_block_time d) (vbw_amount op) vb = Inr vb'"
    and a: "adjust_balance (vbw_owner op) (vbw_amount op)
      (d\<lparr>vestings := idx_set (vbw_vesting_balance op) vb' (vestings d)\<rparr>) = Inr d'"
    using assms(1) by (auto simp: vesting_balance_withdraw_apply_def ebind_Inr idx_get_Inr)
  have ok: "is_withdraw_allowed (head_block_time d) (vbw_amount op) vb = Inr True"
    using assms(2) vb by (auto simp: vesting_balance_withdraw_evaluate_def res_simps)
  have "vesting_ok vb'" if "idx_all vesting_ok (vestings d)"
    using is_withdraw_allowed_covered [OF ok] vesting_withdraw_ok [OF w] idx_allD [OF that vb] by blast
  moreover have "funds x (vb_amount vb') = funds x (vb_amount vb) - funds x (vbw_amount op)" for x
    using w by (auto simp: vesting_withdraw_def ebind_Inr dest: funds_minus)
  ultimately have "gives (\<lambda>x. - funds x (vbw_amount op)) d
      (d\<lparr>vestings := idx_set (vbw_vesting_balance op) vb' (vestings d)\<rparr>)"
    using vb by (intro set_vestings_gives) (auto intro: idx_all_set)
  from gives_trans [OF this adjust_balance_gives [OF a]] show ?thesis by simp
qed

section \<open>Results\<close>

text \<open>
  C30: withdrawing several times never gives more than waiting: the sum of all withdrawals that a balance
  of any policy accepts, at times that do not go back, is at most what one withdrawal at the end
  would have been allowed, which the balance covers; the balance is never overdrawn.
\<close>

theorem withdrawals_no_gain:
  assumes "efold withdraw_at ws vb = Inr vb'" and "vesting_good vb t" and "sorted (t # map fst ws @ [now])"
  shows "\<exists>a. get_allowed_withdraw now vb = Inr a \<and> (\<Sum>(u, c) \<leftarrow> ws. amount c) \<le> amount a \<and>
    amount a \<le> amount (vb_amount vb) \<and> 0 \<le> amount (vb_amount vb')"
proof -
  let ?p = "vb_policy vb" and ?b = "amount (vb_amount vb)"
  have srt: "sorted (t # map fst ws)" and late: "t \<le> now" "\<forall>(u, a) \<in> set (map (\<lambda>(u, c). (u, amount c)) ws). u \<le> now"
    using assms(3) by (auto simp: sorted_append)
  have took: "policy.takes ?p ?b t (map (\<lambda>(u, c). (u, amount c)) ws)"
    "amount (vb_amount vb') = ?b - (\<Sum>(u, c) \<leftarrow> ws. amount c)"
    using withdraw_at_takes [OF assms(1,2) srt] by auto
  have "map snd (map (\<lambda>(u, c). (u, amount c)) ws) = map (\<lambda>(u, c). amount c) ws" by auto
  then have "(\<Sum>(u, c) \<leftarrow> ws. amount c) \<le> policy_allowed ?p ?b now"
    using policy.takes_no_gain [OF _ took(1) late] assms(2) by metis
  moreover have good: "policy_good ?p ?b now" using assms(2) late(1) policy.good_later by blast
  ultimately show ?thesis using took(2) policy.covered [OF good]
    by (simp add: get_allowed_withdraw_def policy_allowed_withdraw_eq)
qed

theorem withdrawals_no_gain_witness:
  "(\<exists>vb'. efold withdraw_at [(50, core_asset 40), (75, core_asset 20)]
      \<lparr>vb_owner = 11, vb_amount = core_asset 100,
       vb_policy = Cdd_vesting \<lparr>vesting_seconds = 100, coin_seconds_earned = 0, start_claim = 0,
         coin_seconds_earned_last_update = 0\<rparr>\<rparr> = Inr vb') \<and>
   (\<exists>a. get_allowed_withdraw 80
      \<lparr>vb_owner = 11, vb_amount = core_asset 100,
       vb_policy = Cdd_vesting \<lparr>vesting_seconds = 100, coin_seconds_earned = 0, start_claim = 0,
         coin_seconds_earned_last_update = 0\<rparr>\<rparr> = Inr a \<and> 60 \<le> amount a \<and> amount a \<le> 100)"
proof -
  let ?p = "\<lparr>vesting_seconds = 100, coin_seconds_earned = 0, start_claim = 0, coin_seconds_earned_last_update = 0\<rparr>"
  let ?vb = "\<lparr>vb_owner = 11, vb_amount = core_asset 100, vb_policy = Cdd_vesting ?p\<rparr> :: vesting_balance_object"
  let ?r = "efold withdraw_at [(50, core_asset 40), (75, core_asset 20)] ?vb"
  have "succeeds ?r" by code_simp
  then have r: "?r = Inr (result_of ?vb ?r)" by (rule succeedsE)
  have "vesting_good ?vb 0" by (simp add: cdd_good_def)
  from withdrawals_no_gain [OF r this, of 80] r show ?thesis by auto
qed

text \<open>
  C31: an accepted withdrawal moves exactly its amount from the vesting balance to the account of its
  owner, who is the sender; no other balance, no other vesting balance and no funds of any asset change.
\<close>

theorem vesting_withdraw_exact:
  assumes "vesting_balance_withdraw_evaluate d op = Inr ()" and "vesting_balance_withdraw_apply op d = Inr d'"
    and "db_ok d"
  shows "\<exists>vb vb'. idx_find (vestings d) (vbw_vesting_balance op) = Some vb \<and> vb_owner vb = vbw_owner op \<and>
     amount (vbw_amount op) \<le> amount (vb_amount vb) \<and>
     idx_find (vestings d') (vbw_vesting_balance op) = Some vb' \<and>
     amount (vb_amount vb') = amount (vb_amount vb) - amount (vbw_amount op) \<and>
     (\<forall>i. i \<noteq> vbw_vesting_balance op \<longrightarrow> idx_find (vestings d') i = idx_find (vestings d) i) \<and>
     (\<forall>a x. get_balance d' a x =
        (if a = vbw_owner op \<and> x = asset_id (vbw_amount op)
         then \<lparr>amount = amount (get_balance d a x) + amount (vbw_amount op), asset_id = x\<rparr> else get_balance d a x)) \<and>
     (\<forall>x. held x d' = held x d) \<and> db_ok d'"
proof -
  obtain vb vb' where vb: "idx_find (vestings d) (vbw_vesting_balance op) = Some vb"
    and w: "vesting_withdraw (head_block_time d) (vbw_amount op) vb = Inr vb'"
    and a: "adjust_balance (vbw_owner op) (vbw_amount op)
      (d\<lparr>vestings := idx_set (vbw_vesting_balance op) vb' (vestings d)\<rparr>) = Inr d'"
    using assms(2) by (auto simp: vesting_balance_withdraw_apply_def ebind_Inr idx_get_Inr)
  have ok: "is_withdraw_allowed (head_block_time d) (vbw_amount op) vb = Inr True" "vb_owner vb = vbw_owner op"
    using assms(1) vb by (auto simp: vesting_balance_withdraw_evaluate_def res_simps)
  have "amount (vbw_amount op) \<le> amount (vb_amount vb)"
    using is_withdraw_allowed_covered [OF ok(1)] assms(3) vb by (auto simp: db_ok_def dest: idx_allD)
  moreover have "amount (vb_amount vb') = amount (vb_amount vb) - amount (vbw_amount op)"
    using w by (auto simp: vesting_withdraw_def res_simps)
  moreover have "vestings d' = idx_set (vbw_vesting_balance op) vb' (vestings d)"
    using adjust_balance_frame(9) [OF a] by simp
  moreover have "get_balance (d\<lparr>vestings := ix\<rparr>) b x = get_balance d b x" for ix b x by (simp add: get_balance_def)
  ultimately show ?thesis
    using vb ok(2) vesting_balance_withdraw_conserves [OF assms(2,1)] assms(3) adjust_balance_get [OF a]
    by (simp add: gives_def)
qed

text \<open>Account 11 has 100 vesting over 1000 seconds and withdraws 40 after half of them.\<close>

definition sample_vesting_db :: database where
  "sample_vesting_db = sample_db\<lparr>vestings := of_objects [\<lparr>vb_owner = 11, vb_amount = core_asset 100,
     vb_policy = Linear_vesting \<lparr>begin_timestamp = 1599999500, vesting_cliff_seconds = 100,
       vesting_duration_seconds = 1000, begin_balance = 100\<rparr>\<rparr>]\<rparr>"

definition sample_withdrawal :: vesting_balance_withdraw_operation where
  "sample_withdrawal = \<lparr>vbw_fee = core_asset 0, vbw_vesting_balance = 0, vbw_owner = 11, vbw_amount = core_asset 40\<rparr>"

theorem vesting_withdraw_exact_witness:
  "\<exists>d'. vesting_balance_withdraw_apply sample_withdrawal sample_vesting_db = Inr d' \<and>
     amount (get_balance d' 11 CORE) = 540 \<and> held CORE d' = held CORE sample_vesting_db"
proof -
  let ?r = "vesting_balance_withdraw_apply sample_withdrawal sample_vesting_db"
  have "succeeds ?r" by code_simp
  then have r: "?r = Inr (result_of sample_vesting_db ?r)" by (rule succeedsE)
  have "vesting_balance_withdraw_evaluate sample_vesting_db sample_withdrawal = Inr ()" "db_ok sample_vesting_db"
    by code_simp+
  from vesting_withdraw_exact [OF this(1) r this(2)]
  have "get_balance (result_of sample_vesting_db ?r) 11 CORE =
      \<lparr>amount = amount (get_balance sample_vesting_db 11 CORE) + 40, asset_id = CORE\<rparr>"
    "held CORE (result_of sample_vesting_db ?r) = held CORE sample_vesting_db"
    by (auto simp: sample_withdrawal_def)
  moreover have "amount (get_balance sample_vesting_db 11 CORE) = 500" by code_simp
  ultimately show ?thesis using r by auto
qed

end
