(* ===== verification/Deposit_Fees.thy ===== *)
theory Deposit_Fees
  imports Consensus Vesting
begin

text \<open>
  The distribution of the rake at the maintenance interval (\<^verbatim>\<open>deposit_pending_fees.cpp\<close>) and the
  vesting balances it is paid to (\<^verbatim>\<open>database::deposit_lazy_vesting\<close>, \<^verbatim>\<open>cdd_vesting_policy\<close>): the
  fee of a player is cut between the chain of inviters, the witnesses of the game and the owner of
  the room. The results: the distribution conserves the funds; a fee is split exactly, nothing of it
  is lost or paid twice; the recursion over the inviters is bounded by the depth; what an inviter
  gets depends on the liquid balance only. The share that is passed on beyond the depth is paid twice
  when it is distributed later.
\<close>

section \<open>Cash-back\<close>

text \<open>Who receives a deposit: the object that keeps the number of the vesting balance.\<close>

datatype cashback_parent = Parent_player player_id | Parent_witness witness_id | Parent_room room_id

fun parent_balance :: "database \<Rightarrow> cashback_parent \<Rightarrow> nat option res" where
  "parent_balance d (Parent_player p) = ebind (idx_get (players d) p) (\<lambda>x. Inr (pl_balance x))"
| "parent_balance d (Parent_witness w) = ebind (idx_get (witnesses d) w) (\<lambda>x. Inr (gw_balance x))"
| "parent_balance d (Parent_room r) = ebind (idx_get (rooms d) r) (\<lambda>x. Inr (rm_balance x))"

fun set_parent_balance :: "nat \<Rightarrow> cashback_parent \<Rightarrow> database \<Rightarrow> database res" where
  "set_parent_balance v (Parent_player p) d =
     ebind (idx_get (players d) p) (\<lambda>x. Inr (d\<lparr>players := idx_set p (x\<lparr>pl_balance := Some v\<rparr>) (players d)\<rparr>))"
| "set_parent_balance v (Parent_witness w) d =
     ebind (idx_get (witnesses d) w) (\<lambda>x. Inr (d\<lparr>witnesses := idx_set w (x\<lparr>gw_balance := Some v\<rparr>) (witnesses d)\<rparr>))"
| "set_parent_balance v (Parent_room r) d =
     ebind (idx_get (rooms d) r) (\<lambda>x. Inr (d\<lparr>rooms := idx_set r (x\<lparr>rm_balance := Some v\<rparr>) (rooms d)\<rparr>))"

text \<open>\<^verbatim>\<open>deposit_context\<close>: who paid the fee, the metadata of the table and the asset.\<close>

record deposit_context =
  cx_getter :: account_id
  cx_metadata :: string
  cx_asset :: nat

definition deposit_cashback ::
    "deposit_type \<Rightarrow> deposit_context \<Rightarrow> room_id \<Rightarrow> cashback_parent \<Rightarrow> account_id \<Rightarrow> int \<Rightarrow> database \<Rightarrow> database res" where
  "deposit_cashback ty ctx room parent owner amt d =
     (if amt < 1 then Inr d
      else let d = push_applied_operation
                     (Playchain_deposit_cashback ty (cx_getter ctx) owner
                        \<lparr>amount = amt, asset_id = cx_asset ctx\<rparr> (cx_metadata ctx)) d
           in ebind (idx_get (rooms d) room) (\<lambda>r.
              ebind (asset_minus (pending_rake r) \<lparr>amount = amt, asset_id = asset_id (pending_rake r)\<rparr>) (\<lambda>rake.
              let d = d\<lparr>rooms := idx_set room (r\<lparr>pending_rake := rake\<rparr>) (rooms d)\<rparr>
              in ebind (parent_balance d parent) (\<lambda>ovbid.
                 ebind (deposit_lazy_vesting ovbid amt (cashback_vesting_period_seconds d) owner d) (\<lambda>(new_vbid, d).
                   case new_vbid of
                     None \<Rightarrow> Inr d
                   | Some v \<Rightarrow> set_parent_balance v parent d)))))"

section \<open>The inviters\<close>

definition cut_fee :: "int \<Rightarrow> nat \<Rightarrow> int" where
  "cut_fee a p =
     (if a < 1 \<or> p < 1 then 0
      else if GRAPHENE_100_PERCENT \<le> p then a
      else a * int p div int GRAPHENE_100_PERCENT)"

definition vesting_amount :: "database \<Rightarrow> nat \<Rightarrow> int res" where
  "vesting_amount d v = ebind (idx_get (vestings d) v) (\<lambda>vb. Inr (amount (vb_amount vb)))"

text \<open>
  The sum of the balances of an inviter. The source returns as soon as the sum is not above the
  threshold, before any vesting balance is added.
\<close>

fun sum_vestings :: "database \<Rightarrow> int \<Rightarrow> nat list \<Rightarrow> int \<Rightarrow> int res" where
  "sum_vestings d threshold [] result = Inr result"
| "sum_vestings d threshold (v # vs) result =
     (if result \<le> threshold then Inr result
      else ebind (vesting_amount d v) (\<lambda>a. sum_vestings d threshold vs (result + a)))"

definition get_total_balance :: "database \<Rightarrow> player_object \<Rightarrow> int res" where
  "get_total_balance d player =
     ebind (if is_account_exists d (pl_account player) then Inr () else Inl Not_found) (\<lambda>_.
     let account = pl_account player;
         own = (case pl_balance player of None \<Rightarrow> [] | Some v \<Rightarrow> [v]);
         witness = (case find_witness d account of
                      None \<Rightarrow> []
                    | Some (i, w) \<Rightarrow> (case gw_balance w of None \<Rightarrow> [] | Some v \<Rightarrow> [v]));
         of_rooms = List.map_filter (\<lambda>(i, r). if rm_owner r = account then rm_balance r else None)
                      (idx_items (rooms d));
         playchain_vbs = own @ witness @ of_rooms;
         others = (if take_into_account_graphene_balances (parameters d)
                   then filter (\<lambda>v. v \<notin> set playchain_vbs)
                          (map fst (filter (\<lambda>(v, vb). vb_owner vb = account) (idx_items (vestings d))))
                   else [])
     in sum_vestings d (player_referrer_balance_max_threshold (parameters d)) (playchain_vbs @ others)
          (amount (get_balance d account CORE)))"

text \<open>What is left beyond the depth waits at the inviter for the next maintenance.\<close>

definition defer_to_inviter :: "deposit_context \<Rightarrow> room_id \<Rightarrow> player_id \<Rightarrow> int \<Rightarrow> database \<Rightarrow> database res" where
  "defer_to_inviter ctx room inviter amt d =
     ebind (idx_get (players d) inviter) (\<lambda>p.
       let key = (cx_asset ctx, cx_getter ctx, cx_metadata ctx);
           stats = (case fm_find (pending_parent_invitation_fees p) room of None \<Rightarrow> fm_empty | Some m \<Rightarrow> m);
           old = (case fm_find stats key of None \<Rightarrow> 0 | Some a \<Rightarrow> a)
       in Inr (d\<lparr>players := idx_set inviter
                 (p\<lparr>pending_parent_invitation_fees :=
                      fm_put room (fm_put key (old + amt) stats) (pending_parent_invitation_fees p)\<rparr>)
                 (players d)\<rparr>))"

text \<open>The part of the cut an inviter keeps and the part passed on.\<close>

definition inviter_share :: "playchain_parameters \<Rightarrow> int \<Rightarrow> int \<Rightarrow> int \<Rightarrow> int \<times> int" where
  "inviter_share p balance max_my_cut parents_cut =
     (if balance < player_referrer_balance_min_threshold p then (0, parents_cut + max_my_cut)
      else if balance < player_referrer_balance_max_threshold p
      then let my_cut = max_my_cut * balance div player_referrer_balance_max_threshold p
           in (my_cut, parents_cut + (max_my_cut - my_cut))
      else (max_my_cut, parents_cut))"

text \<open>One inviter is paid; what is left for its own inviter is returned.\<close>

definition pay_inviter ::
    "deposit_context \<Rightarrow> room_id \<Rightarrow> player_id \<Rightarrow> player_object \<Rightarrow> int \<Rightarrow> database \<Rightarrow> (int \<times> database) res" where
  "pay_inviter ctx room inviter p amt d =
     (let parents_cut = cut_fee amt (player_referrer_parent_percent_of_fee (parameters d));
          max_my_cut = amt - parents_cut
      in if 0 < max_my_cut then
           ebind (get_total_balance d p) (\<lambda>balance.
           let (my_cut, parents_cut) = inviter_share (parameters d) balance max_my_cut parents_cut
           in ebind (deposit_cashback Deposit_inviter ctx room (Parent_player inviter) (pl_account p) my_cut d) (\<lambda>d.
                Inr (parents_cut, d)))
         else Inr (parents_cut, d))"

fun disseminate_for_inviters ::
    "deposit_context \<Rightarrow> room_id \<Rightarrow> player_id \<Rightarrow> int \<Rightarrow> nat \<Rightarrow> database \<Rightarrow> (int \<times> database) res" where
  "disseminate_for_inviters ctx room inviter amt max_depth d =
     ebind (idx_get (players d) inviter) (\<lambda>p.
       if inviter = PLAYCHAIN_NULL_PLAYER \<or> amt < 1 then Inr (amt, d)
       else case max_depth of
              0 \<Rightarrow> ebind (defer_to_inviter ctx room inviter amt d) (\<lambda>d. Inr (0, d))
            | Suc depth \<Rightarrow>
                ebind (pay_inviter ctx room inviter p amt d) (\<lambda>(parents_cut, d).
                  disseminate_for_inviters ctx room (pl_inviter p) parents_cut depth d))"

declare disseminate_for_inviters.simps [simp del]

abbreviation (input) PLAYCHAIN_MAXIMUM_INVITERS_DEPTH :: nat where "PLAYCHAIN_MAXIMUM_INVITERS_DEPTH \<equiv> 10"

section \<open>The fees of a player\<close>

definition deposit_parent_fee ::
    "player_id \<Rightarrow> room_id \<Rightarrow> deposit_key \<times> int \<Rightarrow> database \<Rightarrow> database res" where
  "deposit_parent_fee player room = (\<lambda>((asset, getter, meta), amt) d.
     let ctx = \<lparr>cx_getter = getter, cx_metadata = meta, cx_asset = asset\<rparr>
     in ebind (disseminate_for_inviters ctx room player amt PLAYCHAIN_MAXIMUM_INVITERS_DEPTH d) (\<lambda>(_, d).
        ebind (idx_get (rooms d) room) (\<lambda>r.
          deposit_cashback Deposit_inviter ctx room (Parent_room room) (rm_owner r) amt d)))"

text \<open>Every witness gets the same part, the first one also the rest.\<close>

definition pay_witness ::
    "deposit_context \<Rightarrow> room_id \<Rightarrow> int \<Rightarrow> witness_id \<Rightarrow> database \<Rightarrow> database res" where
  "pay_witness ctx room amt w d =
     ebind (idx_get (witnesses d) w) (\<lambda>x.
       deposit_cashback Deposit_witness ctx room (Parent_witness w) (gw_account x) amt d)"

definition pay_witnesses ::
    "deposit_context \<Rightarrow> room_id \<Rightarrow> witness_id list \<Rightarrow> int \<Rightarrow> database \<Rightarrow> database res" where
  "pay_witnesses ctx room ws witness_cut d =
     (let one_cut = witness_cut div int (length ws);
          left_cut = (if 0 < one_cut then witness_cut - one_cut * int (length ws) else witness_cut)
      in ebind (if 0 < one_cut then efold (pay_witness ctx room one_cut) ws d else Inr d) (\<lambda>d.
           if 0 < left_cut then pay_witness ctx room left_cut (hd ws) d else Inr d))"

definition fee_context :: "player_pending_fee_data \<Rightarrow> deposit_context" where
  "fee_context fee = \<lparr>cx_getter = ds_getter fee, cx_metadata = ds_metadata fee, cx_asset = ds_asset_id fee\<rparr>"

definition deposit_fee :: "player_id \<Rightarrow> player_pending_fee_data \<Rightarrow> database \<Rightarrow> database res" where
  "deposit_fee player fee d =
     (let ctx = fee_context fee;
          room = pf_room fee;
          inviters_cut = cut_fee (ds_amount fee) (player_referrer_percent_of_fee (parameters d));
          witness_cut = cut_fee (ds_amount fee) (game_witness_percent_of_fee (parameters d));
          game_owner_cut = ds_amount fee - inviters_cut - witness_cut;
          ws = fs_items (pf_witnesses fee)
      in ebind (idx_get (rooms d) room) (\<lambda>r.
         ebind (idx_get (players d) player) (\<lambda>p.
         ebind (disseminate_for_inviters ctx room (pl_inviter p) inviters_cut PLAYCHAIN_MAXIMUM_INVITERS_DEPTH d) (\<lambda>(left, d).
         let game_owner_cut = game_owner_cut + left
         in ebind (if ws \<noteq> [] then pay_witnesses ctx room ws witness_cut d else Inr d) (\<lambda>d.
            let game_owner_cut = (if ws \<noteq> [] then game_owner_cut else game_owner_cut + witness_cut)
            in deposit_cashback Deposit_room ctx room (Parent_room room) (rm_owner r) game_owner_cut d)))))"

definition is_not_pending :: "player_object \<Rightarrow> bool" where
  "is_not_pending p \<longleftrightarrow> pending_fees p = [] \<and> fm_is_empty (pending_parent_invitation_fees p)"

definition deposit_player_fees :: "player_id \<Rightarrow> database \<Rightarrow> database res" where
  "deposit_player_fees player d =
     ebind (idx_get (players d) player) (\<lambda>p.
     ebind (efold (\<lambda>(room, stats) d.
              ebind (idx_get (rooms d) room) (\<lambda>_. efold (deposit_parent_fee player room) (fm_items stats) d))
              (fm_items (pending_parent_invitation_fees p)) d) (\<lambda>d.
     ebind (idx_get (players d) player) (\<lambda>p.
     let d = d\<lparr>players := idx_set player (p\<lparr>pending_parent_invitation_fees := fm_empty\<rparr>) (players d)\<rparr>
     in ebind (efold (deposit_fee player) (pending_fees p) d) (\<lambda>d.
        ebind (idx_get (players d) player) (\<lambda>p.
          Inr (d\<lparr>players := idx_set player (p\<lparr>pending_fees := []\<rparr>) (players d)\<rparr>))))))"

definition deposit_pending_fees :: "database \<Rightarrow> database res" where
  "deposit_pending_fees d =
     efold deposit_player_fees (map fst (filter (\<lambda>(i, p). \<not> is_not_pending p) (idx_items (players d)))) d"

section \<open>What a deposit changes\<close>

definition rake :: "room_id \<Rightarrow> database \<Rightarrow> int" where
  "rake room d = (case idx_find (rooms d) room of None \<Rightarrow> 0 | Some r \<Rightarrow> amount (pending_rake r))"

definition parent_owed :: "room_id \<Rightarrow> player_object \<Rightarrow> int" where
  "parent_owed room p = fm_val (\<lambda>k m. fm_sum id m) (pending_parent_invitation_fees p) room"

definition owed :: "room_id \<Rightarrow> database \<Rightarrow> int" where
  "owed room d = idx_sum (parent_owed room) (players d)"

text \<open>
  From a good state, \<open>n\<close> of the rake of a room is paid to vesting balances and \<open>m\<close> more is owed to
  inviters; nothing else changes in the rakes and in what is owed, and the funds stay.
\<close>

definition pays :: "room_id \<Rightarrow> int \<Rightarrow> int \<Rightarrow> database \<Rightarrow> database \<Rightarrow> bool" where
  "pays room n m d d' \<longleftrightarrow>
     conserves d d' \<and> calm {} d d' \<and> parameters d' = parameters d \<and>
     (\<forall>q. rake q d' = rake q d - (if q = room then n else 0)) \<and>
     (\<forall>q. owed q d' = owed q d + (if q = room then m else 0))"

lemma pays_refl [simp]: "pays room 0 0 d d"
  by (simp add: pays_def)

lemma pays_trans: "pays room n m d d' \<Longrightarrow> pays room k l d' d'' \<Longrightarrow> pays room (n + k) (m + l) d d''"
  unfolding pays_def by (auto intro: conserves_trans calm_trans)

lemma pays_ok: "pays room n m d d' \<Longrightarrow> db_ok d \<Longrightarrow> db_ok d'"
  by (auto simp: pays_def intro: gives_ok)

lemma deposit_lazy_vesting_gives:
  assumes "deposit_lazy_vesting ov amt secs owner d = Inr (v, d')" and "0 \<le> amt"
  shows "gives (\<lambda>x. funds x (core_asset amt)) d d' \<and> (\<exists>ix. d' = d\<lparr>vestings := ix\<rparr>)"
  using assms(1)
proof (cases rule: deposit_lazy_vesting_cases)
  case none
  then have "gives (\<lambda>x. funds x (core_asset amt)) d d' \<and> d' = d\<lparr>vestings := vestings d\<rparr>"
    by (simp add: gives_def funds_def)
  then show ?thesis by blast
next
  case (old i vb vb')
  then have vb': "funds x (vb_amount vb') = funds x (vb_amount vb) + funds x (core_asset amt)"
    "amount (vb_amount vb') = amount (vb_amount vb) + amt" for x
    by (auto simp: vesting_deposit_def ebind_Inr asset_plus_Inr funds_def core_asset_def)
  have "gives (\<lambda>x. funds x (core_asset amt)) d d'"
    unfolding old(3) using old(1) vb' assms(2) vesting_deposit_ok [OF old(2)]
    by (intro set_vestings_gives) (auto intro!: wf_intros dest: idx_allD)
  then show ?thesis using old(3) by blast
next
  case (new vb i ix)
  have "gives (\<lambda>x. funds x (core_asset amt)) d d'"
    unfolding new(3) using idx_sum_create [OF new(1)] assms(2) new(2,4)
    by (intro set_vestings_gives) (auto intro: idx_all_create [OF new(1)])
  then show ?thesis using new(3) by blast
qed

lemma owed_set_player:
  assumes "idx_find (players d) i = Some p"
  shows "owed q (d\<lparr>players := idx_set i p' (players d)\<rparr>) = owed q d - parent_owed q p + parent_owed q p'"
  using assms by (simp add: owed_def)

lemma calm_set_player:
  assumes "idx_find (players d) i = Some p" and "pl_account p' = pl_account p"
  shows "calm {} d (d\<lparr>players := idx_set i p' (players d)\<rparr>)"
  by (rule calm_players [OF calm_refl players_le_set [OF assms]])

lemma set_parent_balance_pays: "set_parent_balance v parent d = Inr d' \<Longrightarrow> pays room 0 0 d d'"
proof (cases parent)
  case (Parent_player i)
  assume "set_parent_balance v parent d = Inr d'"
  then obtain p where p: "idx_find (players d) i = Some p"
    and d': "d' = d\<lparr>players := idx_set i (p\<lparr>pl_balance := Some v\<rparr>) (players d)\<rparr>"
    using Parent_player by (auto simp: ebind_Inr idx_get_Inr)
  have "calm {} d d'" unfolding d' by (rule calm_set_player [OF p]) simp
  then show ?thesis
    unfolding pays_def by (auto simp: d' owed_set_player [OF p] parent_owed_def rake_def intro: same_funds_conserves)
next
  case (Parent_room r)
  assume "set_parent_balance v parent d = Inr d'"
  then obtain x where x: "idx_find (rooms d) r = Some x"
    and d': "d' = d\<lparr>rooms := idx_set r (x\<lparr>rm_balance := Some v\<rparr>) (rooms d)\<rparr>"
    using Parent_room by (auto simp: ebind_Inr idx_get_Inr)
  have "conserves d d'" unfolding d' by (rule set_room_gives [OF x]) simp_all
  then show ?thesis using x by (auto simp: pays_def d' rake_def owed_def)
qed (auto simp: pays_def ebind_Inr idx_get_Inr rake_def owed_def intro: same_funds_conserves)

lemma deposit_cashback_pays:
  assumes "deposit_cashback ty ctx room parent owner amt d = Inr d'" and "0 \<le> amt"
  shows "db_ok d \<longrightarrow> pays room amt 0 d d'"
proof (cases "amt < 1", intro impI)
  case True
  then have "amt = 0" using assms(2) by simp
  with True show "pays room amt 0 d d'" using assms(1) by (simp add: deposit_cashback_def)
next
  case False
  define op where "op = Playchain_deposit_cashback ty (cx_getter ctx) owner
    \<lparr>amount = amt, asset_id = cx_asset ctx\<rparr> (cx_metadata ctx)"
  obtain r rk ov nv e where r: "idx_find (rooms d) room = Some r"
    and rk: "asset_minus (pending_rake r) \<lparr>amount = amt, asset_id = asset_id (pending_rake r)\<rparr> = Inr rk"
    and e: "deposit_lazy_vesting ov amt (cashback_vesting_period_seconds d) owner
        ((push_applied_operation op d)\<lparr>rooms := idx_set room (r\<lparr>pending_rake := rk\<rparr>) (rooms d)\<rparr>) = Inr (nv, e)"
    and d': "(case nv of None \<Rightarrow> Inr e | Some v \<Rightarrow> set_parent_balance v parent e) = Inr d'"
    using assms(1) False unfolding deposit_cashback_def Let_def op_def [symmetric]
    by (auto simp: ebind_Inr idx_get_Inr push_applied_operation_def)
  let ?d1 = "(push_applied_operation op d)\<lparr>rooms := idx_set room (r\<lparr>pending_rake := rk\<rparr>) (rooms d)\<rparr>"
  show ?thesis
  proof
    assume ok: "db_ok d"
    then have core: "asset_id (pending_rake r) = CORE" using r by (auto simp: db_ok_def dest: idx_allD)
    have rk': "rk = core_asset (amount (pending_rake r) - amt)"
      using rk core by (auto simp: asset_minus_Inr core_asset_def)
    have "gives (\<lambda>x. - funds x (core_asset amt)) (push_applied_operation op d) ?d1"
      using r core set_room_gives [of "push_applied_operation op d" room r "r\<lparr>pending_rake := rk\<rparr>"]
      by (simp add: rk' funds_def)
    then have "gives (\<lambda>x. - funds x (core_asset amt)) d ?d1" by (rule gives_pre [rotated]) simp
    from gives_trans [OF this conjunct1 [OF deposit_lazy_vesting_gives [OF e assms(2)]]]
    have "conserves d e" by simp
    moreover obtain ix where "e = ?d1\<lparr>vestings := ix\<rparr>" using deposit_lazy_vesting_gives [OF e assms(2)] by blast
    ultimately have "pays room amt 0 d e"
      using r by (auto simp: pays_def rake_def owed_def rk')
    moreover have "pays room 0 0 e d'"
      using d' by (auto split: option.splits intro: set_parent_balance_pays)
    ultimately show "pays room amt 0 d d'" using pays_trans by fastforce
  qed
qed


section \<open>The split over the inviters\<close>

lemma cut_fee_bounds: "0 \<le> a \<Longrightarrow> 0 \<le> cut_fee a p \<and> cut_fee a p \<le> a"
proof -
  assume a: "0 \<le> a"
  have "a * int p div 10000 \<le> a" if "int p < 10000"
  proof -
    have "a * int p \<le> a * 10000" using a that by (intro mult_left_mono) auto
    then have "a * int p div 10000 \<le> a * 10000 div 10000" by (rule zdiv_mono1) simp
    then show ?thesis by simp
  qed
  with a show ?thesis by (auto simp: cut_fee_def pos_imp_zdiv_nonneg_iff)
qed

lemma inviter_share_split:
  assumes "inviter_share p balance m c = (my, c')" and "0 \<le> balance" and "0 \<le> m" and "0 \<le> c"
  shows "0 \<le> my" "0 \<le> c'" "my + c' = m + c"
proof -
  have "m * b div t \<le> m" if "0 \<le> b" "b < t" for b t
  proof -
    have "m * b \<le> m * t" using assms(3) that by (intro mult_left_mono) auto
    then have "m * b div t \<le> m * t div t" using that by (intro zdiv_mono1) auto
    then show ?thesis using that by simp
  qed
  with assms show "0 \<le> my" "0 \<le> c'" "my + c' = m + c"
    by (auto simp: inviter_share_def Let_def pos_imp_zdiv_nonneg_iff split: if_splits)
qed

lemma sum_vestings_nonneg:
  assumes "sum_vestings d t vs a = Inr b" and "idx_all vesting_ok (vestings d)" and "0 \<le> a"
  shows "0 \<le> b"
  using assms
  by (induction d t vs a rule: sum_vestings.induct)
    (auto simp: vesting_amount_def vesting_ok_def ebind_Inr idx_get_Inr split: if_splits dest!: idx_allD)

lemma get_total_balance_nonneg:
  assumes "get_total_balance d p = Inr b" and "db_ok d"
  shows "0 \<le> b"
proof -
  from assms(1) obtain t vs where s: "sum_vestings d t vs (amount (get_balance d (pl_account p) CORE)) = Inr b"
    unfolding get_total_balance_def Let_def ebind_Inr by blast
  have "0 \<le> amount (get_balance d (pl_account p) CORE)"
    using assms(2) by (auto simp: db_ok_def balances_ok_iff get_balance_def split: option.splits)
  with sum_vestings_nonneg [OF s] assms(2) show ?thesis by (simp add: db_ok_def)
qed

lemma parent_owed_defer:
  "parent_owed q (p\<lparr>pending_parent_invitation_fees :=
      fm_put room (fm_put key (old + amt) stats) (pending_parent_invitation_fees p)\<rparr>) =
     parent_owed q p + (if q = room then amt else 0)"
  if "stats = (case fm_find (pending_parent_invitation_fees p) room of None \<Rightarrow> fm_empty | Some m \<Rightarrow> m)"
    and "old = (case fm_find stats key of None \<Rightarrow> 0 | Some a \<Rightarrow> a)"
  using that by (auto simp: parent_owed_def split: option.splits)

lemma defer_to_inviter_pays:
  assumes "defer_to_inviter ctx room i amt d = Inr d'"
  shows "pays room 0 amt d d'"
proof -
  obtain p where p: "idx_find (players d) i = Some p" using assms
    by (auto simp: defer_to_inviter_def ebind_Inr idx_get_Inr)
  define key where "key = (cx_asset ctx, cx_getter ctx, cx_metadata ctx)"
  define stats where "stats = (case fm_find (pending_parent_invitation_fees p) room of None \<Rightarrow> fm_empty | Some m \<Rightarrow> m)"
  define old where "old = (case fm_find stats key of None \<Rightarrow> 0 | Some a \<Rightarrow> a)"
  let ?p = "p\<lparr>pending_parent_invitation_fees := fm_put room (fm_put key (old + amt) stats) (pending_parent_invitation_fees p)\<rparr>"
  have d': "d' = d\<lparr>players := idx_set i ?p (players d)\<rparr>"
    using assms p by (simp add: defer_to_inviter_def idx_get_def key_def stats_def old_def Let_def)
  have "calm {} d d'" unfolding d' by (rule calm_set_player [OF p]) simp
  moreover have "conserves d d'" unfolding d' by (rule same_funds_conserves) simp
  ultimately show ?thesis
    unfolding pays_def d' by (simp add: owed_set_player [OF p] parent_owed_defer [OF stats_def old_def] rake_def)
qed

lemma pay_inviter_pays:
  assumes "pay_inviter ctx room i p amt d = Inr (c', d')" and "db_ok d" and "0 \<le> amt"
  shows "pays room (amt - c') 0 d d' \<and> 0 \<le> c' \<and> c' \<le> amt"
proof -
  define c where "c = cut_fee amt (player_referrer_parent_percent_of_fee (parameters d))"
  have c: "0 \<le> c" "c \<le> amt" using cut_fee_bounds assms(3) by (auto simp: c_def)
  show ?thesis
  proof (cases "0 < amt - c")
    case True
    with assms(1) obtain b my where b: "get_total_balance d p = Inr b"
      and s: "inviter_share (parameters d) b (amt - c) c = (my, c')"
      and my: "deposit_cashback Deposit_inviter ctx room (Parent_player i) (pl_account p) my d = Inr d'"
      unfolding pay_inviter_def Let_def c_def [symmetric] by (auto simp: ebind_Inr split_beta prod_eq_iff)
    note split = inviter_share_split [OF s get_total_balance_nonneg [OF b assms(2)] _ c(1)]
    have "my = amt - c'" "0 \<le> c'" "0 \<le> my" using split c by auto
    moreover have "pays room my 0 d d'" using deposit_cashback_pays [OF my] \<open>0 \<le> my\<close> assms(2) by blast
    ultimately show ?thesis by simp
  next
    case False
    then show ?thesis using assms c unfolding pay_inviter_def Let_def c_def [symmetric] by simp
  qed
qed

text \<open>
  Whatever the inviters do not get and is not deferred is returned: the three parts are not negative
  and add up to the amount.
\<close>

lemma disseminate_for_inviters_split:
  assumes "disseminate_for_inviters ctx room i amt depth d = Inr (left, d')" and "db_ok d" and "0 \<le> amt"
  shows "\<exists>n m. pays room n m d d' \<and> 0 \<le> n \<and> 0 \<le> m \<and> 0 \<le> left \<and> n + m + left = amt"
  using assms
proof (induction depth arbitrary: i amt d)
  case 0
  then obtain p where p: "idx_find (players d) i = Some p"
    by (auto simp: disseminate_for_inviters.simps [of _ _ _ _ 0] ebind_Inr idx_get_Inr)
  show ?case
  proof (cases "i = PLAYCHAIN_NULL_PLAYER \<or> amt < 1")
    case True
    then have "left = amt" "d' = d" using 0 p by (auto simp: disseminate_for_inviters.simps [of _ _ _ _ 0] idx_get_def)
    with \<open>0 \<le> amt\<close> show ?thesis by (intro exI [of _ 0]) simp
  next
    case False
    then have "defer_to_inviter ctx room i amt d = Inr d'" "left = 0"
      using 0 p by (auto simp: disseminate_for_inviters.simps [of _ _ _ _ 0] idx_get_def ebind_Inr)
    with defer_to_inviter_pays [of ctx room i amt d d'] \<open>0 \<le> amt\<close> show ?thesis
      by (intro exI [of _ 0] exI [of _ amt]) simp
  qed
next
  case (Suc depth)
  then obtain p where p: "idx_find (players d) i = Some p"
    by (auto simp: disseminate_for_inviters.simps [of _ _ _ _ "Suc depth"] ebind_Inr idx_get_Inr)
  show ?case
  proof (cases "i = PLAYCHAIN_NULL_PLAYER \<or> amt < 1")
    case True
    then have "left = amt" "d' = d"
      using Suc.prems p by (auto simp: disseminate_for_inviters.simps [of _ _ _ _ "Suc depth"] idx_get_def)
    with \<open>0 \<le> amt\<close> show ?thesis by (intro exI [of _ 0]) simp
  next
    case False
    with Suc.prems(1) p obtain x where x: "pay_inviter ctx room i p amt d = Inr x"
      and rx: "(case x of (c', e) \<Rightarrow> disseminate_for_inviters ctx room (pl_inviter p) c' depth e) = Inr (left, d')"
      by (simp only: disseminate_for_inviters.simps [of _ _ _ _ "Suc depth"] idx_get_def if_False
          nat.case ebind_Inr of_option_Inr option.inject) blast
    obtain c' e where "x = (c', e)" by (cases x)
    with x rx have e: "pay_inviter ctx room i p amt d = Inr (c', e)"
      and r: "disseminate_for_inviters ctx room (pl_inviter p) c' depth e = Inr (left, d')" by simp_all
    note step = pay_inviter_pays [OF e Suc.prems(2,3)]
    then have "db_ok e" using Suc.prems(2) pays_ok by blast
    with Suc.IH [OF r] step obtain n m where "pays room n m e d'" "0 \<le> n" "0 \<le> m" "0 \<le> left" "n + m + left = c'"
      by blast
    with pays_trans [of room "amt - c'" 0 d e n m d'] step show ?thesis
      by (intro exI [of _ "amt - c' + n"] exI [of _ m]) simp
  qed
qed


section \<open>The split of a fee\<close>

lemma pay_witness_pays:
  "pay_witness ctx room amt w d = Inr d' \<Longrightarrow> db_ok d \<Longrightarrow> 0 \<le> amt \<Longrightarrow> pays room amt 0 d d'"
  by (auto simp: pay_witness_def ebind_Inr dest: deposit_cashback_pays)

lemma pay_each_witness_pays:
  assumes "efold (pay_witness ctx room amt) ws d = Inr d'" and "db_ok d" and "0 \<le> amt"
  shows "pays room (amt * int (length ws)) 0 d d'"
  using assms
proof (induction ws arbitrary: d)
  case (Cons w ws)
  then obtain e where e: "pay_witness ctx room amt w d = Inr e" "efold (pay_witness ctx room amt) ws e = Inr d'"
    by (auto simp: ebind_Inr)
  have p: "pays room amt 0 d e" by (rule pay_witness_pays [OF e(1) Cons.prems(2,3)])
  from pays_trans [OF p Cons.IH [OF e(2) pays_ok [OF p Cons.prems(2)] Cons.prems(3)]]
  show ?case by (simp add: algebra_simps)
qed simp

lemma pay_witnesses_pays:
  assumes "pay_witnesses ctx room ws wcut d = Inr d'" and "db_ok d" and "0 \<le> wcut" and "ws \<noteq> []"
  shows "pays room wcut 0 d d'"
proof -
  define one where "one = wcut div int (length ws)"
  define left where "left = (if 0 < one then wcut - one * int (length ws) else wcut)"
  have one: "0 \<le> one" using assms(3,4) by (simp add: one_def pos_imp_zdiv_nonneg_iff)
  have m: "one * int (length ws) = wcut - wcut mod int (length ws)"
    by (simp add: one_def minus_mod_eq_mult_div mult.commute)
  have left: "0 \<le> left" using assms(3,4) by (simp add: left_def m)
  obtain e where e: "(if 0 < one then efold (pay_witness ctx room one) ws d else Inr d) = Inr e"
    and d': "(if 0 < left then pay_witness ctx room left (hd ws) e else Inr e) = Inr d'"
    using assms(1) unfolding pay_witnesses_def Let_def one_def [symmetric] left_def [symmetric] ebind_Inr by blast
  have p: "pays room (wcut - left) 0 d e"
    using e pay_each_witness_pays [of ctx room one ws d e] assms(2) one
    by (auto simp: left_def split: if_splits)
  have "pays room left 0 e d'"
    using d' left pay_witness_pays [of ctx room left "hd ws" e d'] pays_ok [OF p assms(2)]
    by (auto split: if_splits)
  from pays_trans [OF p this] show ?thesis by simp
qed

lemma cut_fee_nonneg: "0 \<le> cut_fee a p"
  using cut_fee_bounds [of a p] by (cases "0 \<le> a") (auto simp: cut_fee_def)

lemma cut_fee_zero: "a < 1 \<or> p < 1 \<Longrightarrow> cut_fee a p = 0"
  by (auto simp: cut_fee_def)

lemma cut_fee_two:
  assumes "p + q \<le> 10000" and "0 \<le> a"
  shows "cut_fee a p + cut_fee a q \<le> a"
proof (cases "a < 1 \<or> p < 1 \<or> q < 1")
  case True
  then show ?thesis using cut_fee_bounds [of a p] cut_fee_bounds [of a q] assms by (auto simp: cut_fee_zero)
next
  case False
  have "a * int p div 10000 + a * int q div 10000 \<le> (a * int p + a * int q) div 10000"
    by linarith
  also have "a * int p + a * int q \<le> a * 10000"
    using mult_left_mono [of "int p + int q" 10000 a] assms by (simp add: algebra_simps)
  then have "(a * int p + a * int q) div 10000 \<le> a" by linarith
  finally show ?thesis using False assms by (simp add: cut_fee_def)
qed

text \<open>The steps of a fee, in the order of the source.\<close>

lemma deposit_fee_cases:
  assumes "deposit_fee player fee d = Inr d'"
  obtains (fee) r :: room_object and p :: player_object and left e e' owner_cut where
    "disseminate_for_inviters
       (fee_context fee) (pf_room fee)
       (pl_inviter p) (cut_fee (ds_amount fee) (player_referrer_percent_of_fee (parameters d)))
       PLAYCHAIN_MAXIMUM_INVITERS_DEPTH d = Inr (left, e)"
    "(if fs_items (pf_witnesses fee) \<noteq> [] then
        pay_witnesses (fee_context fee)
          (pf_room fee) (fs_items (pf_witnesses fee))
          (cut_fee (ds_amount fee) (game_witness_percent_of_fee (parameters d))) e
      else Inr e) = Inr e'"
    "deposit_cashback Deposit_room
       (fee_context fee)
       (pf_room fee) (Parent_room (pf_room fee)) (rm_owner r) owner_cut e' = Inr d'"
    "owner_cut = ds_amount fee - cut_fee (ds_amount fee) (player_referrer_percent_of_fee (parameters d)) + left
       - (if fs_items (pf_witnesses fee) \<noteq> []
          then cut_fee (ds_amount fee) (game_witness_percent_of_fee (parameters d)) else 0)"
    "idx_find (rooms d) (pf_room fee) = Some r" "idx_find (players d) player = Some p"
proof -
  obtain r :: room_object and p :: player_object and x where x: "disseminate_for_inviters (fee_context fee) (pf_room fee)
       (pl_inviter p) (cut_fee (ds_amount fee) (player_referrer_percent_of_fee (parameters d)))
       PLAYCHAIN_MAXIMUM_INVITERS_DEPTH d = Inr x"
    and rp: "idx_find (rooms d) (pf_room fee) = Some r" "idx_find (players d) player = Some p"
    and y: "(case x of (left, e) \<Rightarrow>
       ebind (if fs_items (pf_witnesses fee) \<noteq> [] then pay_witnesses (fee_context fee)
          (pf_room fee) (fs_items (pf_witnesses fee))
          (cut_fee (ds_amount fee) (game_witness_percent_of_fee (parameters d))) e
        else Inr e) (\<lambda>e'. deposit_cashback Deposit_room (fee_context fee) (pf_room fee) (Parent_room (pf_room fee)) (rm_owner r)
        (if fs_items (pf_witnesses fee) \<noteq> []
         then ds_amount fee - cut_fee (ds_amount fee) (player_referrer_percent_of_fee (parameters d)) -
              cut_fee (ds_amount fee) (game_witness_percent_of_fee (parameters d)) + left
         else ds_amount fee - cut_fee (ds_amount fee) (player_referrer_percent_of_fee (parameters d)) -
              cut_fee (ds_amount fee) (game_witness_percent_of_fee (parameters d)) + left +
              cut_fee (ds_amount fee) (game_witness_percent_of_fee (parameters d))) e')) = Inr d'"
    using assms unfolding deposit_fee_def Let_def ebind_Inr idx_get_Inr by (elim exE conjE) (rule that, assumption+)
  obtain left e where le: "x = (left, e)" by (cases x)
  from y [unfolded le prod.case ebind_Inr] show thesis
    by (elim exE conjE, intro that [OF x [unfolded le]]) (assumption, assumption, simp, (rule rp)+)
qed


lemma deposit_fee_pays:
  assumes "deposit_fee player fee d = Inr d'" and "db_ok d"
  shows "\<exists>n m. pays (pf_room fee) n m d d' \<and>
    (0 \<le> ds_amount fee \<and> player_referrer_percent_of_fee (parameters d) + game_witness_percent_of_fee (parameters d)
       \<le> GRAPHENE_100_PERCENT \<longrightarrow> 0 \<le> n \<and> 0 \<le> m \<and> n + m = ds_amount fee)"
  using assms(1)
proof (cases rule: deposit_fee_cases)
  case (fee r p left e e' owner_cut)
  let ?i = "cut_fee (ds_amount fee) (player_referrer_percent_of_fee (parameters d))"
  let ?w = "if fs_items (pf_witnesses fee) \<noteq> []
    then cut_fee (ds_amount fee) (game_witness_percent_of_fee (parameters d)) else 0"
  obtain n m where nm: "pays (pf_room fee) n m d e" "0 \<le> n" "0 \<le> m" "0 \<le> left" "n + m + left = ?i"
    using disseminate_for_inviters_split [OF fee(1) assms(2) cut_fee_nonneg] by blast
  have ok: "db_ok e" by (rule pays_ok [OF nm(1) assms(2)])
  have w: "pays (pf_room fee) ?w 0 e e'"
    using fee(2) pay_witnesses_pays [OF _ ok cut_fee_nonneg, of _ "pf_room fee" "fs_items (pf_witnesses fee)"]
    by (auto split: if_splits)
  have o': "pays (pf_room fee) (max owner_cut 0) 0 e' d'"
    using fee(3) deposit_cashback_pays [OF fee(3)] pays_ok [OF w ok]
    by (cases "0 \<le> owner_cut") (auto simp: deposit_cashback_def max_def)
  have "0 \<le> n + ?w + max owner_cut 0 \<and> 0 \<le> m \<and> n + ?w + max owner_cut 0 + m = ds_amount fee"
    if "0 \<le> ds_amount fee" "player_referrer_percent_of_fee (parameters d) +
      game_witness_percent_of_fee (parameters d) \<le> GRAPHENE_100_PERCENT"
  proof -
    have w0: "0 \<le> ?w" "?i + ?w \<le> ds_amount fee"
      using cut_fee_two [OF that(2,1)] cut_fee_bounds [OF that(1)] by (simp_all add: cut_fee_nonneg)
    then have "0 \<le> owner_cut" using nm(4) unfolding fee(4) by linarith
    then have "max owner_cut 0 = ds_amount fee - ?i + left - ?w" unfolding fee(4) by linarith
    then show ?thesis using w0 nm(2-5) by linarith
  qed
  moreover have "pays (pf_room fee) (n + ?w + max owner_cut 0) m d d'"
    using pays_trans [OF pays_trans [OF nm(1) w] o'] by simp
  ultimately show ?thesis by blast
qed

section \<open>Who is paid\<close>

text \<open>What an account holds in vesting balances, and a step that adds to it while nobody's role changes.\<close>

definition vested :: "account_id \<Rightarrow> database \<Rightarrow> int" where
  "vested a d = idx_sum (\<lambda>vb. if vb_owner vb = a then amount (vb_amount vb) else 0) (vestings d)"

definition same_roles :: "database \<Rightarrow> database \<Rightarrow> bool" where
  "same_roles d d' \<longleftrightarrow>
     (\<forall>i. map_option (\<lambda>p. (pl_account p, pl_inviter p)) (idx_find (players d') i) =
        map_option (\<lambda>p. (pl_account p, pl_inviter p)) (idx_find (players d) i)) \<and>
     (\<forall>w. map_option gw_account (idx_find (witnesses d') w) = map_option gw_account (idx_find (witnesses d) w)) \<and>
     (\<forall>r. map_option rm_owner (idx_find (rooms d') r) = map_option rm_owner (idx_find (rooms d) r))"

definition vests :: "(account_id \<Rightarrow> int) \<Rightarrow> database \<Rightarrow> database \<Rightarrow> bool" where
  "vests f d d' \<longleftrightarrow> (\<forall>a. vested a d' = vested a d + f a) \<and> same_roles d d'"

abbreviation (input) gets :: "account_id \<Rightarrow> int \<Rightarrow> account_id \<Rightarrow> int" where
  "gets owner n a \<equiv> (if a = owner then n else 0)"

lemma vests_refl: "vests (\<lambda>_. 0) d d"
  by (simp add: vests_def same_roles_def)

lemma vests_trans: "vests f d d' \<Longrightarrow> vests g d' d'' \<Longrightarrow> vests (\<lambda>a. f a + g a) d d''"
  by (simp add: vests_def same_roles_def)

lemma vests_cong: "vests f d d' \<Longrightarrow> (\<And>a. f a = g a) \<Longrightarrow> vests g d d'"
  by (simp add: vests_def)

lemma usable_vesting_owner:
  "usable_vesting d ov secs owner = Inr (Some (i, vb)) \<Longrightarrow> idx_find (vestings d) i = Some vb \<and> vb_owner vb = owner"
  by (auto simp: usable_vesting_def ebind_Inr idx_get_Inr split: option.splits if_splits vesting_policy.splits)

lemma deposit_lazy_vesting_vests:
  assumes "deposit_lazy_vesting ov amt secs owner d = Inr (v, d')"
  shows "vests (gets owner amt) d d'"
proof (cases "amt = 0")
  case True
  then have "d' = d" using assms by (simp add: deposit_lazy_vesting_def)
  then show ?thesis using True by (auto simp: vests_def same_roles_def)
next
  case False
  then obtain found where found: "usable_vesting d ov secs owner = Inr found"
    using assms by (auto simp: deposit_lazy_vesting_def ebind_Inr)
  show ?thesis
  proof (cases found)
    case None
    then obtain vb i ix where "idx_create (\<lambda>a b. False) vb (vestings d) = Inr (i, ix)" "d' = d\<lparr>vestings := ix\<rparr>"
      "vb_owner vb = owner" "vb_amount vb = core_asset amt"
      using assms False found by (auto simp: deposit_lazy_vesting_def ebind_Inr split: prod.splits)
    then show ?thesis by (auto simp: vests_def vested_def same_roles_def idx_sum_create)
  next
    case (Some x)
    then obtain i vb where x: "found = Some (i, vb)" by (cases x) auto
    note vb = usable_vesting_owner [OF found [unfolded x]]
    obtain vb' where "vesting_deposit (head_block_time d) (core_asset amt) vb = Inr vb'"
      "d' = d\<lparr>vestings := idx_set i vb' (vestings d)\<rparr>"
      using assms False found x by (auto simp: deposit_lazy_vesting_def ebind_Inr)
    then show ?thesis
      using vb by (auto simp: vests_def vested_def same_roles_def vesting_deposit_def ebind_Inr asset_plus_Inr)
  qed
qed

lemma vests_fields:
  "vests (\<lambda>_. 0) d (push_applied_operation op d)"
  "idx_find (rooms d) r = Some x \<Longrightarrow> rm_owner x' = rm_owner x \<Longrightarrow> vests (\<lambda>_. 0) d (d\<lparr>rooms := idx_set r x' (rooms d)\<rparr>)"
  "idx_find (players d) i = Some p \<Longrightarrow> pl_account p' = pl_account p \<Longrightarrow> pl_inviter p' = pl_inviter p \<Longrightarrow>
     vests (\<lambda>_. 0) d (d\<lparr>players := idx_set i p' (players d)\<rparr>)"
  by (auto simp: vests_def vested_def same_roles_def push_applied_operation_def)

lemma set_parent_balance_vests: "set_parent_balance v parent d = Inr d' \<Longrightarrow> vests (\<lambda>_. 0) d d'"
  by (cases parent) (auto simp: ebind_Inr idx_get_Inr vests_def vested_def same_roles_def)

lemma deposit_cashback_vests:
  assumes "deposit_cashback ty ctx room parent owner amt d = Inr d'"
  shows "vests (gets owner (max amt 0)) d d'"
proof (cases "amt < 1")
  case True
  then have "vests (\<lambda>_. 0) d d'" using assms by (simp add: deposit_cashback_def vests_refl)
  then show ?thesis by (rule vests_cong) (use True in simp)
next
  case False
  define op where "op = Playchain_deposit_cashback ty (cx_getter ctx) owner
    \<lparr>amount = amt, asset_id = cx_asset ctx\<rparr> (cx_metadata ctx)"
  obtain r rk ov nv e where r: "idx_find (rooms (push_applied_operation op d)) room = Some r"
    and e: "deposit_lazy_vesting ov amt (cashback_vesting_period_seconds d) owner
        ((push_applied_operation op d)\<lparr>rooms := idx_set room (r\<lparr>pending_rake := rk\<rparr>) (rooms (push_applied_operation op d))\<rparr>) = Inr (nv, e)"
    and d': "(case nv of None \<Rightarrow> Inr e | Some v \<Rightarrow> set_parent_balance v parent e) = Inr d'"
    using assms False unfolding deposit_cashback_def Let_def op_def [symmetric]
    by (auto simp: ebind_Inr idx_get_Inr push_applied_operation_def)
  have "vests (\<lambda>_. 0) e d'" using d' by (auto split: option.splits intro: vests_refl set_parent_balance_vests)
  from vests_trans [OF vests_trans [OF vests_trans [OF vests_fields(1) vests_fields(2) [OF r]]
        deposit_lazy_vesting_vests [OF e]] this]
  show ?thesis by (rule vests_cong) (use False in simp_all)
qed

lemma deposit_cashback_vests_all:
  "deposit_cashback ty ctx room parent owner amt d = Inr d' \<Longrightarrow> 0 \<le> amt \<Longrightarrow> vests (gets owner amt) d d'"
  by (frule deposit_cashback_vests) (erule vests_cong, simp)

text \<open>The accounts of a player and the inviters above it, up to a depth.\<close>

fun inviters_of :: "database \<Rightarrow> player_id \<Rightarrow> nat \<Rightarrow> account_id set" where
  "inviters_of d i 0 = {}"
| "inviters_of d i (Suc n) =
     (if i = PLAYCHAIN_NULL_PLAYER then {}
      else case idx_find (players d) i of None \<Rightarrow> {} | Some p \<Rightarrow> insert (pl_account p) (inviters_of d (pl_inviter p) n))"

lemma inviters_of_same: "same_roles d d' \<Longrightarrow> inviters_of d' i n = inviters_of d i n"
proof (induction n arbitrary: i)
  case (Suc n)
  have "map_option (\<lambda>p. (pl_account p, pl_inviter p)) (idx_find (players d') i) =
      map_option (\<lambda>p. (pl_account p, pl_inviter p)) (idx_find (players d) i)" using Suc(2) by (simp add: same_roles_def)
  then show ?case using Suc by (cases "idx_find (players d) i"; cases "idx_find (players d') i") auto
qed simp

lemma finite_inviters_of [simp]: "finite (inviters_of d i n)"
  by (induction n arbitrary: i) (auto split: option.split)

text \<open>A share \<open>n\<close> that goes to some accounts and to nobody else.\<close>

definition shared :: "account_id set \<Rightarrow> int \<Rightarrow> (account_id \<Rightarrow> int) \<Rightarrow> bool" where
  "shared A n f \<longleftrightarrow> (\<forall>a. 0 \<le> f a) \<and> (\<forall>a. a \<notin> A \<longrightarrow> f a = 0) \<and> sum f A = n"

lemma shared_0: "shared A 0 (\<lambda>_. 0)"
  by (simp add: shared_def)

lemma shared_insert:
  assumes "shared A n f" and "0 \<le> m" and "finite A"
  shows "shared (insert b A) (m + n) (\<lambda>a. gets b m a + f a)"
proof -
  have "sum f (insert b A) = sum f A" using assms by (cases "b \<in> A") (auto simp: shared_def insert_absorb)
  then have "sum (\<lambda>a. gets b m a + f a) (insert b A) = m + n"
    using assms by (simp add: sum.distrib sum.delta shared_def)
  then show ?thesis using assms by (auto simp: shared_def)
qed

lemma defer_to_inviter_vests: "defer_to_inviter ctx room i amt d = Inr d' \<Longrightarrow> vests (\<lambda>_. 0) d d'"
  by (auto simp: defer_to_inviter_def ebind_Inr idx_get_Inr Let_def intro!: vests_fields(3))

lemma pay_inviter_vests:
  assumes "pay_inviter ctx room i p amt d = Inr (c', d')" and "db_ok d" and "0 \<le> amt"
  shows "vests (gets (pl_account p) (amt - c')) d d'"
proof -
  define c where "c = cut_fee amt (player_referrer_parent_percent_of_fee (parameters d))"
  have c: "0 \<le> c" "c \<le> amt" using cut_fee_bounds assms(3) by (auto simp: c_def)
  show ?thesis
  proof (cases "0 < amt - c")
    case True
    with assms(1) obtain b my where b: "get_total_balance d p = Inr b"
      and s: "inviter_share (parameters d) b (amt - c) c = (my, c')"
      and my: "deposit_cashback Deposit_inviter ctx room (Parent_player i) (pl_account p) my d = Inr d'"
      unfolding pay_inviter_def Let_def c_def [symmetric] by (auto simp: ebind_Inr split_beta prod_eq_iff)
    note split = inviter_share_split [OF s get_total_balance_nonneg [OF b assms(2)] _ c(1)]
    have "my = amt - c'" "0 \<le> my" using split c by auto
    then show ?thesis using deposit_cashback_vests_all [OF my] by metis
  next
    case False
    then have "c' = amt" "d' = d" using assms c unfolding pay_inviter_def Let_def c_def [symmetric] by auto
    then show ?thesis by (simp add: vests_def same_roles_def)
  qed
qed

text \<open>What is not deferred and not left over goes to the inviters.\<close>

lemma disseminate_for_inviters_vests:
  assumes "disseminate_for_inviters ctx room i amt depth d = Inr (left, d')" and "db_ok d" and "0 \<le> amt"
  shows "\<exists>n m f. pays room n m d d' \<and> 0 \<le> m \<and> 0 \<le> left \<and> n + m + left = amt \<and>
    vests f d d' \<and> shared (inviters_of d i depth) n f"
  using assms
proof (induction depth arbitrary: i amt d)
  case 0
  then obtain p where p: "idx_find (players d) i = Some p"
    by (auto simp: disseminate_for_inviters.simps [of _ _ _ _ 0] ebind_Inr idx_get_Inr)
  show ?case
  proof (cases "i = PLAYCHAIN_NULL_PLAYER \<or> amt < 1")
    case True
    then have "left = amt" "d' = d" using 0 p by (auto simp: disseminate_for_inviters.simps [of _ _ _ _ 0] idx_get_def)
    with \<open>0 \<le> amt\<close> show ?thesis by (intro exI [of _ 0] exI [of _ "\<lambda>_. 0"]) (simp add: vests_refl shared_0)
  next
    case False
    then have e: "defer_to_inviter ctx room i amt d = Inr d'" "left = 0"
      using 0 p by (auto simp: disseminate_for_inviters.simps [of _ _ _ _ 0] idx_get_def ebind_Inr)
    with defer_to_inviter_pays [OF e(1)] defer_to_inviter_vests [OF e(1)] \<open>0 \<le> amt\<close> show ?thesis
      by (intro exI [of _ 0] exI [of _ amt] exI [of _ "\<lambda>_. 0"]) (simp add: shared_0)
  qed
next
  case (Suc depth)
  then obtain p where p: "idx_find (players d) i = Some p"
    by (auto simp: disseminate_for_inviters.simps [of _ _ _ _ "Suc depth"] ebind_Inr idx_get_Inr)
  show ?case
  proof (cases "i = PLAYCHAIN_NULL_PLAYER \<or> amt < 1")
    case True
    then have "left = amt" "d' = d"
      using Suc.prems p by (auto simp: disseminate_for_inviters.simps [of _ _ _ _ "Suc depth"] idx_get_def)
    with \<open>0 \<le> amt\<close> show ?thesis
      by (intro exI [of _ 0] exI [of _ "\<lambda>_. 0"]) (simp add: vests_refl shared_0 del: inviters_of.simps)
  next
    case False
    with Suc.prems(1) p obtain x where x: "pay_inviter ctx room i p amt d = Inr x"
      and rx: "(case x of (c', e) \<Rightarrow> disseminate_for_inviters ctx room (pl_inviter p) c' depth e) = Inr (left, d')"
      by (simp only: disseminate_for_inviters.simps [of _ _ _ _ "Suc depth"] idx_get_def if_False
          nat.case ebind_Inr of_option_Inr option.inject) blast
    obtain c' e where "x = (c', e)" by (cases x)
    with x rx have e: "pay_inviter ctx room i p amt d = Inr (c', e)"
      and r: "disseminate_for_inviters ctx room (pl_inviter p) c' depth e = Inr (left, d')" by simp_all
    note step = pay_inviter_pays [OF e Suc.prems(2,3)] and v = pay_inviter_vests [OF e Suc.prems(2,3)]
    then have "db_ok e" using Suc.prems(2) pays_ok by blast
    with Suc.IH [OF r] step obtain n m f where IH: "pays room n m e d'" "0 \<le> m" "0 \<le> left" "n + m + left = c'"
      "vests f e d'" "shared (inviters_of e (pl_inviter p) depth) n f" by blast
    have "inviters_of e (pl_inviter p) depth = inviters_of d (pl_inviter p) depth"
      using v by (intro inviters_of_same) (simp add: vests_def)
    then have "shared (inviters_of d i (Suc depth)) (amt - c' + n) (\<lambda>a. gets (pl_account p) (amt - c') a + f a)"
      using shared_insert [OF IH(6), of "amt - c'" "pl_account p"] step False p by simp
    with vests_trans [OF v IH(5)] pays_trans [OF conjunct1 [OF step] IH(1)] IH(2-4) step show ?thesis
      by (intro exI [of _ "amt - c' + n"] exI [of _ m] exI) auto
  qed
qed

text \<open>The witnesses of a game share equally; the first one also gets what does not divide.\<close>

definition witness_account :: "database \<Rightarrow> witness_id \<Rightarrow> account_id option" where
  "witness_account d w = map_option gw_account (idx_find (witnesses d) w)"

definition witness_share :: "database \<Rightarrow> witness_id list \<Rightarrow> int \<Rightarrow> account_id \<Rightarrow> int" where
  "witness_share d ws n a =
     (if ws = [] then 0
      else (\<Sum>w\<leftarrow>ws. if witness_account d w = Some a then n div int (length ws) else 0) +
        (if witness_account d (hd ws) = Some a then n mod int (length ws) else 0))"

lemma witness_account_same: "vests f d d' \<Longrightarrow> witness_account d' w = witness_account d w"
  by (simp add: vests_def same_roles_def witness_account_def)

lemma pay_witness_vests:
  assumes "pay_witness ctx room amt w d = Inr d'" and "0 \<le> amt"
  shows "vests (\<lambda>a. if witness_account d w = Some a then amt else 0) d d'"
proof -
  obtain x where x: "idx_find (witnesses d) w = Some x"
    "deposit_cashback Deposit_witness ctx room (Parent_witness w) (gw_account x) amt d = Inr d'"
    using assms(1) by (auto simp: pay_witness_def ebind_Inr idx_get_Inr)
  show ?thesis by (rule vests_cong [OF deposit_cashback_vests [OF x(2)]]) (use x(1) assms(2) in \<open>auto simp: witness_account_def\<close>)
qed

lemma pay_each_witness_vests:
  assumes "efold (pay_witness ctx room amt) ws d = Inr d'" and "0 \<le> amt"
  shows "vests (\<lambda>a. \<Sum>w\<leftarrow>ws. if witness_account d w = Some a then amt else 0) d d'"
  using assms
proof (induction ws arbitrary: d)
  case Nil
  then show ?case by (simp add: vests_refl)
next
  case (Cons w ws)
  then obtain e where e: "pay_witness ctx room amt w d = Inr e" "efold (pay_witness ctx room amt) ws e = Inr d'"
    by (auto simp: ebind_Inr)
  note v = pay_witness_vests [OF e(1) Cons.prems(2)]
  from vests_trans [OF v Cons.IH [OF e(2) Cons.prems(2)]] show ?case by (simp add: witness_account_same [OF v])
qed

lemma pay_witnesses_vests:
  assumes "pay_witnesses ctx room ws wcut d = Inr d'" and "0 \<le> wcut" and "ws \<noteq> []"
  shows "vests (witness_share d ws wcut) d d'"
proof -
  define one where "one = wcut div int (length ws)"
  define left where "left = (if 0 < one then wcut - one * int (length ws) else wcut)"
  have one: "0 \<le> one" using assms(2,3) by (simp add: one_def pos_imp_zdiv_nonneg_iff)
  have m: "wcut - one * int (length ws) = wcut mod int (length ws)"
    by (simp add: one_def minus_div_mult_eq_mod)
  have left: "left = wcut mod int (length ws)" using one m by (auto simp: left_def)
  then have "0 \<le> left" using assms(3) by simp
  obtain e where e: "(if 0 < one then efold (pay_witness ctx room one) ws d else Inr d) = Inr e"
    and d': "(if 0 < left then pay_witness ctx room left (hd ws) e else Inr e) = Inr d'"
    using assms(1) unfolding pay_witnesses_def Let_def one_def [symmetric] left_def [symmetric] ebind_Inr by blast
  have p: "vests (\<lambda>a. \<Sum>w\<leftarrow>ws. if witness_account d w = Some a then one else 0) d e"
  proof (cases "0 < one")
    case True
    then show ?thesis using e pay_each_witness_vests by auto
  next
    case False
    then have "one = 0" using one by simp
    then show ?thesis using e by (auto simp: vests_refl cong: if_cong)
  qed
  have "vests (\<lambda>a. if witness_account e (hd ws) = Some a then left else 0) e d'"
  proof (cases "0 < left")
    case True
    then show ?thesis using d' pay_witness_vests by auto
  next
    case False
    then have "left = 0" using \<open>0 \<le> left\<close> by simp
    then show ?thesis using d' by (auto simp: vests_refl cong: if_cong)
  qed
  from vests_trans [OF p this] show ?thesis
    unfolding witness_share_def witness_account_same [OF p] left one_def using assms(3) by simp
qed

lemma deposit_fee_vests:
  assumes "deposit_fee player fee d = Inr d'" and "db_ok d" and "0 \<le> ds_amount fee"
    and "player_referrer_percent_of_fee (parameters d) + game_witness_percent_of_fee (parameters d)
      \<le> GRAPHENE_100_PERCENT"
    and "wcut = (if fs_items (pf_witnesses fee) = [] then 0
      else cut_fee (ds_amount fee) (game_witness_percent_of_fee (parameters d)))"
  shows "\<exists>r p n m f. idx_find (rooms d) (pf_room fee) = Some r \<and> idx_find (players d) player = Some p \<and>
    0 \<le> m \<and> n + m \<le> cut_fee (ds_amount fee) (player_referrer_percent_of_fee (parameters d)) \<and>
    shared (inviters_of d (pl_inviter p) PLAYCHAIN_MAXIMUM_INVITERS_DEPTH) n f \<and>
    pays (pf_room fee) (ds_amount fee - m) m d d' \<and>
    vests (\<lambda>a. f a + witness_share d (fs_items (pf_witnesses fee)) wcut a +
      gets (rm_owner r) (ds_amount fee - wcut - n - m) a) d d'"
  using assms(1)
proof (cases rule: deposit_fee_cases)
  case (fee r p left e e' owner_cut)
  let ?i = "cut_fee (ds_amount fee) (player_referrer_percent_of_fee (parameters d))"
  obtain n m f where nm: "pays (pf_room fee) n m d e" "0 \<le> m" "0 \<le> left" "n + m + left = ?i"
    "vests f d e" "shared (inviters_of d (pl_inviter p) PLAYCHAIN_MAXIMUM_INVITERS_DEPTH) n f"
    using disseminate_for_inviters_vests [OF fee(1) assms(2) cut_fee_nonneg] by blast
  have ok: "db_ok e" by (rule pays_ok [OF nm(1) assms(2)])
  have w0: "0 \<le> wcut" "?i + wcut \<le> ds_amount fee"
    using cut_fee_two [OF assms(4,3)] cut_fee_bounds [OF assms(3)] by (simp_all add: assms(5) cut_fee_nonneg)
  have w: "pays (pf_room fee) wcut 0 e e'"
    using fee(2) pay_witnesses_pays [OF _ ok cut_fee_nonneg, of _ "pf_room fee" "fs_items (pf_witnesses fee)"]
    by (auto simp: assms(5) split: if_splits)
  have "vests (witness_share e (fs_items (pf_witnesses fee)) wcut) e e'"
  proof (cases "fs_items (pf_witnesses fee) = []")
    case True
    then have "e' = e" using fee(2) by simp
    then show ?thesis using True vests_refl [of e] by (auto simp: witness_share_def vests_def)
  next
    case False
    then show ?thesis using fee(2) w0(1) by (intro pay_witnesses_vests) (simp_all add: assms(5))
  qed
  then have wv: "vests (witness_share d (fs_items (pf_witnesses fee)) wcut) e e'"
    by (rule vests_cong) (simp add: witness_share_def witness_account_same [OF nm(5)])
  have oc: "owner_cut = ds_amount fee - wcut - n - m" unfolding fee(4) using nm(4) by (simp add: assms(5))
  then have "0 \<le> owner_cut" using nm(3,4) w0 by linarith
  then have "pays (pf_room fee) owner_cut 0 e' d'" "vests (gets (rm_owner r) owner_cut) e' d'"
    using deposit_cashback_pays [OF fee(3)] pays_ok [OF w ok] deposit_cashback_vests_all [OF fee(3)] by auto
  with pays_trans [OF pays_trans [OF nm(1) w]] vests_trans [OF vests_trans [OF nm(5) wv]]
  have "pays (pf_room fee) (n + wcut + owner_cut) m d d'"
    "vests (\<lambda>a. f a + witness_share d (fs_items (pf_witnesses fee)) wcut a + gets (rm_owner r) owner_cut a) d d'"
    by fastforce+
  then show ?thesis using fee(5,6) nm(2-4,6) unfolding oc
    by (intro exI [of _ r] exI [of _ p] exI [of _ n] exI [of _ m] exI [of _ f]) simp
qed

lemma deposit_parent_fee_vests:
  assumes "deposit_parent_fee player room ((asset, getter, meta), amt) d = Inr d'" and "db_ok d" and "0 < amt"
  shows "\<exists>r n m f. idx_find (rooms d) room = Some r \<and> 0 \<le> m \<and> n + m \<le> amt \<and>
    shared (inviters_of d player PLAYCHAIN_MAXIMUM_INVITERS_DEPTH) n f \<and> pays room (amt + n) m d d' \<and>
    vests (\<lambda>a. f a + gets (rm_owner r) amt a) d d'"
proof -
  let ?ctx = "\<lparr>cx_getter = getter, cx_metadata = meta, cx_asset = asset\<rparr>"
  obtain left e r where e: "disseminate_for_inviters ?ctx room player amt PLAYCHAIN_MAXIMUM_INVITERS_DEPTH d = Inr (left, e)"
    and r: "idx_find (rooms e) room = Some r"
      "deposit_cashback Deposit_inviter ?ctx room (Parent_room room) (rm_owner r) amt e = Inr d'"
    using assms(1) by (auto simp: deposit_parent_fee_def Let_def ebind_Inr idx_get_Inr)
  obtain n m f where nm: "pays room n m d e" "0 \<le> m" "0 \<le> left" "n + m + left = amt"
    "vests f d e" "shared (inviters_of d player PLAYCHAIN_MAXIMUM_INVITERS_DEPTH) n f"
    using disseminate_for_inviters_vests [OF e assms(2)] assms(3) by auto
  obtain r' where r': "idx_find (rooms d) room = Some r'" "rm_owner r' = rm_owner r"
    using nm(5) r(1) unfolding vests_def same_roles_def by (metis map_option_eq_Some)
  have "pays room amt 0 e d'" "vests (gets (rm_owner r) amt) e d'"
    using deposit_cashback_pays [OF r(2)] pays_ok [OF nm(1) assms(2)] deposit_cashback_vests_all [OF r(2)] assms(3)
    by auto
  with pays_trans [OF nm(1)] vests_trans [OF nm(5)] have "pays room (n + amt) m d d'"
    "vests (\<lambda>a. f a + gets (rm_owner r) amt a) d d'" by fastforce+
  then show ?thesis using r' nm by (intro exI [of _ r'] exI [of _ n] exI [of _ m] exI [of _ f]) (simp add: add.commute)
qed

section \<open>The whole distribution\<close>

lemma pays_sound: "(db_ok d \<Longrightarrow> \<exists>room n m. pays room n m d d') \<Longrightarrow> sound d d'"
  by (cases "db_ok d") (auto simp: pays_def sound_def chain_ok_def dest!: sound_calm)

lemma deposit_cashback_sound: "ends (sound d) (deposit_cashback ty ctx room parent owner amt d)"
proof (cases "amt < 1")
  case False
  then show ?thesis by (intro endsI pays_sound) (meson deposit_cashback_pays not_less order.trans zero_le_one)
qed (simp add: deposit_cashback_def wp)

lemma disseminate_sound: "ends (\<lambda>(left, e). sound d e) (disseminate_for_inviters ctx room i amt depth d)"
proof (cases "amt < 1")
  case True
  then show ?thesis by (simp add: disseminate_for_inviters.simps [of _ _ _ _ depth] wp)
next
  case False
  then show ?thesis
    by (intro endsI) (auto intro!: pays_sound, meson disseminate_for_inviters_split not_less order.trans zero_le_one)
qed

lemma deposit_parent_fee_sound: "ends (sound d) (deposit_parent_fee player room x d)"
proof -
  have "ends (sound d) (deposit_cashback ty ctx rm pr ow amt e)" if "sound d e" for ty ctx rm pr ow amt e
    by (rule sound_seq [OF deposit_cashback_sound that])
  then show ?thesis
    by (auto simp: deposit_parent_fee_def wp Let_def split: prod.splits intro!: ends_mono [OF disseminate_sound])
qed

lemma deposit_fee_sound: "ends (sound d) (deposit_fee player fee d)"
  by (intro endsI pays_sound) (blast dest: deposit_fee_pays)

lemma set_player_sound:
  assumes "idx_find (players d) i = Some p" and "pl_account p' = pl_account p"
  shows "sound d (d\<lparr>players := idx_set i p' (players d)\<rparr>)"
  by (rule sound_calm [OF calm_set_player [OF assms]]) (rule same_funds_conserves, simp)

lemma deposit_player_fees_sound: "ends (sound d) (deposit_player_fees player d)"
proof -
  have rooms: "ends (sound e) ((\<lambda>(room, stats) d.
      ebind (idx_get (rooms d) room) (\<lambda>_. efold (deposit_parent_fee player room) (fm_items stats) d)) x e)" for x e
    by (cases x) (simp add: wp efold_sound deposit_parent_fee_sound)
  have parents: "ends Q (efold (\<lambda>(room, stats) d.
              ebind (idx_get (rooms d) room) (\<lambda>_. efold (deposit_parent_fee player room) (fm_items stats) d)) xs d)"
    if "\<And>e. sound d e \<Longrightarrow> Q e" for Q xs d
    by (rule sound_seq [OF efold_sound [OF rooms] sound_refl that])
  have fees: "ends Q (efold (deposit_fee player) xs e)" if "sound d e" "\<And>e'. sound d e' \<Longrightarrow> Q e'" for Q xs e
    by (rule sound_seq [OF efold_sound [OF deposit_fee_sound] that])
  show ?thesis
    unfolding deposit_player_fees_def Let_def
    by (auto simp: wp intro!: parents fees intro: sound_trans [OF _ set_player_sound])
qed

lemma deposit_pending_fees_sound: "ends (sound d) (deposit_pending_fees d)"
  unfolding deposit_pending_fees_def by (rule efold_sound [OF deposit_player_fees_sound])

end
