(* ===== verification/Block_Tasks.thy ===== *)
theory Block_Tasks
  imports Consensus
begin

text \<open>
  What the chain does at every block (\<^verbatim>\<open>block_tasks/\<close>): expiry of invitations, votings, games,
  reservations, buy-ins and heartbeats, the scheduled tallies, and the allocation of reservations to
  tables. The loops over the objects that expire are recursive functions with a proof that they end.
  The results: a block keeps the invariant of the chain and the funds of every asset, whatever
  expires in it; a reservation is only allocated to a table that satisfies all the conditions of the
  reservation.
\<close>

section \<open>Ordered indexes\<close>

text \<open>The objects of an index ordered by a key, objects with the same key by their numbers.\<close>

definition idx_by :: "('a \<Rightarrow> 'k::linorder) \<Rightarrow> 'a index \<Rightarrow> (nat \<times> 'a) list" where
  "idx_by key ix = sort_key (\<lambda>(i, v). key v) (idx_items ix)"

definition idx_first :: "('a \<Rightarrow> 'k::linorder) \<Rightarrow> 'a index \<Rightarrow> (nat \<times> 'a) option" where
  "idx_first key ix = (case idx_by key ix of [] \<Rightarrow> None | x # _ \<Rightarrow> Some x)"

lemma set_idx_by [simp]: "set (idx_by key ix) = set (idx_items ix)"
  by (simp add: idx_by_def)

lemma idx_first_Some: "idx_first key ix = Some (i, v) \<Longrightarrow> idx_find ix i = Some v"
proof -
  assume "idx_first key ix = Some (i, v)"
  then have "idx_by key ix \<noteq> [] \<and> hd (idx_by key ix) = (i, v)" by (auto simp: idx_first_def split: list.splits)
  then have "(i, v) \<in> set (idx_by key ix)" by (metis hd_in_set)
  then show ?thesis by (simp add: idx_items_iff)
qed

lemma idx_remove_smaller:
  "idx_find ix i = Some v \<Longrightarrow> card (fm_keys (objs (idx_remove i ix))) < card (fm_keys (objs ix))"
  by (auto simp: idx_remove_def idx_find_def card_Diff1_less simp del: card_Diff_insert dest: fm_find_Some_keys)

lemma idx_first_None: "idx_first key ix = None \<Longrightarrow> idx_find ix j = None"
proof -
  assume "idx_first key ix = None"
  then have "idx_by key ix = []" by (simp add: idx_first_def split: list.splits)
  then have "set (idx_items ix) = {}" by (metis set_idx_by list.set(1))
  then show ?thesis using idx_items_iff [of j _ ix] by (cases "idx_find ix j") auto
qed

lemma idx_first_least:
  assumes "idx_first key ix = Some (i, v)" and "idx_find ix j = Some w"
  shows "key v \<le> key w"
proof -
  obtain xs where xs: "idx_by key ix = (i, v) # xs" using assms(1) by (auto simp: idx_first_def split: list.splits)
  have "(j, w) \<in> set (idx_by key ix)" using assms(2) by (simp add: idx_items_iff)
  moreover have "sorted (map (\<lambda>(i, v). key v) (idx_by key ix))" by (simp add: idx_by_def)
  ultimately show ?thesis unfolding xs by auto
qed

text \<open>
  The shape of an expiry: as long as the object that expires first has expired, a step handles it and
  removes it. Then exactly the objects that have not expired are left.
\<close>

locale expiry =
  fixes now :: "'s \<Rightarrow> time" and ix :: "'s \<Rightarrow> 'a index" and key :: "'a \<Rightarrow> time"
    and step :: "nat \<Rightarrow> 'a \<Rightarrow> 's \<Rightarrow> 's res" and run :: "'s \<Rightarrow> 's res"
  assumes run: "run s = (case idx_first key (ix s) of
      None \<Rightarrow> Inr s
    | Some (i, v) \<Rightarrow> if key v \<le> now s then ebind (step i v s) run else Inr s)"
    and step_ix: "step i v s = Inr s' \<Longrightarrow> ix s' = idx_remove i (ix s)"
    and step_now: "step i v s = Inr s' \<Longrightarrow> now s' = now s"
begin

lemma run_left:
  assumes "run s = Inr s'"
  shows "idx_find (ix s') j = (case idx_find (ix s) j of
      None \<Rightarrow> None | Some v \<Rightarrow> if key v \<le> now s then None else Some v) \<and> now s' = now s"
  using assms
proof (induction "card (fm_keys (objs (ix s)))" arbitrary: s rule: less_induct)
  case less
  show ?case
  proof (cases "idx_first key (ix s)")
    case None
    with less.prems run [of s] have "s' = s" by simp
    with idx_first_None [OF None] show ?thesis by simp
  next
    case (Some p)
    then obtain i v where first: "idx_first key (ix s) = Some (i, v)" by (cases p) auto
    show ?thesis
    proof (cases "key v \<le> now s")
      case True
      then obtain t where t: "step i v s = Inr t" "run t = Inr s'"
        using less.prems run [of s] first by (auto simp: ebind_Inr)
      have "card (fm_keys (objs (ix t))) < card (fm_keys (objs (ix s)))"
        unfolding step_ix [OF t(1)] by (rule idx_remove_smaller [OF idx_first_Some [OF first]])
      from less.hyps [OF this t(2)] show ?thesis
        using True idx_first_Some [OF first] step_now [OF t(1)]
        by (auto simp: step_ix [OF t(1)] split: option.splits)
    next
      case False
      with less.prems run [of s] first have "s' = s" by simp
      with False idx_first_least [OF first] show ?thesis by (force split: option.split)
    qed
  qed
qed

lemma run_none_expired: "run s = Inr s' \<Longrightarrow> idx_find (ix s') j = Some v \<Longrightarrow> now s' < key v"
  using run_left [of s s' j] by (auto split: option.splits if_splits)

end

section \<open>Invitations\<close>

function update_expired_invitations :: "database \<Rightarrow> database" where
  "update_expired_invitations d =
     (case idx_first iv_expiration (invitations d) of
        Some (i, invitation) \<Rightarrow>
          if iv_expiration invitation \<le> head_block_time d
          then update_expired_invitations
                 ((push_applied_operation (Player_invitation_expire (iv_inviter invitation) (iv_uid invitation)) d)
                    \<lparr>invitations := idx_remove i (invitations d)\<rparr>)
          else d
      | None \<Rightarrow> d)"
  by pat_completeness auto

termination
  by (relation "measure (\<lambda>d. card (fm_keys (objs (invitations d))))")
    (auto intro: idx_remove_smaller dest: idx_first_Some)

declare update_expired_invitations.simps [simp del]

interpretation invitation_expiry: expiry head_block_time invitations iv_expiration
  "\<lambda>i v d. Inr ((push_applied_operation (Player_invitation_expire (iv_inviter v) (iv_uid v)) d)
      \<lparr>invitations := idx_remove i (invitations d)\<rparr>)"
  "\<lambda>d. Inr (update_expired_invitations d)"
proof
  fix d
  show "Inr (update_expired_invitations d) = (case idx_first iv_expiration (invitations d) of
      None \<Rightarrow> Inr d
    | Some (i, v) \<Rightarrow> if iv_expiration v \<le> head_block_time d
        then ebind (Inr ((push_applied_operation (Player_invitation_expire (iv_inviter v) (iv_uid v)) d)
               \<lparr>invitations := idx_remove i (invitations d)\<rparr>)) (\<lambda>d. Inr (update_expired_invitations d))
        else Inr d)"
    by (subst update_expired_invitations.simps) (simp split: option.split)
qed auto

section \<open>Reservations\<close>

text \<open>
  A reservation that expires, or is replaced by another one of the same player at the same table, is
  announced; it counts nothing in the rating of the room.
\<close>

definition expire_measurement :: "pending_buy_in_id \<Rightarrow> database \<Rightarrow> database" where
  "expire_measurement b d =
     (case find_measurement d b of
        None \<Rightarrow> d
      | Some (j, m) \<Rightarrow>
          d\<lparr>measurements := idx_set j (m\<lparr>ms_waiting_resolve := False, ms_weight := 0\<rparr>) (measurements d)\<rparr>)"

definition push_pending_buy_expire_operation ::
    "pending_buy_in_id \<Rightarrow> pending_buy_in_object \<Rightarrow> bool \<Rightarrow> database \<Rightarrow> database res" where
  "push_pending_buy_expire_operation b buy_in expire_by_replacement d =
     (if PLAYCHAIN_NULL_TABLE \<noteq> pb_table buy_in then
        ebind (idx_get (tables d) (pb_table buy_in)) (\<lambda>t.
        ebind (table_owner d t) (\<lambda>owner.
          Inr (expire_measurement b
                (push_applied_operation
                  (Buy_in_reserving_expire (pb_player buy_in) (pb_uid buy_in) (pb_amount buy_in)
                     (pb_metadata buy_in) expire_by_replacement (Some (pb_table buy_in, owner))) d))))
      else Inr (push_applied_operation
                  (Buy_in_reserving_expire (pb_player buy_in) (pb_uid buy_in) (pb_amount buy_in)
                     (pb_metadata buy_in) expire_by_replacement None) d))"

definition expire_pending_buy_in :: "pending_buy_in_id \<Rightarrow> pending_buy_in_object \<Rightarrow> database \<Rightarrow> database res" where
  "expire_pending_buy_in b buy_in d =
     ebind (if is_allocated buy_in then
              ebind (idx_get (tables d) (pb_table buy_in)) (\<lambda>_.
              ebind (get_player d (pb_player buy_in)) (\<lambda>(pid, player).
                modify_table (pb_table buy_in) (\<lambda>t. Inr (remove_pending_proposal pid t)) d))
            else Inr d) (\<lambda>d.
     ebind (adjust_balance (pb_player buy_in) (pb_amount buy_in) d) (\<lambda>d.
     ebind (push_pending_buy_expire_operation b buy_in False d) (\<lambda>d.
       Inr (d\<lparr>pending_buy_ins := idx_remove b (pending_buy_ins d)\<rparr>))))"

lemma push_pending_buy_expire_frame:
  "push_pending_buy_expire_operation b buy_in r d = Inr d' \<Longrightarrow>
     same_funds d d' \<and> calm T d d' \<and> pending_buy_ins d' = pending_buy_ins d"
  by (auto simp: push_pending_buy_expire_operation_def expire_measurement_def res_simps idx_get_Inr
      split: if_splits option.splits)

lemma modify_table_frame:
  "modify_table i f d = Inr d' \<Longrightarrow> pending_buy_ins d' = pending_buy_ins d"
  by (auto simp: modify_table_Inr)

lemma adjust_balance_pending: "adjust_balance a delta d = Inr d' \<Longrightarrow> pending_buy_ins d' = pending_buy_ins d"
  by (rule adjust_balance_frame)

lemma expire_pending_buy_in_frame:
  "expire_pending_buy_in b buy_in d = Inr d' \<Longrightarrow> pending_buy_ins d' = idx_remove b (pending_buy_ins d)"
  by (auto simp: expire_pending_buy_in_def ebind_Inr adjust_balance_pending split: if_splits
      dest!: modify_table_frame push_pending_buy_expire_frame [of _ _ _ _ _ "{}"])

function update_expired_pending_buy_in :: "database \<Rightarrow> database res" where
  "update_expired_pending_buy_in d =
     (case idx_first pb_expiration (pending_buy_ins d) of
        Some (b, buy_in) \<Rightarrow>
          if pb_expiration buy_in \<le> head_block_time d
          then ebind (expire_pending_buy_in b buy_in d) update_expired_pending_buy_in
          else Inr d
      | None \<Rightarrow> Inr d)"
  by pat_completeness auto

termination
  by (relation "measure (\<lambda>d. card (fm_keys (objs (pending_buy_ins d))))")
    (auto simp: expire_pending_buy_in_frame intro!: idx_remove_smaller dest: idx_first_Some)

declare update_expired_pending_buy_in.simps [simp del]

lemma expire_pending_buy_in_time:
  "expire_pending_buy_in b buy_in d = Inr d' \<Longrightarrow> head_block_time d' = head_block_time d"
  by (auto simp: expire_pending_buy_in_def ebind_Inr modify_table_Inr set_table_def adjust_balance_frame calm_def
      split: if_splits dest!: push_pending_buy_expire_frame [of _ _ _ _ _ "{}"])

interpretation reservation_expiry: expiry head_block_time pending_buy_ins pb_expiration
  expire_pending_buy_in update_expired_pending_buy_in
  by unfold_locales
    (rule update_expired_pending_buy_in.simps, erule expire_pending_buy_in_frame, erule expire_pending_buy_in_time)

section \<open>Allocation of reservations to tables\<close>

text \<open>
  The tables in the order of the choice (\<^verbatim>\<open>by_table_choose_algorithm\<close>): by metadata, then by the
  number of occupied places, then the greater weight first, then by number.
\<close>

definition choose_key :: "table_object \<Rightarrow> string \<times> nat \<times> int" where
  "choose_key t = (tb_metadata t, unat (occupied_places t), - sint (weight t))"

text \<open>
  The range before hard fork 4 is modelled along the order of the index. The bounds of the code compare the weight with
  plain operators, against the order of the index, which \<^verbatim>\<open>range\<close> does not define.
\<close>

definition create_range_v1 :: "database \<Rightarrow> string \<Rightarrow> nat \<Rightarrow> nat \<Rightarrow> int \<Rightarrow> (table_id \<times> table_object) list" where
  "create_range_v1 d search_meta min_occupied_places max_occupied_places min_weight =
     filter (\<lambda>(i, t). (search_meta, min_occupied_places, - min_weight, 0) \<le>
                 (tb_metadata t, unat (occupied_places t), - sint (weight t), i) \<and>
               (tb_metadata t, unat (occupied_places t), - sint (weight t), i) \<le>
                 (search_meta, max_occupied_places, - (2 ^ 31 - 1), 2 ^ 32 - 1))
       (idx_by choose_key (tables d))"

definition create_range_v2 :: "database \<Rightarrow> string \<Rightarrow> nat \<Rightarrow> nat \<Rightarrow> (table_id \<times> table_object) list" where
  "create_range_v2 d search_meta min_occupied_places max_occupied_places =
     filter (\<lambda>(i, t). (search_meta, min_occupied_places) \<le> (tb_metadata t, unat (occupied_places t)) \<and>
               (tb_metadata t, unat (occupied_places t)) \<le> (search_meta, max_occupied_places))
       (idx_by choose_key (tables d))"

definition create_range :: "database \<Rightarrow> string \<Rightarrow> nat \<Rightarrow> nat \<Rightarrow> int \<Rightarrow> (table_id \<times> table_object) list" where
  "create_range d search_meta min_occupied_places max_occupied_places min_weight =
     (if HARDFORK_PLAYCHAIN_4_TIME \<le> head_block_time d
      then create_range_v2 d search_meta min_occupied_places max_occupied_places
      else create_range_v1 d search_meta min_occupied_places max_occupied_places min_weight)"

definition allocate_table ::
    "pending_buy_in_id \<Rightarrow> pending_buy_in_object \<Rightarrow> table_id \<Rightarrow> database \<Rightarrow> (pending_buy_in_id \<times> database) res" where
  "allocate_table b buy_in tid d =
     ebind (get_player d (pb_player buy_in)) (\<lambda>(pid, player).
     ebind (idx_get (tables d) tid) (\<lambda>t.
     let prev_proposal = fst (add_pending_proposal pid b t); t = snd (add_pending_proposal pid b t)
     in ebind (idx_get (rooms d) (tb_room t)) (\<lambda>room.
        let d = push_applied_operation
                  (Buy_in_reserving_allocated_table (pb_player buy_in) (pb_uid buy_in) (pb_amount buy_in)
                     (pb_metadata buy_in) tid (rm_owner room) (weight t) (rating room))
                  (set_table tid t d);
            d = d\<lparr>pending_buy_ins := idx_set b (buy_in\<lparr>pb_table := tid\<rparr>) (pending_buy_ins d)\<rparr>
        in ebind (idx_create (\<lambda>a c. ms_associated_buyin a = ms_associated_buyin c)
                    \<lparr>ms_created = head_block_time d,
                     ms_expiration = head_block_time d +
                       (room_rating_measurements_alive_periods (parameters d) * maintenance_interval d) mod 2 ^ 32,
                     ms_room = tb_room t, ms_table = tid, ms_associated_buyin = b, ms_weight = 0,
                     ms_waiting_resolve = True\<rparr> (measurements d)) (\<lambda>(j, ix).
             Inr (prev_proposal, d\<lparr>measurements := ix\<rparr>)))))"

text \<open>When a table suits a reservation.\<close>

definition suits :: "pending_buy_in_object \<Rightarrow> int \<Rightarrow> room_object \<Rightarrow> table_object \<Rightarrow> bool" where
  "suits buy_in min_weight room t \<longleftrightarrow>
     \<not> sint (weight t) < min_weight \<and>
     version_ext_eq (rm_protocol_version room) (pb_protocol_version buy_in) \<and>
     rm_owner room \<noteq> pb_player buy_in \<and>
     \<not> (asset_id (tb_min_accepted_proposal_asset t) \<noteq> asset_id (pb_amount buy_in) \<or>
         amount (pb_amount buy_in) < amount (tb_min_accepted_proposal_asset t)) \<and>
     \<not> (is_waiting_at_table t (pb_player_iternal buy_in) \<or> is_playing_player t (pb_player_iternal buy_in))"

fun find_in_range ::
    "(table_id \<times> table_object) list \<Rightarrow> pending_buy_in_id \<Rightarrow> pending_buy_in_object \<Rightarrow> int \<Rightarrow>
     pending_buy_in_id flat_set \<times> database \<Rightarrow> (bool \<times> pending_buy_in_id flat_set \<times> database) res" where
  "find_in_range [] b buy_in min_weight (prevs, d) = Inr (False, prevs, d)"
| "find_in_range ((tid, t) # rng) b buy_in min_weight (prevs, d) =
     (if sint (weight t) < min_weight then find_in_range rng b buy_in min_weight (prevs, d)
      else ebind (idx_get (rooms d) (tb_room t)) (\<lambda>room.
             if suits buy_in min_weight room t then
               ebind (allocate_table b buy_in tid d) (\<lambda>(prev_proposal, d).
                 Inr (True, if prev_proposal \<noteq> PLAYCHAIN_NULL_PENDING_BUYIN
                            then fs_insert prev_proposal prevs else prevs, d))
             else find_in_range rng b buy_in min_weight (prevs, d)))"

text \<open>
  One round of the search of a table: first among the tables with the desired number of players, then
  among all of them. The result is whether the search goes on outside of the range, whether this was
  the last round, and the state.
\<close>

definition allocation_round ::
    "pending_buy_in_id \<Rightarrow> bool \<Rightarrow> pending_buy_in_id flat_set \<times> database \<Rightarrow>
     (bool \<times> bool \<times> pending_buy_in_id flat_set \<times> database) res" where
  "allocation_round b lookup_out_range = (\<lambda>(prevs, d).
     ebind (idx_get (pending_buy_ins d) b) (\<lambda>buy_in.
     let p = parameters d;
         reachable_minimum = minimum_desired_number_of_players_for_tables_allocation p;
         reachable_maximum = (maximum_desired_number_of_players_for_tables_allocation p + (2 ^ 32 - 1)) mod 2 ^ 32;
         w = min_allowed_table_weight_to_be_allocated p;
         desired = create_range d (pb_metadata buy_in) reachable_minimum reachable_maximum w;
         reachable = create_range d (pb_metadata buy_in) 0 reachable_maximum w
     in if \<not> lookup_out_range \<and> desired \<noteq> []
        then ebind (find_in_range desired b buy_in w (prevs, d)) (\<lambda>(found, s). Inr (\<not> found, False, s))
        else ebind (find_in_range reachable b buy_in w (prevs, d)) (\<lambda>(found, s).
               Inr (\<not> found, lookup_out_range, s))))"

lemma allocation_round_last:
  assumes "allocation_round b lookup s = Inr (out, final, s')" and "out" and "\<not> final"
  shows "\<not> lookup"
  using assms by (cases s) (auto simp: allocation_round_def ebind_Inr Let_def split: if_splits)

function allocation_loop ::
    "pending_buy_in_id \<Rightarrow> bool \<Rightarrow> pending_buy_in_id flat_set \<times> database \<Rightarrow>
     (pending_buy_in_id flat_set \<times> database) res" where
  "allocation_loop b lookup_out_range s =
     ebind (allocation_round b lookup_out_range s) (\<lambda>r.
       if fst r \<and> \<not> fst (snd r) then allocation_loop b (fst r) (snd (snd r)) else Inr (snd (snd r)))"
  by pat_completeness auto

termination
  by (relation "measure (\<lambda>(b, lookup, s). if lookup then 0 else 1)")
    (auto dest: allocation_round_last)

declare allocation_loop.simps [simp del]

text \<open>The reservations a block allocates: the unallocated ones that expire first.\<close>

definition allocation_candidates :: "database \<Rightarrow> (pending_buy_in_id \<times> pending_buy_in_object) list" where
  "allocation_candidates d =
     take (pending_buy_in_allocate_per_block (parameters d))
       (takeWhile (\<lambda>(b, buy_in). \<not> is_allocated buy_in \<and> head_block_time d < pb_expiration buy_in)
         (idx_by (\<lambda>buy_in. (is_allocated buy_in, pb_expiration buy_in)) (pending_buy_ins d)))"

definition replace_proposal :: "pending_buy_in_id \<Rightarrow> database \<Rightarrow> database res" where
  "replace_proposal b d =
     ebind (idx_get (pending_buy_ins d) b) (\<lambda>buy_in.
     ebind (adjust_balance (pb_player buy_in) (pb_amount buy_in) d) (\<lambda>d.
     ebind (push_pending_buy_expire_operation b buy_in True d) (\<lambda>d.
       Inr (d\<lparr>pending_buy_ins := idx_remove b (pending_buy_ins d)\<rparr>))))"

definition allocation_of_vacancies :: "database \<Rightarrow> database res" where
  "allocation_of_vacancies d =
     ebind (efold (\<lambda>(b, buy_in) s. if b = PLAYCHAIN_NULL_PENDING_BUYIN then Inr s else allocation_loop b False s)
              (allocation_candidates d) (fm_empty, d)) (\<lambda>(prevs, d).
       efold replace_proposal (fs_items prevs) d)"

section \<open>Buy-ins, votings, games and heartbeats\<close>

text \<open>
  The objects to expire are collected first and processed then; the processing of one that an
  earlier one has removed would be an access to a removed object.
\<close>

definition expired :: "('a \<Rightarrow> time) \<Rightarrow> 'a index \<Rightarrow> time \<Rightarrow> nat list" where
  "expired key ix now = map fst (takeWhile (\<lambda>(i, v). key v \<le> now) (idx_by key ix))"

definition update_expired_buy_in :: "database \<Rightarrow> database res" where
  "update_expired_buy_in d =
     efold (\<lambda>j d.
       ebind (of_option Null_deref (idx_find (buy_ins d) j)) (\<lambda>b.
       ebind (idx_get (tables d) (bi_table b)) (\<lambda>t.
         if is_playing_player t (bi_player b) then prolong_life_for_by_in j d
         else expire_buy_in j (bi_table b) d)))
       (expired bi_expiration (buy_ins d) (head_block_time d)) d"

definition expire_voting :: "'h::linorder externals \<Rightarrow> nat \<Rightarrow> database \<Rightarrow> database res" where
  "expire_voting ext j d =
     ebind (of_option Null_deref (idx_find (votings d) j)) (\<lambda>tv.
     ebind (idx_get (tables d) (tv_table tv)) (\<lambda>t.
       if is_voting_for_playing tv then expire_voting_for_playing j (tv_table tv) d
       else if is_voting_for_results tv then expire_voting_for_results ext j (tv_table tv) d
       else Inr d))"

definition update_expired_table_voting :: "'h::linorder externals \<Rightarrow> database \<Rightarrow> database res" where
  "update_expired_table_voting ext d =
     efold (expire_voting ext) (expired tv_expiration (votings d) (head_block_time d)) d"

definition tally_scheduled :: "'h::linorder externals \<Rightarrow> nat \<Rightarrow> database \<Rightarrow> database res" where
  "tally_scheduled ext j d =
     ebind (of_option Null_deref (idx_find (votings d) j)) (\<lambda>tv.
     ebind (idx_get (tables d) (tv_table tv)) (\<lambda>t.
       if is_voting_for_playing tv then scheduled_voting_for_playing ext j (tv_table tv) d
       else if is_voting_for_results tv then scheduled_voting_for_results ext j (tv_table tv) d
       else Inr d))"

definition update_scheduled_voting :: "'h::linorder externals \<Rightarrow> database \<Rightarrow> database res" where
  "update_scheduled_voting ext d =
     efold (tally_scheduled ext) (expired tv_scheduled_voting (votings d) (head_block_time d)) d"

definition expire_game :: "table_id \<Rightarrow> database \<Rightarrow> database res" where
  "expire_game tid d =
     ebind (of_option Null_deref (idx_find (tables d) tid)) (\<lambda>t.
     ebind (table_owner d t) (\<lambda>owner.
       rollback_table tid (push_applied_operation (Game_event tid owner Fail_expire_game_lifetime) d)))"

definition update_expired_table_game :: "bool \<Rightarrow> database \<Rightarrow> database res" where
  "update_expired_table_game maintenance d =
     (if (maintenance_interval d * 10) mod 2 ^ 32 < game_lifetime_limit_in_seconds (parameters d) \<and> \<not> maintenance
      then Inr d
      else efold expire_game (expired game_expiration (tables d) (head_block_time d)) d)"

definition expire_alive :: "nat \<Rightarrow> table_alive_object \<Rightarrow> database \<Rightarrow> database res" where
  "expire_alive j alive d =
     ebind (idx_get (tables d) (al_table alive)) (\<lambda>t.
       set_weight (al_table alive) (d\<lparr>alives := idx_remove j (alives d)\<rparr>))"

lemma expire_alive_frame: "expire_alive j alive d = Inr d' \<Longrightarrow> alives d' = idx_remove j (alives d)"
  by (auto simp: expire_alive_def ebind_Inr elim!: set_weight_cases)

function update_expired_table_alive :: "database \<Rightarrow> database res" where
  "update_expired_table_alive d =
     (case idx_first al_expiration (alives d) of
        Some (j, alive) \<Rightarrow>
          if al_expiration alive \<le> head_block_time d
          then ebind (expire_alive j alive d) update_expired_table_alive
          else Inr d
      | None \<Rightarrow> Inr d)"
  by pat_completeness auto

termination
  by (relation "measure (\<lambda>d. card (fm_keys (objs (alives d))))")
    (auto simp: expire_alive_frame intro!: idx_remove_smaller dest: idx_first_Some)

declare update_expired_table_alive.simps [simp del]

lemma expire_alive_time: "expire_alive j alive d = Inr d' \<Longrightarrow> head_block_time d' = head_block_time d"
  by (auto simp: expire_alive_def ebind_Inr elim!: set_weight_cases)

interpretation alive_expiry: expiry head_block_time alives al_expiration expire_alive update_expired_table_alive
  by unfold_locales
    (rule update_expired_table_alive.simps, erule expire_alive_frame, erule expire_alive_time)

section \<open>The tasks of a block\<close>

definition process_block_tasks ::
    "'h::linorder externals \<Rightarrow> bool \<Rightarrow> database \<Rightarrow> database res" where
  "process_block_tasks ext maintenance d =
     (let d = update_expired_invitations d
      in ebind (if head_block_time d < HARDFORK_PLAYCHAIN_9_TIME then
                  ebind (update_expired_table_voting ext d) (\<lambda>d.
                  ebind (update_expired_table_game maintenance d) (\<lambda>d.
                  ebind (update_expired_pending_buy_in d) (\<lambda>d.
                  ebind (update_expired_buy_in d) (\<lambda>d.
                  ebind (update_expired_table_alive d) (\<lambda>d.
                    update_scheduled_voting ext d)))))
                else
                  ebind (update_scheduled_voting ext d) (\<lambda>d.
                  ebind (update_expired_table_voting ext d) (\<lambda>d.
                  ebind (update_expired_table_game maintenance d) (\<lambda>d.
                  ebind (update_expired_pending_buy_in d) (\<lambda>d.
                  ebind (update_expired_buy_in d) (\<lambda>d.
                    update_expired_table_alive d))))))
           allocation_of_vacancies)"

section \<open>A block keeps the invariant and the funds\<close>

lemma ends_soundI: "(\<And>d'. m = Inr d' \<Longrightarrow> calm {} d d' \<and> conserves d d') \<Longrightarrow> ends (sound d) m"
  by (auto simp: ends_def intro: sound_calm)

lemma update_expired_invitations_sound: "sound d (update_expired_invitations d)"
proof (induction d rule: update_expired_invitations.induct)
  case (1 d)
  have step: "sound d ((push_applied_operation op d)\<lparr>invitations := ix\<rparr>)" for op ix
    by (rule sound_same [OF sound_refl]) simp_all
  show ?case
  proof (cases "idx_first iv_expiration (invitations d)")
    case None
    then show ?thesis by (subst update_expired_invitations.simps) simp
  next
    case (Some p)
    obtain i invitation where p: "p = (i, invitation)" by (cases p)
    show ?thesis
      using sound_trans [OF step 1 [OF Some p [symmetric]]] Some p by (subst update_expired_invitations.simps) simp
  qed
qed

text \<open>A reservation that ends pays its amount back.\<close>

lemma return_reservation_conserves:
  assumes b: "idx_find (pending_buy_ins d) b = Some buy_in" and c: "conserves d d1"
    and p: "pending_buy_ins d1 = pending_buy_ins d"
    and a: "adjust_balance (pb_player buy_in) (pb_amount buy_in) d1 = Inr d2"
    and r: "push_pending_buy_expire_operation b buy_in r d2 = Inr d3"
  shows "conserves d (d3\<lparr>pending_buy_ins := idx_remove b (pending_buy_ins d3)\<rparr>)"
proof -
  note f = push_pending_buy_expire_frame [OF r, of "{}"]
  have "gives (\<lambda>x. 0 + funds x (pb_amount buy_in)) d d2"
    by (rule gives_trans [OF c adjust_balance_gives [OF a]])
  then have "gives (\<lambda>x. funds x (pb_amount buy_in)) d d3" using f by (auto intro: gives_post)
  moreover have "idx_find (pending_buy_ins d3) b = Some buy_in"
    using f b p adjust_balance_pending [OF a] by simp
  note remove_pending_buy_in_gives [OF this]
  ultimately have "gives (\<lambda>x. funds x (pb_amount buy_in) + - funds x (pb_amount buy_in)) d
      (d3\<lparr>pending_buy_ins := idx_remove b (pending_buy_ins d3)\<rparr>)"
    by (rule gives_trans)
  then show ?thesis by simp
qed

lemma leave_table_sound:
  "ends (\<lambda>d'. calm T d d' \<and> conserves d d') (modify_table i (\<lambda>t. Inr (remove_pending_proposal pid t)) d)"
proof (rule endsI)
  fix d' assume m: "modify_table i (\<lambda>t. Inr (remove_pending_proposal pid t)) d = Inr d'"
  have "calm T d d'" using m by (rule endsD [OF modify_table_calm, rotated]) (simp add: wp)
  moreover obtain t where t: "idx_find (tables d) i = Some t" and d': "d' = set_table i (remove_pending_proposal pid t) d"
    using m by (auto simp: modify_table_Inr)
  have "conserves d d'" unfolding d' by (rule set_table_gives [OF t]) (auto intro: wf_intros)
  ultimately show "calm T d d' \<and> conserves d d'" by blast
qed

lemma push_expire_calm: "ends (calm T d) (push_pending_buy_expire_operation b buy_in r d)"
  by (rule endsI) (blast dest: push_pending_buy_expire_frame)

lemma expire_pending_buy_in_sound:
  assumes b: "idx_find (pending_buy_ins d) b = Some buy_in"
  shows "ends (sound d) (expire_pending_buy_in b buy_in d)"
proof (rule ends_soundI)
  fix d' assume "expire_pending_buy_in b buy_in d = Inr d'"
  then obtain d1 d2 d3 where e: "(if is_allocated buy_in then
              ebind (idx_get (tables d) (pb_table buy_in)) (\<lambda>_.
              ebind (get_player d (pb_player buy_in)) (\<lambda>(pid, player).
                modify_table (pb_table buy_in) (\<lambda>t. Inr (remove_pending_proposal pid t)) d))
            else Inr d) = Inr d1"
    and a: "adjust_balance (pb_player buy_in) (pb_amount buy_in) d1 = Inr d2"
    and r: "push_pending_buy_expire_operation b buy_in False d2 = Inr d3"
    and d': "d' = d3\<lparr>pending_buy_ins := idx_remove b (pending_buy_ins d3)\<rparr>"
    unfolding expire_pending_buy_in_def ebind_Inr by blast
  have d1: "calm {} d d1 \<and> conserves d d1 \<and> pending_buy_ins d1 = pending_buy_ins d"
    using e by (auto simp: ebind_Inr split: if_splits dest: modify_table_frame endsD [OF leave_table_sound])
  moreover have "calm {} d1 d2" "calm {} d2 d3"
    using endsD [OF adjust_balance_calm a] endsD [OF push_expire_calm r] by auto
  then have "calm {} d1 d'" unfolding d' by (auto intro: calm_trans)
  ultimately show "calm {} d d' \<and> conserves d d'"
    using return_reservation_conserves [OF b _ _ a r] unfolding d' by (auto intro: calm_trans)
qed

lemma update_expired_pending_buy_in_sound: "ends (sound d) (update_expired_pending_buy_in d)"
proof (induction d rule: update_expired_pending_buy_in.induct)
  case (1 d)
  show ?case
  proof (cases "idx_first pb_expiration (pending_buy_ins d)")
    case None
    then show ?thesis by (subst update_expired_pending_buy_in.simps) (simp add: wp)
  next
    case (Some p)
    obtain b buy_in where p: "p = (b, buy_in)" by (cases p)
    note step = expire_pending_buy_in_sound [OF idx_first_Some [OF Some [unfolded p]]]
    show ?thesis
      using 1 Some p step
      by (subst update_expired_pending_buy_in.simps)
        (auto simp: wp ends_def ebind_Inr split: if_splits, blast intro: sound_trans)
  qed
qed

lemma replace_proposal_sound: "ends (sound d) (replace_proposal b d)"
proof (rule ends_soundI)
  fix d' assume "replace_proposal b d = Inr d'"
  then obtain buy_in d2 d3 where b: "idx_find (pending_buy_ins d) b = Some buy_in"
    and a: "adjust_balance (pb_player buy_in) (pb_amount buy_in) d = Inr d2"
    and r: "push_pending_buy_expire_operation b buy_in True d2 = Inr d3"
    and d': "d' = d3\<lparr>pending_buy_ins := idx_remove b (pending_buy_ins d3)\<rparr>"
    unfolding replace_proposal_def ebind_Inr idx_get_Inr by blast
  have "calm {} d d2" "calm {} d2 d3"
    using endsD [OF adjust_balance_calm a] endsD [OF push_expire_calm r] by auto
  then have "calm {} d d'" unfolding d' by (auto intro: calm_trans)
  moreover have "conserves d d'" unfolding d' by (rule return_reservation_conserves [OF b _ refl a r]) simp
  ultimately show "calm {} d d' \<and> conserves d d'" ..
qed

lemma allocate_table_sound:
  assumes b: "idx_find (pending_buy_ins d) b = Some buy_in"
  shows "ends (\<lambda>(p, d'). sound d d') (allocate_table b buy_in tid d)"
proof (rule endsI, clarify)
  fix prev d' assume "allocate_table b buy_in tid d = Inr (prev, d')"
  then obtain pid t op ix where t: "idx_find (tables d) tid = Some t"
    and d': "d' = (push_applied_operation op (set_table tid (snd (add_pending_proposal pid b t)) d))
       \<lparr>pending_buy_ins := idx_set b (buy_in\<lparr>pb_table := tid\<rparr>) (pending_buy_ins d), measurements := ix\<rparr>"
    by (auto simp: allocate_table_def ebind_Inr idx_get_Inr Let_def push_applied_operation_def)
  let ?d1 = "set_table tid (snd (add_pending_proposal pid b t)) d"
  have d1: "conserves d ?d1" "calm {} d ?d1"
    by (rule set_table_gives [OF t], auto intro: wf_intros calm_set_table [OF calm_refl t])
  have "conserves ?d1 (?d1\<lparr>pending_buy_ins := idx_set b (buy_in\<lparr>pb_table := tid\<rparr>) (pending_buy_ins d)\<rparr>)"
    using b by (auto simp: gives_def db_ok_def balances_ok_def held_def set_table_def
        intro!: wf_intros dest: idx_allD)
  then have "conserves d d'"
    unfolding d' by (auto intro!: gives_post [OF conserves_trans [OF d1(1)]]
        simp: same_funds_def push_applied_operation_def)
  moreover have "calm {} d d'" using d1(2) unfolding d' by simp
  ultimately show "sound d d'" by (blast intro: sound_calm)
qed

lemma find_in_range_sound:
  assumes "idx_find (pending_buy_ins d) b = Some buy_in"
  shows "ends (\<lambda>(found, prevs', d'). sound d d' \<and> (\<not> found \<longrightarrow> d' = d))
    (find_in_range rng b buy_in w (prevs, d))"
  using assms
proof (induction rng)
  case (Cons r rng)
  obtain tid t where r: "r = (tid, t)" by (cases r)
  have "ends (\<lambda>(p, d'). sound d d') (allocate_table b buy_in tid d)" by (rule allocate_table_sound [OF Cons.prems])
  then show ?case using Cons by (auto simp: r wp ends_def ebind_Inr split: if_splits)
qed (simp add: wp)

lemma allocation_round_sound:
  "ends (\<lambda>(out, final, prevs', d'). sound d d') (allocation_round b lookup (prevs, d))"
proof (rule endsI)
  fix r assume r: "allocation_round b lookup (prevs, d) = Inr r"
  then obtain buy_in where b: "idx_find (pending_buy_ins d) b = Some buy_in"
    by (auto simp: allocation_round_def ebind_Inr idx_get_Inr)
  then have "ends (\<lambda>(out, final, prevs', d'). sound d d') (allocation_round b lookup (prevs, d))"
    by (auto simp: allocation_round_def wp Let_def intro!: ends_mono [OF find_in_range_sound])
  then show "case r of (out, final, prevs', d') \<Rightarrow> sound d d'" using r by (rule endsD)
qed

lemma allocation_loop_sound: "ends (\<lambda>(prevs', d'). sound (snd s) d') (allocation_loop b lookup s)"
proof (induction b lookup s rule: allocation_loop.induct)
  case (1 b lookup s)
  obtain prevs d where s: "s = (prevs, d)" by (cases s)
  show ?case
  proof (rule endsI)
    fix r assume "allocation_loop b lookup s = Inr r"
    then have "ebind (allocation_round b lookup s) (\<lambda>r.
        if fst r \<and> \<not> fst (snd r) then allocation_loop b (fst r) (snd (snd r)) else Inr (snd (snd r))) = Inr r"
      by (simp only: allocation_loop.simps [of b lookup s])
    then obtain out final prevs1 d1 where a: "allocation_round b lookup s = Inr (out, final, prevs1, d1)"
      and r: "(if out \<and> \<not> final then allocation_loop b out (prevs1, d1) else Inr (prevs1, d1)) = Inr r"
      by (auto simp: ebind_Inr cong: if_cong)
    have "sound d d1" using endsD [OF allocation_round_sound a [unfolded s]] by simp
    moreover have "sound d1 (snd r)"
      using r 1 [OF a] by (cases r) (auto simp: ends_def split: if_splits)
    ultimately show "case r of (prevs', d') \<Rightarrow> sound (snd s) d'"
      by (auto simp: s split: prod.splits intro: sound_trans)
  qed
qed

lemma allocation_of_vacancies_sound: "ends (sound d) (allocation_of_vacancies d)"
proof -
  have "ends (\<lambda>s. sound d (snd s))
      (efold (\<lambda>(b, buy_in) s. if b = PLAYCHAIN_NULL_PENDING_BUYIN then Inr s else allocation_loop b False s)
         xs (fm_empty, d))" for xs
  proof (rule ends_efold)
    fix x and s :: "pending_buy_in_id flat_set \<times> database" assume "sound d (snd s)"
    then have "ends (\<lambda>s'. sound d (snd s')) (allocation_loop b False s)" for b
      by (intro ends_mono [OF allocation_loop_sound]) (auto intro: sound_trans)
    then show "ends (\<lambda>s. sound d (snd s))
        ((\<lambda>(b, buy_in) s. if b = PLAYCHAIN_NULL_PENDING_BUYIN then Inr s else allocation_loop b False s) x s)"
      using \<open>sound d (snd s)\<close> by (cases x) (simp add: wp)
  qed simp
  then show ?thesis
    unfolding allocation_of_vacancies_def ends_simps
    by (rule ends_mono) (auto intro: sound_seq [OF efold_sound [OF replace_proposal_sound]])
qed

lemma prolong_life_sound: "ends (sound d) (prolong_life_for_by_in j d)"
  by (rule ends_soundI) (blast intro: same_funds_conserves prolong_life_same_funds endsD [OF prolong_life_calm])

lemma expire_buy_in_sound: "ends (sound d) (expire_buy_in j tid d)"
  by (rule ends_soundI) (blast intro: expire_buy_in_conserves endsD [OF expire_buy_in_calm])

lemma update_expired_buy_in_sound: "ends (sound d) (update_expired_buy_in d)"
  unfolding update_expired_buy_in_def
  by (rule efold_sound) (auto simp: wp prolong_life_sound expire_buy_in_sound)

lemma update_expired_table_voting_sound: "ends (sound d) (update_expired_table_voting ext d)"
  unfolding update_expired_table_voting_def
  by (rule efold_sound)
    (auto simp: expire_voting_def wp intro: expire_voting_for_playing_sound expire_voting_for_results_sound)

lemma update_scheduled_voting_sound: "ends (sound d) (update_scheduled_voting ext d)"
  unfolding update_scheduled_voting_def
  by (rule efold_sound)
    (auto simp: tally_scheduled_def wp intro: scheduled_voting_for_playing_sound scheduled_voting_for_results_sound)

lemma push_sound: "sound d (push_applied_operation op d)"
  by (rule sound_same [OF sound_refl]) simp_all

lemma update_expired_table_game_sound: "ends (sound d) (update_expired_table_game maintenance d)"
proof -
  have "ends (sound e) (expire_game tid e)" for tid e
    by (auto simp: expire_game_def wp push_sound
        intro!: ends_reads [of _ "table_owner e t" for e t] rollback_sound [THEN sound_seq])
  then show ?thesis
    unfolding update_expired_table_game_def by (auto simp: wp intro: efold_sound)
qed

lemma expire_alive_sound: "ends (sound d) (expire_alive j alive d)"
proof (rule ends_soundI)
  fix d' assume "expire_alive j alive d = Inr d'"
  then have w: "set_weight (al_table alive) (d\<lparr>alives := idx_remove j (alives d)\<rparr>) = Inr d'"
    by (auto simp: expire_alive_def ebind_Inr)
  have "calm {} d d'" by (rule calm_trans [OF _ endsD [OF set_weight_calm w]]) simp
  moreover have "conserves d d'" by (rule gives_pre [OF _ set_weight_conserves [OF w]]) simp
  ultimately show "calm {} d d' \<and> conserves d d'" ..
qed

lemma update_expired_table_alive_sound: "ends (sound d) (update_expired_table_alive d)"
proof (induction d rule: update_expired_table_alive.induct)
  case (1 d)
  show ?case
  proof (cases "idx_first al_expiration (alives d)")
    case None
    then show ?thesis by (subst update_expired_table_alive.simps) (simp add: wp)
  next
    case (Some p)
    then show ?thesis
      using 1 expire_alive_sound [of d]
      by (subst update_expired_table_alive.simps)
        (auto simp: wp ends_def ebind_Inr split: if_splits prod.splits, blast intro: sound_trans)
  qed
qed

lemmas block_task_sounds = update_scheduled_voting_sound update_expired_table_voting_sound
  update_expired_table_game_sound update_expired_pending_buy_in_sound update_expired_buy_in_sound
  update_expired_table_alive_sound allocation_of_vacancies_sound

lemma process_block_tasks_sound: "ends (sound d) (process_block_tasks ext maintenance d)"
  unfolding process_block_tasks_def Let_def
  by (auto simp: wp intro!: block_task_sounds [THEN sound_seq] update_expired_invitations_sound)

section \<open>What the tasks of a block achieve\<close>

lemma find_in_range_found:
  assumes "find_in_range rng b buy_in w (prevs, d) = Inr (True, prevs', d')"
  shows "\<exists>tid t room prev. (tid, t) \<in> set rng \<and> idx_find (rooms d) (tb_room t) = Some room \<and>
    suits buy_in w room t \<and> allocate_table b buy_in tid d = Inr (prev, d')"
  using assms
proof (induction rng)
  case (Cons r rng)
  obtain tid t where r: "r = (tid, t)" by (cases r)
  from Cons show ?case by (fastforce simp: r ebind_Inr idx_get_Inr split: if_splits prod.splits)
qed simp

lemma create_range_v2_iff:
  "(tid, t) \<in> set (create_range_v2 d m lo hi) \<longleftrightarrow>
     idx_find (tables d) tid = Some t \<and> tb_metadata t = m \<and> lo \<le> unat (occupied_places t) \<and> unat (occupied_places t) \<le> hi"
  by (auto simp: create_range_v2_def idx_items_iff less_eq_prod_def)

lemma allocate_table_effect:
  assumes "allocate_table b buy_in tid d = Inr (prev, d')"
  shows "\<exists>pid player t'. get_player d (pb_player buy_in) = Inr (pid, player) \<and>
    idx_find (pending_buy_ins d') b = Some (buy_in\<lparr>pb_table := tid\<rparr>) \<and>
    idx_find (tables d') tid = Some t' \<and> fm_find (pending_proposals t') pid = Some b"
  using assms by (auto simp: allocate_table_def ebind_Inr idx_get_Inr Let_def push_applied_operation_def)

lemma allocation_round_found:
  assumes "allocation_round b lookup (prevs, d) = Inr (False, final, prevs', d')"
  shows "\<exists>buy_in lo prevs'. idx_find (pending_buy_ins d) b = Some buy_in \<and>
    find_in_range (create_range d (pb_metadata buy_in) lo
        ((maximum_desired_number_of_players_for_tables_allocation (parameters d) + (2 ^ 32 - 1)) mod 2 ^ 32)
        (min_allowed_table_weight_to_be_allocated (parameters d)))
      b buy_in (min_allowed_table_weight_to_be_allocated (parameters d)) (prevs, d) = Inr (True, prevs', d')"
  using assms by (auto simp: allocation_round_def ebind_Inr idx_get_Inr Let_def split: if_splits)

text \<open>
  C23: a reservation that a block allocates gets a table that suits it: heavy enough, of a room with the same
  major and minor protocol version that is not the player's own, with the metadata the player asked for, not full,
  that accepts the asset and the amount, and where the player has neither cash nor plays. The reservation then points
  to the table and the table holds the reservation as a proposal. (From hard fork 4 on.)
\<close>

theorem allocation_suits:
  assumes "allocation_round b lookup (prevs, d) = Inr (False, final, prevs', d')"
    and "HARDFORK_PLAYCHAIN_4_TIME \<le> head_block_time d"
  shows "\<exists>buy_in tid t room pid player t'.
    idx_find (pending_buy_ins d) b = Some buy_in \<and> get_player d (pb_player buy_in) = Inr (pid, player) \<and>
    idx_find (tables d) tid = Some t \<and> idx_find (rooms d) (tb_room t) = Some room \<and>
    min_allowed_table_weight_to_be_allocated (parameters d) \<le> sint (weight t) \<and>
    major_v (base (rm_protocol_version room)) = major_v (base (pb_protocol_version buy_in)) \<and>
    minor_v (base (rm_protocol_version room)) = minor_v (base (pb_protocol_version buy_in)) \<and>
    rm_owner room \<noteq> pb_player buy_in \<and>
    asset_id (tb_min_accepted_proposal_asset t) = asset_id (pb_amount buy_in) \<and>
    amount (tb_min_accepted_proposal_asset t) \<le> amount (pb_amount buy_in) \<and>
    pb_player_iternal buy_in \<notin> fm_keys (cash t) \<union> fm_keys (playing_cash t) \<and>
    tb_metadata t = pb_metadata buy_in \<and>
    unat (occupied_places t) \<le>
      (maximum_desired_number_of_players_for_tables_allocation (parameters d) + (2 ^ 32 - 1)) mod 2 ^ 32 \<and>
    idx_find (pending_buy_ins d') b = Some (buy_in\<lparr>pb_table := tid\<rparr>) \<and>
    idx_find (tables d') tid = Some t' \<and> fm_find (pending_proposals t') pid = Some b"
proof -
  obtain buy_in lo ps where b: "idx_find (pending_buy_ins d) b = Some buy_in"
    and f: "find_in_range (create_range d (pb_metadata buy_in) lo
        ((maximum_desired_number_of_players_for_tables_allocation (parameters d) + (2 ^ 32 - 1)) mod 2 ^ 32)
        (min_allowed_table_weight_to_be_allocated (parameters d)))
      b buy_in (min_allowed_table_weight_to_be_allocated (parameters d)) (prevs, d) = Inr (True, ps, d')"
    using allocation_round_found [OF assms(1)] by blast
  obtain tid t room prev where t: "(tid, t) \<in> set (create_range d (pb_metadata buy_in) lo
        ((maximum_desired_number_of_players_for_tables_allocation (parameters d) + (2 ^ 32 - 1)) mod 2 ^ 32)
        (min_allowed_table_weight_to_be_allocated (parameters d)))" "idx_find (rooms d) (tb_room t) = Some room"
      "suits buy_in (min_allowed_table_weight_to_be_allocated (parameters d)) room t"
    and a: "allocate_table b buy_in tid d = Inr (prev, d')"
    using find_in_range_found [OF f] by blast
  from allocate_table_effect [OF a] obtain pid player t' where
    "get_player d (pb_player buy_in) = Inr (pid, player)"
    "idx_find (pending_buy_ins d') b = Some (buy_in\<lparr>pb_table := tid\<rparr>)"
    "idx_find (tables d') tid = Some t'" "fm_find (pending_proposals t') pid = Some b" by blast
  with b t assms(2) show ?thesis unfolding create_range_def create_range_v2_iff
    by (intro exI [of _ buy_in] exI [of _ tid] exI [of _ t] exI [of _ room] exI [of _ pid] exI [of _ player]
        exI [of _ t'])
      (simp add: create_range_v2_iff suits_def version_ext_eq_def is_waiting_at_table_def is_playing_player_def not_less)
qed

definition sample_waiting :: database where
  "sample_waiting = sample_db\<lparr>pending_buy_ins :=
     of_objects [\<lparr>pb_player = 3, pb_uid = [], pb_amount = core_asset 0, pb_metadata = [],
          pb_protocol_version = \<lparr>base = 0, vmetadata = []\<rparr>, pb_created = 0, pb_expiration = time_max,
          pb_table = 0, pb_player_iternal = 0\<rparr>,
        \<lparr>pb_player = 12, pb_uid = ''u'', pb_amount = core_asset 100, pb_metadata = ''t'',
          pb_protocol_version = rm_protocol_version sample_room, pb_created = 1599999990,
          pb_expiration = 1600000100, pb_table = 0, pb_player_iternal = 2\<rparr>,
        \<lparr>pb_player = 13, pb_uid = ''v'', pb_amount = core_asset 50, pb_metadata = ''t'',
          pb_protocol_version = rm_protocol_version sample_room, pb_created = 1599999900,
          pb_expiration = 1600000000, pb_table = 0, pb_player_iternal = 3\<rparr>]\<rparr>"

theorem allocation_suits_witness:
  "\<exists>final prevs d' tid t. allocation_round 1 True (fm_empty, sample_waiting) = Inr (False, final, prevs, d') \<and>
    idx_find (tables sample_waiting) tid = Some t \<and> tb_metadata t = ''t'' \<and>
    map_option pb_table (idx_find (pending_buy_ins d') 1) = Some tid"
proof -
  let ?r = "allocation_round 1 True (fm_empty, sample_waiting)"
  have "case ?r of Inr (False, x) \<Rightarrow> True | _ \<Rightarrow> False" by code_simp
  then obtain final prevs' d' where r: "?r = Inr (False, final, prevs', d')"
    by (auto split: sum.splits bool.splits prod.splits)
  have h: "HARDFORK_PLAYCHAIN_4_TIME \<le> head_block_time sample_waiting" by code_simp
  have m: "map_option pb_metadata (idx_find (pending_buy_ins sample_waiting) 1) = Some ''t''" by code_simp
  from allocation_suits [OF r h] obtain buy_in tid t where
    "idx_find (pending_buy_ins sample_waiting) 1 = Some buy_in" "idx_find (tables sample_waiting) tid = Some t"
    "tb_metadata t = pb_metadata buy_in" "idx_find (pending_buy_ins d') 1 = Some (buy_in\<lparr>pb_table := tid\<rparr>)"
    by blast
  with m r show ?thesis
    by (intro exI [of _ final] exI [of _ prevs'] exI [of _ d'] exI [of _ tid] exI [of _ t]) simp
qed

text \<open>
  C24: the expiry of reservations ends and removes exactly the reservations whose time has come; the
  funds of every asset are kept, so what was reserved is back on the accounts.
\<close>

theorem reservations_expire:
  assumes "update_expired_pending_buy_in d = Inr d'" and "chain_ok d"
  shows "idx_find (pending_buy_ins d') b =
      (case idx_find (pending_buy_ins d) b of
         None \<Rightarrow> None
       | Some r \<Rightarrow> if pb_expiration r \<le> head_block_time d then None else Some r) \<and>
    (\<forall>x. held x d' = held x d) \<and> chain_ok d'"
  using reservation_expiry.run_left [OF assms(1)] endsD [OF update_expired_pending_buy_in_sound assms(1)] assms(2)
  by (simp add: sound_def)

theorem reservations_expire_witness:
  "map fst (idx_items (pending_buy_ins (result_of sample_db (update_expired_pending_buy_in sample_waiting)))) = [0, 1] \<and>
   held 0 (result_of sample_db (update_expired_pending_buy_in sample_waiting)) = held 0 sample_waiting"
proof -
  let ?r = "update_expired_pending_buy_in sample_waiting"
  have "succeeds ?r" by code_simp
  then have r: "?r = Inr (result_of sample_db ?r)" by (rule succeedsE)
  have "db_ok sample_waiting" "HARDFORK_PLAYCHAIN_10_TIME \<le> head_block_time sample_waiting" by code_simp+
  then have ok: "chain_ok sample_waiting" by (simp add: chain_ok_def votes_ok_def sample_waiting_def sample_db_def)
  have "map fst (idx_items (pending_buy_ins (result_of sample_db ?r))) = [0, 1]" by code_simp
  with reservations_expire [OF r ok] show ?thesis by blast
qed

text \<open>A table that is left without a heartbeat has a negative weight, unless nothing happened to it.\<close>

definition weighed_down :: "database \<Rightarrow> database \<Rightarrow> bool" where
  "weighed_down d d' \<longleftrightarrow>
     (\<forall>i t. idx_find (tables d') i = Some t \<longrightarrow> 0 \<le> sint (weight t) \<longrightarrow>
        is_table_alive d' i \<or> idx_find (tables d) i = Some t \<and> \<not> is_table_alive d i)"

lemma weighed_down_refl: "weighed_down d d"
  by (auto simp: weighed_down_def)

lemma weighed_down_trans: "weighed_down d e \<Longrightarrow> weighed_down e f \<Longrightarrow> weighed_down d f"
  unfolding weighed_down_def by blast

lemma is_table_alive_iff: "is_table_alive d i \<longleftrightarrow> (\<exists>j a. idx_find (alives d) j = Some a \<and> al_table a = i)"
  using idx_lookup_None [of "\<lambda>j a. al_table a = i" "alives d"] by (auto simp: is_table_alive_def find_alive_def)

lemma set_weight_negative:
  assumes "set_weight i d = Inr d'" and "HARDFORK_PLAYCHAIN_2_TIME \<le> head_block_time d"
    and "idx_find (tables d') i = Some t" and "0 \<le> sint (weight t)"
  shows "is_table_alive d i"
  using set_weight_value [OF assms(1,2)] assms(3,4) by (auto split: if_splits)

lemma expire_alive_weights:
  assumes "expire_alive j alive d = Inr d'" and "HARDFORK_PLAYCHAIN_2_TIME \<le> head_block_time d"
    and "idx_find (alives d) j = Some alive"
  shows "weighed_down d d'"
  unfolding weighed_down_def
proof (intro allI impI)
  let ?e = "d\<lparr>alives := idx_remove j (alives d)\<rparr>"
  fix i t assume t: "idx_find (tables d') i = Some t" "0 \<le> sint (weight t)"
  have w: "set_weight (al_table alive) ?e = Inr d'" using assms(1) by (auto simp: expire_alive_def ebind_Inr)
  have alives: "alives d' = alives ?e" using w by (auto elim!: set_weight_cases)
  then have e: "is_table_alive d' i \<longleftrightarrow> is_table_alive ?e i" by (simp add: is_table_alive_iff)
  show "is_table_alive d' i \<or> idx_find (tables d) i = Some t \<and> \<not> is_table_alive d i"
  proof (cases "i = al_table alive")
    case True
    with set_weight_negative [OF w] t assms(2) e show ?thesis by simp
  next
    case False
    then have "idx_find (tables d) i = Some t" using w t(1) by (auto elim!: set_weight_cases)
    moreover have "is_table_alive d' i" if alive: "is_table_alive d i"
    proof -
      obtain k a where k: "idx_find (alives d) k = Some a" "al_table a = i" using alive by (auto simp: is_table_alive_iff)
      with False assms(3) have "k \<noteq> j" by auto
      with k show ?thesis by (auto simp: is_table_alive_iff alives)
    qed
    ultimately show ?thesis by blast
  qed
qed

lemma update_expired_alive_weights:
  "update_expired_table_alive d = Inr d' \<Longrightarrow> HARDFORK_PLAYCHAIN_2_TIME \<le> head_block_time d \<Longrightarrow> weighed_down d d'"
proof (induction d rule: update_expired_table_alive.induct)
  case (1 d)
  show ?case
  proof (cases "idx_first al_expiration (alives d)")
    case None
    then show ?thesis using 1 by (simp add: update_expired_table_alive.simps [of d] weighed_down_refl)
  next
    case (Some p)
    then obtain j alive where first: "idx_first al_expiration (alives d) = Some (j, alive)" by (cases p) auto
    show ?thesis
    proof (cases "al_expiration alive \<le> head_block_time d")
      case True
      then obtain e where e: "expire_alive j alive d = Inr e" "update_expired_table_alive e = Inr d'"
        using 1 first by (auto simp: update_expired_table_alive.simps [of d] ebind_Inr)
      have "weighed_down d e" by (rule expire_alive_weights [OF e(1) 1(3) idx_first_Some [OF first]])
      moreover have "weighed_down e d'" using 1(1) [OF first refl True e(1)] e(2) 1(3) expire_alive_time [OF e(1)] by simp
      ultimately show ?thesis by (rule weighed_down_trans)
    next
      case False
      then show ?thesis using 1 first by (simp add: update_expired_table_alive.simps [of d] weighed_down_refl)
    qed
  qed
qed

text \<open>
  C25: after the expiry of heartbeats exactly those in the future are left, and a table whose weight is not negative
  then has one, unless it had none before and is as it was: every table that lost its last heartbeat got a
  negative weight. (From hard fork 2 on.)
\<close>

theorem heartbeats_expire:
  assumes "update_expired_table_alive d = Inr d'" and "HARDFORK_PLAYCHAIN_2_TIME \<le> head_block_time d"
  shows "idx_find (alives d') j =
      (case idx_find (alives d) j of
         None \<Rightarrow> None
       | Some a \<Rightarrow> if al_expiration a \<le> head_block_time d then None else Some a) \<and>
    (\<forall>i t. idx_find (tables d') i = Some t \<longrightarrow> 0 \<le> sint (weight t) \<longrightarrow>
       is_table_alive d' i \<or> idx_find (tables d) i = Some t \<and> \<not> is_table_alive d i)"
  using alive_expiry.run_left [OF assms(1)] update_expired_alive_weights [OF assms] unfolding weighed_down_def by blast

text \<open>Table 1 loses its heartbeat; the null table never had one and weighs nothing.\<close>

definition sample_dying :: database where
  "sample_dying = sample_db\<lparr>head_block_time := 1600000600\<rparr>"

theorem heartbeats_expire_witness:
  "idx_items (alives (result_of sample_db (update_expired_table_alive sample_dying))) = [] \<and>
   (\<exists>t. idx_find (tables (result_of sample_db (update_expired_table_alive sample_dying))) 1 = Some t \<and> sint (weight t) < 0) \<and>
   map_option weight (idx_find (tables (result_of sample_db (update_expired_table_alive sample_dying))) 0) = Some 0"
proof -
  let ?r = "update_expired_table_alive sample_dying"
  let ?d = "result_of sample_db ?r"
  have "succeeds ?r" by code_simp
  then have r: "?r = Inr ?d" by (rule succeedsE)
  have h: "HARDFORK_PLAYCHAIN_2_TIME \<le> head_block_time sample_dying" by code_simp
  have dead: "\<not> is_table_alive ?d 1" "is_table_alive sample_dying 1" "map_option tb_room (idx_find (tables ?d) 1) = Some 1" by code_simp+
  then obtain t where t: "idx_find (tables ?d) 1 = Some t" by (cases "idx_find (tables ?d) 1") simp_all
  with dead(1,2) have "sint (weight t) < 0" using heartbeats_expire [OF r h] not_less by blast
  moreover have "idx_items (alives ?d) = []" "map_option weight (idx_find (tables ?d) 0) = Some 0" by code_simp+
  ultimately show ?thesis using t by blast
qed

end
