(* ===== verification/Double.thy ===== *)
theory Double
  imports Complex_Main
begin

text \<open>
  Double precision numbers as far as the rating of rooms computes with them: a number is an integer
  mantissa and a power of two; the operations round their exact result to 53 bits, to the nearest, ties
  to even. Neither overflow nor subnormal numbers nor special values occur in the range of the ratings.
\<close>

datatype double = Dyadic (mantissa: int) (exponent: int)

fun bit_length :: "int \<Rightarrow> int" where
  "bit_length n = (if n \<le> 0 then 0 else 1 + bit_length (n div 2))"

declare bit_length.simps [simp del]

lemma bit_length_nonneg: "0 \<le> bit_length n"
  by (induction n rule: bit_length.induct) (simp add: bit_length.simps)

definition round_shift :: "int \<Rightarrow> nat \<Rightarrow> int" where
  "round_shift m k =
     (let q = m div 2 ^ k; r = 2 * (m mod 2 ^ k)
      in if r < 2 ^ k \<or> (r = 2 ^ k \<and> even q) then q else q + 1)"

definition rounded :: "int \<Rightarrow> int \<Rightarrow> double" where
  "rounded m e =
     (let k = nat (bit_length \<bar>m\<bar> - 53)
      in if k = 0 then Dyadic m e else Dyadic (sgn m * round_shift \<bar>m\<bar> k) (e + int k))"

fun dbl_mult :: "double \<Rightarrow> double \<Rightarrow> double" where
  "dbl_mult (Dyadic m e) (Dyadic n f) = rounded (m * n) (e + f)"

fun dbl_add :: "double \<Rightarrow> double \<Rightarrow> double" where
  "dbl_add (Dyadic m e) (Dyadic n f) =
     (let g = min e f in rounded (m * 2 ^ nat (e - g) + n * 2 ^ nat (f - g)) g)"

text \<open>Division by a positive integer: more bits than needed, the last of which tells a remainder.\<close>

fun dbl_div :: "double \<Rightarrow> int \<Rightarrow> double" where
  "dbl_div (Dyadic m e) n =
     (let a = \<bar>m\<bar> * 2 ^ 120
      in rounded (sgn m * (2 * (a div n) + (if a mod n = 0 then 0 else 1))) (e - 121))"

definition dbl_of_int :: "int \<Rightarrow> double" where
  "dbl_of_int n = rounded n 0"

text \<open>The conversion of a double to an integer drops the fraction.\<close>

fun dbl_trunc :: "double \<Rightarrow> int" where
  "dbl_trunc (Dyadic m e) = (if 0 \<le> e then m * 2 ^ nat e else sgn m * (\<bar>m\<bar> div 2 ^ nat (- e)))"

section \<open>Bounds\<close>

text \<open>The real value of a double, and bounds that the operations keep.\<close>

definition dbl_val :: "double \<Rightarrow> real" where
  "dbl_val x = of_int (mantissa x) * 2 powi exponent x"

lemma round_shift_bounds:
  assumes "0 \<le> m"
  shows "0 \<le> round_shift m k" and "round_shift m k * 2 ^ k \<le> 2 * m"
proof -
  have m: "m div 2 ^ k * 2 ^ k + m mod 2 ^ k = m" by (rule div_mult_mod_eq)
  have "0 \<le> m div 2 ^ k" using assms by (simp add: pos_imp_zdiv_nonneg_iff)
  then show "0 \<le> round_shift m k" by (simp add: round_shift_def Let_def)
  have "(0::int) < 2 ^ k" by simp
  then have "0 \<le> m mod 2 ^ k" by (rule pos_mod_sign)
  with m assms have "m div 2 ^ k * 2 ^ k \<le> 2 * m" by linarith
  moreover have "m div 2 ^ k * 2 ^ k + 2 ^ k \<le> 2 * m" if "\<not> 2 * (m mod 2 ^ k) < 2 ^ k"
  proof -
    have "0 \<le> m div 2 ^ k * 2 ^ k" using \<open>0 \<le> m div 2 ^ k\<close> by simp
    then show ?thesis using m that by linarith
  qed
  ultimately show "round_shift m k * 2 ^ k \<le> 2 * m" by (auto simp: round_shift_def Let_def distrib_right)
qed

lemma rounded_sign: "m \<le> 0 \<Longrightarrow> mantissa (rounded m e) \<le> 0" "0 \<le> m \<Longrightarrow> 0 \<le> mantissa (rounded m e)"
  using round_shift_bounds(1) [of "\<bar>m\<bar>"] by (auto simp: rounded_def Let_def sgn_if)

text \<open>Rounding never more than doubles a value: enough for the bounds on the factors.\<close>

lemma rounded_le:
  assumes "0 \<le> m"
  shows "dbl_val (rounded m e) \<le> 2 * (of_int m * 2 powi e)"
proof -
  have r: "dbl_val (Dyadic (round_shift m k) (e + int k)) \<le> 2 * (of_int m * 2 powi e)" for k
  proof -
    have "real_of_int (round_shift m k * 2 ^ k) \<le> real_of_int (2 * m)"
      using round_shift_bounds(2) [OF assms] by (simp only: of_int_le_iff)
    then have "real_of_int (round_shift m k) * 2 ^ k * 2 powi e \<le> 2 * real_of_int m * 2 powi e"
      by (intro mult_right_mono) simp_all
    then show ?thesis by (simp add: dbl_val_def power_int_add mult_ac)
  qed
  have "0 \<le> real_of_int m * 2 powi e" using assms by simp
  then show ?thesis
    using r [of "nat (bit_length m - 53)"] assms by (cases "m = 0") (auto simp: rounded_def Let_def dbl_val_def)
qed

lemma dbl_mult_le:
  assumes "0 \<le> mantissa x" and "0 \<le> mantissa y" and "dbl_val x \<le> a" and "dbl_val y \<le> b"
  shows "0 \<le> mantissa (dbl_mult x y)" and "dbl_val (dbl_mult x y) \<le> 2 * (a * b)"
proof -
  obtain m e n f where xy: "x = Dyadic m e" "y = Dyadic n f" by (cases x; cases y)
  show "0 \<le> mantissa (dbl_mult x y)" using assms(1,2) by (simp add: xy rounded_sign)
  have "0 \<le> dbl_val x" "0 \<le> dbl_val y" using assms(1,2) by (simp_all add: dbl_val_def)
  then have "dbl_val x * dbl_val y \<le> a * b" using assms(3,4) by (intro mult_mono) simp_all
  moreover have "dbl_val x * dbl_val y = of_int (m * n) * 2 powi (e + f)"
    by (simp add: xy dbl_val_def power_int_add)
  moreover have "dbl_val (dbl_mult x y) \<le> 2 * (of_int (m * n) * 2 powi (e + f))"
    using assms(1,2) rounded_le [of "m * n" "e + f"] by (simp add: xy)
  ultimately show "dbl_val (dbl_mult x y) \<le> 2 * (a * b)" by simp
qed

lemma dbl_add_le:
  assumes "0 \<le> mantissa x" and "0 \<le> mantissa y" and "dbl_val x \<le> a" and "dbl_val y \<le> b"
  shows "0 \<le> mantissa (dbl_add x y)" and "dbl_val (dbl_add x y) \<le> 2 * (a + b)"
proof -
  obtain m e n f where xy: "x = Dyadic m e" "y = Dyadic n f" by (cases x; cases y)
  let ?g = "min e f" and ?s = "m * 2 ^ nat (e - min e f) + n * 2 ^ nat (f - min e f)"
  have s: "0 \<le> ?s" using assms(1,2) by (simp add: xy)
  then show "0 \<le> mantissa (dbl_add x y)" by (simp add: xy Let_def rounded_sign)
  have shift: "(2::real) ^ nat (h - ?g) * 2 powi ?g = 2 powi h" if "?g \<le> h" for h
  proof -
    have "(2::real) ^ nat (h - ?g) = 2 powi (h - ?g)" using that by (simp add: power_int_def)
    then show ?thesis by (simp add: power_int_diff)
  qed
  have "of_int ?s * 2 powi ?g = dbl_val x + dbl_val y"
    using shift [of e] shift [of f] by (simp add: xy dbl_val_def distrib_right mult.assoc)
  then show "dbl_val (dbl_add x y) \<le> 2 * (a + b)"
    using rounded_le [OF s, of ?g] assms(3,4) by (simp add: xy Let_def)
qed

lemma dbl_trunc_le_val:
  assumes "0 \<le> mantissa x" and "dbl_val x \<le> of_int b"
  shows "0 \<le> dbl_trunc x" "dbl_trunc x \<le> b"
proof -
  obtain m e where x: "x = Dyadic m e" by (cases x)
  show "0 \<le> dbl_trunc x" using assms(1) by (auto simp: x sgn_if pos_imp_zdiv_nonneg_iff)
  show "dbl_trunc x \<le> b"
  proof (cases "0 \<le> e")
    case True
    then have "real_of_int (m * 2 ^ nat e) \<le> of_int b" using assms(2) by (simp add: x dbl_val_def power_int_def)
    then show ?thesis using True by (simp only: of_int_le_iff x) simp
  next
    case False
    then have "2 powi e = inverse ((2::real) ^ nat (- e))" by (simp add: power_int_def power_one_over inverse_eq_divide)
    then have "real_of_int m / 2 ^ nat (- e) \<le> of_int b" using assms(2) by (simp add: x dbl_val_def divide_inverse)
    then have "real_of_int m \<le> of_int b * 2 ^ nat (- e)" by (simp add: pos_divide_le_eq)
    then have "real_of_int m \<le> of_int (b * 2 ^ nat (- e))" by simp
    then have "m \<le> b * 2 ^ nat (- e)" by (simp only: of_int_le_iff)
    then have "m div 2 ^ nat (- e) \<le> b * 2 ^ nat (- e) div 2 ^ nat (- e)" by (rule zdiv_mono1) simp
    then show ?thesis using False assms(1) by (auto simp: x sgn_if)
  qed
qed

end
