(* ===== verification/Room_Rating.thy ===== *)
theory Room_Rating
  imports Deposit_Fees Block_Tasks Double
begin

text \<open>
  The rating of rooms and the weight of tables, recomputed at the maintenance interval
  (\<^verbatim>\<open>room_rating.cpp\<close>). The sums are 64-bit and the quotient 128-bit unsigned numbers that wrap
  around, the factors are computed with doubles. The values of \<^verbatim>\<open>std::exp\<close> and \<^verbatim>\<open>std::log\<close>, which
  the standard leaves to the implementation, the conversion \<^verbatim>\<open>fc::uint128::to_integer\<close> and the entropy
  of the block chain are parameters. The results: the ratings touch neither funds nor votings; no
  expired measurement is left; the fade of a measurement with its age; when there is no room whose
  rating is to be recomputed the average is a division by zero.
\<close>

record rating_lib =
  std_exp :: "double \<Rightarrow> double"
  std_log :: "double \<Rightarrow> double"
  to_integer :: "128 word \<Rightarrow> 32 word res"
  database_entropy :: "64 word"

section \<open>Factors\<close>

abbreviation (input) ROOM_RATING_PRECISION :: int where "ROOM_RATING_PRECISION \<equiv> 1000"
abbreviation (input) TIME_FACTOR_FADE_START :: nat where "TIME_FACTOR_FADE_START \<equiv> 30"
abbreviation (input) QUANTITY_FACTOR_FADE_START :: nat where "QUANTITY_FACTOR_FADE_START \<equiv> 100"

text \<open>The doubles nearest to 1.06, -0.003, 0.03, 0.5, 0.005 and 0.76974.\<close>

definition TIME_FACTOR_C1 :: double where "TIME_FACTOR_C1 = Dyadic 4773815605012726 (- 52)"
definition TIME_FACTOR_C2 :: double where "TIME_FACTOR_C2 = Dyadic (- 6917529027641082) (- 61)"
definition TIME_FACTOR_C3 :: double where "TIME_FACTOR_C3 = Dyadic 8646911284551352 (- 58)"
definition QUANTITY_FACTOR_C1 :: double where "QUANTITY_FACTOR_C1 = Dyadic 1 (- 1)"
definition QUANTITY_FACTOR_C2 :: double where "QUANTITY_FACTOR_C2 = Dyadic 5764607523034235 (- 60)"
definition QUANTITY_FACTOR_C4 :: double where "QUANTITY_FACTOR_C4 = Dyadic 6933201554344331 (- 53)"

definition adjust_precision :: "double \<Rightarrow> 64 word" where
  "adjust_precision x = of_int (dbl_trunc (dbl_mult (dbl_of_int ROOM_RATING_PRECISION) x))"

definition time_factor :: "rating_lib \<Rightarrow> nat \<Rightarrow> 64 word" where
  "time_factor lib x =
     (if x \<le> TIME_FACTOR_FADE_START then of_int (ROOM_RATING_PRECISION * int x)
      else adjust_precision
             (dbl_add (dbl_mult TIME_FACTOR_C1 (std_exp lib (dbl_mult TIME_FACTOR_C2 (dbl_of_int (int x)))))
                TIME_FACTOR_C3))"

definition quantity_factor :: "rating_lib \<Rightarrow> nat \<Rightarrow> 64 word" where
  "quantity_factor lib N =
     (if N \<le> QUANTITY_FACTOR_FADE_START
      then adjust_precision (dbl_add QUANTITY_FACTOR_C1 (dbl_mult (dbl_of_int (int N)) QUANTITY_FACTOR_C2))
      else adjust_precision (dbl_add (dbl_div (std_log lib (dbl_of_int (int N))) 20) QUANTITY_FACTOR_C4))"

definition stat_correction :: "64 word" where
  "stat_correction = of_int (ROOM_RATING_PRECISION * 25)"

section \<open>Pseudo-random numbers\<close>

definition get_pseudo_random :: "64 word \<Rightarrow> 64 word \<Rightarrow> 64 word \<Rightarrow> 64 word \<Rightarrow> 64 word" where
  "get_pseudo_random entropy pos mn mx =
     (let k = push_bit 32 entropy + pos * 2685821657736338717;
          k = xor k (drop_bit 12 k);
          k = xor k (push_bit 25 k);
          k = xor k (drop_bit 27 k);
          k = k * 2685821657736338717
      in mn + k mod mx)"

definition random_next :: "64 word \<Rightarrow> nat \<Rightarrow> 16 word" where
  "random_next entropy pos = ucast (get_pseudo_random entropy (of_nat pos) 1 0xfff)"

section \<open>Measurements\<close>

function remove_expired_room_rating_measurements :: "database \<Rightarrow> database" where
  "remove_expired_room_rating_measurements d =
     (case idx_first ms_expiration (measurements d) of
        Some (i, m) \<Rightarrow>
          if ms_expiration m \<le> head_block_time d
          then remove_expired_room_rating_measurements (d\<lparr>measurements := idx_remove i (measurements d)\<rparr>)
          else d
      | None \<Rightarrow> d)"
  by pat_completeness auto

termination
  by (relation "measure (\<lambda>d. card (fm_keys (objs (measurements d))))")
    (auto intro: idx_remove_smaller dest: idx_first_Some)

declare remove_expired_room_rating_measurements.simps [simp del]

definition minutes_since :: "database \<Rightarrow> room_rating_measurement_object \<Rightarrow> nat" where
  "minutes_since d m = (head_block_time d - ms_created m) div 60"

definition used_measurements :: "database \<Rightarrow> room_id \<Rightarrow> room_rating_measurement_object list" where
  "used_measurements d room =
     filter (\<lambda>m. ms_room m = room \<and> \<not> ms_waiting_resolve m) (map snd (idx_items (measurements d)))"

definition recalculate_room_rating_factors :: "rating_lib \<Rightarrow> room_id \<Rightarrow> database \<Rightarrow> database res" where
  "recalculate_room_rating_factors lib room d =
     ebind (idx_get (rooms d) room) (\<lambda>r.
       let ms = used_measurements d room
       in Inr (d\<lparr>rooms := idx_set room
            (r\<lparr>weight_sum_by_time_factor := (\<Sum>m \<leftarrow> ms. ucast (ms_weight m) * time_factor lib (minutes_since d m)),
               measurement_sum_by_time_factor := (\<Sum>m \<leftarrow> ms. time_factor lib (minutes_since d m)),
               measurement_quantity := of_nat (length ms)\<rparr>) (rooms d)\<rparr>))"

section \<open>Ratings\<close>

definition recalculate_room_rating ::
    "rating_lib \<Rightarrow> 64 word \<Rightarrow> 64 word \<Rightarrow> room_id \<Rightarrow> database \<Rightarrow> database res" where
  "recalculate_room_rating lib constC_weight constC_measurement room d =
     ebind (idx_get (rooms d) room) (\<lambda>r.
       let constC_measurement = max constC_measurement 1;
           n = (ucast (weight_sum_by_time_factor r) * ucast constC_measurement +
                ucast (constC_weight * stat_correction)) * 25 *
               ucast (quantity_factor lib (unat (measurement_quantity r))) :: 128 word;
           m = constC_measurement * (measurement_sum_by_time_factor r + stat_correction)
       in if m = 0 then Inl Div_by_zero
          else ebind (to_integer lib (n div ucast m)) (\<lambda>new_rating.
                 Inr (d\<lparr>rooms := idx_set room
                   (r\<lparr>prev_rating := rating r, rating := new_rating, last_rating_update := head_block_time d\<rparr>)
                   (rooms d)\<rparr>)))"

text \<open>
  The rooms whose rating is recomputed: those updated longest ago first, without the special room and
  without rooms whose tables still wait for the weight of an earlier rating; the last ones do not
  count.
\<close>

fun select_rooms :: "nat \<Rightarrow> (room_id \<times> room_object) list \<Rightarrow> room_id list" where
  "select_rooms limit [] = []"
| "select_rooms limit ((i, r) # rs) =
     (if limit = 0 then []
      else if i = PLAYCHAIN_NULL_ROOM then select_rooms (limit - 1) rs
      else if last_updated_table r \<noteq> 0 then select_rooms limit rs
      else i # select_rooms (limit - 1) rs)"

definition sum_ratings :: "(room_object \<Rightarrow> 64 word) \<Rightarrow> room_id list \<Rightarrow> database \<Rightarrow> 64 word res" where
  "sum_ratings f rs d = efold (\<lambda>i s. ebind (idx_get (rooms d) i) (\<lambda>r. Inr (s + f r))) rs 0"

definition average_rating :: "room_id list \<Rightarrow> database \<Rightarrow> database res" where
  "average_rating rs d =
     ebind (sum_ratings (\<lambda>r. scast (rating r)) rs d) (\<lambda>s.
       if rs = [] then Inl Div_by_zero
       else Inr (d\<lparr>average_room_rating := s div of_nat (length rs)\<rparr>))"

section \<open>Ratings before hard fork 5\<close>

definition recalculate_rating_simple_impl :: "rating_lib \<Rightarrow> nat \<Rightarrow> room_id \<Rightarrow> database \<Rightarrow> database res" where
  "recalculate_rating_simple_impl lib pos room d =
     ebind (idx_get (rooms d) room) (\<lambda>r.
       Inr (d\<lparr>rooms := idx_set room
         (r\<lparr>prev_rating := rating r,
            rating := or (and (rating r) (not 0xffff)) (ucast (random_next (database_entropy lib) pos)),
            last_rating_update := head_block_time d\<rparr>) (rooms d)\<rparr>))"

text \<open>
  The iteration is over the index that the iteration changes: the room after the current one is
  taken before the current one moves to its new place.
\<close>

definition rooms_from :: "database \<Rightarrow> room_id \<Rightarrow> (room_id \<times> room_object) list" where
  "rooms_from d i = dropWhile (\<lambda>(j, r). j \<noteq> i) (idx_by last_rating_update (rooms d))"

definition next_room :: "database \<Rightarrow> room_id \<Rightarrow> room_id option" where
  "next_room d i = (case rooms_from d i of _ # (j, _) # _ \<Rightarrow> Some j | _ \<Rightarrow> None)"

lemma rooms_from_next:
  assumes "next_room d i = Some j"
  shows "length (rooms_from d j) < length (rooms_from d i)"
proof -
  have shift: "dropWhile (\<lambda>(k, r). k \<noteq> fst y) xs = y # zs"
    if "distinct (map fst xs)" "dropWhile (\<lambda>(k, r). k \<noteq> i) xs = x # y # zs"
    for xs x y and zs :: "(room_id \<times> room_object) list"
    using that
  proof (induction xs)
    case (Cons p xs)
    have "fst y \<in> set (map fst xs)" if "fst p \<noteq> i"
      using Cons.prems that set_dropWhileD [of y "\<lambda>(k, r). k \<noteq> i" xs] by (cases p) auto
    with Cons show ?case by (cases p; cases y) (auto split: if_splits)
  qed simp
  obtain x r zs where "rooms_from d i = x # (j, r) # zs"
    using assms by (auto simp: next_room_def split: list.splits)
  moreover have "distinct (map fst (idx_by last_rating_update (rooms d)))"
    using fm_items_distinct [of "objs (rooms d)"] by (simp add: idx_by_def idx_items_def distinct_map)
  ultimately have "rooms_from d j = (j, r) # zs"
    unfolding rooms_from_def by (intro shift [where y = "(j, r)", simplified])
  with \<open>rooms_from d i = x # (j, r) # zs\<close> show ?thesis by simp
qed


function simple_rating_loop :: "rating_lib \<Rightarrow> nat \<Rightarrow> nat \<Rightarrow> room_id option \<Rightarrow> database \<Rightarrow> database res" where
  "simple_rating_loop lib limit pos None d = Inr d"
| "simple_rating_loop lib limit pos (Some i) d =
     (if limit = 0 then Inr d
      else ebind (idx_get (rooms d) i) (\<lambda>r.
             let itr = next_room d i
             in if i = PLAYCHAIN_NULL_ROOM then simple_rating_loop lib (limit - 1) pos itr d
                else if last_updated_table r \<noteq> 0 then simple_rating_loop lib limit pos itr d
                else ebind (recalculate_rating_simple_impl lib pos i d)
                       (simple_rating_loop lib (limit - 1) (pos + 1) itr)))"
  by pat_completeness auto

termination
  by (relation "(\<lambda>(lib, limit, pos, itr, d). limit) <*mlex*>
        measure (\<lambda>(lib, limit, pos, itr, d). case itr of None \<Rightarrow> 0 | Some i \<Rightarrow> Suc (length (rooms_from d i)))")
    (auto simp: mlex_prod_def wf_mlex rooms_from_next split: option.splits)

definition update_room_rating_simple_impl :: "rating_lib \<Rightarrow> database \<Rightarrow> database res" where
  "update_room_rating_simple_impl lib d =
     (if fm_size (objs (rooms d)) = 1 then Inr d
      else simple_rating_loop lib (rooms_rating_recalculations_per_maintenance (parameters d)) 0
             (map_option fst (idx_first last_rating_update (rooms d))) d)"

section \<open>The maintenance of ratings\<close>

definition update_room_rating :: "rating_lib \<Rightarrow> database \<Rightarrow> database res" where
  "update_room_rating lib d =
     (let d = remove_expired_room_rating_measurements d
      in if head_block_time d < HARDFORK_PLAYCHAIN_5_TIME then update_room_rating_simple_impl lib d
         else if fm_size (objs (rooms d)) = 1 then Inr d
         else let rs = select_rooms (rooms_rating_recalculations_per_maintenance (parameters d))
                         (idx_by last_rating_update (rooms d))
              in ebind (efold (recalculate_room_rating_factors lib) rs d) (\<lambda>d.
                 ebind (sum_ratings weight_sum_by_time_factor rs d) (\<lambda>constC_weight.
                 ebind (sum_ratings measurement_sum_by_time_factor rs d) (\<lambda>constC_measurement.
                 ebind (efold (recalculate_room_rating lib constC_weight constC_measurement) rs d) (\<lambda>d.
                   average_rating rs d)))))"

text \<open>
  The tables from the last updated one of the room on, in the order of rooms and numbers; the walk
  is not bounded by the tables of the room.
\<close>

definition tables_by_room_from :: "database \<Rightarrow> room_id \<Rightarrow> table_id \<Rightarrow> table_id list" where
  "tables_by_room_from d room tid =
     map fst (filter (\<lambda>(i, t). (room, tid) \<le> (tb_room t, i)) (idx_by tb_room (tables d)))"

fun weigh_tables :: "nat \<Rightarrow> nat \<Rightarrow> table_id \<Rightarrow> table_id list \<Rightarrow> database \<Rightarrow> (nat \<times> table_id \<times> database) res" where
  "weigh_tables limit ci last_updated [] d = Inr (ci, last_updated, d)"
| "weigh_tables limit ci last_updated (i # is) d =
     (if ci < limit then
        if i = PLAYCHAIN_NULL_TABLE then weigh_tables limit (ci + 1) last_updated is d
        else ebind (set_weight i d) (weigh_tables limit (ci + 1) i is)
      else Inr (ci + 1, last_updated, d))"

definition update_room_tables :: "room_id \<Rightarrow> database \<Rightarrow> database res" where
  "update_room_tables room d =
     ebind (idx_get (rooms d) room) (\<lambda>r.
     let limit = tables_weight_recalculations_per_maintenance (parameters d)
     in ebind (weigh_tables limit 0 (last_updated_table r)
                 (tables_by_room_from d room (last_updated_table r)) d) (\<lambda>(ci, last_updated, d).
        ebind (idx_get (rooms d) room) (\<lambda>r.
          Inr (d\<lparr>rooms := idx_set room
            (if limit \<le> ci then r\<lparr>last_updated_table := last_updated\<rparr>
             else r\<lparr>last_updated_table := 0, prev_rating := rating r\<rparr>) (rooms d)\<rparr>))))"

definition is_not_changed_rating :: "room_object \<Rightarrow> bool" where
  "is_not_changed_rating r \<longleftrightarrow> rating r = prev_rating r"

definition update_table_weight :: "database \<Rightarrow> database res" where
  "update_table_weight d =
     efold update_room_tables (map fst (filter (\<lambda>(i, r). \<not> is_not_changed_rating r) (idx_items (rooms d)))) d"


section \<open>Ratings touch no funds\<close>

lemma set_room_sound:
  assumes "idx_find (rooms d) i = Some r" and "pending_rake r' = pending_rake r"
  shows "sound d (d\<lparr>rooms := idx_set i r' (rooms d)\<rparr>)"
  by (rule sound_calm) (use assms in \<open>auto intro: set_room_gives\<close>)

lemma remove_measurements_sound: "sound d (remove_expired_room_rating_measurements d)"
proof (induction d rule: remove_expired_room_rating_measurements.induct)
  case (1 d)
  have step: "sound d (d\<lparr>measurements := m\<rparr>)" for m by (rule sound_same [OF sound_refl]) simp_all
  show ?case
  proof (cases "idx_first ms_expiration (measurements d)")
    case (Some p)
    obtain i m where p: "p = (i, m)" by (cases p)
    have "sound (d\<lparr>measurements := idx_remove i (measurements d)\<rparr>)
        (remove_expired_room_rating_measurements (d\<lparr>measurements := idx_remove i (measurements d)\<rparr>))"
      if "ms_expiration m \<le> head_block_time d"
      using 1 [OF Some] p that by auto
    then show ?thesis
      using Some p by (subst remove_expired_room_rating_measurements.simps) (auto intro: sound_trans [OF step])
  qed (subst remove_expired_room_rating_measurements.simps, simp)
qed

lemma recalculate_factors_sound: "ends (sound d) (recalculate_room_rating_factors lib room d)"
  by (auto simp: recalculate_room_rating_factors_def wp Let_def intro: set_room_sound)

lemma recalculate_rating_sound: "ends (sound d) (recalculate_room_rating lib w m room d)"
  by (auto simp: recalculate_room_rating_def wp Let_def intro!: endsI intro: set_room_sound)

lemma recalculate_simple_sound: "ends (sound d) (recalculate_rating_simple_impl lib pos room d)"
  by (auto simp: recalculate_rating_simple_impl_def wp intro: set_room_sound)

lemma simple_rating_loop_sound: "ends (sound d) (simple_rating_loop lib limit pos itr d)"
proof (induction lib limit pos itr d rule: simple_rating_loop.induct)
  case (2 lib limit pos i d)
  have "ends (sound d) (ebind (recalculate_rating_simple_impl lib pos i d)
      (simple_rating_loop lib (limit - 1) (pos + 1) (next_room d i)))"
    if "limit \<noteq> 0" "idx_find (rooms d) i = Some r" "i \<noteq> PLAYCHAIN_NULL_ROOM" "last_updated_table r = 0" for r
    using endsD [OF recalculate_simple_sound] 2(3) that
    by (fastforce simp: ends_def ebind_Inr idx_get_Inr intro: sound_trans)
  then show ?case
    using 2(1,2) by (auto simp: wp Let_def idx_get_Inr)
qed (simp_all add: wp)

lemma average_rating_sound: "ends (sound d) (average_rating rs d)"
proof -
  have "sound d (d\<lparr>average_room_rating := a\<rparr>)" for a
    by (rule sound_calm) (auto simp: gives_def db_ok_def balances_ok_def held_def)
  then show ?thesis by (auto simp: average_rating_def ends_def ebind_Inr split: if_splits)
qed

lemma update_room_rating_sound: "ends (sound d) (update_room_rating lib d)"
proof -
  let ?e = "remove_expired_room_rating_measurements d"
  have "ends (sound ?e) (update_room_rating_simple_impl lib ?e)"
    by (simp add: update_room_rating_simple_impl_def wp simple_rating_loop_sound)
  moreover have "ends (sound ?e) (ebind (efold (recalculate_room_rating_factors lib) rs ?e) (\<lambda>d.
                 ebind (sum_ratings weight_sum_by_time_factor rs d) (\<lambda>w.
                 ebind (sum_ratings measurement_sum_by_time_factor rs d) (\<lambda>m.
                 ebind (efold (recalculate_room_rating lib w m) rs d) (average_rating rs)))))" for rs
    using endsD [OF efold_sound [OF recalculate_factors_sound]] endsD [OF efold_sound [OF recalculate_rating_sound]]
      endsD [OF average_rating_sound]
    by (fastforce simp: ends_def ebind_Inr intro: sound_trans)
  ultimately have "ends (sound ?e) (update_room_rating lib d)"
    unfolding update_room_rating_def Let_def
    by (cases "head_block_time ?e < HARDFORK_PLAYCHAIN_5_TIME"; cases "fm_size (objs (rooms ?e)) = 1")
      (simp_all only: if_True if_False simp_thms ends_simps(1) sound_refl)
  then show ?thesis by (rule sound_seq [OF _ remove_measurements_sound])
qed

lemma set_weight_sound: "ends (sound d) (set_weight i d)"
  by (rule ends_soundI) (blast intro: set_weight_conserves endsD [OF set_weight_calm])

lemma weigh_tables_sound: "ends (\<lambda>(ci, i, e). sound d e) (weigh_tables limit ci l is d)"
proof (induction limit ci l "is" d rule: weigh_tables.induct)
  case (2 limit ci l i "is" d)
  have "ends (\<lambda>(ci, i, e). sound d e) (weigh_tables limit (ci + 1) i is e)"
    if "ci < limit" "i \<noteq> PLAYCHAIN_NULL_TABLE" "set_weight i d = Inr e" for e
    by (rule ends_mono [OF 2(2) [OF that]]) (auto intro: sound_trans [OF endsD [OF set_weight_sound that(3)]])
  then show ?case using 2(1) by (auto simp: wp ends_def ebind_Inr)
qed (simp add: wp)

lemma update_table_weight_sound: "ends (sound d) (update_table_weight d)"
proof -
  have "ends (sound d) (update_room_tables room d)" for room d
    unfolding update_room_tables_def Let_def
    by (auto simp: wp split: prod.splits
        intro!: ends_mono [OF weigh_tables_sound] intro: sound_trans [OF _ set_room_sound])
  then show ?thesis unfolding update_table_weight_def by (rule efold_sound)
qed

section \<open>What the ratings count\<close>

interpretation measurement_expiry: expiry head_block_time measurements ms_expiration
  "\<lambda>i m d. Inr (d\<lparr>measurements := idx_remove i (measurements d)\<rparr>)"
  "\<lambda>d. Inr (remove_expired_room_rating_measurements d)"
  by unfold_locales (auto simp: remove_expired_room_rating_measurements.simps split: option.split)

text \<open>
  A library for the ratings that can be computed: one half for the exponential, the number of bits
  for the logarithm, the conversion that fails when the number does not fit.
\<close>

fun sample_exp :: "double \<Rightarrow> double" where
  "sample_exp x = Dyadic 1 (- 1)"

fun sample_log :: "double \<Rightarrow> double" where
  "sample_log x = dbl_of_int (bit_length (dbl_trunc x))"

fun sample_to_integer :: "128 word \<Rightarrow> 32 word res" where
  "sample_to_integer q = (if q < 4294967296 then Inr (ucast q) else Inl Overflow)"

definition sample_lib :: rating_lib where
  "sample_lib =
     \<lparr>std_exp = sample_exp, std_log = sample_log, to_integer = sample_to_integer, database_entropy = 1\<rparr>"

text \<open>
  A measurement counts the more the older it is, up to the thirtieth minute, and after it for
  less than a third of that: at the age of zero it does not count at all.
\<close>

theorem time_factor_jump:
  assumes "\<And>y. mantissa y \<le> 0 \<Longrightarrow> 0 \<le> mantissa (std_exp lib y) \<and> dbl_val (std_exp lib y) \<le> 1"
  shows "time_factor lib 0 = 0 \<and> time_factor lib 30 = 30000 \<and>
    (30 < x \<longrightarrow> unat (time_factor lib x) \<le> 8720)"
proof (intro conjI impI)
  show "time_factor lib 0 = 0" "time_factor lib 30 = 30000" by (simp_all add: time_factor_def)
  assume x: "30 < x"
  let ?y = "dbl_mult TIME_FACTOR_C2 (dbl_of_int (int x))"
  let ?e = "std_exp lib ?y"
  have "0 \<le> mantissa (dbl_of_int (int x))" by (simp add: dbl_of_int_def rounded_sign)
  then have "mantissa ?y \<le> 0"
    by (cases "dbl_of_int (int x)") (auto simp: TIME_FACTOR_C2_def intro!: rounded_sign mult_nonpos_nonneg)
  with assms have e: "0 \<le> mantissa ?e" "dbl_val ?e \<le> 1" by blast+
  have c1: "0 \<le> mantissa TIME_FACTOR_C1" "dbl_val TIME_FACTOR_C1 \<le> 106 / 100 + 1 / 100"
    and c3: "0 \<le> mantissa TIME_FACTOR_C3" "dbl_val TIME_FACTOR_C3 \<le> 4 / 100"
    and k: "0 \<le> mantissa (dbl_of_int ROOM_RATING_PRECISION)" "dbl_val (dbl_of_int ROOM_RATING_PRECISION) \<le> 1000"
    by (simp_all add: TIME_FACTOR_C1_def TIME_FACTOR_C3_def dbl_val_def power_int_def power_one_over dbl_of_int_def rounded_def
        bit_length.simps Let_def)
  note a = dbl_mult_le [OF c1(1) e(1) c1(2) e(2)]
  note b = dbl_add_le [OF a(1) c3(1) a(2) c3(2)]
  note c = dbl_mult_le [OF k(1) b(1) k(2) b(2)]
  let ?z = "dbl_mult (dbl_of_int ROOM_RATING_PRECISION) (dbl_add (dbl_mult TIME_FACTOR_C1 ?e) TIME_FACTOR_C3)"
  have "dbl_val ?z \<le> of_int 8720" using c(2) by simp
  from dbl_trunc_le_val [OF c(1) this] have "0 \<le> dbl_trunc ?z" "dbl_trunc ?z \<le> 8720" .
  moreover have "unat (of_int n :: 64 word) \<le> 8720" if "0 \<le> n" "n \<le> 8720" for n
    using that by (simp add: unsigned_of_int take_bit_int_eq_self)
  ultimately show "unat (time_factor lib x) \<le> 8720" using x by (simp add: time_factor_def adjust_precision_def)
qed

lemma select_rooms_waiting:
  "\<forall>(i, r) \<in> set rs. i \<noteq> PLAYCHAIN_NULL_ROOM \<longrightarrow> last_updated_table r \<noteq> 0 \<Longrightarrow> select_rooms limit rs = []"
  by (induction limit rs rule: select_rooms.induct) auto

theorem time_factor_jump_witness:
  "time_factor sample_lib 0 = 0 \<and> time_factor sample_lib 30 = 30000 \<and> unat (time_factor sample_lib 31) \<le> 8720"
  using time_factor_jump [of sample_lib 31] by (simp add: sample_lib_def dbl_val_def power_int_def)

text \<open>The maintenance removes exactly the measurements whose time has come.\<close>

theorem measurements_expire:
  "idx_find (measurements (remove_expired_room_rating_measurements d)) j =
    (case idx_find (measurements d) j of
       None \<Rightarrow> None
     | Some m \<Rightarrow> if ms_expiration m \<le> head_block_time d then None else Some m)"
  using measurement_expiry.run_left [OF refl] by blast

text \<open>
  C26: while every room waits for the weights of its tables, no room is selected for a new rating
  and the average over the selected rooms divides by zero.
\<close>

theorem rating_division_by_zero:
  assumes "HARDFORK_PLAYCHAIN_5_TIME \<le> head_block_time d" and "fm_size (objs (rooms d)) \<noteq> 1"
    and "\<And>i r. idx_find (rooms d) i = Some r \<Longrightarrow> i \<noteq> PLAYCHAIN_NULL_ROOM \<Longrightarrow> last_updated_table r \<noteq> 0"
  shows "update_room_rating lib d = Inl Div_by_zero"
proof -
  let ?e = "remove_expired_room_rating_measurements d"
  have frame: "rooms ?e = rooms d \<and> head_block_time ?e = head_block_time d"
  proof (induction d rule: remove_expired_room_rating_measurements.induct)
    case (1 d)
    then show ?case by (subst (1 2) remove_expired_room_rating_measurements.simps) (auto split: option.splits)
  qed
  have "select_rooms n (idx_by last_rating_update (rooms d)) = []" for n
    by (rule select_rooms_waiting) (use assms(3) in \<open>auto simp: idx_items_iff\<close>)
  with frame assms(1,2) show ?thesis by (simp add: update_room_rating_def Let_def average_rating_def sum_ratings_def)
qed

definition sample_waiting_room :: room_object where
  "sample_waiting_room = sample_room\<lparr>last_updated_table := 2\<rparr>"

theorem rating_division_by_zero_witness:
  "update_room_rating sample_lib (sample_db\<lparr>rooms := of_objects [new_room\<lparr>rm_owner := 4\<rparr>, sample_waiting_room]\<rparr>) =
     Inl Div_by_zero"
proof -
  let ?d = "sample_db\<lparr>rooms := of_objects [new_room\<lparr>rm_owner := 4\<rparr>, sample_waiting_room]\<rparr>"
  have h: "HARDFORK_PLAYCHAIN_5_TIME \<le> head_block_time ?d" "fm_size (objs (rooms ?d)) \<noteq> 1" by code_simp+
  have "list_all (\<lambda>(i, r). i \<noteq> PLAYCHAIN_NULL_ROOM \<longrightarrow> last_updated_table r \<noteq> 0) (idx_items (rooms ?d))" by code_simp
  then have "\<And>i r. idx_find (rooms ?d) i = Some r \<Longrightarrow> i \<noteq> PLAYCHAIN_NULL_ROOM \<Longrightarrow> last_updated_table r \<noteq> 0"
    by (fastforce simp: list_all_iff idx_items_iff [symmetric])
  from rating_division_by_zero [OF h this] show ?thesis by simp
qed

end
