(* ===== verification/Committee.thy ===== *)
theory Committee
  imports Room_Rating
begin

unbundle bit_operations_syntax

text \<open>
  The games committee (\<^verbatim>\<open>playchain_committee_member_evaluator.cpp\<close>, \<^verbatim>\<open>committee_applying.cpp\<close>,
  \<^verbatim>\<open>vote_count.hpp\<close>, \<^verbatim>\<open>vote.hpp\<close>): members register with a vote number, at the maintenance the members
  with the most votes become the committee and get the authority of the committee account in proportion
  to their votes, and the parameters that a proposal of the committee has set come into force. The votes
  are tallied by the Graphene core; the tally is an argument. The results: the elected are exactly the
  members with the most votes, their weights fit 16 bits, the threshold is a strict majority of the
  weights that can be reached, and the committee only sets parameters that pass the validation.
\<close>

section \<open>Vote numbers\<close>

datatype vote_type = Vote_committee | Vote_witness | Vote_worker | Vote_playchain_committee

primrec vote_type_value :: "vote_type \<Rightarrow> 32 word" where
  "vote_type_value Vote_committee = 0"
| "vote_type_value Vote_witness = 1"
| "vote_type_value Vote_worker = 2"
| "vote_type_value Vote_playchain_committee = 3"

definition mk_vote_id :: "vote_type \<Rightarrow> 32 word \<Rightarrow> 32 word" where
  "mk_vote_id type instance = push_bit 8 instance OR vote_type_value type"

definition vote_instance :: "32 word \<Rightarrow> 32 word" where
  "vote_instance content = drop_bit 8 content"

definition vote_id_type :: "32 word \<Rightarrow> 32 word" where
  "vote_id_type content = content AND 0xff"

definition get_next_vote_id :: "vote_type \<Rightarrow> database \<Rightarrow> 32 word \<times> database" where
  "get_next_vote_id type d =
     (mk_vote_id type (next_available_vote_id d),
      d\<lparr>next_available_vote_id := next_available_vote_id d + 1\<rparr>)"

section \<open>Operations\<close>

record playchain_committee_member_create_operation =
  pcc_fee :: asset
  pcc_account :: account_id
  pcc_url :: string

record playchain_committee_member_update_operation =
  pcu_fee :: asset
  pcu_committee_member :: nat
  pcu_account :: account_id
  pcu_new_url :: "string option"

text \<open>
  The three versions of the operation that sets the parameters differ in the fields they carry; the
  fields that an old version does not have get their defaults.
\<close>

datatype parameters_version = Params_v1 | Params_v2 | Params_v3

record playchain_committee_member_update_parameters_operation =
  pcp_fee :: asset
  pcp_version :: parameters_version
  pcp_new_parameters :: playchain_parameters

definition GRAPHENE_MAX_URL_LENGTH :: nat where "GRAPHENE_MAX_URL_LENGTH = 127"

definition committee_member_create_validate :: "playchain_committee_member_create_operation \<Rightarrow> unit res" where
  "committee_member_create_validate op =
     ebind (check (0 \<le> amount (pcc_fee op)) ''fee.amount >= 0'') (\<lambda>_.
       check (length (pcc_url op) < GRAPHENE_MAX_URL_LENGTH) ''url.size()'')"

definition committee_member_update_validate :: "playchain_committee_member_update_operation \<Rightarrow> unit res" where
  "committee_member_update_validate op =
     ebind (check (0 \<le> amount (pcu_fee op)) ''fee.amount >= 0'') (\<lambda>_.
       case pcu_new_url op of
         None \<Rightarrow> Inr ()
       | Some u \<Rightarrow> check (length u < GRAPHENE_MAX_URL_LENGTH) ''new_url->size()'')"

definition committee_update_parameters_validate ::
    "playchain_committee_member_update_parameters_operation \<Rightarrow> unit res" where
  "committee_update_parameters_validate op =
     ebind (check (0 \<le> amount (pcp_fee op)) ''fee.amount >= 0'') (\<lambda>_.
       parameters_validate (pcp_new_parameters op))"

definition to_parameters_v3 :: "parameters_version \<Rightarrow> playchain_parameters \<Rightarrow> playchain_parameters" where
  "to_parameters_v3 version p =
     (case version of
        Params_v1 \<Rightarrow>
          p\<lparr>table_alive_expiration_seconds := table_alive_expiration_seconds default_parameters,
            room_rating_measurements_alive_periods := room_rating_measurements_alive_periods default_parameters,
            min_votes_for_playing := min_votes_for_playing default_parameters\<rparr>
      | Params_v2 \<Rightarrow> p\<lparr>min_votes_for_playing := min_votes_for_playing default_parameters\<rparr>
      | Params_v3 \<Rightarrow> p)"

section \<open>The evaluators\<close>

definition committee_member_create_evaluate ::
    "database \<Rightarrow> playchain_committee_member_create_operation \<Rightarrow> unit res" where
  "committee_member_create_evaluate d op =
     check (is_game_witness_account d (pcc_account op)) ''Account must be the game witness''"

definition committee_member_create_apply ::
    "playchain_committee_member_create_operation \<Rightarrow> database \<Rightarrow> database res" where
  "committee_member_create_apply op d =
     (let (v, d) = get_next_vote_id Vote_playchain_committee d
      in ebind (get_game_witness d (pcc_account op)) (\<lambda>(w, witness).
         ebind (idx_create (\<lambda>a b. committee_member_game_witness a = committee_member_game_witness b \<or>
                                  vote_id a = vote_id b)
                  \<lparr>committee_member_game_witness = w, vote_id = v, total_votes = 0, url = pcc_url op\<rparr>
                  (committee_members d)) (\<lambda>(i, ix).
           Inr (d\<lparr>committee_members := ix\<rparr>))))"

definition committee_member_update_evaluate ::
    "database \<Rightarrow> playchain_committee_member_update_operation \<Rightarrow> unit res" where
  "committee_member_update_evaluate d op =
     ebind (check (is_game_witness_account d (pcu_account op)) ''Account must be the game witness'') (\<lambda>_.
     ebind (get_game_witness d (pcu_account op)) (\<lambda>(w, witness).
     ebind (idx_get (committee_members d) (pcu_committee_member op)) (\<lambda>m.
       check (committee_member_game_witness m = w) ''committee_member_game_witness == witness.id'')))"

definition committee_member_update_apply ::
    "playchain_committee_member_update_operation \<Rightarrow> database \<Rightarrow> database res" where
  "committee_member_update_apply op d =
     ebind (idx_get (committee_members d) (pcu_committee_member op)) (\<lambda>m.
       Inr (d\<lparr>committee_members := idx_set (pcu_committee_member op)
                (case pcu_new_url op of None \<Rightarrow> m | Some u \<Rightarrow> m\<lparr>url := u\<rparr>) (committee_members d)\<rparr>))"

text \<open>Parameters are only set by a transaction that was proposed.\<close>

definition committee_update_parameters_evaluate ::
    "bool \<Rightarrow> playchain_committee_member_update_parameters_operation \<Rightarrow> unit res" where
  "committee_update_parameters_evaluate is_proposed_trx op = check is_proposed_trx ''_is_proposed_trx''"

definition committee_update_parameters_apply ::
    "playchain_committee_member_update_parameters_operation \<Rightarrow> database \<Rightarrow> database res" where
  "committee_update_parameters_apply op d =
     Inr (d\<lparr>pending_parameters := Some (to_parameters_v3 (pcp_version op) (pcp_new_parameters op))\<rparr>)"

section \<open>The authority of the committee\<close>

record vote_counter =
  vc_last_votes :: "64 word"
  vc_total_votes :: "64 word"
  bitshift :: int
  vc_auth :: authority

definition new_vote_counter :: vote_counter where
  "new_vote_counter =
     \<lparr>vc_last_votes = - 1, vc_total_votes = 0, bitshift = - 1,
      vc_auth = \<lparr>weight_threshold = 0, account_auths = fm_empty\<rparr>\<rparr>"

definition find_msb :: "64 word \<Rightarrow> int" where
  "find_msb v = bit_length (uint v) - 1"

definition vote_counter_add :: "account_id \<Rightarrow> 64 word \<Rightarrow> vote_counter \<Rightarrow> vote_counter" where
  "vote_counter_add who votes vc =
     (if votes = 0 then vc
      else let vc = vc\<lparr>vc_last_votes := votes\<rparr>;
               vc = (if bitshift vc = - 1 then vc\<lparr>bitshift := max (find_msb votes - 15) 0\<rparr> else vc);
               scaled_votes = max (drop_bit (nat (bitshift vc)) votes) 1
           in vc\<lparr>vc_total_votes := vc_total_votes vc + scaled_votes,
                 vc_auth := (vc_auth vc)\<lparr>account_auths :=
                   fm_put who (ucast scaled_votes) (account_auths (vc_auth vc))\<rparr>\<rparr>)"

definition vote_counter_finish :: "vote_counter \<Rightarrow> authority \<Rightarrow> authority" where
  "vote_counter_finish vc out_auth =
     (if vc_total_votes vc = 0 then out_auth
      else (vc_auth vc)\<lparr>weight_threshold := drop_bit 1 (ucast (vc_total_votes vc)) + 1\<rparr>)"

section \<open>The election\<close>

text \<open>
  What the Graphene core has tallied: the votes by vote number, the stake that votes for each size of
  the committee, the whole stake; and the least size of a committee.
\<close>

record vote_tally =
  vote_tally_buffer :: "64 word list"
  committee_count_histogram_buffer :: "64 word list"
  total_voting_stake :: "64 word"
  min_committee_member_count :: nat

definition votes_of :: "vote_tally \<Rightarrow> playchain_committee_member_object \<Rightarrow> 64 word" where
  "votes_of tally m = vote_tally_buffer tally ! unat (vote_instance (vote_id m))"

definition tallied :: "vote_tally \<Rightarrow> playchain_committee_member_object \<Rightarrow> bool" where
  "tallied tally m \<longleftrightarrow> unat (vote_instance (vote_id m)) < length (vote_tally_buffer tally)"

fun count_committee :: "64 word \<Rightarrow> 64 word list \<Rightarrow> 64 word \<Rightarrow> nat \<Rightarrow> nat" where
  "count_committee stake_target [] stake_tally n = n"
| "count_committee stake_target (s # ss) stake_tally n =
     (if stake_tally \<le> stake_target then count_committee stake_target ss (stake_tally + s) (n + 1) else n)"

definition committee_member_count :: "vote_tally \<Rightarrow> nat res" where
  "committee_member_count tally =
     (case committee_count_histogram_buffer tally of
        [] \<Rightarrow> Inl Null_deref
      | h # hs \<Rightarrow>
          let stake_target = (total_voting_stake tally - h) div 2
          in Inr (if 0 < stake_target then count_committee stake_target hs 0 0 else 0))"

definition sort_votable_objects ::
    "vote_tally \<Rightarrow> nat \<Rightarrow> database \<Rightarrow> (nat \<times> playchain_committee_member_object) list" where
  "sort_votable_objects tally count d =
     take count (sort_key (\<lambda>(i, m). (- uint (votes_of tally m), uint (vote_instance (vote_id m))))
       (idx_items (committee_members d)))"

definition count_member ::
    "vote_tally \<Rightarrow> database \<Rightarrow> playchain_committee_member_object \<Rightarrow> vote_counter \<Rightarrow> vote_counter res" where
  "count_member tally d m vc =
     ebind (idx_get (witnesses d) (committee_member_game_witness m)) (\<lambda>w.
       Inr (vote_counter_add (gw_account w) (votes_of tally m) vc))"

definition update_active_members :: "vote_tally \<Rightarrow> database \<Rightarrow> database res" where
  "update_active_members tally d =
     ebind (committee_member_count tally) (\<lambda>n.
     if \<not> list_all (\<lambda>(i, m). tallied tally m) (idx_items (committee_members d)) then Inl Null_deref
     else let elected = sort_votable_objects tally (max (n * 2 + 1) (min_committee_member_count tally)) d;
              d = d\<lparr>committee_members := fold (\<lambda>(i, m). idx_set i (m\<lparr>total_votes := votes_of tally m\<rparr>)) elected
                     (committee_members d)\<rparr>
          in ebind (if elected = [] then Inr d
                    else ebind (efold (count_member tally d) (map snd elected) new_vote_counter) (\<lambda>vc.
                           Inr (d\<lparr>committee_active := vote_counter_finish vc (committee_active d)\<rparr>))) (\<lambda>d.
               Inr (d\<lparr>active_games_committee_members := map (\<lambda>(i, m). committee_member_game_witness m) elected\<rparr>)))"

definition update_playchain_parameters :: "database \<Rightarrow> database" where
  "update_playchain_parameters d =
     (case pending_parameters d of
        None \<Rightarrow> d
      | Some p \<Rightarrow> d\<lparr>parameters := p, pending_parameters := None\<rparr>)"

section \<open>The committee touches no funds\<close>

lemma committee_fields_sound:
  "sound d (d\<lparr>committee_members := ix\<rparr>)" "sound d (d\<lparr>committee_active := a\<rparr>)"
  "sound d (d\<lparr>active_games_committee_members := ws\<rparr>)" "sound d (d\<lparr>pending_parameters := p\<rparr>)"
  "sound d (d\<lparr>next_available_vote_id := n\<rparr>)" "sound d (d\<lparr>parameters := q\<rparr>)"
  by (rule sound_calm; simp add: calm_def players_le_def find_player_def gives_def db_ok_def balances_ok_def held_def)+

lemma committee_member_create_sound: "ends (sound d) (committee_member_create_apply op d)"
  by (auto simp: committee_member_create_apply_def get_next_vote_id_def ends_def ebind_Inr
      intro: sound_trans [OF committee_fields_sound(5) committee_fields_sound(1)])

lemma committee_member_update_sound: "ends (sound d) (committee_member_update_apply op d)"
  by (auto simp: committee_member_update_apply_def ends_def ebind_Inr intro: committee_fields_sound)

lemma committee_update_parameters_sound: "ends (sound d) (committee_update_parameters_apply op d)"
  by (simp add: committee_update_parameters_apply_def ends_def committee_fields_sound)

lemma update_playchain_parameters_sound: "sound d (update_playchain_parameters d)"
  by (auto simp: update_playchain_parameters_def split: option.split
      intro: sound_trans [OF committee_fields_sound(6) committee_fields_sound(4)])

lemma count_member_frame: "count_member tally (d\<lparr>committee_members := cm\<rparr>) = count_member tally d"
  by (simp add: count_member_def fun_eq_iff)

lemma update_active_members_cases:
  assumes "update_active_members tally d = Inr d'"
  obtains n elected cm a where "committee_member_count tally = Inr n"
    "\<And>i m. idx_find (committee_members d) i = Some m \<Longrightarrow> tallied tally m"
    "elected = sort_votable_objects tally (max (n * 2 + 1) (min_committee_member_count tally)) d"
    "d' = d\<lparr>committee_members := cm, committee_active := a,
            active_games_committee_members := map (\<lambda>(i, m). committee_member_game_witness m) elected\<rparr>"
    "if elected = [] then a = committee_active d
     else \<exists>vc. efold (count_member tally d) (map snd elected) new_vote_counter = Inr vc \<and>
               a = vote_counter_finish vc (committee_active d)"
proof -
  obtain n where n: "committee_member_count tally = Inr n"
    using assms by (auto simp: update_active_members_def ebind_Inr)
  let ?elected = "sort_votable_objects tally (max (n * 2 + 1) (min_committee_member_count tally)) d"
  define cm where "cm = fold (\<lambda>(i, m). idx_set i (m\<lparr>total_votes := votes_of tally m\<rparr>)) ?elected (committee_members d)"
  have t: "tallied tally m" if "idx_find (committee_members d) i = Some m" for i m
    using assms that by (auto simp: update_active_members_def n list_all_iff idx_items_iff split: if_splits)
  then have all: "list_all (\<lambda>(i, m). tallied tally m) (idx_items (committee_members d))"
    by (auto simp: list_all_iff idx_items_iff)
  show thesis
  proof (cases "?elected = []")
    case True
    with assms all show thesis
      by (intro that [OF n t refl, where cm = cm and a = "committee_active d"]) (simp_all add: update_active_members_def n Let_def cm_def)
  next
    case False
    with assms all obtain vc where
      "efold (count_member tally (d\<lparr>committee_members := cm\<rparr>)) (map snd ?elected) new_vote_counter = Inr vc"
      and "d' = d\<lparr>committee_members := cm, committee_active := vote_counter_finish vc (committee_active d),
            active_games_committee_members := map (\<lambda>(i, m). committee_member_game_witness m) ?elected\<rparr>"
      by (auto simp: update_active_members_def n Let_def cm_def ebind_Inr)
    with False show thesis
      by (intro that [OF n t refl, where cm = cm and a = "vote_counter_finish vc (committee_active d)"]) (simp_all add: count_member_frame)
  qed
qed

lemma update_active_members_sound: "ends (sound d) (update_active_members tally d)"
  by (rule endsI, erule update_active_members_cases)
    (auto intro!: sound_trans [OF sound_trans [OF committee_fields_sound(1) committee_fields_sound(2)] committee_fields_sound(3)])

section \<open>Weights\<close>

lemma bit_length_bound: "v < 2 ^ nat (bit_length v)"
proof (induction v rule: bit_length.induct)
  case (1 n)
  show ?case
  proof (cases "n \<le> 0")
    case True
    then show ?thesis by (simp add: bit_length.simps [of n])
  next
    case False
    then have "n div 2 < 2 ^ nat (bit_length (n div 2))" by (rule 1)
    then have "n < 2 * 2 ^ nat (bit_length (n div 2))" by simp
    moreover have "0 \<le> bit_length (n div 2)" by (rule bit_length_nonneg)
    ultimately show ?thesis using False by (simp add: bit_length.simps [of n] nat_add_distrib)
  qed
qed

lemma uint_drop_bit: "uint (drop_bit n (w :: 'a::len word)) = uint w div 2 ^ n"
  by (simp add: unsigned_drop_bit_eq drop_bit_int_def take_bit_int_eq_self)

lemma scaled_fits:
  assumes "v \<le> w"
  shows "uint (drop_bit (nat (max (find_msb w - 15) 0)) v) < 65536"
proof -
  let ?s = "nat (max (find_msb w - 15) 0)"
  have "uint v \<le> uint w" using assms by (simp add: word_le_def)
  also have "\<dots> < 2 ^ nat (find_msb w + 1)" using bit_length_bound [of "uint w"] by (simp add: find_msb_def)
  also have "\<dots> \<le> 2 ^ (?s + 16)" by (rule power_increasing) auto
  finally have "uint v < 65536 * 2 ^ ?s" by (simp add: power_add)
  moreover have "uint v div 2 ^ ?s * 2 ^ ?s + uint v mod 2 ^ ?s = uint v" by (rule div_mult_mod_eq)
  moreover have "0 \<le> uint v mod 2 ^ ?s" by (rule pos_mod_sign) simp
  ultimately have "uint v div 2 ^ ?s * 2 ^ ?s < 65536 * 2 ^ ?s" by linarith
  then have "uint v div 2 ^ ?s < 65536" by (simp only: mult_less_cancel_right_pos zero_less_power zero_less_numeral)
  then show ?thesis by (simp only: uint_drop_bit)
qed

definition scaled_weight :: "int \<Rightarrow> 64 word \<Rightarrow> 64 word" where
  "scaled_weight s v = max (drop_bit (nat s) v) 1"

lemma scaled_weight_bounds:
  assumes "uint (drop_bit (nat s) v) < 65536"
  shows "1 \<le> uint (scaled_weight s v)" "uint (scaled_weight s v) < 65536"
    "uint (ucast (scaled_weight s v) :: 16 word) = uint (scaled_weight s v)"
proof -
  show a: "1 \<le> uint (scaled_weight s v)" "uint (scaled_weight s v) < 65536"
    using assms by (auto simp: scaled_weight_def max_def word_le_def)
  then show "uint (ucast (scaled_weight s v) :: 16 word) = uint (scaled_weight s v)"
    by (simp add: unsigned_ucast_eq take_bit_int_eq_self)
qed

text \<open>
  The counter while it counts: the weights it has given add up to its total, which grows by less than
  65536 with each member.
\<close>

definition counted :: "int \<Rightarrow> int \<Rightarrow> vote_counter \<Rightarrow> bool" where
  "counted lo n vc \<longleftrightarrow>
     uint (vc_total_votes vc) = fm_sum uint (account_auths (vc_auth vc)) \<and>
     lo \<le> uint (vc_total_votes vc) \<and> uint (vc_total_votes vc) \<le> 65535 * n"

lemma vote_counter_add_counted:
  assumes "counted lo n vc" and "0 \<le> bitshift vc" and "uint (drop_bit (nat (bitshift vc)) v) < 65536"
    and "fm_find (account_auths (vc_auth vc)) a = None" and "0 \<le> n" and "n \<le> 65536"
  shows "counted (if v = 0 then lo else lo + 1) (n + 1) (vote_counter_add a v vc) \<and> bitshift (vote_counter_add a v vc) = bitshift vc"
proof (cases "v = 0")
  case True
  then show ?thesis using assms(1,5) by (auto simp: vote_counter_add_def counted_def)
next
  case False
  let ?w = "scaled_weight (bitshift vc) v"
  note w = scaled_weight_bounds [OF assms(3)]
  have small: "uint (vc_total_votes vc) + uint ?w < 2 ^ 64" using assms(1,6) w by (simp add: counted_def)
  have "uint (vc_total_votes vc + ?w) = uint (vc_total_votes vc) + uint ?w"
    using small by (simp add: uint_plus_simple_iff [symmetric] uint_word_ariths take_bit_int_eq_self)
  then show ?thesis
    using assms False w by (simp add: vote_counter_add_def counted_def Let_def scaled_weight_def [symmetric])
qed

lemma vote_counter_add_keys:
  "fm_find (account_auths (vc_auth (vote_counter_add a v vc))) b \<noteq> None \<Longrightarrow>
     b = a \<or> fm_find (account_auths (vc_auth vc)) b \<noteq> None"
  by (auto simp: vote_counter_add_def Let_def split: if_splits)

lemma fold_counted:
  assumes "counted lo n vc" and "0 \<le> bitshift vc" and "\<forall>(a, v) \<in> set xs. uint (drop_bit (nat (bitshift vc)) v) < 65536"
    and "distinct (map fst xs)" and "\<forall>a \<in> fst ` set xs. fm_find (account_auths (vc_auth vc)) a = None"
    and "0 \<le> n" and "n + int (length xs) \<le> 65536"
  shows "counted (lo + (if xs = [] \<or> snd (hd xs) = 0 then 0 else 1)) (n + int (length xs))
    (fold (\<lambda>(a, v). vote_counter_add a v) xs vc)"
  using assms
proof (induction xs arbitrary: lo n vc)
  case (Cons x xs)
  obtain a v where x: "x = (a, v)" by (cases x)
  let ?vc = "vote_counter_add a v vc" and ?lo = "if v = 0 then lo else lo + 1"
  have c: "counted ?lo (n + 1) ?vc \<and> bitshift ?vc = bitshift vc"
    by (rule vote_counter_add_counted) (use Cons.prems x in auto)
  have "fm_find (account_auths (vc_auth ?vc)) b = None" if "b \<in> fst ` set xs" for b
  proof -
    have "b \<noteq> a" using Cons.prems(4) that x by auto
    moreover have "fm_find (account_auths (vc_auth vc)) b = None" using Cons.prems(5) that by auto
    ultimately show ?thesis using vote_counter_add_keys [of a v vc b] by (cases "fm_find (account_auths (vc_auth ?vc)) b") auto
  qed
  then have "counted (?lo + (if xs = [] \<or> snd (hd xs) = 0 then 0 else 1)) (n + 1 + int (length xs))
      (fold (\<lambda>(a, v). vote_counter_add a v) xs ?vc)"
    by (intro Cons.IH) (use c Cons.prems x in auto)
  then show ?case by (auto simp: x counted_def algebra_simps split: if_splits)
qed simp

text \<open>The first member has the most votes and sets the scale; a first member without votes has none behind.\<close>

lemma fold_counted_new:
  assumes "\<forall>(a, v) \<in> set xs. v \<le> snd (hd xs)" and "distinct (map fst xs)" and "length xs \<le> 65536"
  shows "counted (if xs = [] \<or> snd (hd xs) = 0 then 0 else 1) (int (length xs))
    (fold (\<lambda>(a, v). vote_counter_add a v) xs new_vote_counter)"
proof (cases xs)
  case Nil
  then show ?thesis by (simp add: counted_def new_vote_counter_def)
next
  case (Cons x ys)
  obtain a v where x: "x = (a, v)" by (cases x)
  show ?thesis
  proof (cases "v = 0")
    case True
    then have "\<forall>(a, v) \<in> set xs. v = 0" using assms(1) Cons x by auto
    then have "fold (\<lambda>(a, v). vote_counter_add a v) xs vc = vc" for vc
      by (induction xs arbitrary: vc) (auto simp: vote_counter_add_def)
    then show ?thesis using True by (simp add: counted_def new_vote_counter_def Cons x)
  next
    case False
    let ?vc = "new_vote_counter\<lparr>bitshift := max (find_msb v - 15) 0\<rparr>"
    have first: "vote_counter_add a v new_vote_counter = vote_counter_add a v ?vc"
      using False by (simp add: vote_counter_add_def new_vote_counter_def Let_def)
    have "counted (0 + (if xs = [] \<or> snd (hd xs) = 0 then 0 else 1)) (0 + int (length xs))
        (fold (\<lambda>(a, v). vote_counter_add a v) xs ?vc)"
      by (rule fold_counted) (use assms Cons x scaled_fits [of _ v] in \<open>auto simp: counted_def new_vote_counter_def\<close>)
    then show ?thesis by (simp add: Cons x first)
  qed
qed

lemma counted_threshold:
  assumes "counted 1 n vc" and "n \<le> 65536"
  shows "fm_sum uint (account_auths (vote_counter_finish vc out)) < 2 * uint (weight_threshold (vote_counter_finish vc out)) \<and>
    uint (weight_threshold (vote_counter_finish vc out)) \<le> fm_sum uint (account_auths (vote_counter_finish vc out))"
proof -
  let ?t = "uint (vc_total_votes vc)"
  have t: "?t < 2 ^ 32" "0 < ?t" using assms by (auto simp: counted_def)
  have "uint (drop_bit 1 (ucast (vc_total_votes vc) :: 32 word)) = ?t div 2"
    using t by (simp add: uint_drop_bit unsigned_ucast_eq take_bit_int_eq_self)
  moreover have "?t div 2 + 1 < 2 ^ 32" using t(1) by simp
  ultimately have "uint (drop_bit 1 (ucast (vc_total_votes vc) :: 32 word) + 1) = ?t div 2 + 1"
    by (simp add: uint_word_ariths take_bit_int_eq_self)
  moreover have "?t < 2 * (?t div 2) + 2" "?t div 2 + 1 \<le> ?t" using t(2) by linarith+
  moreover have "vc_total_votes vc \<noteq> 0" "fm_sum uint (account_auths (vc_auth vc)) = ?t" using assms(1) t(2) by (auto simp: counted_def)
  ultimately show ?thesis by (simp add: vote_counter_finish_def)
qed

section \<open>The election\<close>

text \<open>A game witness is at most once in the committee, and an account is at most one game witness.\<close>

definition committee_ok :: "database \<Rightarrow> bool" where
  "committee_ok d \<longleftrightarrow>
     distinct (map (\<lambda>(i, m). committee_member_game_witness m) (idx_items (committee_members d))) \<and>
     distinct (map (\<lambda>(i, w). gw_account w) (idx_items (witnesses d)))"

lemma gw_account_unique:
  assumes "committee_ok d" and "idx_find (witnesses d) i = Some v" and "idx_find (witnesses d) j = Some w"
    and "gw_account v = gw_account w"
  shows "i = j"
proof -
  have "(i, v) \<in> set (idx_items (witnesses d))" "(j, w) \<in> set (idx_items (witnesses d))"
    using assms(2,3) by (simp_all add: idx_items_iff)
  with assms(1,4) show ?thesis by (auto simp: committee_ok_def distinct_map inj_on_def)
qed

definition member_account :: "database \<Rightarrow> playchain_committee_member_object \<Rightarrow> account_id" where
  "member_account d m = gw_account (the (idx_find (witnesses d) (committee_member_game_witness m)))"

lemma efold_count_member:
  "efold (count_member tally d) ms vc = Inr vc' \<Longrightarrow>
     vc' = fold (\<lambda>(a, v). vote_counter_add a v) (map (\<lambda>m. (member_account d m, votes_of tally m)) ms) vc \<and>
     (\<forall>m \<in> set ms. idx_find (witnesses d) (committee_member_game_witness m) \<noteq> None)"
  by (induction ms arbitrary: vc) (fastforce simp: count_member_def ebind_Inr idx_get_Inr member_account_def)+

lemma sorted_best:
  assumes "(i, m) \<in> set (sort_votable_objects tally k d)" and "x \<in> set (idx_items (committee_members d))"
    and "x \<notin> set (sort_votable_objects tally k d)"
  shows "votes_of tally (snd x) \<le> votes_of tally m \<and>
    (votes_of tally (snd x) = votes_of tally m \<longrightarrow> vote_instance (vote_id m) \<le> vote_instance (vote_id (snd x)))"
proof -
  let ?key = "\<lambda>(i, m). (- uint (votes_of tally m), uint (vote_instance (vote_id m)))"
  let ?s = "sort_key ?key (idx_items (committee_members d))"
  have "x \<in> set (drop k ?s)"
    using assms(2,3) set_append [of "take k ?s" "drop k ?s"] by (auto simp: sort_votable_objects_def)
  moreover have "sorted (map ?key (take k ?s @ drop k ?s))" by simp
  ultimately have "?key (i, m) \<le> ?key x"
    using assms(1) unfolding map_append sorted_append sort_votable_objects_def by fastforce
  then show ?thesis by (cases x) (auto simp: less_eq_prod_def word_le_def)
qed

lemma sorted_first:
  assumes "sort_votable_objects tally k d = x # xs" and "idx_find (committee_members d) i = Some m"
  shows "votes_of tally m \<le> votes_of tally (snd x)"
proof -
  let ?key = "\<lambda>(i, m). (- uint (votes_of tally m), uint (vote_instance (vote_id m)))"
  let ?s = "sort_key ?key (idx_items (committee_members d))"
  obtain ys where s: "?s = x # ys" using assms(1) by (cases ?s; cases k) (auto simp: sort_votable_objects_def)
  have "sorted (map ?key ?s)" by simp
  moreover have "(i, m) \<in> set ?s" using assms(2) by (simp add: idx_items_iff)
  ultimately have "?key x \<le> ?key (i, m)" unfolding s by auto
  then show ?thesis by (cases x) (auto simp: less_eq_prod_def word_le_def)
qed

text \<open>
  C27: the election is right: the committee has the size the votes ask for, as far as there are
  members, and no member outside of it has more votes than one inside, or as many and an older number.
\<close>

theorem committee_elected:
  assumes "update_active_members tally d = Inr d'"
  shows "\<exists>n elected. committee_member_count tally = Inr n \<and>
    active_games_committee_members d' = map (\<lambda>(i, m). committee_member_game_witness m) elected \<and>
    length elected = min (length (idx_items (committee_members d))) (max (n * 2 + 1) (min_committee_member_count tally)) \<and>
    (\<forall>(i, m) \<in> set elected. idx_find (committee_members d) i = Some m) \<and>
    (\<forall>j x. idx_find (committee_members d) j = Some x \<and> (j, x) \<notin> set elected \<longrightarrow>
       (\<forall>(i, m) \<in> set elected. votes_of tally x \<le> votes_of tally m \<and>
          (votes_of tally x = votes_of tally m \<longrightarrow> vote_instance (vote_id m) \<le> vote_instance (vote_id x))))"
  using assms
proof (cases rule: update_active_members_cases)
  case (1 n elected cm a)
  let ?k = "max (n * 2 + 1) (min_committee_member_count tally)"
  have "length elected = min (length (idx_items (committee_members d))) ?k"
    by (simp add: 1(3) sort_votable_objects_def min.commute)
  moreover have "set elected \<subseteq> set (idx_items (committee_members d))"
    unfolding 1(3) sort_votable_objects_def using set_take_subset by fastforce
  then have "\<forall>(i, m) \<in> set elected. idx_find (committee_members d) i = Some m" by (auto simp: idx_items_iff)
  moreover have "votes_of tally x \<le> votes_of tally m \<and>
      (votes_of tally x = votes_of tally m \<longrightarrow> vote_instance (vote_id m) \<le> vote_instance (vote_id x))"
    if "idx_find (committee_members d) j = Some x" "(j, x) \<notin> set elected" "(i, m) \<in> set elected" for j x i m
    using sorted_best [of i m tally ?k d "(j, x)"] that by (simp add: 1(3) idx_items_iff)
  ultimately show ?thesis using 1(1,4) by (intro exI [of _ n] exI [of _ elected]) auto
qed

lemma elected_accounts_distinct:
  assumes "committee_ok d" and "\<forall>m \<in> set (map snd xs). idx_find (witnesses d) (committee_member_game_witness m) \<noteq> None"
    and "distinct xs" and "set xs \<subseteq> set (idx_items (committee_members d))"
  shows "distinct (map (member_account d) (map snd xs))"
proof -
  have "x = y" if x: "x \<in> set xs" and y: "y \<in> set xs" and e: "member_account d (snd x) = member_account d (snd y)" for x y
  proof -
    obtain v w where v: "idx_find (witnesses d) (committee_member_game_witness (snd x)) = Some v"
      and w: "idx_find (witnesses d) (committee_member_game_witness (snd y)) = Some w"
      using assms(2) x y by fastforce
    have "committee_member_game_witness (snd x) = committee_member_game_witness (snd y)"
      by (rule gw_account_unique [OF assms(1) v w]) (use e v w in \<open>simp add: member_account_def\<close>)
    moreover have "inj_on (\<lambda>(i, m). committee_member_game_witness m) (set (idx_items (committee_members d)))"
      using assms(1) by (simp add: committee_ok_def distinct_map)
    ultimately show ?thesis using x y assms(4) by (auto simp: inj_on_def split_def)
  qed
  then show ?thesis using assms(3) by (auto simp: distinct_map inj_on_def)
qed

text \<open>
  C28: when somebody votes for a member, the authority of the committee account is a strict majority:
  the threshold is more than half of the weights and the weights together reach it.
\<close>

theorem committee_majority:
  assumes "update_active_members tally d = Inr d'" and "committee_ok d"
    and "idx_find (committee_members d) i = Some m" and "votes_of tally m \<noteq> 0"
    and "length (active_games_committee_members d') \<le> 65536"
  shows "fm_sum uint (account_auths (committee_active d')) < 2 * uint (weight_threshold (committee_active d')) \<and>
    uint (weight_threshold (committee_active d')) \<le> fm_sum uint (account_auths (committee_active d'))"
  using assms(1)
proof (cases rule: update_active_members_cases)
  case (1 n elected cm a)
  let ?k = "max (n * 2 + 1) (min_committee_member_count tally)"
  have "idx_items (committee_members d) \<noteq> []" using assms(3) by (auto simp: idx_items_iff [symmetric])
  then have "length elected \<noteq> 0" by (simp add: 1(3) sort_votable_objects_def)
  then obtain x xs where e: "elected = x # xs" by (cases elected) auto
  obtain vc where vc: "efold (count_member tally d) (map snd elected) new_vote_counter = Inr vc"
    "a = vote_counter_finish vc (committee_active d)"
    using 1(5) e by auto
  note fold = efold_count_member [OF vc(1)]
  let ?xs = "map (\<lambda>m. (member_account d m, votes_of tally m)) (map snd elected)"
  have sub: "set elected \<subseteq> set (idx_items (committee_members d))"
    unfolding 1(3) sort_votable_objects_def using set_take_subset by fastforce
  have "distinct (idx_items (committee_members d))"
    using assms(2) by (simp add: committee_ok_def distinct_map)
  then have "distinct elected" by (simp add: 1(3) sort_votable_objects_def)
  from elected_accounts_distinct [OF assms(2) _ this sub] fold
  have dist: "distinct (map fst ?xs)" by (simp add: comp_def)
  have top: "votes_of tally (snd y) \<le> votes_of tally (snd x)" if "y \<in> set elected" for y
    using sorted_first [of tally ?k d x xs "fst y" "snd y"] e 1(3) that sub by (auto simp: idx_items_iff [symmetric])
  then have first: "\<forall>(a, v) \<in> set ?xs. v \<le> snd (hd ?xs)" using e by auto
  have "length ?xs \<le> 65536" using assms(5) 1(4) by simp
  from fold_counted_new [OF first dist this] have "counted (if ?xs = [] \<or> snd (hd ?xs) = 0 then 0 else 1) (int (length ?xs)) vc"
    unfolding conjunct1 [OF fold] .
  moreover have "votes_of tally (snd x) \<noteq> 0"
    using sorted_first [of tally ?k d x xs i m] e 1(3) assms(3,4) by auto
  ultimately have "counted 1 (int (length ?xs)) vc" using e by simp
  then show ?thesis using counted_threshold [of "int (length ?xs)" vc] assms(5) 1(4) vc(2) by simp
qed

definition sample_member :: "nat \<Rightarrow> playchain_committee_member_object" where
  "sample_member w = \<lparr>committee_member_game_witness = w, vote_id = mk_vote_id Vote_playchain_committee (of_nat w),
     total_votes = 0, url = []\<rparr>"

definition sample_election :: database where
  "sample_election = sample_db
     \<lparr>witnesses := of_objects (map (\<lambda>a. \<lparr>gw_account = a, gw_balance = None\<rparr>) [0, 10, 11, 12, 13]),
      committee_members := of_objects (map sample_member [1, 2, 3, 4])\<rparr>"

definition sample_tally :: vote_tally where
  "sample_tally = \<lparr>vote_tally_buffer = [0, 900000, 0, 2000000, 1000], committee_count_histogram_buffer = [0, 100, 100],
     total_voting_stake = 200, min_committee_member_count = 1\<rparr>"

lemma sample_committee: "committee_ok sample_election" by code_simp

lemma sample_elected:
  obtains d' where "update_active_members sample_tally sample_election = Inr d'"
    "active_games_committee_members d' = [3, 1, 4, 2]"
    "map (\<lambda>(a, w). (a, uint w)) (fm_items (account_auths (committee_active d'))) = [(10, 28125), (12, 62500), (13, 31)]"
proof -
  have "case update_active_members sample_tally sample_election of
      Inl e \<Rightarrow> False
    | Inr d' \<Rightarrow> active_games_committee_members d' = [3, 1, 4, 2] \<and>
        map (\<lambda>(a, w). (a, uint w)) (fm_items (account_auths (committee_active d'))) = [(10, 28125), (12, 62500), (13, 31)]"
    by code_simp
  then show thesis by (cases "update_active_members sample_tally sample_election") (auto intro: that)
qed

theorem committee_elected_witness:
  "\<exists>d' n. update_active_members sample_tally sample_election = Inr d' \<and> committee_member_count sample_tally = Inr n \<and>
     active_games_committee_members d' = [3, 1, 4, 2]"
proof -
  obtain d' where d': "update_active_members sample_tally sample_election = Inr d'"
    "active_games_committee_members d' = [3, 1, 4, 2]" by (rule sample_elected)
  with committee_elected [OF d'(1)] show ?thesis by blast
qed

theorem committee_majority_witness:
  "\<exists>d'. update_active_members sample_tally sample_election = Inr d' \<and>
     map (\<lambda>(a, w). (a, uint w)) (fm_items (account_auths (committee_active d'))) = [(10, 28125), (12, 62500), (13, 31)] \<and>
     uint (weight_threshold (committee_active d')) \<le> fm_sum uint (account_auths (committee_active d'))"
proof -
  obtain d' where d': "update_active_members sample_tally sample_election = Inr d'"
    "active_games_committee_members d' = [3, 1, 4, 2]"
    "map (\<lambda>(a, w). (a, uint w)) (fm_items (account_auths (committee_active d'))) = [(10, 28125), (12, 62500), (13, 31)]"
    by (rule sample_elected)
  have m: "idx_find (committee_members sample_election) 2 = Some (sample_member 3)"
    "votes_of sample_tally (sample_member 3) \<noteq> 0" by code_simp+
  have "length (active_games_committee_members d') \<le> 65536" by (simp add: d'(2))
  from committee_majority [OF d'(1) sample_committee m this] d'(1,3) show ?thesis by (intro exI [of _ d']) simp
qed

text \<open>
  New parameters need a proposed transaction, pass the validation, do nothing before the
  maintenance, and are the parameters after it; the fields that an old operation does not carry are
  reset to their defaults.
\<close>

theorem committee_sets_parameters:
  assumes "committee_update_parameters_validate op = Inr ()"
    and "committee_update_parameters_evaluate proposed op = Inr ()"
    and "committee_update_parameters_apply op d = Inr d'"
  shows "proposed \<and> parameters d' = parameters d \<and> pending_parameters (update_playchain_parameters d') = None \<and>
    parameters (update_playchain_parameters d') = to_parameters_v3 (pcp_version op) (pcp_new_parameters op) \<and>
    parameters_validate (parameters (update_playchain_parameters d')) = Inr ()"
proof -
  have "parameters_validate (pcp_new_parameters op) = Inr ()"
    using assms(1) by (auto simp: committee_update_parameters_validate_def ebind_Inr)
  then have "parameters_validate (to_parameters_v3 (pcp_version op) (pcp_new_parameters op)) = Inr ()"
    by (cases "pcp_version op") (simp_all add: to_parameters_v3_def parameters_validate_def)
  then show ?thesis
    using assms(2,3) by (auto simp: committee_update_parameters_evaluate_def committee_update_parameters_apply_def
        update_playchain_parameters_def check_Inr)
qed

definition sample_new_parameters :: playchain_committee_member_update_parameters_operation where
  "sample_new_parameters = \<lparr>pcp_fee = core_asset 0, pcp_version = Params_v1,
     pcp_new_parameters = default_parameters\<lparr>min_votes_for_results := 3, min_votes_for_playing := 7\<rparr>\<rparr>"

theorem committee_sets_parameters_witness:
  "case committee_update_parameters_apply sample_new_parameters sample_db of
     Inl e \<Rightarrow> False
   | Inr d' \<Rightarrow> parameters d' = parameters sample_db \<and>
       parameters (update_playchain_parameters d') = default_parameters\<lparr>min_votes_for_results := 3\<rparr>"
proof -
  let ?r = "committee_update_parameters_apply sample_new_parameters sample_db"
  have r: "?r = Inr (result_of sample_db ?r)" by (simp add: committee_update_parameters_apply_def result_of_def)
  have v: "committee_update_parameters_validate sample_new_parameters = Inr ()" by code_simp
  have e: "committee_update_parameters_evaluate True sample_new_parameters = Inr ()" by code_simp
  show ?thesis using committee_sets_parameters [OF v e r]
    by (subst r) (simp add: to_parameters_v3_def sample_new_parameters_def default_parameters_def)
qed

end
