(* ===== verification/Invitations.thy ===== *)
theory Invitations
  imports Scenario
begin

text \<open>
  Invitations of players (\<^verbatim>\<open>player_invitation_evaluators.cpp\<close>, \<^verbatim>\<open>player_invitation_operations.cpp\<close>) with
  what they use of the accounts of the Graphene core: the names of accounts (\<^verbatim>\<open>is_valid_name\<close>), authorities
  (\<^verbatim>\<open>sign_state::check_authority\<close>), the creation and the upgrade of accounts. The digest of an invitation and the
  recovery of a key from a signature are arguments. Membership fees are left out, as all fees are.
\<close>

section \<open>Names of accounts\<close>

definition is_lower_letter :: "char \<Rightarrow> bool" where
  "is_lower_letter c \<longleftrightarrow> CHR ''a'' \<le> c \<and> c \<le> CHR ''z''"

definition is_digit_char :: "char \<Rightarrow> bool" where
  "is_digit_char c \<longleftrightarrow> CHR ''0'' \<le> c \<and> c \<le> CHR ''9''"

definition GRAPHENE_MIN_ACCOUNT_NAME_LENGTH :: nat where "GRAPHENE_MIN_ACCOUNT_NAME_LENGTH = 1"
definition GRAPHENE_MAX_ACCOUNT_NAME_LENGTH :: nat where "GRAPHENE_MAX_ACCOUNT_NAME_LENGTH = 63"

lemma dropWhile_shorter: "dropWhile P xs \<noteq> [] \<Longrightarrow> length (tl (dropWhile P xs)) < length xs"
proof -
  assume "dropWhile P xs \<noteq> []"
  then have "length (tl (dropWhile P xs)) < length (dropWhile P xs)" by simp
  then show ?thesis using length_dropWhile_le [of P xs] by linarith
qed

text \<open>The loop over the labels, on what is left of the name from \<^verbatim>\<open>begin\<close> on.\<close>

function valid_labels :: "string \<Rightarrow> bool" where
  "valid_labels from =
     (let label = takeWhile (\<lambda>c. c \<noteq> CHR ''.'') from;
          behind = dropWhile (\<lambda>c. c \<noteq> CHR ''.'') from
      in if length label < GRAPHENE_MIN_ACCOUNT_NAME_LENGTH then False
         else if \<not> is_lower_letter (hd label) then False
         else if \<not> (is_lower_letter (last label) \<or> is_digit_char (last label)) then False
         else if \<not> list_all (\<lambda>c. is_lower_letter c \<or> is_digit_char c \<or> c = CHR ''-'') (butlast (tl label)) then False
         else if behind = [] then True
         else valid_labels (tl behind))"
  by auto
termination
  by (relation "measure length") (simp, simp only: in_measure, rule dropWhile_shorter)

declare valid_labels.simps [simp del]

definition is_valid_name :: "string \<Rightarrow> bool" where
  "is_valid_name name \<longleftrightarrow>
     GRAPHENE_MIN_ACCOUNT_NAME_LENGTH \<le> length name \<and> length name \<le> GRAPHENE_MAX_ACCOUNT_NAME_LENGTH \<and> valid_labels name"

section \<open>Authorities\<close>

definition num_auths :: "account_authority \<Rightarrow> nat" where
  "num_auths a = fm_size (account_auths a) + fm_size (key_auths a)"

definition is_impossible :: "account_authority \<Rightarrow> bool" where
  "is_impossible a \<longleftrightarrow>
     sum_list (map (\<lambda>(k, w). unat w) (fm_items (account_auths a))) +
     sum_list (map (\<lambda>(k, w). unat w) (fm_items (key_auths a))) < unat (weight_threshold a)"

definition get_keys :: "account_authority \<Rightarrow> string list" where
  "get_keys a = map fst (fm_items (key_auths a))"

text \<open>The loop over the keys stops as soon as the threshold is reached; the weights are 32 bits.\<close>

fun add_keys :: "string flat_set \<Rightarrow> 32 word \<Rightarrow> (string \<times> 16 word) list \<Rightarrow> 32 word \<Rightarrow> bool \<times> 32 word" where
  "add_keys sigs threshold [] total_weight = (False, total_weight)"
| "add_keys sigs threshold ((k, w) # ks) total_weight =
     (if fm_count sigs k
      then let total_weight = total_weight + ucast w
           in if threshold \<le> total_weight then (True, total_weight) else add_keys sigs threshold ks total_weight
      else add_keys sigs threshold ks total_weight)"

abbreviation (input) GRAPHENE_TEMP_ACCOUNT :: account_id where "GRAPHENE_TEMP_ACCOUNT \<equiv> 4"
abbreviation (input) GRAPHENE_PROXY_TO_SELF_ACCOUNT :: account_id where "GRAPHENE_PROXY_TO_SELF_ACCOUNT \<equiv> 5"

text \<open>
  \<^verbatim>\<open>sign_state::check_authority\<close>: \<open>n\<close> is the depth that is left, \<open>approved\<close> the set \<^verbatim>\<open>approved_by\<close> that grows on
  the way.
\<close>

function (sequential)
  check_account :: "nat \<Rightarrow> database \<Rightarrow> string flat_set \<Rightarrow> account_id \<Rightarrow> account_id flat_set \<Rightarrow> (bool \<times> account_id flat_set) res" and
  check_authority :: "nat \<Rightarrow> database \<Rightarrow> string flat_set \<Rightarrow> account_authority \<Rightarrow> account_id flat_set \<Rightarrow> (bool \<times> account_id flat_set) res" and
  add_accounts :: "nat \<Rightarrow> database \<Rightarrow> string flat_set \<Rightarrow> 32 word \<Rightarrow> (account_id \<times> 16 word) list \<Rightarrow> 32 word \<Rightarrow>
    account_id flat_set \<Rightarrow> (bool \<times> account_id flat_set) res" where
  "check_account n d sigs a approved =
     ebind (idx_get (accounts d) a) (\<lambda>ac.
     ebind (check_authority n d sigs (ac_active ac) approved) (\<lambda>(ok, approved).
       if ok then Inr (True, approved) else check_authority n d sigs (ac_owner ac) approved))"
| "check_authority n d sigs au approved =
     (let (enough, total_weight) = add_keys sigs (weight_threshold au) (fm_items (key_auths au)) 0
      in if enough then Inr (True, approved)
         else add_accounts n d sigs (weight_threshold au) (fm_items (account_auths au)) total_weight approved)"
| "add_accounts n d sigs threshold [] total_weight approved = Inr (threshold \<le> total_weight, approved)"
| "add_accounts n d sigs threshold ((a, w) # as) total_weight approved =
     (if fm_count approved a
      then if threshold \<le> total_weight + ucast w then Inr (True, approved)
           else add_accounts n d sigs threshold as (total_weight + ucast w) approved
      else if n = 0 then add_accounts n d sigs threshold as total_weight approved
      else ebind (check_account (n - 1) d sigs a approved) (\<lambda>(ok, approved).
             if ok
             then if threshold \<le> total_weight + ucast w then Inr (True, fs_insert a approved)
                  else add_accounts n d sigs threshold as (total_weight + ucast w) (fs_insert a approved)
             else add_accounts n d sigs threshold as total_weight approved))"
  by pat_completeness auto
termination
  by (relation "measures [case_sum (\<lambda>(n, d, s, a, p). n) (case_sum (\<lambda>(n, d, s, a, p). n) (\<lambda>(n, d, s, t, as, tot, p). n)),
        case_sum (\<lambda>_. 2) (case_sum (\<lambda>_. 1) (\<lambda>_. 0)),
        case_sum (\<lambda>_. 0) (case_sum (\<lambda>_. 0) (\<lambda>(n, d, s, t, as, tot, p). length as))]") auto

text \<open>\<^verbatim>\<open>sign_state::check_authority(account_id)\<close> with the key of one signature and no recursion.\<close>

definition approved_at_start :: "account_id flat_set" where
  "approved_at_start = fs_of_list [GRAPHENE_TEMP_ACCOUNT]"

definition sign_state_check_authority :: "database \<Rightarrow> string flat_set \<Rightarrow> account_id \<Rightarrow> bool res" where
  "sign_state_check_authority d sigs a =
     (if fm_count approved_at_start a then Inr True
      else ebind (check_account 0 d sigs a approved_at_start) (\<lambda>(ok, approved). Inr ok))"

section \<open>Accounts\<close>

definition is_lifetime_member :: "account_object \<Rightarrow> bool" where
  "is_lifetime_member a \<longleftrightarrow> membership_expiration_date a = time_max"

definition is_member :: "time \<Rightarrow> account_object \<Rightarrow> bool" where
  "is_member now a \<longleftrightarrow> now \<le> membership_expiration_date a"

definition account_upgrade_apply :: "account_id \<Rightarrow> database \<Rightarrow> database res" where
  "account_upgrade_apply a d =
     ebind (idx_get (accounts d) a) (\<lambda>ac.
     ebind (check (\<not> is_lifetime_member ac) ''!account->is_lifetime_member()'') (\<lambda>_.
       Inr (d\<lparr>accounts := idx_set a (ac\<lparr>membership_expiration_date := time_max\<rparr>) (accounts d)\<rparr>)))"

text \<open>The fields of \<^verbatim>\<open>account_create_operation\<close> that an invitation fills in.\<close>

record account_create_operation =
  ca_registrar :: account_id
  ca_referrer :: account_id
  ca_name :: string
  ca_owner :: account_authority
  ca_active :: account_authority

definition account_create_validate :: "account_create_operation \<Rightarrow> unit res" where
  "account_create_validate op =
     ebind (check (is_valid_name (ca_name op)) ''Account name is invalid'') (\<lambda>_.
     ebind (check (num_auths (ca_owner op) \<noteq> 0) ''owner.num_auths() != 0'') (\<lambda>_.
     ebind (check (num_auths (ca_active op) \<noteq> 0) ''active.num_auths() != 0'') (\<lambda>_.
     ebind (check (\<not> is_impossible (ca_owner op)) ''impossible owner authority threshold'') (\<lambda>_.
       check (\<not> is_impossible (ca_active op)) ''impossible active authority threshold''))))"

definition verify_authority_accounts :: "database \<Rightarrow> account_authority \<Rightarrow> unit res" where
  "verify_authority_accounts d a =
     ebind (check (num_auths a \<le> maximum_authority_membership d) ''Maximum authority membership exceeded'') (\<lambda>_.
       efold (\<lambda>(acnt, w) _. check (is_account_exists d acnt) ''Account specified in authority does not exist'')
         (fm_items (account_auths a)) ())"

definition account_create_evaluate :: "database \<Rightarrow> account_create_operation \<Rightarrow> unit res" where
  "account_create_evaluate d op =
     ebind (idx_get (accounts d) (ca_registrar op)) (\<lambda>registrar.
     ebind (check (is_lifetime_member registrar) ''Only Lifetime members may register an account.'') (\<lambda>_.
     ebind (idx_get (accounts d) (ca_referrer op)) (\<lambda>referrer.
     ebind (check (is_member (head_block_time d) referrer) ''The referrer must be a member'') (\<lambda>_.
     ebind (verify_authority_accounts d (ca_owner op)) (\<lambda>_.
     ebind (verify_authority_accounts d (ca_active op)) (\<lambda>_.
     ebind (check (is_account_exists d GRAPHENE_PROXY_TO_SELF_ACCOUNT) ''Invalid proxy account specified.'') (\<lambda>_.
       check (idx_lookup (\<lambda>i a. ac_name a = ca_name op) (accounts d) = None) ''Account already exists'')))))))"

definition account_create_apply :: "account_create_operation \<Rightarrow> database \<Rightarrow> (account_id \<times> database) res" where
  "account_create_apply op d =
     ebind (idx_create (\<lambda>a b. ac_name a = ac_name b)
              \<lparr>ac_name = ca_name op, ac_owner = ca_owner op, ac_active = ca_active op,
               membership_expiration_date = 0\<rparr> (accounts d)) (\<lambda>(i, ix).
       Inr (i, d\<lparr>accounts := ix\<rparr>))"

section \<open>The operations\<close>

record player_invitation_create_operation =
  pic_fee :: asset
  pic_inviter :: account_id
  pic_uid :: string
  pic_lifetime_in_sec :: nat
  pic_metadata :: string

record player_invitation_cancel_operation =
  pix_fee :: asset
  pix_inviter :: account_id
  pix_uid :: string

record player_invitation_resolve_operation =
  pir_fee :: asset
  pir_inviter :: account_id
  pir_uid :: string
  pir_mandat :: string
  pir_name :: string
  pir_owner :: account_authority
  pir_active :: account_authority

definition PLAYCHAIN_MINIMAL_INVITATION_EXPIRATION_PERIOD :: nat where
  "PLAYCHAIN_MINIMAL_INVITATION_EXPIRATION_PERIOD = 5 * 60"

definition PLAYCHAIN_MAXIMUM_INVITATION_EXPIRATION_PERIOD :: nat where
  "PLAYCHAIN_MAXIMUM_INVITATION_EXPIRATION_PERIOD = 30 * 24 * 60 * 60"

definition player_invitation_create_validate :: "player_invitation_create_operation \<Rightarrow> unit res" where
  "player_invitation_create_validate op =
     ebind (check (\<not> is_special_account (pic_inviter op)) ''special inviter'') (\<lambda>_.
     ebind (check (pic_uid op \<noteq> []) ''!uid.empty()'') (\<lambda>_.
     ebind (check (PLAYCHAIN_MINIMAL_INVITATION_EXPIRATION_PERIOD \<le> pic_lifetime_in_sec op) ''delta >= minimal'') (\<lambda>_.
       check (pic_lifetime_in_sec op \<le> PLAYCHAIN_MAXIMUM_INVITATION_EXPIRATION_PERIOD) ''delta <= maximum'')))"

definition player_invitation_resolve_validate :: "player_invitation_resolve_operation \<Rightarrow> unit res" where
  "player_invitation_resolve_validate op =
     ebind (check (\<not> is_special_account (pir_inviter op)) ''special inviter'') (\<lambda>_.
     ebind (check (pir_uid op \<noteq> []) ''!uid.empty()'') (\<lambda>_.
       check (pir_name op \<noteq> []) ''!name.empty()''))"

definition player_invitation_cancel_validate :: "player_invitation_cancel_operation \<Rightarrow> unit res" where
  "player_invitation_cancel_validate op =
     ebind (check (\<not> is_special_account (pix_inviter op)) ''special inviter'') (\<lambda>_.
       check (pix_uid op \<noteq> []) ''!uid.empty()'')"

section \<open>The evaluators\<close>

definition find_invitation :: "database \<Rightarrow> account_id \<Rightarrow> string \<Rightarrow> (nat \<times> player_invitation_object) option" where
  "find_invitation d inviter uid = idx_lookup (\<lambda>i v. iv_inviter v = inviter \<and> iv_uid v = uid) (invitations d)"

text \<open>\<^verbatim>\<open>exists ^ (end() == find(...))\<close>\<close>

definition check_invitation :: "database \<Rightarrow> bool \<Rightarrow> account_id \<Rightarrow> string \<Rightarrow> unit res" where
  "check_invitation d exists inviter uid =
     check (exists \<noteq> (find_invitation d inviter uid = None))
       (if exists then ''Invitation must exist'' else ''Invitation must not exist'')"

definition create_digest_by_invitation :: "'h externals \<Rightarrow> string \<Rightarrow> string \<Rightarrow> string" where
  "create_digest_by_invitation ext inviter uid = invitation_digest ext (chain_id ext) inviter uid"

definition get_signature_key :: "'h externals \<Rightarrow> string \<Rightarrow> string \<Rightarrow> string res" where
  "get_signature_key ext signature digest =
     ebind (public_key ext signature digest) (\<lambda>k.
     ebind (check (k \<noteq> []) ''public_key_type() != result'') (\<lambda>_. Inr k))"

definition check_mandat :: "'h externals \<Rightarrow> database \<Rightarrow> account_id \<Rightarrow> string \<Rightarrow> string \<Rightarrow> unit res" where
  "check_mandat ext d account digest mandat =
     ebind (get_signature_key ext mandat digest) (\<lambda>pk.
     ebind (sign_state_check_authority d (fs_of_list [pk]) account) (\<lambda>ok.
       check ok ''Missing inviter authority''))"

definition check_invitation_authority :: "'h externals \<Rightarrow> database \<Rightarrow> account_id \<Rightarrow> string \<Rightarrow> string \<Rightarrow> unit res" where
  "check_invitation_authority ext d inviter uid mandat =
     ebind (idx_get (accounts d) inviter) (\<lambda>ac.
       check_mandat ext d inviter (create_digest_by_invitation ext (ac_name ac) uid) mandat)"

definition player_invitation_create_evaluate :: "database \<Rightarrow> player_invitation_create_operation \<Rightarrow> unit res" where
  "player_invitation_create_evaluate d op =
     ebind (check_invitation d False (pic_inviter op) (pic_uid op)) (\<lambda>_.
     ebind (idx_get (accounts d) (pic_inviter op)) (\<lambda>inviter.
       if is_lifetime_member inviter then Inr ()
       else check (\<not> is_special_account (pic_inviter op)) ''special account_to_upgrade''))"

text \<open>
  An inviter who is no lifetime member becomes one: the operation \<^verbatim>\<open>_upgrade_account\<close> that the evaluation
  prepares names the inviter in this case and otherwise the special account 0, which is skipped.
\<close>

definition player_invitation_create_apply :: "player_invitation_create_operation \<Rightarrow> database \<Rightarrow> database res" where
  "player_invitation_create_apply op d =
     ebind (idx_get (accounts d) (pic_inviter op)) (\<lambda>inviter.
     ebind (if is_lifetime_member inviter \<or> is_special_account (pic_inviter op) then Inr d
            else account_upgrade_apply (pic_inviter op) d) (\<lambda>d.
     ebind (idx_create (\<lambda>a b. iv_inviter a = iv_inviter b \<and> iv_uid a = iv_uid b)
              \<lparr>iv_inviter = pic_inviter op, iv_uid = pic_uid op, iv_created = head_block_time d,
               iv_expiration = head_block_time d + pic_lifetime_in_sec op, iv_metadata = pic_metadata op\<rparr>
              (invitations d)) (\<lambda>(i, ix). Inr (d\<lparr>invitations := ix\<rparr>))))"

definition player_invitation_cancel_evaluate :: "database \<Rightarrow> player_invitation_cancel_operation \<Rightarrow> unit res" where
  "player_invitation_cancel_evaluate d op = check_invitation d True (pix_inviter op) (pix_uid op)"

definition remove_invitation :: "account_id \<Rightarrow> string \<Rightarrow> database \<Rightarrow> database res" where
  "remove_invitation inviter uid d =
     ebind (of_option Null_deref (find_invitation d inviter uid)) (\<lambda>(i, v).
       Inr (d\<lparr>invitations := idx_remove i (invitations d)\<rparr>))"

definition player_invitation_cancel_apply :: "player_invitation_cancel_operation \<Rightarrow> database \<Rightarrow> database res" where
  "player_invitation_cancel_apply op d = remove_invitation (pix_inviter op) (pix_uid op) d"

definition invited_account :: "player_invitation_resolve_operation \<Rightarrow> account_create_operation" where
  "invited_account op =
     \<lparr>ca_registrar = pir_inviter op, ca_referrer = GRAPHENE_TEMP_ACCOUNT, ca_name = pir_name op,
      ca_owner = pir_owner op, ca_active = pir_active op\<rparr>"

definition player_invitation_resolve_evaluate :: "'h externals \<Rightarrow> database \<Rightarrow> player_invitation_resolve_operation \<Rightarrow> unit res" where
  "player_invitation_resolve_evaluate ext d op =
     ebind (check (is_account_exists d (pir_inviter op)) ''Inviter account does not exist'') (\<lambda>_.
     ebind (check_invitation d True (pir_inviter op) (pir_uid op)) (\<lambda>_.
     ebind (check_invitation_authority ext d (pir_inviter op) (pir_uid op) (pir_mandat op)) (\<lambda>_.
     ebind (check (get_keys (pir_active op) \<noteq> [] \<or> get_keys (pir_owner op) \<noteq> []) ''!keys.empty()'') (\<lambda>_.
       account_create_validate (invited_account op)))))"

definition player_invitation_resolve_apply :: "player_invitation_resolve_operation \<Rightarrow> database \<Rightarrow> database res" where
  "player_invitation_resolve_apply op d =
     (let inviter_like_player = (case find_player d (pir_inviter op) of Some (p, pl) \<Rightarrow> p | None \<Rightarrow> PLAYCHAIN_NULL_PLAYER)
      in ebind (account_create_evaluate d (invited_account op)) (\<lambda>_.
         ebind (account_create_apply (invited_account op) d) (\<lambda>(new_account_id, d).
         ebind (create_player new_account_id inviter_like_player d) (\<lambda>(new_player_id, d).
           remove_invitation (pir_inviter op) (pir_uid op)
             (push_applied_operation (Player_create new_account_id (pir_inviter op)) d)))))"

section \<open>The grammar of names\<close>

definition label_ok :: "string \<Rightarrow> bool" where
  "label_ok l \<longleftrightarrow> l \<noteq> [] \<and> is_lower_letter (hd l) \<and> (is_lower_letter (last l) \<or> is_digit_char (last l)) \<and>
     (\<forall>c \<in> set l. is_lower_letter c \<or> is_digit_char c \<or> c = CHR ''-'')"

fun join_labels :: "string list \<Rightarrow> string" where
  "join_labels [] = []"
| "join_labels [l] = l"
| "join_labels (l # k # ls) = l @ CHR ''.'' # join_labels (k # ls)"

lemma set_inner: "l \<noteq> [] \<Longrightarrow> set l = insert (hd l) (insert (last l) (set (butlast (tl l))))"
proof (cases l)
  case (Cons c cs)
  then show ?thesis by (cases cs rule: rev_cases) auto
qed simp

lemma label_ok_iff:
  "label_ok l \<longleftrightarrow> l \<noteq> [] \<and> is_lower_letter (hd l) \<and> (is_lower_letter (last l) \<or> is_digit_char (last l)) \<and>
     list_all (\<lambda>c. is_lower_letter c \<or> is_digit_char c \<or> c = CHR ''-'') (butlast (tl l))"
  unfolding label_ok_def list_all_iff using set_inner [of l] by auto

lemma label_ok_no_dot: "label_ok l \<Longrightarrow> CHR ''.'' \<notin> set l"
  by (auto simp: label_ok_def is_lower_letter_def is_digit_char_def less_eq_char_def)

lemma valid_labels_step:
  "valid_labels from \<longleftrightarrow> label_ok (takeWhile (\<lambda>c. c \<noteq> CHR ''.'') from) \<and>
     (dropWhile (\<lambda>c. c \<noteq> CHR ''.'') from = [] \<or> valid_labels (tl (dropWhile (\<lambda>c. c \<noteq> CHR ''.'') from)))"
  by (subst valid_labels.simps) (auto simp: Let_def label_ok_iff GRAPHENE_MIN_ACCOUNT_NAME_LENGTH_def)

lemma valid_labels_join: "ls \<noteq> [] \<Longrightarrow> \<forall>l \<in> set ls. label_ok l \<Longrightarrow> valid_labels (join_labels ls)"
proof (induction ls rule: join_labels.induct)
  case (2 l)
  then have l: "label_ok l" and "CHR ''.'' \<notin> set l" using label_ok_no_dot by simp_all
  then have eqs: "takeWhile (\<lambda>c. c \<noteq> CHR ''.'') l = l" "dropWhile (\<lambda>c. c \<noteq> CHR ''.'') l = []"
    by (auto simp: takeWhile_eq_all_conv dropWhile_eq_Nil_conv)
  show ?case unfolding join_labels.simps valid_labels_step [of l] eqs using l by simp
next
  case (3 l k ls)
  then have "CHR ''.'' \<notin> set l" using label_ok_no_dot by simp
  then have "takeWhile (\<lambda>c. c \<noteq> CHR ''.'') (l @ CHR ''.'' # r) = l" "dropWhile (\<lambda>c. c \<noteq> CHR ''.'') (l @ CHR ''.'' # r) = CHR ''.'' # r" for r
    by (auto simp: takeWhile_append dropWhile_append takeWhile_eq_all_conv)
  then show ?case using 3 by (subst valid_labels_step) simp
qed simp

lemma join_valid_labels: "valid_labels from \<Longrightarrow> \<exists>ls. ls \<noteq> [] \<and> from = join_labels ls \<and> (\<forall>l \<in> set ls. label_ok l)"
proof (induction "from" rule: length_induct)
  case (1 "from")
  let ?l = "takeWhile (\<lambda>c. c \<noteq> CHR ''.'') from" and ?b = "dropWhile (\<lambda>c. c \<noteq> CHR ''.'') from"
  have split: "?l @ ?b = from" by simp
  have l: "label_ok ?l" and more: "?b = [] \<or> valid_labels (tl ?b)" using 1(2) valid_labels_step by blast+
  show ?case
  proof (cases "?b = []")
    case True
    then have "from = join_labels [?l]" unfolding join_labels.simps by (metis append_Nil2 split)
    then show ?thesis using l by (intro exI [of _ "[?l]"]) simp
  next
    case False
    then have "hd ?b = CHR ''.''" by (metis (mono_tags, lifting) hd_dropWhile)
    with False have b: "?b = CHR ''.'' # tl ?b" by (metis list.collapse)
    have "valid_labels (tl ?b)" using False more by blast
    then obtain ls where ls: "ls \<noteq> []" "tl ?b = join_labels ls" "\<forall>k \<in> set ls. label_ok k"
      using 1(1) dropWhile_shorter [OF False] by blast
    then have "from = join_labels (?l # ls)" using split b by (cases ls) (metis join_labels.simps(3), metis join_labels.simps(3))
    then show ?thesis using l ls(3) by (intro exI [of _ "?l # ls"]) simp
  qed
qed

text \<open>
  C32: the loop over indexes accepts exactly the names that are labels joined by dots, each label starting
  with a letter, ending with a letter or digit and made of small letters, digits and dashes, of at most 63
  characters together. A label may be a single letter, although the comment in the source asks for three characters.
\<close>

theorem account_name_grammar:
  "is_valid_name name \<longleftrightarrow>
     length name \<le> 63 \<and> (\<exists>ls. ls \<noteq> [] \<and> name = join_labels ls \<and> list_all label_ok ls)"
proof -
  have "label_ok l \<Longrightarrow> 1 \<le> length (join_labels (l # ls))" for l ls
    by (cases ls) (auto simp: label_ok_def Suc_le_eq)
  then have "1 \<le> length (join_labels ls)" if "ls \<noteq> []" "list_all label_ok ls" for ls using that by (cases ls) auto
  then show ?thesis using valid_labels_join join_valid_labels [of name]
    by (fastforce simp: is_valid_name_def GRAPHENE_MIN_ACCOUNT_NAME_LENGTH_def GRAPHENE_MAX_ACCOUNT_NAME_LENGTH_def list_all_iff)
qed

section \<open>Authorities with one key\<close>

definition weight_of :: "'k::linorder \<Rightarrow> ('k, 16 word) flat_map \<Rightarrow> nat" where
  "weight_of k m = (case fm_find m k of None \<Rightarrow> 0 | Some w \<Rightarrow> unat w)"

text \<open>The weight that one key has together with the account that approves everything.\<close>

definition authorizes :: "account_authority \<Rightarrow> string \<Rightarrow> bool" where
  "authorizes au k \<longleftrightarrow>
     unat (weight_threshold au) \<le> weight_of k (key_auths au) + weight_of GRAPHENE_TEMP_ACCOUNT (account_auths au)"

definition accepts :: "account_object \<Rightarrow> string \<Rightarrow> bool" where
  "accepts ac k \<longleftrightarrow> authorizes (ac_active ac) k \<or> authorizes (ac_owner ac) k"

lemma add_keys_other: "\<forall>(k, w) \<in> set ks. k \<notin> fm_keys sigs \<Longrightarrow> add_keys sigs th ks t = (False, t)"
  by (induction ks) auto

lemma add_keys_one:
  "distinct (map fst ks) \<Longrightarrow> add_keys (fs_of_list [k]) th ks t =
     (case map_of ks k of None \<Rightarrow> (False, t) | Some w \<Rightarrow> (th \<le> t + ucast w, t + ucast w))"
proof (induction ks arbitrary: t)
  case (Cons x ks)
  obtain j w where x: "x = (j, w)" by (cases x)
  show ?case
  proof (cases "j = k")
    case True
    then have "add_keys (fs_of_list [k]) th ks s = (False, s)" for s
      using Cons.prems x by (intro add_keys_other) force
    then show ?thesis using True x by (simp add: Let_def)
  next
    case False
    then show ?thesis using Cons x by simp
  qed
qed simp

lemma add_accounts_one:
  "distinct (map fst as) \<Longrightarrow> add_accounts 0 d sigs th as t (fs_of_list [a]) =
     Inr (th \<le> t + (case map_of as a of None \<Rightarrow> 0 | Some w \<Rightarrow> ucast w), fs_of_list [a])"
proof (induction as arbitrary: t)
  case (Cons x as)
  obtain b w where x: "x = (b, w)" by (cases x)
  show ?case
  proof (cases "b = a")
    case True
    then have "map_of as a = None" using Cons.prems x by (auto simp: map_of_eq_None_iff)
    then show ?thesis using True Cons x by simp
  next
    case False
    then show ?thesis using Cons x by simp
  qed
qed simp

lemma ucast_sum_nat:
  fixes v w :: "16 word" and th :: "32 word"
  shows "th \<le> ucast v + ucast w \<longleftrightarrow> unat th \<le> unat v + unat w" "th \<le> ucast v \<longleftrightarrow> unat th \<le> unat v"
proof -
  have small: "unat x < 2 ^ 16" for x :: "16 word" using unsigned_less [of x] by simp
  have up: "unat (ucast x :: 32 word) = unat x" for x :: "16 word"
    using small [of x] by (simp add: unsigned_ucast_eq take_bit_nat_eq_self)
  have "unat v < 2 ^ 16" "unat w < 2 ^ 16" "unat (ucast v :: 32 word) = unat v" "unat (ucast w :: 32 word) = unat w"
    by (rule small up)+
  then have "unat (ucast v + ucast w :: 32 word) = unat v + unat w" by (simp add: unat_word_ariths)
  then show "th \<le> ucast v + ucast w \<longleftrightarrow> unat th \<le> unat v + unat w" "th \<le> ucast v \<longleftrightarrow> unat th \<le> unat v"
    using up [of v] by (simp_all add: word_le_nat_alt)
qed

lemma fm_find_map_of: "map_of (fm_items m) k = fm_find m k"
  by (simp add: fm_find.rep_eq)

lemma check_authority_one:
  "check_authority 0 d (fs_of_list [k]) au approved_at_start = Inr (authorizes au k, approved_at_start)"
proof -
  let ?th = "weight_threshold au"
  let ?temp = "case fm_find (account_auths au) GRAPHENE_TEMP_ACCOUNT of None \<Rightarrow> 0 | Some w \<Rightarrow> w"
  let ?key = "case fm_find (key_auths au) k of None \<Rightarrow> 0 | Some w \<Rightarrow> w"
  have accounts: "add_accounts 0 d (fs_of_list [k]) ?th (fm_items (account_auths au)) t approved_at_start =
      Inr (?th \<le> t + ucast ?temp, approved_at_start)" for t
    unfolding approved_at_start_def
    using add_accounts_one [OF fm_items_distinct, of d "fs_of_list [k]" ?th "account_auths au" t GRAPHENE_TEMP_ACCOUNT]
    by (simp add: fm_find_map_of split: option.splits)
  have keys: "add_keys (fs_of_list [k]) ?th (fm_items (key_auths au)) 0 = (False, ucast ?key) \<or>
      (add_keys (fs_of_list [k]) ?th (fm_items (key_auths au)) 0 = (True, ucast ?key) \<and> ?th \<le> ucast ?key)"
    using add_keys_one [OF fm_items_distinct, of k ?th "key_auths au" 0]
    by (auto simp: fm_find_map_of split: option.splits)
  have "authorizes au k \<longleftrightarrow> ?th \<le> ucast ?key + ucast ?temp"
    unfolding ucast_sum_nat by (auto simp: authorizes_def weight_of_def split: option.splits)
  then show ?thesis using keys accounts ucast_sum_nat(2) [of ?th ?key]
    by (auto simp: authorizes_def weight_of_def split: option.splits)
qed

lemma sign_state_check_authority_one:
  assumes "idx_find (accounts d) a = Some ac" and "a \<noteq> GRAPHENE_TEMP_ACCOUNT"
  shows "sign_state_check_authority d (fs_of_list [k]) a = Inr (accepts ac k)"
  using assms by (simp add: accepts_def sign_state_check_authority_def check_authority_one idx_get_def del: check_authority.simps)
    (simp add: approved_at_start_def)

section \<open>Invitations are unique\<close>

definition distinct_invitations :: "database \<Rightarrow> bool" where
  "distinct_invitations d \<longleftrightarrow> distinct (map (\<lambda>(i, v). (iv_inviter v, iv_uid v)) (idx_items (invitations d)))"

lemma distinct_invitations_iff:
  "distinct_invitations d \<longleftrightarrow> (\<forall>i j v w. idx_find (invitations d) i = Some v \<longrightarrow> idx_find (invitations d) j = Some w \<longrightarrow>
     iv_inviter v = iv_inviter w \<longrightarrow> iv_uid v = iv_uid w \<longrightarrow> i = j)" (is "?l \<longleftrightarrow> ?r")
proof -
  have "distinct (idx_items (invitations d))"
    using fm_items_distinct [of "objs (invitations d)"] by (simp add: idx_items_def distinct_map)
  moreover have "inj_on (\<lambda>(i, v). (iv_inviter v, iv_uid v)) (set (idx_items (invitations d))) \<longleftrightarrow> ?r"
    unfolding inj_on_def Ball_def split_paired_All by (auto simp: idx_items_iff; metis option.inject)
  ultimately show ?thesis by (simp add: distinct_invitations_def distinct_map)
qed

lemma remove_invitation_gone:
  assumes "remove_invitation inviter uid d = Inr d'" and "distinct_invitations d"
  shows "find_invitation d' inviter uid = None" "distinct_invitations d'"
proof -
  obtain i v where iv: "find_invitation d inviter uid = Some (i, v)" and d': "d' = d\<lparr>invitations := idx_remove i (invitations d)\<rparr>"
    using assms(1) by (auto simp: remove_invitation_def res_simps split: prod.splits)
  have v: "idx_find (invitations d) i = Some v" "iv_inviter v = inviter" "iv_uid v = uid"
    using iv idx_lookup_Some unfolding find_invitation_def by fastforce+
  show "find_invitation d' inviter uid = None" unfolding find_invitation_def idx_lookup_None d'
    using v assms(2) by (auto simp: distinct_invitations_iff split: if_splits)
  show "distinct_invitations d'" using assms(2) by (auto simp: d' distinct_invitations_iff split: if_splits)
qed

lemma find_invitation_fields [simp]:
  "find_invitation (d\<lparr>accounts := ac\<rparr>) inviter uid = find_invitation d inviter uid"
  "find_invitation (d\<lparr>players := ps\<rparr>) inviter uid = find_invitation d inviter uid"
  "find_invitation (push_applied_operation op d) inviter uid = find_invitation d inviter uid"
  by (simp_all add: find_invitation_def push_applied_operation_def)

lemma distinct_invitations_fields [simp]:
  "distinct_invitations (d\<lparr>accounts := ac\<rparr>) = distinct_invitations d"
  "distinct_invitations (d\<lparr>players := ps\<rparr>) = distinct_invitations d"
  "distinct_invitations (push_applied_operation op d) = distinct_invitations d"
  by (simp_all add: distinct_invitations_def push_applied_operation_def)

lemma invitation_create_distinct:
  assumes "player_invitation_create_apply op d = Inr d'" and "distinct_invitations d"
  shows "distinct_invitations d'"
proof -
  obtain v i ix where c: "idx_create (\<lambda>a b. iv_inviter a = iv_inviter b \<and> iv_uid a = iv_uid b) v (invitations d) = Inr (i, ix)"
    and d': "invitations d' = ix"
    using assms(1)
    by (auto simp: player_invitation_create_apply_def account_upgrade_apply_def ebind_Inr split: if_splits prod.splits)
  have "idx_find ix j = (if j = i then Some v else idx_find (invitations d) j)" for j
    using idx_create_find [OF c] by simp
  moreover have "\<not> (iv_inviter v = iv_inviter w \<and> iv_uid v = iv_uid w)" if "idx_find (invitations d) j = Some w" for j w
    using c that unfolding idx_create_Inr by (fastforce simp flip: idx_items_iff)
  ultimately show ?thesis using assms(2) by (fastforce simp: distinct_invitations_iff d')
qed

section \<open>Resolving an invitation\<close>

lemma invitation_resolve_cases:
  assumes "player_invitation_resolve_apply op d = Inr d'"
  obtains a ac ax p pl px where
    "account_create_evaluate d (invited_account op) = Inr ()"
    "ac = \<lparr>ac_name = pir_name op, ac_owner = pir_owner op, ac_active = pir_active op, membership_expiration_date = 0\<rparr>"
    "idx_create (\<lambda>a b. ac_name a = ac_name b) ac (accounts d) = Inr (a, ax)"
    "pl = \<lparr>pl_account = a,
       pl_inviter = (case find_player d (pir_inviter op) of Some (p, pl) \<Rightarrow> p | None \<Rightarrow> PLAYCHAIN_NULL_PLAYER),
       pending_fees = [], pending_parent_invitation_fees = fm_empty, pl_balance = None\<rparr>"
    "idx_create (\<lambda>a b. pl_account a = pl_account b) pl (players d) = Inr (p, px)"
    "remove_invitation (pir_inviter op) (pir_uid op)
       (push_applied_operation (Player_create a (pir_inviter op)) (d\<lparr>accounts := ax, players := px\<rparr>)) = Inr d'"
  using assms
  by (auto simp: player_invitation_resolve_apply_def account_create_apply_def create_player_def invited_account_def
      Let_def ebind_Inr split: prod.splits)

lemma check_invitation_authority_one:
  assumes "check_invitation_authority ext d inviter uid mandat = Inr ()" and "\<not> is_special_account inviter"
  obtains ac k where "idx_find (accounts d) inviter = Some ac"
    "get_signature_key ext mandat (create_digest_by_invitation ext (ac_name ac) uid) = Inr k" "accepts ac k"
proof -
  obtain ac k where ac: "idx_find (accounts d) inviter = Some ac"
    and k: "get_signature_key ext mandat (create_digest_by_invitation ext (ac_name ac) uid) = Inr k"
    and ok: "sign_state_check_authority d (fs_of_list [k]) inviter = Inr True"
    using assms(1) by (auto simp: check_invitation_authority_def check_mandat_def res_simps)
  then have "accepts ac k"
    using sign_state_check_authority_one [OF ac, of k] assms(2) by (auto simp: is_special_account_def)
  then show thesis by (rule that [OF ac k])
qed

lemma account_create_registrar:
  "account_create_evaluate d op = Inr () \<Longrightarrow> idx_find (accounts d) (ca_registrar op) = Some ac \<Longrightarrow> is_lifetime_member ac"
  by (auto simp: account_create_evaluate_def res_simps)

text \<open>
  C33: whoever resolves an invitation shows a mandate whose key, recovered for the digest of the chain, the name of the
  inviter and exactly this invitation, satisfies the active or the owner authority of the inviter; the inviter is a
  lifetime member; the new account has a valid name that nobody had, the new player belongs to it and is invited by
  the player of the inviter, and the invitation is gone, so it cannot be resolved again.
\<close>

theorem invitation_resolved:
  assumes "player_invitation_resolve_validate op = Inr ()" and "player_invitation_resolve_evaluate ext d op = Inr ()"
    and "player_invitation_resolve_apply op d = Inr d'" and "distinct_invitations d"
  shows "\<exists>ac k a p pl. idx_find (accounts d) (pir_inviter op) = Some ac \<and> is_lifetime_member ac \<and>
     get_signature_key ext (pir_mandat op) (create_digest_by_invitation ext (ac_name ac) (pir_uid op)) = Inr k \<and>
     accepts ac k \<and>
     find_invitation d (pir_inviter op) (pir_uid op) \<noteq> None \<and>
     is_valid_name (pir_name op) \<and> idx_lookup (\<lambda>i b. ac_name b = pir_name op) (accounts d) = None \<and>
     idx_find (accounts d) a = None \<and>
     idx_find (accounts d') a =
       Some \<lparr>ac_name = pir_name op, ac_owner = pir_owner op, ac_active = pir_active op, membership_expiration_date = 0\<rparr> \<and>
     idx_find (players d') p = Some pl \<and> pl_account pl = a \<and>
     (case find_player d (pir_inviter op) of None \<Rightarrow> pl_inviter pl = PLAYCHAIN_NULL_PLAYER | Some (q, ql) \<Rightarrow> pl_inviter pl = q) \<and>
     distinct_invitations d' \<and> find_invitation d' (pir_inviter op) (pir_uid op) = None \<and>
     (\<forall>op'. pir_inviter op' = pir_inviter op \<longrightarrow> pir_uid op' = pir_uid op \<longrightarrow>
        player_invitation_resolve_evaluate ext d' op' \<noteq> Inr ())"
proof -
  have ev: "check_invitation_authority ext d (pir_inviter op) (pir_uid op) (pir_mandat op) = Inr ()"
    "find_invitation d (pir_inviter op) (pir_uid op) \<noteq> None" "is_valid_name (pir_name op)"
    using assms(2) by (auto simp: player_invitation_resolve_evaluate_def account_create_validate_def check_invitation_def
        invited_account_def res_simps)
  have "\<not> is_special_account (pir_inviter op)"
    using assms(1) by (auto simp: player_invitation_resolve_validate_def res_simps)
  with ev(1) obtain ac k where ac: "idx_find (accounts d) (pir_inviter op) = Some ac"
    "get_signature_key ext (pir_mandat op) (create_digest_by_invitation ext (ac_name ac) (pir_uid op)) = Inr k" "accepts ac k"
    by (rule check_invitation_authority_one)
  from assms(3) show ?thesis
  proof (cases rule: invitation_resolve_cases)
    case (1 a new ax p pl px)
    note gone = remove_invitation_gone [OF 1(6)]
    have "player_invitation_resolve_evaluate ext d' op' \<noteq> Inr ()" if "pir_inviter op' = pir_inviter op" "pir_uid op' = pir_uid op" for op'
      using gone that assms(4) by (auto simp: player_invitation_resolve_evaluate_def check_invitation_def res_simps)
    moreover have "accounts d' = ax" "players d' = px"
      using 1(6) by (auto simp: remove_invitation_def push_applied_operation_def res_simps split: prod.splits)
    moreover have "is_lifetime_member ac" using account_create_registrar [OF 1(1)] ac(1) by (simp add: invited_account_def)
    moreover have "idx_lookup (\<lambda>i b. ac_name b = pir_name op) (accounts d) = None"
      using 1(1) by (auto simp: account_create_evaluate_def invited_account_def res_simps)
    moreover have "idx_find (accounts d) a = None" using 1(3) by (auto simp: idx_create_Inr)
    moreover have "idx_find (accounts d') a = Some new" "idx_find (players d') p = Some pl"
      using calculation(2,3) idx_create_find [OF 1(3)] idx_create_find [OF 1(5)] by simp_all
    ultimately show ?thesis using ac ev(2,3) gone assms(4) 1(2,4)
      by (intro exI [of _ ac] exI [of _ k] exI [of _ a] exI [of _ p] exI [of _ pl]) (simp split: option.splits)
  qed
qed

text \<open>Account 10 invites; the mandate is signed with its key.\<close>

definition sample_invitation_db :: database where
  "sample_invitation_db = sample_db\<lparr>invitations := of_objects [\<lparr>iv_inviter = 10, iv_uid = ''u1'', iv_created = 0,
     iv_expiration = time_max, iv_metadata = []\<rparr>]\<rparr>"

definition sample_resolve :: player_invitation_resolve_operation where
  "sample_resolve =
     \<lparr>pir_fee = core_asset 0, pir_inviter = 10, pir_uid = ''u1'',
      pir_mandat = ''chain'' @ replicate 11 CHR ''a'' @ ''u1|'' @ sample_key 10,
      pir_name = ''new.player1'', pir_owner = sample_authority 20, pir_active = sample_authority 20\<rparr>"

theorem invitation_resolved_witness:
  "\<exists>d'. player_invitation_resolve_apply sample_resolve sample_invitation_db = Inr d' \<and>
     find_invitation d' 10 ''u1'' = None \<and> is_valid_name ''new.player1''"
proof -
  let ?op = sample_resolve
  let ?r = "player_invitation_resolve_apply ?op sample_invitation_db"
  have "succeeds ?r" by code_simp
  then have r: "?r = Inr (result_of sample_invitation_db ?r)" by (rule succeedsE)
  have v: "player_invitation_resolve_validate ?op = Inr ()"
    "player_invitation_resolve_evaluate sample_externals sample_invitation_db ?op = Inr ()" "distinct_invitations sample_invitation_db"
    by code_simp+
  have "pir_inviter ?op = 10" "pir_uid ?op = ''u1''" "pir_name ?op = ''new.player1''" by (simp_all add: sample_resolve_def)
  then show ?thesis using invitation_resolved [OF v(1,2) r v(3)] r by (metis (no_types, lifting))
qed

end
