(* ===== verification/Machine.thy ===== *)
theory Machine
  imports Game_Obsolete Committee Invitations
begin

text \<open>
  The chain as a machine: an operation is validated, evaluated and applied
  (\<^verbatim>\<open>database::apply_operation\<close>, \<^verbatim>\<open>generic_evaluator::start_evaluate\<close>), a transaction is a list of
  operations that are validated first and then applied in their order
  (\<^verbatim>\<open>database::_apply_transaction\<close>), a block is a list of transactions followed by the change of the
  head time, the maintenance when it is due, the proposals that are due and the tasks of the block
  (\<^verbatim>\<open>database::_apply_block\<close>). The
  result: every operation, every transaction and every block keeps the invariant of the chain and the
  funds of every asset, so every chain that is reached from a good state holds exactly the funds it
  started with. The evaluation of fees, of authorities and of the operations of the Graphene core is
  outside the model, and so is the list of the applied operations that are no virtual ones.
\<close>

section \<open>Operations\<close>

datatype playchain_operation =
    Op_buy_in_table buy_in_table_operation
  | Op_buy_out_table buy_out_table_operation
  | Op_buy_in_reserve buy_in_reserve_operation
  | Op_buy_in_reserving_cancel buy_in_reserving_cancel_operation
  | Op_buy_in_reserving_resolve buy_in_reserving_resolve_operation
  | Op_buy_in_reserving_cancel_all buy_in_reserving_cancel_all_operation
  | Op_game_start_playing_check game_start_playing_check_operation
  | Op_game_result_check game_result_check_operation
  | Op_game_reset game_reset_operation
  | Op_room_create room_create_operation
  | Op_room_update room_update_operation
  | Op_table_create table_create_operation
  | Op_table_update table_update_operation
  | Op_tables_alive tables_alive_operation
  | Op_player_create_by_room_owner player_create_by_room_owner_operation
  | Op_committee_member_create playchain_committee_member_create_operation
  | Op_committee_member_update playchain_committee_member_update_operation
  | Op_committee_update_parameters playchain_committee_member_update_parameters_operation
  | Op_player_invitation_create player_invitation_create_operation
  | Op_player_invitation_resolve player_invitation_resolve_operation
  | Op_player_invitation_cancel player_invitation_cancel_operation
  | Op_vesting_balance_create vesting_balance_create_operation
  | Op_vesting_balance_withdraw vesting_balance_withdraw_operation

fun operation_validate :: "playchain_operation \<Rightarrow> unit res" where
  "operation_validate (Op_buy_in_table op) = buy_in_table_validate op"
| "operation_validate (Op_buy_out_table op) = buy_out_table_validate op"
| "operation_validate (Op_buy_in_reserve op) = buy_in_reserve_validate op"
| "operation_validate (Op_buy_in_reserving_cancel op) = buy_in_reserving_cancel_validate op"
| "operation_validate (Op_buy_in_reserving_resolve op) = buy_in_reserving_resolve_validate op"
| "operation_validate (Op_buy_in_reserving_cancel_all op) = buy_in_reserving_cancel_all_validate op"
| "operation_validate (Op_game_start_playing_check op) = game_start_playing_check_validate op"
| "operation_validate (Op_game_result_check op) = game_result_check_validate op"
| "operation_validate (Op_game_reset op) = game_reset_validate op"
| "operation_validate (Op_room_create op) = room_create_validate op"
| "operation_validate (Op_room_update op) = room_update_validate op"
| "operation_validate (Op_table_create op) = table_create_validate op"
| "operation_validate (Op_table_update op) = table_update_validate op"
| "operation_validate (Op_tables_alive op) = tables_alive_validate op"
| "operation_validate (Op_player_create_by_room_owner op) = player_create_by_room_owner_validate op"
| "operation_validate (Op_committee_member_create op) = committee_member_create_validate op"
| "operation_validate (Op_committee_member_update op) = committee_member_update_validate op"
| "operation_validate (Op_committee_update_parameters op) = committee_update_parameters_validate op"
| "operation_validate (Op_player_invitation_create op) = player_invitation_create_validate op"
| "operation_validate (Op_player_invitation_resolve op) = player_invitation_resolve_validate op"
| "operation_validate (Op_player_invitation_cancel op) = player_invitation_cancel_validate op"
| "operation_validate (Op_vesting_balance_create op) = vesting_balance_create_validate op"
| "operation_validate (Op_vesting_balance_withdraw op) = vesting_balance_withdraw_validate op"

fun do_evaluate :: "'h externals \<Rightarrow> bool \<Rightarrow> database \<Rightarrow> playchain_operation \<Rightarrow> unit res" where
  "do_evaluate ext proposed d (Op_buy_in_table op) = buy_in_table_evaluate d op"
| "do_evaluate ext proposed d (Op_buy_out_table op) = buy_out_table_evaluate d op"
| "do_evaluate ext proposed d (Op_buy_in_reserve op) = buy_in_reserve_evaluate d op"
| "do_evaluate ext proposed d (Op_buy_in_reserving_cancel op) = buy_in_cancel_evaluate d op"
| "do_evaluate ext proposed d (Op_buy_in_reserving_resolve op) = buy_in_reserving_resolve_evaluate d op"
| "do_evaluate ext proposed d (Op_buy_in_reserving_cancel_all op) = buy_in_reserving_cancel_all_evaluate d op"
| "do_evaluate ext proposed d (Op_game_start_playing_check op) = game_start_playing_check_evaluate d op"
| "do_evaluate ext proposed d (Op_game_result_check op) = game_result_check_evaluate d op"
| "do_evaluate ext proposed d (Op_game_reset op) = game_reset_evaluate d op"
| "do_evaluate ext proposed d (Op_room_create op) = room_create_evaluate d op"
| "do_evaluate ext proposed d (Op_room_update op) = room_update_evaluate d op"
| "do_evaluate ext proposed d (Op_table_create op) = table_create_evaluate d op"
| "do_evaluate ext proposed d (Op_table_update op) = table_update_evaluate d op"
| "do_evaluate ext proposed d (Op_tables_alive op) = table_alive_evaluate d op"
| "do_evaluate ext proposed d (Op_player_create_by_room_owner op) = player_create_by_room_owner_evaluate d op"
| "do_evaluate ext proposed d (Op_committee_member_create op) = committee_member_create_evaluate d op"
| "do_evaluate ext proposed d (Op_committee_member_update op) = committee_member_update_evaluate d op"
| "do_evaluate ext proposed d (Op_committee_update_parameters op) = committee_update_parameters_evaluate proposed op"
| "do_evaluate ext proposed d (Op_player_invitation_create op) = player_invitation_create_evaluate d op"
| "do_evaluate ext proposed d (Op_player_invitation_resolve op) = player_invitation_resolve_evaluate ext d op"
| "do_evaluate ext proposed d (Op_player_invitation_cancel op) = player_invitation_cancel_evaluate d op"
| "do_evaluate ext proposed d (Op_vesting_balance_create op) = vesting_balance_create_evaluate d op"
| "do_evaluate ext proposed d (Op_vesting_balance_withdraw op) = vesting_balance_withdraw_evaluate d op"

fun do_apply :: "'h::linorder externals \<Rightarrow> playchain_operation \<Rightarrow> database \<Rightarrow> database res" where
  "do_apply ext (Op_buy_in_table op) d = buy_in_table_apply op d"
| "do_apply ext (Op_buy_out_table op) d = buy_out_table_apply op d"
| "do_apply ext (Op_buy_in_reserve op) d = buy_in_reserve_apply op d"
| "do_apply ext (Op_buy_in_reserving_cancel op) d = buy_in_cancel_apply op d"
| "do_apply ext (Op_buy_in_reserving_resolve op) d = buy_in_reserving_resolve_apply op d"
| "do_apply ext (Op_buy_in_reserving_cancel_all op) d = buy_in_reserving_cancel_all_apply op d"
| "do_apply ext (Op_game_start_playing_check op) d = game_start_playing_check_apply ext op d"
| "do_apply ext (Op_game_result_check op) d = game_result_check_apply ext op d"
| "do_apply ext (Op_game_reset op) d = game_reset_apply op d"
| "do_apply ext (Op_room_create op) d = room_create_apply op d"
| "do_apply ext (Op_room_update op) d = room_update_apply op d"
| "do_apply ext (Op_table_create op) d = table_create_apply op d"
| "do_apply ext (Op_table_update op) d = table_update_apply op d"
| "do_apply ext (Op_tables_alive op) d = table_alive_apply op d"
| "do_apply ext (Op_player_create_by_room_owner op) d = player_create_by_room_owner_apply op d"
| "do_apply ext (Op_committee_member_create op) d = committee_member_create_apply op d"
| "do_apply ext (Op_committee_member_update op) d = committee_member_update_apply op d"
| "do_apply ext (Op_committee_update_parameters op) d = committee_update_parameters_apply op d"
| "do_apply ext (Op_player_invitation_create op) d = player_invitation_create_apply op d"
| "do_apply ext (Op_player_invitation_resolve op) d = player_invitation_resolve_apply op d"
| "do_apply ext (Op_player_invitation_cancel op) d = player_invitation_cancel_apply op d"
| "do_apply ext (Op_vesting_balance_create op) d = vesting_balance_create_apply op d"
| "do_apply ext (Op_vesting_balance_withdraw op) d = vesting_balance_withdraw_apply op d"

text \<open>
  \<^verbatim>\<open>generic_evaluator::start_evaluate\<close>; whether the transaction was proposed is part of the evaluation
  state.
\<close>

definition apply_operation ::
    "'h::linorder externals \<Rightarrow> bool \<Rightarrow> playchain_operation \<Rightarrow> database \<Rightarrow> database res" where
  "apply_operation ext proposed op d = ebind (do_evaluate ext proposed d op) (\<lambda>_. do_apply ext op d)"

section \<open>Transactions and blocks\<close>

definition transaction_validate :: "playchain_operation list \<Rightarrow> unit res" where
  "transaction_validate ops =
     ebind (check (ops \<noteq> []) ''A transaction must have at least one operation'') (\<lambda>_.
       efold (\<lambda>op _. operation_validate op) ops ())"

definition apply_transaction ::
    "'h::linorder externals \<Rightarrow> playchain_operation list \<Rightarrow> database \<Rightarrow> database res" where
  "apply_transaction ext ops d =
     ebind (transaction_validate ops) (\<lambda>_. efold (apply_operation ext False) ops d)"

text \<open>
  A proposal is applied as a whole or, when one of its operations throws, not at all; its operations
  were validated when it was created. An access outside of the memory is no exception.
\<close>

definition push_proposal ::
    "'h::linorder externals \<Rightarrow> playchain_operation list \<Rightarrow> database \<Rightarrow> database res" where
  "push_proposal ext ops d =
     ebind (transaction_validate ops) (\<lambda>_. efold (apply_operation ext True) ops d)"

definition is_fc_exception :: "err \<Rightarrow> bool" where
  "is_fc_exception e \<longleftrightarrow> e \<noteq> Null_deref \<and> e \<noteq> Div_by_zero"

definition clear_expired_proposals ::
    "'h::linorder externals \<Rightarrow> playchain_operation list list \<Rightarrow> database \<Rightarrow> database res" where
  "clear_expired_proposals ext proposals d =
     efold (\<lambda>ops d.
       case push_proposal ext ops d of
         Inr d' \<Rightarrow> Inr d'
       | Inl e \<Rightarrow> if is_fc_exception e then Inr d else Inl e) proposals d"

text \<open>
  What comes from the Graphene core: whether the maintenance is due (\<^verbatim>\<open>next_maintenance_time\<close>), the tally
  of the votes of the accounts, and the proposals that expire with this block and are authorized.
\<close>

record block =
  timestamp :: time
  transactions :: "playchain_operation list list"
  maint_needed :: bool
  tally :: vote_tally
  due_proposals :: "playchain_operation list list"

definition process_maintain_tasks :: "rating_lib \<Rightarrow> vote_tally \<Rightarrow> database \<Rightarrow> database res" where
  "process_maintain_tasks lib votes d =
     ebind (deposit_pending_fees d) (\<lambda>d.
     ebind (update_room_rating lib d) (\<lambda>d.
     ebind (update_table_weight d) (\<lambda>d.
     ebind (update_active_members votes d) (\<lambda>d.
       Inr (update_playchain_parameters d)))))"

definition apply_block ::
    "'h::linorder externals \<Rightarrow> rating_lib \<Rightarrow> block \<Rightarrow> database \<Rightarrow> database res" where
  "apply_block ext lib b d =
     ebind (check (head_block_time d < timestamp b) ''head_block_time() < next_block.timestamp'') (\<lambda>_.
     ebind (efold (apply_transaction ext) (transactions b) (d\<lparr>applied := []\<rparr>)) (\<lambda>d.
     let d = d\<lparr>head_block_time := timestamp b\<rparr>
     in ebind (if maint_needed b then process_maintain_tasks lib (tally b) d else Inr d) (\<lambda>d.
        ebind (clear_expired_proposals ext (due_proposals b) d) (\<lambda>d.
          process_block_tasks ext (maint_needed b) d))))"

section \<open>Every operation is sound\<close>

lemma calm_ends_sound:
  assumes "ends (calm {} d) m" and "\<And>d'. m = Inr d' \<Longrightarrow> conserves d d'"
  shows "ends (sound d) m"
  using assms by (auto simp: ends_def intro: sound_calm)

lemma validated_amounts:
  "buy_in_table_validate op1 = Inr u \<Longrightarrow> 0 < amount (bit_amount op1)"
  "buy_in_reserve_validate op2 = Inr u \<Longrightarrow> 0 < amount (bir_amount op2)"
  by (auto simp: buy_in_table_validate_def buy_in_reserve_validate_def res_simps)

lemma current_when_ok: "chain_ok d \<Longrightarrow> HARDFORK_PLAYCHAIN_8_TIME \<le> head_block_time d"
  by (simp add: chain_ok_def HARDFORK_PLAYCHAIN_8_TIME_def HARDFORK_PLAYCHAIN_10_TIME_def)

lemma same_funds_ends_sound:
  assumes "ends (\<lambda>d'. calm {} d d' \<and> same_funds d d') m"
  shows "ends (sound d) m"
  using assms by (auto simp: ends_def intro: sound_calm same_funds_conserves)

lemma invitation_create_sound: "ends (sound d) (player_invitation_create_apply op d)"
  by (rule same_funds_ends_sound)
    (simp add: player_invitation_create_apply_def account_upgrade_apply_def wp split: prod.splits)

lemma remove_invitation_calm:
  "remove_invitation inviter uid d = Inr d' \<Longrightarrow> calm T d d' \<and> same_funds d d'"
  by (auto simp: remove_invitation_def ebind_Inr split: prod.splits)

lemma invitation_cancel_sound: "ends (sound d) (player_invitation_cancel_apply op d)"
  by (rule same_funds_ends_sound) (auto simp: ends_def player_invitation_cancel_apply_def dest: remove_invitation_calm)

lemma invitation_resolve_sound: "ends (sound d) (player_invitation_resolve_apply op d)"
proof (rule same_funds_ends_sound, rule endsI)
  fix d' assume "player_invitation_resolve_apply op d = Inr d'"
  then show "calm {} d d' \<and> same_funds d d'"
  proof (cases rule: invitation_resolve_cases)
    case (1 a ac ax p pl px)
    let ?e = "d\<lparr>accounts := ax, players := px\<rparr>"
    have "players_le (d\<lparr>accounts := ax\<rparr>) ?e"
      using 1(5) players_le_create [of "d\<lparr>accounts := ax\<rparr>" pl "next_id px"] by (auto simp: idx_create_Inr)
    then have "calm {} d (push_applied_operation (Player_create a (pir_inviter op)) ?e)"
      using calm_players [of "{}" d "d\<lparr>accounts := ax\<rparr>" px] by simp
    then have "calm {} d d'" by (rule calm_trans) (use remove_invitation_calm [OF 1(6)] in blast)
    then show ?thesis using remove_invitation_calm [OF 1(6)] by (simp add: same_funds_def push_applied_operation_def)
  qed
qed

lemma vesting_create_sound:
  assumes "vesting_balance_create_validate op = Inr u"
  shows "ends (sound d) (vesting_balance_create_apply op d)"
proof (rule calm_ends_sound)
  show "ends (calm {} d) (vesting_balance_create_apply op d)"
    unfolding vesting_balance_create_apply_def by (auto simp: wp split: prod.splits intro!: calm_rules)
  show "conserves d d'" if "vesting_balance_create_apply op d = Inr d'" for d'
    using that assms by (auto simp: vesting_balance_create_validate_def res_simps intro: vesting_balance_create_conserves)
qed

lemma vesting_withdraw_sound:
  assumes "vesting_balance_withdraw_evaluate d op = Inr ()"
  shows "ends (sound d) (vesting_balance_withdraw_apply op d)"
proof (rule calm_ends_sound)
  have reads: "ends Q (vesting_withdraw t a vb)" if "\<And>vb. Q vb" for Q t a vb using that by (simp add: ends_def)
  show "ends (calm {} d) (vesting_balance_withdraw_apply op d)"
    unfolding vesting_balance_withdraw_apply_def by (auto simp: wp intro!: calm_rules reads)
  show "conserves d d'" if "vesting_balance_withdraw_apply op d = Inr d'" for d'
    by (rule vesting_balance_withdraw_conserves [OF that assms])
qed

lemmas calm_apply_sound =
  calm_ends_sound [OF buy_in_cancel_calm buy_in_cancel_conserves]
  calm_ends_sound [OF buy_in_reserving_resolve_calm buy_in_reserving_resolve_conserves]
  calm_ends_sound [OF buy_in_reserving_cancel_all_calm buy_in_reserving_cancel_all_conserves]
  calm_ends_sound [OF room_create_calm room_create_conserves]
  calm_ends_sound [OF room_update_calm room_update_conserves]
  calm_ends_sound [OF table_create_calm table_create_conserves]
  calm_ends_sound [OF table_update_calm table_update_conserves]
  calm_ends_sound [OF table_alive_calm table_alive_conserves]
  calm_ends_sound [OF player_create_calm player_create_conserves]
  committee_member_create_sound committee_member_update_sound committee_update_parameters_sound
  invitation_create_sound invitation_cancel_sound invitation_resolve_sound

lemma do_apply_sound:
  assumes "operation_validate op = Inr u" and "do_evaluate ext proposed d op = Inr v" and "chain_ok d"
  shows "ends (sound d) (do_apply ext op d)"
proof (cases op)
  case (Op_game_start_playing_check x)
  then show ?thesis
    using assms(2) game_start_sound [of d x] by (simp add: current_evaluators [OF current_when_ok [OF assms(3)]])
next
  case (Op_game_result_check x)
  then show ?thesis
    using assms(2) game_result_sound [of d x] by (simp add: current_evaluators [OF current_when_ok [OF assms(3)]])
next
  case (Op_game_reset x)
  then show ?thesis using assms(3) by (simp add: chain_ok_def game_reset_sound)
next
  case (Op_buy_in_table x)
  then show ?thesis
    using assms(1) by (auto intro!: calm_ends_sound [OF buy_in_table_calm] buy_in_table_conserves dest: validated_amounts)
next
  case (Op_buy_in_reserve x)
  then show ?thesis
    using assms(1) by (auto intro!: calm_ends_sound [OF buy_in_reserve_calm] buy_in_reserve_conserves dest: validated_amounts)
next
  case (Op_buy_out_table x)
  then show ?thesis
    using assms(2) by (auto intro!: calm_ends_sound [OF buy_out_op_calm] buy_out_op_conserves)
next
  case (Op_vesting_balance_create x)
  then show ?thesis using assms(1) vesting_create_sound by simp
next
  case (Op_vesting_balance_withdraw x)
  then show ?thesis using assms(2) vesting_withdraw_sound by simp
qed (auto intro: calm_apply_sound)

lemma apply_operation_sound:
  assumes "operation_validate op = Inr u"
  shows "ends (sound d) (apply_operation ext proposed op d)"
proof (rule endsI)
  fix d' assume "apply_operation ext proposed op d = Inr d'"
  then have e: "do_evaluate ext proposed d op = Inr ()" and a: "do_apply ext op d = Inr d'"
    by (auto simp: apply_operation_def ebind_Inr)
  show "sound d d'"
  proof (cases "chain_ok d")
    case True
    show ?thesis by (rule endsD [OF do_apply_sound [OF assms e True] a])
  qed (simp add: sound_def)
qed

section \<open>Transactions and blocks are sound\<close>

lemma transaction_validate_all:
  "transaction_validate ops = Inr u \<Longrightarrow> op \<in> set ops \<Longrightarrow> operation_validate op = Inr ()"
proof -
  assume "transaction_validate ops = Inr u" and "op \<in> set ops"
  moreover have "efold (\<lambda>op _. operation_validate op) ops () = Inr () \<Longrightarrow> op \<in> set ops \<Longrightarrow> operation_validate op = Inr ()"
    by (induction ops) (auto simp: ebind_Inr)
  ultimately show ?thesis by (auto simp: transaction_validate_def ebind_Inr)
qed

lemma validated_operations_sound:
  assumes "ebind (transaction_validate ops) (\<lambda>_. efold (apply_operation ext proposed) ops d) = Inr d'"
  shows "sound d d'"
proof -
  obtain u where v: "transaction_validate ops = Inr u" and r: "efold (apply_operation ext proposed) ops d = Inr d'"
    using assms by (auto simp: ebind_Inr)
  have "ends (sound d) (efold (apply_operation ext proposed) ops d)"
    by (rule ends_efold) (auto intro: sound_seq apply_operation_sound transaction_validate_all [OF v])
  then show "sound d d'" using r by (rule endsD)
qed

lemma apply_transaction_sound: "ends (sound d) (apply_transaction ext ops d)"
  by (rule endsI) (auto simp: apply_transaction_def intro: validated_operations_sound)

lemma clear_expired_proposals_sound: "ends (sound d) (clear_expired_proposals ext ps d)"
  unfolding clear_expired_proposals_def
  by (rule efold_sound, rule endsI)
    (auto simp: push_proposal_def split: sum.splits if_splits intro: validated_operations_sound)

text \<open>The invariant says nothing of the list of applied operations and only bounds the time from below.\<close>

lemma chain_ok_clock:
  assumes "chain_ok d" and "HARDFORK_PLAYCHAIN_10_TIME \<le> t"
  shows "chain_ok (d\<lparr>applied := vs, head_block_time := t\<rparr>)"
proof -
  let ?d = "d\<lparr>applied := vs, head_block_time := t\<rparr>"
  have "players_le d ?d" by (simp add: players_le_def find_player_def)
  then have "validate_result ?d u r = Inr True" if "validate_result d u r = Inr True" for u r
    using that by (rule validate_result_le [OF _ refl])
  then have "votes_ok ?d"
    using assms(1) unfolding chain_ok_def votes_ok_def by simp blast
  then show ?thesis using assms by (auto simp: chain_ok_def db_ok_def balances_ok_def)
qed

lemma held_clock [simp]: "held x (d\<lparr>applied := vs\<rparr>) = held x d" "held x (d\<lparr>head_block_time := t\<rparr>) = held x d"
  by (simp_all add: held_def)

lemma chain_ok_applied: "chain_ok d \<Longrightarrow> chain_ok (d\<lparr>applied := vs\<rparr>)"
  using chain_ok_clock [of d "head_block_time d" vs] by (simp add: chain_ok_def)

lemma chain_ok_time: "chain_ok d \<Longrightarrow> HARDFORK_PLAYCHAIN_10_TIME \<le> t \<Longrightarrow> chain_ok (d\<lparr>head_block_time := t\<rparr>)"
  using chain_ok_clock [of d t "applied d"] by simp

lemma process_maintain_tasks_sound: "ends (sound d) (process_maintain_tasks lib votes d)"
proof (rule endsI)
  fix d' assume "process_maintain_tasks lib votes d = Inr d'"
  then obtain d1 d2 d3 d4 where "deposit_pending_fees d = Inr d1" "update_room_rating lib d1 = Inr d2"
    "update_table_weight d2 = Inr d3" "update_active_members votes d3 = Inr d4" "d' = update_playchain_parameters d4"
    by (auto simp: process_maintain_tasks_def ebind_Inr)
  then show "sound d d'"
    by (metis endsD deposit_pending_fees_sound update_room_rating_sound update_table_weight_sound
        update_active_members_sound update_playchain_parameters_sound sound_trans)
qed

lemma apply_transactions_sound: "ends (sound d) (efold (apply_transaction ext) ts d)"
  by (rule efold_sound) (rule apply_transaction_sound)


lemma apply_block_keeps:
  assumes "apply_block ext lib b d = Inr d'" and "chain_ok d"
  shows "chain_ok d'" and "held x d' = held x d" and "head_block_time d' = timestamp b"
proof -
  from assms(1) obtain e f g where t: "head_block_time d < timestamp b"
    and e: "efold (apply_transaction ext) (transactions b) (d\<lparr>applied := []\<rparr>) = Inr e"
    and f: "(if maint_needed b then process_maintain_tasks lib (tally b) (e\<lparr>head_block_time := timestamp b\<rparr>)
             else Inr (e\<lparr>head_block_time := timestamp b\<rparr>)) = Inr f"
    and g: "clear_expired_proposals ext (due_proposals b) f = Inr g"
    and d': "process_block_tasks ext (maint_needed b) g = Inr d'"
    by (auto simp: apply_block_def ebind_Inr check_Inr Let_def)
  have "sound (e\<lparr>head_block_time := timestamp b\<rparr>) f"
    using f endsD [OF process_maintain_tasks_sound] by (auto split: if_splits)
  from sound_trans [OF sound_trans [OF this endsD [OF clear_expired_proposals_sound g]] endsD [OF process_block_tasks_sound d']]
  have tasks: "sound (e\<lparr>head_block_time := timestamp b\<rparr>) d'" .
  have "chain_ok e \<and> (\<forall>x. held x e = held x d)"
    using endsD [OF apply_transactions_sound e] chain_ok_applied [OF assms(2)] by (simp add: sound_def)
  moreover have "HARDFORK_PLAYCHAIN_10_TIME \<le> timestamp b" using assms(2) t by (simp add: chain_ok_def)
  ultimately show "chain_ok d'" "held x d' = held x d" "head_block_time d' = timestamp b"
    using tasks by (simp_all add: sound_def chain_ok_time)
qed

section \<open>The chain\<close>

text \<open>Blocks, transactions and validated operations are machines that keep the invariant and the funds.\<close>

lemma sound_step:
  assumes "ends (sound d) m" and "chain_ok d" and "m = Inr d'"
  shows "chain_ok d'" and "(\<lambda>x. held x d') = (\<lambda>x. held x d)"
  using assms by (simp_all add: ends_def sound_def)

interpretation chain: checked_machine "apply_block ext lib" chain_ok "\<lambda>d x. held x d"
  for ext :: "'h::linorder externals" and lib
  by unfold_locales (auto simp: fun_eq_iff intro: apply_block_keeps)

interpretation transaction: checked_machine "apply_transaction ext" chain_ok "\<lambda>d x. held x d"
  for ext :: "'h::linorder externals"
  by unfold_locales (rule sound_step [OF apply_transaction_sound]; assumption)+

end
