(* ===== verification/Table_Indexes.thy ===== *)
theory Table_Indexes
  imports Machine
begin

text \<open>
  The secondary indexes of tables and votings (\<^verbatim>\<open>table_object.cpp\<close>) and the hooks of the primary index
  that keep them (\<^verbatim>\<open>primary_index\<close> of \<^verbatim>\<open>index.hpp\<close>): the tables by the owner of their room, the tables by
  the players who reserved, wait or play there, and who voted last at a table. The results: as long as
  tables are only created empty and modified, the index of players is exactly the inverse of the tables;
  the incremental update by set differences equals the index that is rebuilt; a table that is loaded with
  players is missing in it; the statistics split the required voters into those who voted and those who
  did not.
\<close>

section \<open>The difference of sorted ranges\<close>

text \<open>\<^verbatim>\<open>std::set_difference\<close> walks through two sorted ranges.\<close>

fun set_difference :: "'a::linorder list \<Rightarrow> 'a list \<Rightarrow> 'a list" where
  "set_difference [] ys = []"
| "set_difference (x # xs) [] = x # xs"
| "set_difference (x # xs) (y # ys) =
     (if x < y then x # set_difference xs (y # ys)
      else if y < x then set_difference (x # xs) ys
      else set_difference xs ys)"

lemma set_difference_filter:
  "sorted_wrt (<) xs \<Longrightarrow> sorted_wrt (<) ys \<Longrightarrow> set_difference xs ys = filter (\<lambda>x. x \<notin> set ys) xs"
proof (induction xs ys rule: set_difference.induct)
  case (3 x xs y ys)
  have later: "filter (\<lambda>z. z \<notin> set (y # ys)) xs = filter (\<lambda>z. z \<notin> set ys) xs" if "\<not> x < y"
    by (rule filter_cong) (use 3(4) that in auto)
  have "x \<notin> set (y # ys)" if "x < y" using 3(5) that by auto
  moreover have "y \<notin> set (x # xs)" if "y < x" using 3(4) that by auto
  ultimately show ?case using 3 later by (auto intro!: filter_cong)
qed simp_all

lemma fs_items_sorted: "sorted_wrt (<) (fs_items s)"
  unfolding fs_items_def by (rule fm_items_sorted)

section \<open>The hooks of a primary index\<close>

text \<open>
  A secondary index overrides some of four hooks. The primary index calls \<^verbatim>\<open>object_inserted\<close> when it
  creates, inserts or loads an object, \<^verbatim>\<open>object_removed\<close> before it removes one, and around a modification
  \<^verbatim>\<open>about_to_modify\<close> and \<^verbatim>\<open>object_modified\<close>. The hooks may read the database, which is their first
  argument.
\<close>

record ('e, 'o, 's) secondary_index =
  object_inserted :: "'e \<Rightarrow> nat \<Rightarrow> 'o \<Rightarrow> 's \<Rightarrow> 's res"
  object_removed :: "'e \<Rightarrow> nat \<Rightarrow> 'o \<Rightarrow> 's \<Rightarrow> 's"
  about_to_modify :: "'e \<Rightarrow> nat \<Rightarrow> 'o \<Rightarrow> 's \<Rightarrow> 's"
  object_modified :: "'e \<Rightarrow> nat \<Rightarrow> 'o \<Rightarrow> 's \<Rightarrow> 's"

text \<open>The virtual functions that do nothing.\<close>

definition no_hooks :: "('e, 'o, 's) secondary_index" where
  "no_hooks = \<lparr>object_inserted = (\<lambda>e i x s. Inr s), object_removed = (\<lambda>e i x s. s),
     about_to_modify = (\<lambda>e i x s. s), object_modified = (\<lambda>e i x s. s)\<rparr>"

datatype 'o change = Inserted nat 'o | Modified nat 'o 'o | Removed nat 'o

fun primary_index_change ::
  "('e, 'o, 's) secondary_index \<Rightarrow> 'e \<Rightarrow> 'o change \<Rightarrow> (nat \<rightharpoonup> 'o) \<times> 's \<Rightarrow> ((nat \<rightharpoonup> 'o) \<times> 's) res" where
  "primary_index_change h e (Inserted i x) (os, s) =
     ebind (check (os i = None) ''Could not create object'') (\<lambda>_.
     ebind (object_inserted h e i x s) (\<lambda>s. Inr (os(i \<mapsto> x), s)))"
| "primary_index_change h e (Modified i x y) (os, s) =
     ebind (check (os i = Some x) ''Could not modify object'') (\<lambda>_.
     Inr (os(i \<mapsto> y), object_modified h e i y (about_to_modify h e i x s)))"
| "primary_index_change h e (Removed i x) (os, s) =
     ebind (check (os i = Some x) ''Could not remove object'') (\<lambda>_.
     Inr (os(i := None), object_removed h e i x s))"

text \<open>
  The states reached by changes of the objects that are admitted, while the database goes on elsewhere.
\<close>

inductive index_reaches :: "('e, 'o, 's) secondary_index \<Rightarrow> ('e \<Rightarrow> 'o change \<Rightarrow> bool) \<Rightarrow> ('e \<Rightarrow> (nat \<rightharpoonup> 'o) \<Rightarrow> 'e \<Rightarrow> bool) \<Rightarrow>
    'e \<times> (nat \<rightharpoonup> 'o) \<times> 's \<Rightarrow> 'e \<times> (nat \<rightharpoonup> 'o) \<times> 's \<Rightarrow> bool"
  for h admits later x where
  start: "index_reaches h admits later x x"
| change: "index_reaches h admits later x (e, y) \<Longrightarrow> admits e c \<Longrightarrow> primary_index_change h e c y = Inr z \<Longrightarrow>
     index_reaches h admits later x (e, z)"
| elsewhere: "index_reaches h admits later x (e, os, s) \<Longrightarrow> later e os e' \<Longrightarrow> index_reaches h admits later x (e', os, s)"

text \<open>
  What a secondary index promises: it agrees with the objects, it keeps doing so under the changes that
  it admits and while the rest of the database goes on in the way it relies on.
\<close>

locale secondary_index_contract =
  fixes hooks :: "('e, 'o, 's) secondary_index"
    and agrees :: "'e \<Rightarrow> (nat \<rightharpoonup> 'o) \<Rightarrow> 's \<Rightarrow> bool"
    and admits :: "'e \<Rightarrow> 'o change \<Rightarrow> bool"
    and later :: "'e \<Rightarrow> (nat \<rightharpoonup> 'o) \<Rightarrow> 'e \<Rightarrow> bool"
  assumes change_agrees:
      "agrees e os s \<Longrightarrow> admits e c \<Longrightarrow> primary_index_change hooks e c (os, s) = Inr (os', s') \<Longrightarrow> agrees e os' s'"
    and later_agrees: "agrees e os s \<Longrightarrow> later e os e' \<Longrightarrow> agrees e' os s"
begin

lemma reaches_agrees:
  "index_reaches hooks admits later (e, os, s) (e', os', s') \<Longrightarrow> agrees e os s \<Longrightarrow> agrees e' os' s'"
proof (induction "(e', os', s')" arbitrary: e' os' s' rule: index_reaches.induct)
  case (change d y c)
  then show ?case by (cases y) (auto intro: change_agrees)
qed (auto intro: later_agrees)

end

section \<open>Tables by player\<close>

type_synonym tables_by_player = "(player_id, table_id flat_set) flat_map"

record table_players_index =
  tables_with_pending_proposals_by_player :: tables_by_player
  tables_with_cash_by_player :: tables_by_player
  tables_with_playing_cash_by_player :: tables_by_player
  before_pending_proposals :: "player_id flat_set"
  before_cash :: "player_id flat_set"
  before_playing_cash :: "player_id flat_set"

definition get_pending_proposals :: "table_object \<Rightarrow> player_id flat_set" where
  "get_pending_proposals t = fs_of_list (map fst (fm_items (pending_proposals t)))"

definition get_cash :: "table_object \<Rightarrow> player_id flat_set" where
  "get_cash t = fs_of_list (map fst (fm_items (cash t)))"

definition get_playing_cash :: "table_object \<Rightarrow> player_id flat_set" where
  "get_playing_cash t = fs_of_list (map fst (fm_items (playing_cash t)))"

definition players_about_to_modify :: "table_object \<Rightarrow> table_players_index \<Rightarrow> table_players_index" where
  "players_about_to_modify before s =
     s\<lparr>before_pending_proposals := get_pending_proposals before, before_cash := get_cash before,
       before_playing_cash := get_playing_cash before\<rparr>"

text \<open>\<^verbatim>\<open>operator []\<close> of a map inserts an empty set for a new key.\<close>

definition tables_of :: "tables_by_player \<Rightarrow> player_id \<Rightarrow> table_id flat_set" where
  "tables_of m p = (case fm_find m p of None \<Rightarrow> fm_empty | Some s \<Rightarrow> s)"

definition move_players :: "table_id \<Rightarrow> player_id flat_set \<Rightarrow> player_id flat_set \<Rightarrow> tables_by_player \<Rightarrow> tables_by_player" where
  "move_players i before after m =
     (let removed = set_difference (fs_items before) (fs_items after);
          m = fold (\<lambda>p m. fm_put p (fm_erase i (tables_of m p)) m) removed m;
          added = set_difference (fs_items after) (fs_items before)
      in fold (\<lambda>p m. fm_put p (fs_insert i (tables_of m p)) m) added m)"

definition players_modified :: "table_id \<Rightarrow> table_object \<Rightarrow> table_players_index \<Rightarrow> table_players_index" where
  "players_modified i t s =
     s\<lparr>tables_with_pending_proposals_by_player :=
         move_players i (before_pending_proposals s) (get_pending_proposals t) (tables_with_pending_proposals_by_player s),
       tables_with_cash_by_player :=
         move_players i (before_cash s) (get_cash t) (tables_with_cash_by_player s),
       tables_with_playing_cash_by_player :=
         move_players i (before_playing_cash s) (get_playing_cash t) (tables_with_playing_cash_by_player s)\<rparr>"

text \<open>This index overrides the hooks around a modification and no others.\<close>

definition table_players_hooks :: "(database, table_object, table_players_index) secondary_index" where
  "table_players_hooks =
     no_hooks\<lparr>about_to_modify := \<lambda>d i. players_about_to_modify, object_modified := \<lambda>d. players_modified\<rparr>"

definition empty_players_index :: table_players_index where
  "empty_players_index =
     \<lparr>tables_with_pending_proposals_by_player = fm_empty, tables_with_cash_by_player = fm_empty,
      tables_with_playing_cash_by_player = fm_empty, before_pending_proposals = fm_empty,
      before_cash = fm_empty, before_playing_cash = fm_empty\<rparr>"

text \<open>The incremental update: the sets of exactly the players who left or came change, by this table.\<close>

lemma fold_put_other:
  "distinct ps \<Longrightarrow> tables_of (fold (\<lambda>p m. fm_put p (f (tables_of m p)) m) ps m) q =
     (if q \<in> set ps then f (tables_of m q) else tables_of m q)"
  by (induction ps arbitrary: m) (auto simp: tables_of_def)

lemma set_difference_items:
  "set (set_difference (fs_items xs) (fs_items ys)) = fm_keys xs - fm_keys ys"
  "distinct (set_difference (fs_items xs) (fs_items ys))"
  by (auto simp: set_difference_filter [OF fs_items_sorted fs_items_sorted])

lemma tables_of_move_players:
  "tables_of (move_players i before after m) p =
     (if p \<in> fm_keys before - fm_keys after then fm_erase i (tables_of m p)
      else if p \<in> fm_keys after - fm_keys before then fs_insert i (tables_of m p)
      else tables_of m p)"
  by (auto simp: move_players_def Let_def fold_put_other set_difference_items)

definition lists_exactly :: "(table_object \<Rightarrow> player_id set) \<Rightarrow> (nat \<rightharpoonup> table_object) \<Rightarrow> tables_by_player \<Rightarrow> bool" where
  "lists_exactly f ts m \<longleftrightarrow> (\<forall>p i. i \<in> fm_keys (tables_of m p) \<longleftrightarrow> (\<exists>t. ts i = Some t \<and> p \<in> f t))"

lemma lists_exactlyD: "lists_exactly f ts m \<Longrightarrow> i \<in> fm_keys (tables_of m p) \<longleftrightarrow> (\<exists>t. ts i = Some t \<and> p \<in> f t)"
  by (simp add: lists_exactly_def)

lemma lists_exactly_move:
  assumes "lists_exactly f ts m" and "ts i = Some x" and "fm_keys before = f x" and "fm_keys after = f y"
  shows "lists_exactly f (ts(i \<mapsto> y)) (move_players i before after m)"
  using assms(2-) lists_exactlyD [OF assms(1)] unfolding lists_exactly_def tables_of_move_players by auto

lemma lists_exactly_insert: "lists_exactly f ts m \<Longrightarrow> ts i = None \<Longrightarrow> f t = {} \<Longrightarrow> lists_exactly f (ts(i \<mapsto> t)) m"
  unfolding lists_exactly_def by auto

lemma lists_exactly_remove: "lists_exactly f ts m \<Longrightarrow> ts i = Some t \<Longrightarrow> f t = {} \<Longrightarrow> lists_exactly f (ts(i := None)) m"
  unfolding lists_exactly_def by auto

lemma players_keys [simp]:
  "fm_keys (get_pending_proposals t) = fm_keys (pending_proposals t)"
  "fm_keys (get_cash t) = fm_keys (cash t)"
  "fm_keys (get_playing_cash t) = fm_keys (playing_cash t)"
  by (simp_all only: get_pending_proposals_def get_cash_def get_playing_cash_def fm_keys_fs_of_list set_items_keys)

definition players_agree :: "(nat \<rightharpoonup> table_object) \<Rightarrow> table_players_index \<Rightarrow> bool" where
  "players_agree ts s \<longleftrightarrow>
     lists_exactly (\<lambda>t. fm_keys (pending_proposals t)) ts (tables_with_pending_proposals_by_player s) \<and>
     lists_exactly (\<lambda>t. fm_keys (cash t)) ts (tables_with_cash_by_player s) \<and>
     lists_exactly (\<lambda>t. fm_keys (playing_cash t)) ts (tables_with_playing_cash_by_player s)"

definition deserted :: "table_object \<Rightarrow> bool" where
  "deserted t \<longleftrightarrow> fm_is_empty (pending_proposals t) \<and> fm_is_empty (cash t) \<and> fm_is_empty (playing_cash t)"

fun tables_come_and_go_deserted :: "table_object change \<Rightarrow> bool" where
  "tables_come_and_go_deserted (Inserted i t) \<longleftrightarrow> deserted t"
| "tables_come_and_go_deserted (Modified i t u) \<longleftrightarrow> True"
| "tables_come_and_go_deserted (Removed i t) \<longleftrightarrow> deserted t"

lemma players_agree_empty: "players_agree (\<lambda>i. None) empty_players_index"
  by (simp add: players_agree_def lists_exactly_def empty_players_index_def tables_of_def)

lemma players_agree_change:
  assumes "players_agree ts s" and "tables_come_and_go_deserted c"
    and "primary_index_change table_players_hooks d c (ts, s) = Inr (ts', s')"
  shows "players_agree ts' s'"
proof (cases c)
  case (Modified i t u)
  then show ?thesis using assms
    by (auto simp: players_agree_def table_players_hooks_def no_hooks_def players_modified_def
        players_about_to_modify_def res_simps intro!: lists_exactly_move)
qed (use assms in \<open>auto simp: players_agree_def deserted_def table_players_hooks_def no_hooks_def res_simps
        intro: lists_exactly_insert lists_exactly_remove\<close>)

interpretation players_index: secondary_index_contract table_players_hooks "\<lambda>d. players_agree"
  "\<lambda>d. tables_come_and_go_deserted" "\<lambda>d ts e. True"
  by unfold_locales (auto intro: players_agree_change)

section \<open>Tables by owner\<close>

record table_owner_index =
  tables_by_owner :: "(account_id, table_id flat_set) flat_map"
  rooms_owners :: "(room_id, account_id) flat_map"

definition owner_inserted :: "database \<Rightarrow> table_id \<Rightarrow> table_object \<Rightarrow> table_owner_index \<Rightarrow> table_owner_index res" where
  "owner_inserted d i t s =
     (if tb_room t = PLAYCHAIN_NULL_ROOM then Inr s
      else ebind (idx_get (rooms d) (tb_room t)) (\<lambda>r.
             let owner = rm_owner r
             in Inr (s\<lparr>tables_by_owner := fm_put owner (fs_insert i (tables_of (tables_by_owner s) owner)) (tables_by_owner s),
                       rooms_owners := fm_put (tb_room t) owner (rooms_owners s)\<rparr>)))"

definition owner_removed :: "database \<Rightarrow> table_id \<Rightarrow> table_object \<Rightarrow> table_owner_index \<Rightarrow> table_owner_index" where
  "owner_removed d i t s =
     (if tb_room t = PLAYCHAIN_NULL_ROOM then s
      else let owner = (case idx_find (rooms d) (tb_room t) of
                          Some r \<Rightarrow> rm_owner r
                        | None \<Rightarrow> (case fm_find (rooms_owners s) (tb_room t) of
                                     Some owner \<Rightarrow> owner | None \<Rightarrow> GRAPHENE_NULL_ACCOUNT))
           in if owner = GRAPHENE_NULL_ACCOUNT then s
              else case fm_find (tables_by_owner s) owner of
                     None \<Rightarrow> s
                   | Some ts \<Rightarrow>
                       let ts = fm_erase i ts
                       in s\<lparr>tables_by_owner := (if fm_is_empty ts then fm_erase owner (tables_by_owner s)
                                                else fm_put owner ts (tables_by_owner s))\<rparr>)"

definition table_owner_hooks :: "(database, table_object, table_owner_index) secondary_index" where
  "table_owner_hooks = no_hooks\<lparr>object_inserted := owner_inserted, object_removed := owner_removed\<rparr>"

text \<open>
  The index agrees with the tables when it lists a table under the owner it remembers for its room, and it remembers
  an owner for every room with tables: the owner of the room, as long as the room is there.
\<close>

definition owners_agree :: "database \<Rightarrow> (nat \<rightharpoonup> table_object) \<Rightarrow> table_owner_index \<Rightarrow> bool" where
  "owners_agree d ts s \<longleftrightarrow>
     (\<forall>a i. i \<in> fm_keys (tables_of (tables_by_owner s) a) \<longleftrightarrow>
        (\<exists>t. ts i = Some t \<and> tb_room t \<noteq> PLAYCHAIN_NULL_ROOM \<and> fm_find (rooms_owners s) (tb_room t) = Some a)) \<and>
     (\<forall>i t. ts i = Some t \<longrightarrow> tb_room t \<noteq> PLAYCHAIN_NULL_ROOM \<longrightarrow>
        (\<exists>a. fm_find (rooms_owners s) (tb_room t) = Some a \<and> a \<noteq> GRAPHENE_NULL_ACCOUNT \<and>
           (\<forall>r. idx_find (rooms d) (tb_room t) = Some r \<longrightarrow> rm_owner r = a)))"

fun tables_stay_in_rooms :: "database \<Rightarrow> table_object change \<Rightarrow> bool" where
  "tables_stay_in_rooms d (Inserted i t) \<longleftrightarrow>
     (\<forall>r. idx_find (rooms d) (tb_room t) = Some r \<longrightarrow> tb_room t \<noteq> PLAYCHAIN_NULL_ROOM \<longrightarrow> rm_owner r \<noteq> GRAPHENE_NULL_ACCOUNT)"
| "tables_stay_in_rooms d (Modified i t u) \<longleftrightarrow> tb_room u = tb_room t"
| "tables_stay_in_rooms d (Removed i t) \<longleftrightarrow> True"

text \<open>A room that has tables may go, as in an undo that takes the room back before its tables, but no other comes in its place.\<close>

definition rooms_keep_owners :: "database \<Rightarrow> (nat \<rightharpoonup> table_object) \<Rightarrow> database \<Rightarrow> bool" where
  "rooms_keep_owners d ts d' \<longleftrightarrow>
     (\<forall>i t r'. ts i = Some t \<longrightarrow> idx_find (rooms d') (tb_room t) = Some r' \<longrightarrow>
        (\<exists>r. idx_find (rooms d) (tb_room t) = Some r \<and> rm_owner r' = rm_owner r))"

lemma owners_agree_later:
  assumes "owners_agree d ts s" and "rooms_keep_owners d ts d'"
  shows "owners_agree d' ts s"
proof -
  have "\<exists>a. fm_find (rooms_owners s) (tb_room t) = Some a \<and> a \<noteq> GRAPHENE_NULL_ACCOUNT \<and>
      (\<forall>r. idx_find (rooms d') (tb_room t) = Some r \<longrightarrow> rm_owner r = a)"
    if t: "ts i = Some t" "tb_room t \<noteq> PLAYCHAIN_NULL_ROOM" for i t
  proof -
    obtain a where a: "fm_find (rooms_owners s) (tb_room t) = Some a" "a \<noteq> GRAPHENE_NULL_ACCOUNT"
      "\<forall>r. idx_find (rooms d) (tb_room t) = Some r \<longrightarrow> rm_owner r = a"
      using assms(1) t unfolding owners_agree_def by blast
    moreover have "rm_owner r' = a" if "idx_find (rooms d') (tb_room t) = Some r'" for r'
      using assms(2) t(1) that a(3) unfolding rooms_keep_owners_def by fastforce
    ultimately show ?thesis by blast
  qed
  then show ?thesis using assms(1) unfolding owners_agree_def by blast
qed

lemma tables_of_put: "tables_of (fm_put k v m) p = (if p = k then v else tables_of m p)"
  by (simp add: tables_of_def)

lemma tables_of_erase: "tables_of (fm_erase k m) p = (if p = k then fm_empty else tables_of m p)"
  by (simp add: tables_of_def)

lemma owners_agree_inserted:
  assumes "owners_agree d ts s" and "ts i = None" and "tables_stay_in_rooms d (Inserted i t)"
    and "owner_inserted d i t s = Inr s'"
  shows "owners_agree d (ts(i \<mapsto> t)) s'"
proof (cases "tb_room t = PLAYCHAIN_NULL_ROOM")
  case True
  then show ?thesis using assms by (auto simp: owners_agree_def owner_inserted_def)
next
  case False
  then obtain r where r: "idx_find (rooms d) (tb_room t) = Some r" "rm_owner r \<noteq> GRAPHENE_NULL_ACCOUNT"
    and s': "s' = s\<lparr>tables_by_owner := fm_put (rm_owner r) (fs_insert i (tables_of (tables_by_owner s) (rm_owner r))) (tables_by_owner s),
      rooms_owners := fm_put (tb_room t) (rm_owner r) (rooms_owners s)\<rparr>"
    using assms(3,4) by (auto simp: owner_inserted_def res_simps Let_def)
  have "fm_find (rooms_owners s) (tb_room t) = Some (rm_owner r)" if "ts j = Some u" "tb_room u = tb_room t" for j u
    using assms(1) that r False by (fastforce simp: owners_agree_def)
  then have old: "fm_find (rooms_owners s') (tb_room u) = fm_find (rooms_owners s) (tb_room u)" if "ts j = Some u" for j u
    using that by (auto simp: s')
  have new: "fm_find (rooms_owners s') (tb_room t) = Some (rm_owner r)" by (simp add: s')
  have owners: "tables_of (tables_by_owner s') a =
      (if a = rm_owner r then fs_insert i (tables_of (tables_by_owner s) a) else tables_of (tables_by_owner s) a)" for a
    by (simp add: s' tables_of_put)
  have "j \<in> fm_keys (tables_of (tables_by_owner s') a) \<longleftrightarrow>
      (\<exists>u. (ts(i \<mapsto> t)) j = Some u \<and> tb_room u \<noteq> PLAYCHAIN_NULL_ROOM \<and> fm_find (rooms_owners s') (tb_room u) = Some a)" for j a
  proof (cases "j = i")
    case True
    then show ?thesis using assms(1,2) False by (auto simp: owners new owners_agree_def)
  next
    case False
    then show ?thesis using assms(1) by (auto simp: owners old owners_agree_def)
  qed
  moreover have "\<exists>a. fm_find (rooms_owners s') (tb_room u) = Some a \<and> a \<noteq> GRAPHENE_NULL_ACCOUNT \<and>
      (\<forall>r. idx_find (rooms d) (tb_room u) = Some r \<longrightarrow> rm_owner r = a)"
    if "(ts(i \<mapsto> t)) j = Some u" "tb_room u \<noteq> PLAYCHAIN_NULL_ROOM" for j u
    using that r new assms(1) old [of j u] by (cases "j = i") (auto simp: owners_agree_def)
  ultimately show ?thesis unfolding owners_agree_def by blast
qed

lemma owner_removed_tables:
  assumes "owners_agree d ts s" and "ts i = Some t"
  shows "tables_of (tables_by_owner (owner_removed d i t s)) a = fm_erase i (tables_of (tables_by_owner s) a) \<and>
    rooms_owners (owner_removed d i t s) = rooms_owners s"
proof (cases "tb_room t = PLAYCHAIN_NULL_ROOM")
  case True
  then have "i \<notin> fm_keys (tables_of (tables_by_owner s) a)" using assms by (auto simp: owners_agree_def)
  then show ?thesis using True by (simp add: owner_removed_def)
next
  case False
  then obtain b where b: "fm_find (rooms_owners s) (tb_room t) = Some b" "b \<noteq> GRAPHENE_NULL_ACCOUNT"
    "\<forall>r. idx_find (rooms d) (tb_room t) = Some r \<longrightarrow> rm_owner r = b"
    using assms unfolding owners_agree_def by blast
  have "i \<in> fm_keys (tables_of (tables_by_owner s) c) \<longleftrightarrow> c = b" for c
    using assms b(1) False unfolding owners_agree_def by auto
  moreover have "(case idx_find (rooms d) (tb_room t) of Some r \<Rightarrow> rm_owner r | None \<Rightarrow>
      (case fm_find (rooms_owners s) (tb_room t) of Some owner \<Rightarrow> owner | None \<Rightarrow> GRAPHENE_NULL_ACCOUNT)) = b"
    using b by (auto split: option.splits)
  ultimately show ?thesis using False b(2)
    by (cases "a = b")
       (auto simp: owner_removed_def Let_def tables_of_put tables_of_erase tables_of_def split: option.splits
             intro!: fs_eqI)
qed

lemma owners_agree_removed:
  assumes "owners_agree d ts s" and "ts i = Some t"
  shows "owners_agree d (ts(i := None)) (owner_removed d i t s)"
  using assms(1) owner_removed_tables [OF assms] unfolding owners_agree_def by auto

lemma owners_agree_change:
  assumes "owners_agree d ts s" and "tables_stay_in_rooms d c"
    and "primary_index_change table_owner_hooks d c (ts, s) = Inr (ts', s')"
  shows "owners_agree d ts' s'"
proof (cases c)
  case (Modified i t u)
  then have "ts i = Some t" "tb_room u = tb_room t" "ts' = ts(i \<mapsto> u)" "s' = s"
    using assms(2,3) by (auto simp: table_owner_hooks_def no_hooks_def res_simps)
  then show ?thesis using assms(1) by (auto simp: owners_agree_def)
next
  case (Inserted i t)
  then show ?thesis using assms owners_agree_inserted [of d ts s i t]
    by (auto simp: table_owner_hooks_def no_hooks_def res_simps simp del: tables_stay_in_rooms.simps)
next
  case (Removed i t)
  then show ?thesis using assms by (auto simp: table_owner_hooks_def no_hooks_def res_simps intro: owners_agree_removed)
qed

interpretation owner_index: secondary_index_contract table_owner_hooks owners_agree tables_stay_in_rooms rooms_keep_owners
  by unfold_locales (auto intro: owners_agree_change owners_agree_later)

section \<open>Votes\<close>

record table_voting_statistics_index =
  voted_last_time_players_by_table :: "(table_id, account_id list) flat_map"
  not_voted_last_time_players_by_table :: "(table_id, account_id list) flat_map"

definition voting_inserted :: "table_voting_object \<Rightarrow> table_voting_statistics_index \<Rightarrow> table_voting_statistics_index" where
  "voting_inserted tv s =
     s\<lparr>not_voted_last_time_players_by_table := fm_put (tv_table tv) [] (not_voted_last_time_players_by_table s),
       voted_last_time_players_by_table :=
         fm_put (tv_table tv) (map fst (fm_items (tv_votes tv))) (voted_last_time_players_by_table s)\<rparr>"

definition voting_removed :: "table_voting_object \<Rightarrow> table_voting_statistics_index \<Rightarrow> table_voting_statistics_index" where
  "voting_removed tv s =
     (let votes = map fst (fm_items (tv_votes tv));
          missed = set_difference (fs_items (tv_required_player_voters tv)) votes
      in s\<lparr>not_voted_last_time_players_by_table :=
             fm_put (tv_table tv) missed (not_voted_last_time_players_by_table s),
           voted_last_time_players_by_table :=
             fm_put (tv_table tv) votes (voted_last_time_players_by_table s)\<rparr>)"

definition table_voting_statistics_hooks :: "('e, table_voting_object, table_voting_statistics_index) secondary_index" where
  "table_voting_statistics_hooks =
     no_hooks\<lparr>object_inserted := \<lambda>e i tv s. Inr (voting_inserted tv s), object_removed := \<lambda>e i. voting_removed\<rparr>"

section \<open>Results\<close>

text \<open>
  C34: as long as tables are created and removed without players, whatever modifications come between, the
  index of players is exactly the inverse of the tables: it lists a table under a player as reserved,
  waiting or playing if and only if the table has a proposal, cash or cash in the game of this player.
\<close>

theorem players_index_agrees:
  assumes "index_reaches table_players_hooks (\<lambda>d. tables_come_and_go_deserted) (\<lambda>d ts e. True)
      (d, (\<lambda>i. None), empty_players_index) (d', ts, s)"
  shows "(i \<in> fm_keys (tables_of (tables_with_pending_proposals_by_player s) p) \<longleftrightarrow>
        (\<exists>t. ts i = Some t \<and> p \<in> fm_keys (pending_proposals t))) \<and>
     (i \<in> fm_keys (tables_of (tables_with_cash_by_player s) p) \<longleftrightarrow>
        (\<exists>t. ts i = Some t \<and> p \<in> fm_keys (cash t))) \<and>
     (i \<in> fm_keys (tables_of (tables_with_playing_cash_by_player s) p) \<longleftrightarrow>
        (\<exists>t. ts i = Some t \<and> p \<in> fm_keys (playing_cash t)))"
  using players_index.reaches_agrees [OF assms players_agree_empty]
  by (simp add: players_agree_def lists_exactly_def)

text \<open>Player 2 sits down at the new table 1 and leaves it for player 3.\<close>

definition table_with_cash :: "player_id list \<Rightarrow> table_object" where
  "table_with_cash ps = new_table\<lparr>tb_room := 1, cash := fm_of_list (map (\<lambda>p. (p, core_asset 100)) ps)\<rparr>"

definition seated_index :: table_players_index where
  "seated_index = players_modified 1 (table_with_cash [3]) (players_about_to_modify (table_with_cash [2])
     (players_modified 1 (table_with_cash [2]) (players_about_to_modify (table_with_cash []) empty_players_index)))"

lemma seated_reached:
  "index_reaches table_players_hooks (\<lambda>d. tables_come_and_go_deserted) (\<lambda>d ts e. True)
     (sample_db, (\<lambda>i. None), empty_players_index) (sample_db, [1 \<mapsto> table_with_cash [3]], seated_index)"
proof -
  let ?h = "table_players_hooks" and ?t = table_with_cash
  have steps: "primary_index_change ?h sample_db (Inserted 1 (?t [])) (\<lambda>i. None, empty_players_index) =
      Inr ([1 \<mapsto> ?t []], empty_players_index)"
    "primary_index_change ?h sample_db (Modified 1 (?t []) (?t [2])) ([1 \<mapsto> ?t []], s) =
      Inr ([1 \<mapsto> ?t [2]], players_modified 1 (?t [2]) (players_about_to_modify (?t []) s))"
    "primary_index_change ?h sample_db (Modified 1 (?t [2]) (?t [3])) ([1 \<mapsto> ?t [2]], s) =
      Inr ([1 \<mapsto> ?t [3]], players_modified 1 (?t [3]) (players_about_to_modify (?t [2]) s))" for s
    by (simp_all add: table_players_hooks_def no_hooks_def check_def)
  have "deserted (?t [])" by code_simp
  then show ?thesis unfolding seated_index_def
    by (intro index_reaches.change [OF _ _ steps(3)] index_reaches.change [OF _ _ steps(2)]
        index_reaches.change [OF _ _ steps(1)] index_reaches.start) simp_all
qed

theorem players_index_agrees_witness:
  "1 \<in> fm_keys (tables_of (tables_with_cash_by_player seated_index) 3) \<and>
   1 \<notin> fm_keys (tables_of (tables_with_cash_by_player seated_index) 2)"
proof -
  have "2 \<notin> fm_keys (cash (table_with_cash [3]))" "3 \<in> fm_keys (cash (table_with_cash [3]))" by code_simp+
  then show ?thesis
    using players_index_agrees [OF seated_reached, of 1 2] players_index_agrees [OF seated_reached, of 1 3] by simp
qed

definition moved :: "table_id \<Rightarrow> bool \<Rightarrow> bool \<Rightarrow> table_id flat_set \<Rightarrow> table_id flat_set" where
  "moved i was is ts = (if was \<and> \<not> is then fm_erase i ts else if is \<and> \<not> was then fs_insert i ts else ts)"

text \<open>
  The incremental update by two set differences is the obvious one: the set of a player loses the
  table when the player left it, gets it when the player came, and is untouched otherwise.
\<close>

theorem players_update_exact:
  "tables_of (tables_with_pending_proposals_by_player (players_modified i u (players_about_to_modify t s))) p =
     moved i (p \<in> fm_keys (pending_proposals t)) (p \<in> fm_keys (pending_proposals u))
       (tables_of (tables_with_pending_proposals_by_player s) p) \<and>
   tables_of (tables_with_cash_by_player (players_modified i u (players_about_to_modify t s))) p =
     moved i (p \<in> fm_keys (cash t)) (p \<in> fm_keys (cash u)) (tables_of (tables_with_cash_by_player s) p) \<and>
   tables_of (tables_with_playing_cash_by_player (players_modified i u (players_about_to_modify t s))) p =
     moved i (p \<in> fm_keys (playing_cash t)) (p \<in> fm_keys (playing_cash u))
       (tables_of (tables_with_playing_cash_by_player s) p)"
  by (simp add: players_modified_def players_about_to_modify_def tables_of_move_players moved_def)

text \<open>The three ways a player is at a table, and the part of the index for each.\<close>

datatype seat = Reserved | Waiting | Playing

fun seat_players :: "seat \<Rightarrow> table_object \<Rightarrow> player_id set" where
  "seat_players Reserved t = fm_keys (pending_proposals t)"
| "seat_players Waiting t = fm_keys (cash t)"
| "seat_players Playing t = fm_keys (playing_cash t)"

fun seat_index :: "seat \<Rightarrow> table_players_index \<Rightarrow> tables_by_player" where
  "seat_index Reserved s = tables_with_pending_proposals_by_player s"
| "seat_index Waiting s = tables_with_cash_by_player s"
| "seat_index Playing s = tables_with_playing_cash_by_player s"

lemma players_agree_seat: "players_agree ts s \<Longrightarrow> lists_exactly (seat_players k) ts (seat_index k s)"
  by (cases k) (auto simp: players_agree_def lists_exactly_def)

lemma seat_index_modified:
  "i \<in> fm_keys (tables_of (seat_index k (players_modified j u (players_about_to_modify t s))) p) \<longleftrightarrow>
     (if j = i \<and> p \<in> seat_players k t \<and> p \<notin> seat_players k u then False
      else if j = i \<and> p \<notin> seat_players k t \<and> p \<in> seat_players k u then True
      else i \<in> fm_keys (tables_of (seat_index k s) p))"
proof -
  obtain before after where "fm_keys before = seat_players k t" "fm_keys after = seat_players k u"
    "seat_index k (players_modified j u (players_about_to_modify t s)) = move_players j before after (seat_index k s)"
    by (cases k) (auto simp: players_modified_def players_about_to_modify_def intro!: that)
  then show ?thesis by (auto simp: tables_of_move_players)
qed

lemma seat_index_change:
  assumes "primary_index_change table_players_hooks d c (ts, s) = Inr (ts', s')"
  shows "i \<in> fm_keys (tables_of (seat_index k s') p) \<longleftrightarrow>
    (case c of
       Modified j t u \<Rightarrow>
         if j = i \<and> p \<in> seat_players k t \<and> p \<notin> seat_players k u then False
         else if j = i \<and> p \<notin> seat_players k t \<and> p \<in> seat_players k u then True
         else i \<in> fm_keys (tables_of (seat_index k s) p)
     | _ \<Rightarrow> i \<in> fm_keys (tables_of (seat_index k s) p))"
  using assms
  by (cases c) (auto simp: table_players_hooks_def no_hooks_def res_simps seat_index_modified)

text \<open>Changes that leave a player at table \<open>i\<close>, and changes that do not concern the table.\<close>

fun stays_at :: "seat \<Rightarrow> table_id \<Rightarrow> player_id \<Rightarrow> table_object change \<Rightarrow> bool" where
  "stays_at k i p (Inserted j t) \<longleftrightarrow> True"
| "stays_at k i p (Modified j t u) \<longleftrightarrow> (j = i \<longrightarrow> p \<in> seat_players k u)"
| "stays_at k i p (Removed j t) \<longleftrightarrow> j \<noteq> i"

fun other_table :: "table_id \<Rightarrow> table_object change \<Rightarrow> bool" where
  "other_table i (Inserted j t) \<longleftrightarrow> j \<noteq> i"
| "other_table i (Modified j t u) \<longleftrightarrow> j \<noteq> i"
| "other_table i (Removed j t) \<longleftrightarrow> j \<noteq> i"

interpretation unlisted: secondary_index_contract table_players_hooks
  "\<lambda>d ts s. (\<exists>t. ts i = Some t \<and> p \<in> seat_players k t) \<and> i \<notin> fm_keys (tables_of (seat_index k s) p)"
  "\<lambda>d. stays_at k i p" "\<lambda>d ts e. True" for k i p
proof unfold_locales
  fix d ts s c ts' s'
  assume a: "(\<exists>t. ts i = Some t \<and> p \<in> seat_players k t) \<and> i \<notin> fm_keys (tables_of (seat_index k s) p)" "stays_at k i p c"
    and step: "primary_index_change table_players_hooks d c (ts, s) = Inr (ts', s')"
  show "(\<exists>t. ts' i = Some t \<and> p \<in> seat_players k t) \<and> i \<notin> fm_keys (tables_of (seat_index k s') p)"
    unfolding seat_index_change [OF step] using a step by (cases c) (auto simp: res_simps)
qed

interpretation ghost: secondary_index_contract table_players_hooks
  "\<lambda>d ts s. ts i = None \<and> i \<in> fm_keys (tables_of (seat_index k s) p)" "\<lambda>d. other_table i" "\<lambda>d ts e. True" for k i p
proof unfold_locales
  fix d ts s c ts' s'
  assume a: "ts i = None \<and> i \<in> fm_keys (tables_of (seat_index k s) p)" "other_table i c"
    and step: "primary_index_change table_players_hooks d c (ts, s) = Inr (ts', s')"
  show "ts' i = None \<and> i \<in> fm_keys (tables_of (seat_index k s') p)"
    unfolding seat_index_change [OF step] using a step by (cases c) (auto simp: res_simps)
qed

text \<open>
  C35: the index of players overrides neither \<^verbatim>\<open>object_inserted\<close> nor \<^verbatim>\<open>object_removed\<close>. From an index that agrees
  with the tables, a table that is loaded or restored with a player, in whichever of the three ways the player is
  there, is not listed under the player as long as the player stays, whatever changes follow; and a table that is
  removed while a player is there, as by undoing the session that created it, stays listed under the player
  although it does not exist, as long as no table with its number comes again.
\<close>

theorem players_index_misses_tables:
  assumes "players_agree ts s" and "p \<in> seat_players k t"
  shows "(ts i = None \<longrightarrow> primary_index_change table_players_hooks d (Inserted i t) (ts, s) = Inr (ts1, s1) \<longrightarrow>
      index_reaches table_players_hooks (\<lambda>d. stays_at k i p) (\<lambda>d ts e. True) (d, ts1, s1) (d', ts', s') \<longrightarrow>
        (\<exists>u. ts' i = Some u \<and> p \<in> seat_players k u) \<and> i \<notin> fm_keys (tables_of (seat_index k s') p)) \<and>
    (primary_index_change table_players_hooks d (Removed i t) (ts, s) = Inr (ts1, s1) \<longrightarrow>
      index_reaches table_players_hooks (\<lambda>d. other_table i) (\<lambda>d ts e. True) (d, ts1, s1) (d', ts', s') \<longrightarrow>
        ts' i = None \<and> i \<in> fm_keys (tables_of (seat_index k s') p))"
proof (intro conjI impI)
  note listed = lists_exactlyD [OF players_agree_seat [OF assms(1)]]
  assume new: "ts i = None" and step: "primary_index_change table_players_hooks d (Inserted i t) (ts, s) = Inr (ts1, s1)"
    and run: "index_reaches table_players_hooks (\<lambda>d. stays_at k i p) (\<lambda>d ts e. True) (d, ts1, s1) (d', ts', s')"
  have "(\<exists>u. ts1 i = Some u \<and> p \<in> seat_players k u) \<and> i \<notin> fm_keys (tables_of (seat_index k s1) p)"
    unfolding seat_index_change [OF step] using new step assms(2) by (auto simp: res_simps listed)
  from unlisted.reaches_agrees [OF run this]
  show "\<exists>u. ts' i = Some u \<and> p \<in> seat_players k u" "i \<notin> fm_keys (tables_of (seat_index k s') p)" by blast+
next
  note listed = lists_exactlyD [OF players_agree_seat [OF assms(1)]]
  assume step: "primary_index_change table_players_hooks d (Removed i t) (ts, s) = Inr (ts1, s1)"
    and run: "index_reaches table_players_hooks (\<lambda>d. other_table i) (\<lambda>d ts e. True) (d, ts1, s1) (d', ts', s')"
  have "ts1 i = None \<and> i \<in> fm_keys (tables_of (seat_index k s1) p)"
    unfolding seat_index_change [OF step] using step assms(2) by (auto simp: res_simps listed)
  from ghost.reaches_agrees [OF run this]
  show "ts' i = None" "i \<in> fm_keys (tables_of (seat_index k s') p)" by blast+
qed

theorem players_index_misses_tables_witness:
  "(\<exists>s. primary_index_change table_players_hooks sample_db (Inserted 1 (table_with_cash [3])) (\<lambda>i. None, empty_players_index) =
      Inr ([1 \<mapsto> table_with_cash [3]], s) \<and> 1 \<notin> fm_keys (tables_of (tables_with_cash_by_player s) 3)) \<and>
   (\<exists>s. primary_index_change table_players_hooks sample_db (Removed 1 (table_with_cash [3]))
        ([1 \<mapsto> table_with_cash [3]], seated_index) = Inr (\<lambda>i. None, s) \<and>
      1 \<in> fm_keys (tables_of (tables_with_cash_by_player s) 3))"
proof -
  have p: "3 \<in> seat_players Waiting (table_with_cash [3])" by code_simp
  have agree: "players_agree [1 \<mapsto> table_with_cash [3]] seated_index"
    using players_index.reaches_agrees [OF seated_reached players_agree_empty] .
  have loaded: "primary_index_change table_players_hooks sample_db (Inserted 1 (table_with_cash [3])) (\<lambda>i. None, empty_players_index) =
      Inr ([1 \<mapsto> table_with_cash [3]], empty_players_index)"
    by (simp add: table_players_hooks_def no_hooks_def check_def)
  have removed: "primary_index_change table_players_hooks sample_db (Removed 1 (table_with_cash [3]))
      ([1 \<mapsto> table_with_cash [3]], seated_index) = Inr ((\<lambda>i. None), seated_index)"
    by (auto simp: table_players_hooks_def no_hooks_def check_def)
  have "1 \<notin> fm_keys (tables_of (seat_index Waiting empty_players_index) 3)"
    using players_index_misses_tables [OF players_agree_empty p, where i = 1 and d = sample_db] loaded index_reaches.start by blast
  moreover have "1 \<in> fm_keys (tables_of (seat_index Waiting seated_index) 3)"
    using players_index_misses_tables [OF agree p, where i = 1 and d = sample_db] removed index_reaches.start by blast
  ultimately show ?thesis using loaded removed by simp
qed

text \<open>
  C36: the index of owners agrees with the tables through every creation, modification and removal of tables and
  while rooms are created, updated and removed: a table of a room that is there is listed under the owner of the room
  and under nobody else, and what is not a table, or is in the null room, is listed nowhere. This also holds when
  rooms are removed before their tables, as in an undo. The conditions are those of the code: a table stays in its
  room, the owner of a room with tables does not change, and no table is created in a room of the null account.
\<close>

theorem owner_index_agrees:
  assumes "index_reaches table_owner_hooks tables_stay_in_rooms rooms_keep_owners
      (d, (\<lambda>i. None), \<lparr>tables_by_owner = fm_empty, rooms_owners = fm_empty\<rparr>) (d', ts, s)"
  shows "(\<forall>t r. ts i = Some t \<and> tb_room t \<noteq> PLAYCHAIN_NULL_ROOM \<and> idx_find (rooms d') (tb_room t) = Some r \<longrightarrow>
       (i \<in> fm_keys (tables_of (tables_by_owner s) a) \<longleftrightarrow> rm_owner r = a)) \<and>
     (i \<in> fm_keys (tables_of (tables_by_owner s) a) \<longrightarrow> (\<exists>t. ts i = Some t \<and> tb_room t \<noteq> PLAYCHAIN_NULL_ROOM))"
proof -
  have "owners_agree d (\<lambda>i. None) \<lparr>tables_by_owner = fm_empty, rooms_owners = fm_empty\<rparr>"
    by (simp add: owners_agree_def tables_of_def)
  from owner_index.reaches_agrees [OF assms this] show ?thesis by (fastforce simp: owners_agree_def)
qed

text \<open>A table is created, its room is taken back, and then the table.\<close>

theorem owner_index_agrees_witness:
  "\<exists>s s'. index_reaches table_owner_hooks tables_stay_in_rooms rooms_keep_owners
      (sample_db, (\<lambda>i. None), \<lparr>tables_by_owner = fm_empty, rooms_owners = fm_empty\<rparr>)
      (sample_db, [1 \<mapsto> sample_table], s) \<and>
    1 \<in> fm_keys (tables_of (tables_by_owner s) 10) \<and>
    primary_index_change table_owner_hooks (sample_db\<lparr>rooms := idx_empty\<rparr>) (Removed 1 sample_table) ([1 \<mapsto> sample_table], s) =
      Inr ((\<lambda>i. None), s') \<and>
    1 \<notin> fm_keys (tables_of (tables_by_owner s') 10)"
proof -
  let ?s = "\<lparr>tables_by_owner = fm_empty, rooms_owners = fm_empty\<rparr>" and ?gone = "sample_db\<lparr>rooms := idx_empty\<rparr>"
  have room: "idx_find (rooms sample_db) (tb_room sample_table) = Some sample_room" "rm_owner sample_room = 10"
    "tb_room sample_table \<noteq> PLAYCHAIN_NULL_ROOM" "(10::nat) \<noteq> GRAPHENE_NULL_ACCOUNT" by code_simp+
  then obtain s where step: "primary_index_change table_owner_hooks sample_db (Inserted 1 sample_table) (\<lambda>i. None, ?s) =
      Inr ([1 \<mapsto> sample_table], s)"
    by (simp add: table_owner_hooks_def no_hooks_def check_def owner_inserted_def idx_get_def Let_def)
  have reached: "index_reaches table_owner_hooks tables_stay_in_rooms rooms_keep_owners
      (sample_db, (\<lambda>i. None), ?s) (sample_db, [1 \<mapsto> sample_table], s)"
    by (rule index_reaches.change [OF index_reaches.start _ step]) (use room in simp)
  then have listed: "1 \<in> fm_keys (tables_of (tables_by_owner s) 10)" using owner_index_agrees [OF reached, of 1 10] room by auto
  obtain s' where step': "primary_index_change table_owner_hooks ?gone (Removed 1 sample_table) ([1 \<mapsto> sample_table], s) =
      Inr ((\<lambda>i. None), s')"
    by (auto simp: table_owner_hooks_def no_hooks_def check_def)
  have "index_reaches table_owner_hooks tables_stay_in_rooms rooms_keep_owners (sample_db, (\<lambda>i. None), ?s) (?gone, (\<lambda>i. None), s')"
    by (rule index_reaches.change [OF index_reaches.elsewhere [OF reached] _ step']) (simp_all add: rooms_keep_owners_def)
  from owner_index_agrees [OF this, of 1 10] listed reached step' show ?thesis by auto
qed

text \<open>
  When a voting is removed, the accounts reported for its table are exactly the voters and exactly the
  required players without a vote, each once and in order; when it is created nobody is reported as missing.
\<close>

theorem missed_voters_exact:
  "\<exists>voted missed.
     fm_find (voted_last_time_players_by_table (voting_removed tv s)) (tv_table tv) = Some voted \<and>
     fm_find (not_voted_last_time_players_by_table (voting_removed tv s)) (tv_table tv) = Some missed \<and>
     sorted_wrt (<) voted \<and> sorted_wrt (<) missed \<and> set voted = fm_keys (tv_votes tv) \<and>
     set missed = fm_keys (tv_required_player_voters tv) - fm_keys (tv_votes tv) \<and>
     fm_find (not_voted_last_time_players_by_table (voting_inserted tv s)) (tv_table tv) = Some []"
proof -
  let ?missed = "set_difference (fs_items (tv_required_player_voters tv)) (map fst (fm_items (tv_votes tv)))"
  have missed: "?missed = filter (\<lambda>a. a \<notin> fm_keys (tv_votes tv)) (fs_items (tv_required_player_voters tv))"
    using set_difference_filter [OF fs_items_sorted fm_items_sorted] by (simp only: set_items_keys)
  have "sorted_wrt (<) ?missed" unfolding missed by (rule sorted_wrt_filter) (rule fs_items_sorted)
  moreover have "set ?missed = fm_keys (tv_required_player_voters tv) - fm_keys (tv_votes tv)"
    unfolding missed by auto
  ultimately show ?thesis
    using set_items_keys [of "tv_votes tv"] fm_items_sorted [of "tv_votes tv"]
    by (simp add: voting_removed_def voting_inserted_def Let_def del: set_map)
qed

end
