(* ===== verification/Api.thy ===== *)
theory Api
  imports Table_Indexes
begin

text \<open>
  The queries of the node on the state of the chain (\<^verbatim>\<open>playchain_api.cpp\<close>): pages of objects, the
  resolution of names and ids, the state of a table, the tables of a player, the balances of a member,
  subscriptions. How a text is read as an object id (\<^verbatim>\<open>fc::variant::as\<close>) is a parameter. The results: the
  pages of a list put together are the whole list, an object that is removed between two pages
  makes the next one disappear, and the tables of a player are exactly those where the player reserved,
  waits or plays.
\<close>

section \<open>Names and ids\<close>

datatype id_kind = Account_kind | Player_kind | Room_kind | Table_kind | Witness_kind | Invitation_kind | Member_kind

type_synonym id_parser = "id_kind \<Rightarrow> string \<Rightarrow> nat option"

definition maybe_id :: "id_parser \<Rightarrow> id_kind \<Rightarrow> string \<Rightarrow> nat option" where
  "maybe_id parse kind name_or_id =
     (case name_or_id of [] \<Rightarrow> None | c # cs \<Rightarrow> if is_digit_char c then parse kind name_or_id else None)"

definition PLAYCHAIN_MAX_SIZE_FOR_RESULT_API_LIST :: nat where
  "PLAYCHAIN_MAX_SIZE_FOR_RESULT_API_LIST = 100"

definition check_limit :: "nat \<Rightarrow> unit res" where
  "check_limit limit = check (limit \<le> PLAYCHAIN_MAX_SIZE_FOR_RESULT_API_LIST) ''Limit can't be greater''"

definition get_account_by_name :: "database \<Rightarrow> string \<Rightarrow> (account_id \<times> account_object) option" where
  "get_account_by_name d name = idx_lookup (\<lambda>i a. ac_name a = name) (accounts d)"

definition existing_player :: "database \<Rightarrow> player_id \<Rightarrow> unit res" where
  "existing_player d p =
     ebind (check (p \<noteq> PLAYCHAIN_NULL_PLAYER) ''Invalid player'') (\<lambda>_.
       check (is_player_id_exists d p) ''Player doesn't exist'')"

definition get_account_id :: "id_parser \<Rightarrow> database \<Rightarrow> string \<Rightarrow> account_id res" where
  "get_account_id parse d account_name_or_id =
     ebind (case maybe_id parse Player_kind account_name_or_id of
              Some p \<Rightarrow> ebind (existing_player d p) (\<lambda>_. ebind (idx_get (players d) p) (\<lambda>pl. Inr (pl_account pl)))
            | None \<Rightarrow>
                (case maybe_id parse Account_kind account_name_or_id of
                   Some a \<Rightarrow> Inr a
                 | None \<Rightarrow> of_option (Assert ''Account not found'')
                             (map_option fst (get_account_by_name d account_name_or_id)))) (\<lambda>a.
     ebind (check (\<not> is_special_account a) ''Invalid account'') (\<lambda>_.
     ebind (check (is_account_exists d a) ''Account doesn't exist'') (\<lambda>_. Inr a)))"

definition get_player_id :: "id_parser \<Rightarrow> database \<Rightarrow> string \<Rightarrow> player_id option res" where
  "get_player_id parse d account_name_or_id =
     (case maybe_id parse Player_kind account_name_or_id of
        Some p \<Rightarrow> ebind (existing_player d p) (\<lambda>_. Inr (Some p))
      | None \<Rightarrow> ebind (get_account_id parse d account_name_or_id) (\<lambda>a. Inr (map_option fst (find_player d a))))"

definition get_game_witness_id :: "id_parser \<Rightarrow> database \<Rightarrow> string \<Rightarrow> witness_id option res" where
  "get_game_witness_id parse d account_name_or_id =
     (case maybe_id parse Witness_kind account_name_or_id of
        Some w \<Rightarrow>
          ebind (check (w \<noteq> PLAYCHAIN_NULL_GAME_WITNESS) ''Invalid witness'') (\<lambda>_.
          ebind (check (is_game_witness_exists d w) ''Game witness doesn't exist'') (\<lambda>_. Inr (Some w)))
      | None \<Rightarrow> ebind (get_account_id parse d account_name_or_id) (\<lambda>a. Inr (map_option fst (find_witness d a))))"

section \<open>Pages\<close>

text \<open>
  The loop \<^verbatim>\<open>while(limit-- && itr != end)\<close>, in which an object that does not belong to the list puts the limit
  back.
\<close>

fun page :: "('a \<Rightarrow> bool) \<Rightarrow> nat \<Rightarrow> 'a list \<Rightarrow> 'a list" where
  "page skip limit [] = []"
| "page skip limit (x # xs) =
     (if limit = 0 then [] else if skip x then page skip limit xs else x # page skip (limit - 1) xs)"

text \<open>\<^verbatim>\<open>lower_bound\<close> in an index that is ordered by \<open>key\<close>, and the step behind it.\<close>

definition lower_bound :: "('a \<Rightarrow> 'k::linorder) \<Rightarrow> 'k \<Rightarrow> 'a list \<Rightarrow> 'a list" where
  "lower_bound key k xs = dropWhile (\<lambda>x. key x < k) xs"

definition behind :: "('a \<Rightarrow> 'k::linorder) \<Rightarrow> 'k \<Rightarrow> 'a list \<Rightarrow> 'a list" where
  "behind key k xs = (case lower_bound key k xs of [] \<Rightarrow> [] | y # ys \<Rightarrow> ys)"

definition ordered_by :: "(nat \<times> 'a \<Rightarrow> 'k::linorder) \<Rightarrow> 'a index \<Rightarrow> (nat \<times> 'a) list" where
  "ordered_by key ix = sort_key key (idx_items ix)"

definition list_all_impl :: "id_parser \<Rightarrow> id_kind \<Rightarrow> 'a index \<Rightarrow> string \<Rightarrow> nat \<Rightarrow> int \<Rightarrow> (nat \<times> 'a) list res" where
  "list_all_impl parse kind ix last_page_id limit last_special_id_instance =
     ebind (check_limit limit) (\<lambda>_.
     let opt_id = maybe_id parse kind last_page_id
     in ebind (check (last_page_id = [] \<or> opt_id \<noteq> None) ''Invalid ID'') (\<lambda>_.
          Inr (page (\<lambda>(i, x). 0 \<le> last_special_id_instance \<and> int i \<le> last_special_id_instance) limit
                 (case opt_id of None \<Rightarrow> idx_items ix | Some k \<Rightarrow> behind fst k (idx_items ix)))))"

definition list_all_players :: "id_parser \<Rightarrow> database \<Rightarrow> string \<Rightarrow> nat \<Rightarrow> (player_id \<times> player_object) list res" where
  "list_all_players parse d last_page_id limit =
     list_all_impl parse Player_kind (players d) last_page_id limit (int PLAYCHAIN_NULL_PLAYER)"

definition list_all_rooms :: "id_parser \<Rightarrow> database \<Rightarrow> string \<Rightarrow> nat \<Rightarrow> (room_id \<times> room_object) list res" where
  "list_all_rooms parse d last_page_id limit =
     list_all_impl parse Room_kind (rooms d) last_page_id limit (int PLAYCHAIN_NULL_ROOM)"

definition list_all_game_witnesses :: "id_parser \<Rightarrow> database \<Rightarrow> string \<Rightarrow> nat \<Rightarrow> (witness_id \<times> game_witness_object) list res" where
  "list_all_game_witnesses parse d last_page_id limit =
     list_all_impl parse Witness_kind (witnesses d) last_page_id limit (int PLAYCHAIN_NULL_GAME_WITNESS)"

definition list_all_tables :: "id_parser \<Rightarrow> database \<Rightarrow> string \<Rightarrow> nat \<Rightarrow> (table_id \<times> table_object) list res" where
  "list_all_tables parse d last_page_id limit =
     list_all_impl parse Table_kind (tables d) last_page_id limit (int PLAYCHAIN_NULL_TABLE)"

definition list_all_committee_members ::
    "id_parser \<Rightarrow> database \<Rightarrow> string \<Rightarrow> nat \<Rightarrow> (nat \<times> playchain_committee_member_object) list res" where
  "list_all_committee_members parse d last_page_id limit =
     list_all_impl parse Member_kind (committee_members d) last_page_id limit (- 1)"

definition list_all_player_invitations ::
    "id_parser \<Rightarrow> database \<Rightarrow> string \<Rightarrow> nat \<Rightarrow> ((nat \<times> player_invitation_object) list \<times> time) res" where
  "list_all_player_invitations parse d last_page_id limit =
     ebind (list_all_impl parse Invitation_kind (invitations d) last_page_id limit (- 1)) (\<lambda>xs.
       Inr (xs, head_block_time d))"

definition invitation_key :: "nat \<times> player_invitation_object \<Rightarrow> account_id \<times> string" where
  "invitation_key x = (iv_inviter (snd x), iv_uid (snd x))"

definition list_player_invitations ::
    "id_parser \<Rightarrow> database \<Rightarrow> string \<Rightarrow> string \<Rightarrow> nat \<Rightarrow> ((nat \<times> player_invitation_object) list \<times> time) res" where
  "list_player_invitations parse d inviter_name_or_id last_page_uid limit =
     ebind (check_limit limit) (\<lambda>_.
     ebind (get_account_id parse d inviter_name_or_id) (\<lambda>a.
     let invitations_by_uid = ordered_by invitation_key (invitations d);
         itr = (if last_page_uid = [] then lower_bound invitation_key (a, []) invitations_by_uid
                else behind invitation_key (a, last_page_uid) invitations_by_uid)
     in Inr (page (\<lambda>(i, v). iv_inviter v \<noteq> a) limit itr, head_block_time d)))"

definition get_player_invitation ::
    "id_parser \<Rightarrow> database \<Rightarrow> string \<Rightarrow> string \<Rightarrow> (player_invitation_object \<times> time) option res" where
  "get_player_invitation parse d inviter_name_or_id uid =
     ebind (get_account_id parse d inviter_name_or_id) (\<lambda>a.
       Inr (map_option (\<lambda>(i, v). (v, head_block_time d)) (find_invitation d a uid)))"

definition inviter_key :: "player_id \<times> player_object \<Rightarrow> player_id \<times> player_id" where
  "inviter_key x = (pl_inviter (snd x), fst x)"

definition list_invited_players ::
    "id_parser \<Rightarrow> database \<Rightarrow> string \<Rightarrow> string \<Rightarrow> nat \<Rightarrow> ((player_id \<times> player_object) \<times> account_object) list res" where
  "list_invited_players parse d inviter_name_or_id last_page_id limit =
     ebind (check_limit limit) (\<lambda>_.
     ebind (get_player_id parse d inviter_name_or_id) (\<lambda>opt_id.
     ebind (of_option (Assert ''Inviter is not player'') opt_id) (\<lambda>inviter.
     ebind (if last_page_id = [] then Inr 0
            else ebind (get_player_id parse d last_page_id) (of_option Null_deref)) (\<lambda>next_player_id.
     let players_by_inviter = ordered_by inviter_key (players d);
         itr = (if next_player_id = 0 then lower_bound inviter_key (inviter, next_player_id) players_by_inviter
                else behind inviter_key (inviter, next_player_id) players_by_inviter)
     in emap (\<lambda>(i, p). ebind (idx_get (accounts d) (pl_account p)) (\<lambda>a. Inr ((i, p), a)))
          (page (\<lambda>(i, p). pl_inviter p \<noteq> inviter) limit itr)))))"

definition room_key :: "room_id \<times> room_object \<Rightarrow> account_id \<times> room_id" where
  "room_key x = (rm_owner (snd x), fst x)"

definition list_rooms :: "id_parser \<Rightarrow> database \<Rightarrow> string \<Rightarrow> string \<Rightarrow> nat \<Rightarrow> (room_id \<times> room_object) list res" where
  "list_rooms parse d owner_name_or_id last_page_id limit =
     ebind (check_limit limit) (\<lambda>_.
     ebind (get_account_id parse d owner_name_or_id) (\<lambda>a.
     let opt_id = maybe_id parse Room_kind last_page_id
     in ebind (check (last_page_id = [] \<or> opt_id \<noteq> None) ''Invalid ID'') (\<lambda>_.
        let rooms_by_owner = ordered_by room_key (rooms d);
            itr = (if last_page_id = [] then lower_bound room_key (a, 0) rooms_by_owner
                   else behind room_key (a, the opt_id) rooms_by_owner)
        in Inr (page (\<lambda>(i, r). rm_owner r \<noteq> a) limit itr))))"

definition table_room_key :: "table_id \<times> table_object \<Rightarrow> room_id \<times> table_id" where
  "table_room_key x = (tb_room (snd x), fst x)"

definition list_tables ::
    "id_parser \<Rightarrow> table_owner_index \<Rightarrow> database \<Rightarrow> string \<Rightarrow> string \<Rightarrow> nat \<Rightarrow> (table_id \<times> table_object) list res" where
  "list_tables parse second_index d owner_name_or_room_id last_page_id limit =
     ebind (check_limit limit) (\<lambda>_.
     let opt_id = maybe_id parse Table_kind last_page_id
     in ebind (check (last_page_id = [] \<or> opt_id \<noteq> None) ''Invalid ID'') (\<lambda>_.
        case maybe_id parse Room_kind owner_name_or_room_id of
          None \<Rightarrow>
            ebind (get_account_id parse d owner_name_or_room_id) (\<lambda>a.
              case fm_find (tables_by_owner second_index) a of
                None \<Rightarrow> Inr []
              | Some ts \<Rightarrow>
                  let itr = (if last_page_id = [] then fs_items ts else behind (\<lambda>i. i) (the opt_id) (fs_items ts))
                  in emap (\<lambda>i. ebind (idx_get (tables d) i) (\<lambda>t. Inr (i, t))) (page (\<lambda>i. False) limit itr))
        | Some room \<Rightarrow>
            let tables_by_room = ordered_by table_room_key (tables d);
                itr = (if last_page_id = [] then lower_bound table_room_key (room, 0) tables_by_room
                       else behind table_room_key (room, the opt_id) tables_by_room)
            in Inr (page (\<lambda>(i, t). tb_room t \<noteq> room) limit itr)))"

section \<open>Rooms and tables\<close>

record playchain_room_info =
  ri_id :: room_id
  ri_owner :: account_id
  ri_owner_name :: string
  ri_metadata :: string
  ri_server_url :: string
  ri_rating :: "32 word"
  ri_protocol_version :: version_ext
  ri_last_rating_update :: time
  ri_rake_balance :: asset
  ri_rake_balance_id :: "nat option"

definition get_room_info :: "database \<Rightarrow> room_id \<Rightarrow> room_object \<Rightarrow> playchain_room_info res" where
  "get_room_info d i room =
     ebind (idx_get (accounts d) (rm_owner room)) (\<lambda>owner.
     ebind (case rm_balance room of
              None \<Rightarrow> Inr (core_asset 0)
            | Some v \<Rightarrow> ebind (idx_get (vestings d) v) (get_allowed_withdraw (head_block_time d))) (\<lambda>rake.
       Inr \<lparr>ri_id = i, ri_owner = rm_owner room, ri_owner_name = ac_name owner, ri_metadata = rm_metadata room,
            ri_server_url = rm_server_url room, ri_rating = rating room, ri_protocol_version = rm_protocol_version room,
            ri_last_rating_update = last_rating_update room, ri_rake_balance = rake, ri_rake_balance_id = rm_balance room\<rparr>))"

definition get_rooms_info_by_id :: "database \<Rightarrow> room_id flat_set \<Rightarrow> playchain_room_info list res" where
  "get_rooms_info_by_id d ids =
     ebind (check_limit (fm_size ids)) (\<lambda>_.
       emap (\<lambda>i. ebind (idx_get (rooms d) i) (get_room_info d i)) (filter (is_room_exists d) (fs_items ids)))"

definition get_room_info_by_metadata :: "id_parser \<Rightarrow> database \<Rightarrow> string \<Rightarrow> string \<Rightarrow> playchain_room_info option res" where
  "get_room_info_by_metadata parse d owner_name_or_id metadata =
     ebind (get_account_id parse d owner_name_or_id) (\<lambda>owner.
       case idx_lookup (\<lambda>i r. rm_owner r = owner \<and> rm_metadata r = metadata) (rooms d) of
         None \<Rightarrow> Inr None
       | Some (i, room) \<Rightarrow> ebind (get_room_info d i room) (\<lambda>info. Inr (Some info)))"

datatype playchain_table_state = Table_nop | Table_free | Table_playing | Table_voting_for_playing | Table_voting_for_results

record playchain_table_info =
  ti_id :: table_id
  ti_owner :: account_id
  ti_owner_name :: string
  ti_metadata :: string
  ti_server_url :: string
  ti_required_witnesses :: nat
  ti_min_accepted_proposal_asset :: asset
  ti_state :: playchain_table_state
  ti_alive :: bool

definition get_table_state :: "database \<Rightarrow> table_id \<Rightarrow> table_object \<Rightarrow> playchain_table_state" where
  "get_table_state d i t =
     (case find_voting d i of
        Some (j, v) \<Rightarrow>
          if is_voting_for_playing v then Table_voting_for_playing
          else if is_voting_for_results v then Table_voting_for_results
          else Table_nop
      | None \<Rightarrow> if is_playing t then Table_playing else if is_free t then Table_free else Table_nop)"

definition get_table_info :: "database \<Rightarrow> table_id \<Rightarrow> table_object \<Rightarrow> playchain_table_info res" where
  "get_table_info d i t =
     ebind (idx_get (rooms d) (tb_room t)) (\<lambda>room.
     ebind (idx_get (accounts d) (rm_owner room)) (\<lambda>owner.
       Inr \<lparr>ti_id = i, ti_owner = rm_owner room, ti_owner_name = ac_name owner, ti_metadata = tb_metadata t,
            ti_server_url = rm_server_url room, ti_required_witnesses = tb_required_witnesses t,
            ti_min_accepted_proposal_asset = tb_min_accepted_proposal_asset t, ti_state = get_table_state d i t,
            ti_alive = is_table_alive d i\<rparr>))"

definition get_table_info_by_id :: "database \<Rightarrow> table_id \<Rightarrow> playchain_table_info res" where
  "get_table_info_by_id d i = ebind (idx_get (tables d) i) (get_table_info d i)"

definition get_tables_info_by_metadata :: "id_parser \<Rightarrow> database \<Rightarrow> string \<Rightarrow> string \<Rightarrow> nat \<Rightarrow> playchain_table_info list res" where
  "get_tables_info_by_metadata parse d room_id_name metadata limit =
     ebind (check_limit limit) (\<lambda>_.
     ebind (of_option (Assert ''room_id.valid()'') (maybe_id parse Room_kind room_id_name)) (\<lambda>room.
       emap (\<lambda>(i, t). get_table_info_by_id d i)
         (page (\<lambda>x. False) limit
           (filter (\<lambda>(i, t). tb_room t = room \<and> tb_metadata t = metadata) (idx_items (tables d))))))"

record playchain_pending_buy_in_proposal_info =
  pp_name :: string
  pp_id :: pending_buy_in_id
  pp_uid :: string
  pp_amount :: asset

record playchain_table_info_ext =
  te_info :: playchain_table_info
  te_pending_proposals :: "(account_id, playchain_pending_buy_in_proposal_info) flat_map"
  te_cash :: "(account_id, string \<times> asset) flat_map"
  te_playing_cash :: "(account_id, string \<times> asset) flat_map"
  te_missed_voters :: "(account_id, string) flat_map"
  te_voters :: "(account_id, string) flat_map"

text \<open>\<^verbatim>\<open>emplace\<close> keeps what a key already has.\<close>

definition emplace :: "'k::linorder \<Rightarrow> 'v \<Rightarrow> ('k, 'v) flat_map \<Rightarrow> ('k, 'v) flat_map" where
  "emplace k v m = (if fm_count m k then m else fm_put k v m)"

definition player_account :: "database \<Rightarrow> player_id \<Rightarrow> (account_id \<times> account_object) res" where
  "player_account d p =
     ebind (idx_get (players d) p) (\<lambda>pl.
     ebind (idx_get (accounts d) (pl_account pl)) (\<lambda>a. Inr (pl_account pl, a)))"

definition cash_info :: "database \<Rightarrow> (player_id, asset) flat_map \<Rightarrow> (account_id, string \<times> asset) flat_map res" where
  "cash_info d m =
     efold (\<lambda>(p, c) r. ebind (player_account d p) (\<lambda>(a, ac). Inr (emplace a (ac_name ac, c) r))) (fm_items m) fm_empty"

definition proposals_info ::
    "database \<Rightarrow> (player_id, pending_buy_in_id) flat_map \<Rightarrow> (account_id, playchain_pending_buy_in_proposal_info) flat_map res" where
  "proposals_info d m =
     efold (\<lambda>(p, b) r.
       ebind (player_account d p) (\<lambda>(a, ac).
       ebind (idx_get (pending_buy_ins d) b) (\<lambda>buy_in.
         Inr (emplace a \<lparr>pp_name = ac_name ac, pp_id = b, pp_uid = pb_uid buy_in, pp_amount = pb_amount buy_in\<rparr> r))))
       (fm_items m) fm_empty"

definition voters_info :: "database \<Rightarrow> account_id list option \<Rightarrow> (account_id, string) flat_map res" where
  "voters_info d voters =
     (case voters of
        None \<Rightarrow> Inr fm_empty
      | Some as \<Rightarrow> efold (\<lambda>a r. ebind (idx_get (accounts d) a) (\<lambda>ac. Inr (emplace a (ac_name ac) r))) as fm_empty)"

definition extend_table_info ::
    "table_voting_statistics_index \<Rightarrow> database \<Rightarrow> table_id \<Rightarrow> table_object \<Rightarrow> playchain_table_info \<Rightarrow> playchain_table_info_ext res" where
  "extend_table_info second_index d i t info =
     ebind (proposals_info d (pending_proposals t)) (\<lambda>proposals.
     ebind (cash_info d (cash t)) (\<lambda>c.
     ebind (cash_info d (playing_cash t)) (\<lambda>pc.
     ebind (voters_info d (fm_find (not_voted_last_time_players_by_table second_index) i)) (\<lambda>missed.
     ebind (voters_info d (fm_find (voted_last_time_players_by_table second_index) i)) (\<lambda>voters.
       Inr \<lparr>te_info = info, te_pending_proposals = proposals, te_cash = c, te_playing_cash = pc,
            te_missed_voters = missed, te_voters = voters\<rparr>)))))"

definition get_table_info_ext_by_id :: "table_voting_statistics_index \<Rightarrow> database \<Rightarrow> table_id \<Rightarrow> playchain_table_info_ext res" where
  "get_table_info_ext_by_id second_index d i =
     ebind (idx_get (tables d) i) (\<lambda>t.
     ebind (get_table_info d i t) (extend_table_info second_index d i t))"

definition get_tables_info_by_id ::
    "table_voting_statistics_index \<Rightarrow> database \<Rightarrow> table_id flat_set \<Rightarrow> playchain_table_info_ext list res" where
  "get_tables_info_by_id second_index d ids =
     ebind (check_limit (fm_size ids)) (\<lambda>_.
       emap (get_table_info_ext_by_id second_index d) (filter (is_table_exists d) (fs_items ids)))"

definition get_table_info_for_pending_buy_in_proposal ::
    "id_parser \<Rightarrow> database \<Rightarrow> string \<Rightarrow> string \<Rightarrow> playchain_table_info option res" where
  "get_table_info_for_pending_buy_in_proposal parse d name_or_id uid =
     ebind (check (uid \<noteq> []) ''UID is empty'') (\<lambda>_.
     ebind (get_account_id parse d name_or_id) (\<lambda>a.
     ebind (of_option (Assert ''Proposal is not found'') (find_pending_buy_in d a uid)) (\<lambda>(b, proposal).
       if \<not> is_allocated proposal then Inr None
       else ebind (get_table_info_by_id d (pb_table proposal)) (\<lambda>info. Inr (Some info)))))"

section \<open>The tables of a player\<close>

datatype playchain_player_table_state = Player_pending | Player_attable | Player_playing

record playchain_player_table_info =
  pt_state :: playchain_player_table_state
  pt_balance :: asset
  pt_buyouting_balance :: asset
  pt_table :: playchain_table_info

definition playing_table_info :: "database \<Rightarrow> player_id \<Rightarrow> table_id \<Rightarrow> playchain_player_table_info res" where
  "playing_table_info d p i =
     ebind (idx_get (tables d) i) (\<lambda>t.
     let buyouting = (case find_buy_out d p i of None \<Rightarrow> core_asset 0 | Some (j, b) \<Rightarrow> po_amount b)
     in ebind (get_table_info d i t) (\<lambda>info.
          Inr \<lparr>pt_state = Player_playing, pt_balance = get_playing_cash_balance t p,
               pt_buyouting_balance = buyouting, pt_table = info\<rparr>))"

definition attable_table_info :: "database \<Rightarrow> player_id \<Rightarrow> table_id \<Rightarrow> playchain_player_table_info res" where
  "attable_table_info d p i =
     ebind (idx_get (tables d) i) (\<lambda>t.
     ebind (get_table_info d i t) (\<lambda>info.
       Inr \<lparr>pt_state = Player_attable, pt_balance = get_cash_balance t p,
            pt_buyouting_balance = core_asset 0, pt_table = info\<rparr>))"

definition pending_table_info :: "database \<Rightarrow> player_id \<Rightarrow> table_id \<Rightarrow> playchain_player_table_info res" where
  "pending_table_info d p i =
     ebind (idx_get (tables d) i) (\<lambda>t.
     ebind (get_pending_balance d t p) (\<lambda>balance.
     ebind (get_table_info d i t) (\<lambda>info.
       Inr \<lparr>pt_state = Player_pending, pt_balance = balance,
            pt_buyouting_balance = core_asset 0, pt_table = info\<rparr>)))"

text \<open>The three loops share one limit; the function returns where it is used up.\<close>

definition list_tables_with_player ::
    "id_parser \<Rightarrow> table_players_index \<Rightarrow> database \<Rightarrow> string \<Rightarrow> nat \<Rightarrow> playchain_player_table_info list res" where
  "list_tables_with_player parse second_index d name_or_id limit =
     ebind (check_limit limit) (\<lambda>_.
     ebind (get_player_id parse d name_or_id) (\<lambda>opt_id.
     ebind (of_option (Assert ''Invalid player'') opt_id) (\<lambda>p.
       let found = map (\<lambda>i. (Player_playing, i)) (fs_items (tables_of (tables_with_playing_cash_by_player second_index) p)) @
             map (\<lambda>i. (Player_attable, i)) (fs_items (tables_of (tables_with_cash_by_player second_index) p)) @
             map (\<lambda>i. (Player_pending, i)) (fs_items (tables_of (tables_with_pending_proposals_by_player second_index) p))
       in emap (\<lambda>(st, i). case st of
                    Player_playing \<Rightarrow> playing_table_info d p i
                  | Player_attable \<Rightarrow> attable_table_info d p i
                  | Player_pending \<Rightarrow> pending_table_info d p i) (take limit found))))"

section \<open>Members\<close>

record playchain_member_balance_info =
  mb_account_balance :: asset
  mb_referral_balance :: asset
  mb_rake_balance :: asset
  mb_witness_balance :: asset
  mb_referral_balance_id :: "nat option"
  mb_rake_balance_id :: "nat option"
  mb_witness_balance_id :: "nat option"

definition vesting_info :: "database \<Rightarrow> nat option \<Rightarrow> (asset \<times> nat option) res" where
  "vesting_info d ov =
     (case ov of
        None \<Rightarrow> Inr (core_asset 0, None)
      | Some v \<Rightarrow> ebind (idx_get (vestings d) v) (\<lambda>vb.
          ebind (get_allowed_withdraw (head_block_time d) vb) (\<lambda>a. Inr (a, Some v))))"

definition get_playchain_balance_info :: "id_parser \<Rightarrow> database \<Rightarrow> string \<Rightarrow> playchain_member_balance_info res" where
  "get_playchain_balance_info parse d name_or_id =
     ebind (get_account_id parse d name_or_id) (\<lambda>a.
     ebind (case find_player d a of None \<Rightarrow> Inr (core_asset 0, None) | Some (p, pl) \<Rightarrow> vesting_info d (pl_balance pl)) (\<lambda>(referral, referral_id).
     ebind (case find_witness d a of None \<Rightarrow> Inr (core_asset 0, None) | Some (w, gw) \<Rightarrow> vesting_info d (gw_balance gw)) (\<lambda>(witness, witness_id).
     ebind (efold (\<lambda>(i, r) (rake, rake_id).
              case rm_balance r of
                None \<Rightarrow> Inr (rake, rake_id)
              | Some v \<Rightarrow> ebind (vesting_info d (Some v)) (\<lambda>(b, b_id). ebind (asset_plus rake b) (\<lambda>rake. Inr (rake, b_id))))
              (filter (\<lambda>(i, r). rm_owner r = a) (idx_items (rooms d))) (core_asset 0, None)) (\<lambda>(rake, rake_id).
       Inr \<lparr>mb_account_balance = core_asset (amount (get_balance d a CORE)), mb_referral_balance = referral,
            mb_rake_balance = rake, mb_witness_balance = witness, mb_referral_balance_id = referral_id,
            mb_rake_balance_id = rake_id, mb_witness_balance_id = witness_id\<rparr>))))"

definition get_player_query :: "id_parser \<Rightarrow> database \<Rightarrow> string \<Rightarrow> player_object option res" where
  "get_player_query parse d account_name_or_id =
     ebind (get_player_id parse d account_name_or_id) (\<lambda>opt_id.
       case opt_id of None \<Rightarrow> Inr None | Some p \<Rightarrow> ebind (idx_get (players d) p) (\<lambda>pl. Inr (Some pl)))"

definition get_game_witness_query :: "id_parser \<Rightarrow> database \<Rightarrow> string \<Rightarrow> game_witness_object option res" where
  "get_game_witness_query parse d account_name_or_id =
     ebind (get_game_witness_id parse d account_name_or_id) (\<lambda>opt_id.
       case opt_id of None \<Rightarrow> Inr None | Some w \<Rightarrow> ebind (idx_get (witnesses d) w) (\<lambda>gw. Inr (Some gw)))"

definition get_account_id_by_name :: "database \<Rightarrow> string flat_set \<Rightarrow> (string, account_id) flat_map res" where
  "get_account_id_by_name d names =
     ebind (check_limit (fm_size names)) (\<lambda>_.
       Inr (fold (\<lambda>name r. case get_account_by_name d name of None \<Rightarrow> r | Some (a, ac) \<Rightarrow> emplace name a r)
              (fs_items names) fm_empty))"

record playchain_account_info =
  ai_account :: account_id
  ai_login_key :: string
  ai_player :: player_id

definition get_player_account_by_name :: "database \<Rightarrow> string \<Rightarrow> playchain_account_info option res" where
  "get_player_account_by_name d name =
     (case get_account_by_name d name of
        None \<Rightarrow> Inr None
      | Some (a, ac) \<Rightarrow>
          if \<not> is_player_exists d a then Inr None
          else ebind (get_player d a) (\<lambda>(p, pl).
               case fm_items (key_auths (ac_active ac)) of
                 [] \<Rightarrow> Inl (Assert ''!account.active.key_auths.empty()'')
               | (k, w) # ks \<Rightarrow> Inr (Some \<lparr>ai_account = a, ai_login_key = k, ai_player = p\<rparr>)))"

definition get_committee_members :: "database \<Rightarrow> nat list \<Rightarrow> playchain_committee_member_object option list" where
  "get_committee_members d ids = map (idx_find (committee_members d)) ids"

definition get_committee_member_by_account :: "id_parser \<Rightarrow> database \<Rightarrow> string \<Rightarrow> playchain_committee_member_object option res" where
  "get_committee_member_by_account parse d account_name_or_id =
     ebind (get_account_id parse d account_name_or_id) (\<lambda>a.
       case find_witness d a of
         None \<Rightarrow> Inr None
       | Some (w, gw) \<Rightarrow>
           Inr (map_option snd (idx_lookup (\<lambda>i m. committee_member_game_witness m = w) (committee_members d))))"

section \<open>Subscriptions\<close>

record subscriptions =
  subscribe_tables_filter :: "table_id flat_set"
  subscribe_tables_callback :: bool  \<comment> \<open>whether a callback is set\<close>

definition set_tables_subscribe_callback :: "table_id flat_set \<Rightarrow> subscriptions \<Rightarrow> subscriptions res" where
  "set_tables_subscribe_callback ids s =
     ebind (check_limit (fm_size ids)) (\<lambda>_. Inr (s\<lparr>subscribe_tables_filter := ids, subscribe_tables_callback := True\<rparr>))"

definition cancel_tables_subscribe_callback :: "table_id flat_set \<Rightarrow> subscriptions \<Rightarrow> subscriptions" where
  "cancel_tables_subscribe_callback ids s =
     (if fm_is_empty (subscribe_tables_filter s) then s
      else s\<lparr>subscribe_tables_filter :=
               fs_of_list (set_difference (fs_items (subscribe_tables_filter s)) (fs_items ids))\<rparr>)"

definition cancel_all_tables_subscribe_callback :: "subscriptions \<Rightarrow> subscriptions" where
  "cancel_all_tables_subscribe_callback s = s\<lparr>subscribe_tables_filter := fm_empty, subscribe_tables_callback := False\<rparr>"

text \<open>The objects of the chain that changed, as far as the subscriptions tell them apart.\<close>

datatype changed_object = Changed_table table_id | Changed_voting nat | Changed_other nat

fun find_subscribe_table :: "database \<Rightarrow> subscriptions \<Rightarrow> changed_object \<Rightarrow> table_id option" where
  "find_subscribe_table d s (Changed_table i) =
     (if fm_count (subscribe_tables_filter s) i \<and> is_table_exists d i then Some i else None)"
| "find_subscribe_table d s x = None"

definition on_objects_changed :: "database \<Rightarrow> subscriptions \<Rightarrow> changed_object list \<Rightarrow> table_id flat_set" where
  "on_objects_changed d s ids =
     (if subscribe_tables_callback s
      then fold (\<lambda>x r. case find_subscribe_table d s x of None \<Rightarrow> r | Some i \<Rightarrow> fs_insert i r) ids fm_empty
      else fm_empty)"

text \<open>
  A new voting is reported for its table. The list of updates is resized to the number of the ids before
  the tables are appended, so it starts with as many default ids, which are no tables.
\<close>

definition on_sub_objects_created :: "database \<Rightarrow> subscriptions \<Rightarrow> changed_object list \<Rightarrow> table_id flat_set res" where
  "on_sub_objects_created d s ids =
     (if subscribe_tables_callback s
      then ebind (emap (\<lambda>x. case x of
                     Changed_voting v \<Rightarrow> ebind (idx_get (votings d) v) (\<lambda>tv. Inr [Changed_table (tv_table tv)])
                   | _ \<Rightarrow> Inr []) ids) (\<lambda>tables.
           Inr (on_objects_changed d s (replicate (length ids) (Changed_other 0) @ concat tables)))
      else Inr fm_empty)"

text \<open>A removed voting comes with the object it was.\<close>

definition on_sub_objects_removed ::
    "database \<Rightarrow> subscriptions \<Rightarrow> (changed_object \<times> table_voting_object option) list \<Rightarrow> table_id flat_set" where
  "on_sub_objects_removed d s ids =
     (if subscribe_tables_callback s
      then on_objects_changed d s (replicate (length ids) (Changed_other 0) @
             concat (map (\<lambda>(x, removed). case (x, removed) of
                            (Changed_voting v, Some tv) \<Rightarrow> [Changed_table (tv_table tv)]
                          | _ \<Rightarrow> []) ids))
      else fm_empty)"

section \<open>Pages put together\<close>

lemma page_take: "page skip n xs = take n (filter (\<lambda>x. \<not> skip x) xs)"
  by (induction skip n xs rule: page.induct) (auto simp: take_Cons' split: if_splits)

lemma behind_filter:
  "sorted_wrt (<) (map key xs) \<Longrightarrow> k \<in> key ` set xs \<Longrightarrow> behind key k xs = filter (\<lambda>x. k < key x) xs"
proof (induction xs)
  case (Cons x xs)
  show ?case
  proof (cases "key x < k")
    case True
    then have "k \<in> key ` set xs" using Cons.prems by auto
    then show ?thesis using True Cons by (simp add: behind_def lower_bound_def)
  next
    case False
    then have "key x = k" using Cons.prems by force
    moreover have "filter (\<lambda>y. key x < key y) xs = xs" using Cons.prems(1) by (auto intro!: filter_True)
    ultimately show ?thesis by (simp add: behind_def lower_bound_def)
  qed
qed simp

lemma behind_gap:
  "sorted_wrt (<) (map key xs) \<Longrightarrow> k \<notin> key ` set xs \<Longrightarrow>
     behind key k xs = (case filter (\<lambda>x. k < key x) xs of [] \<Rightarrow> [] | y # ys \<Rightarrow> ys)"
proof (induction xs)
  case (Cons x xs)
  show ?case
  proof (cases "key x < k")
    case True
    then have "\<not> k < key x" by simp
    then show ?thesis using True Cons by (simp add: behind_def lower_bound_def)
  next
    case False
    then have "k < key x" using Cons.prems by force
    moreover have "filter (\<lambda>y. k < key y) xs = xs" using Cons.prems(1) \<open>k < key x\<close> by (force intro!: filter_True)
    ultimately show ?thesis using False by (simp add: behind_def lower_bound_def)
  qed
qed (simp add: behind_def lower_bound_def)

lemma idx_items_sorted: "sorted_wrt (<) (map fst (idx_items ix))"
  unfolding idx_items_def by (rule fm_items_sorted)

text \<open>The objects of a list behind an id.\<close>

definition listed :: "int \<Rightarrow> 'a index \<Rightarrow> (nat \<times> 'a) list" where
  "listed special ix = filter (\<lambda>(i, x). \<not> (0 \<le> special \<and> int i \<le> special)) (idx_items ix)"

lemma list_all_impl_first:
  "limit \<le> 100 \<Longrightarrow> list_all_impl parse kind ix [] limit special = Inr (take limit (listed special ix))"
  by (simp add: list_all_impl_def check_limit_def PLAYCHAIN_MAX_SIZE_FOR_RESULT_API_LIST_def maybe_id_def check_def
      page_take listed_def case_prod_beta')

lemma list_all_impl_next:
  assumes "limit \<le> 100" and "maybe_id parse kind s = Some k" and "idx_find ix k \<noteq> None"
  shows "list_all_impl parse kind ix s limit special = Inr (take limit (filter (\<lambda>(i, x). k < i) (listed special ix)))"
proof -
  obtain v where "(k, v) \<in> set (idx_items ix)" using assms(3) by (auto simp: idx_items_iff)
  then have "k \<in> fst ` set (idx_items ix)" by force
  then have "behind fst k (idx_items ix) = filter (\<lambda>x. k < fst x) (idx_items ix)"
    by (rule behind_filter [OF idx_items_sorted])
  then show ?thesis using assms(1,2)
    by (simp add: list_all_impl_def check_limit_def PLAYCHAIN_MAX_SIZE_FOR_RESULT_API_LIST_def check_def Let_def page_take
        listed_def case_prod_beta' conj_commute)
qed

text \<open>A client that asks for page after page, with the id of the last object it got.\<close>

fun all_pages :: "nat \<Rightarrow> (string \<Rightarrow> (nat \<times> 'a) list res) \<Rightarrow> (nat \<Rightarrow> string) \<Rightarrow> string \<Rightarrow> (nat \<times> 'a) list res" where
  "all_pages fuel query shw from =
     (if fuel = 0 then Inl Not_found
      else ebind (query from) (\<lambda>xs.
             if xs = [] then Inr []
             else ebind (all_pages (fuel - 1) query shw (shw (fst (last xs)))) (\<lambda>ys. Inr (xs @ ys))))"

declare all_pages.simps [simp del]

lemma filter_behind_take:
  fixes zs :: "(nat \<times> 'a) list"
  assumes "sorted_wrt (<) (map fst zs)" and "take n zs \<noteq> []"
  shows "filter (\<lambda>(i, x). fst (last (take n zs)) < i) zs = drop n zs"
proof -
  let ?k = "fst (last (take n zs))"
  have parts: "sorted_wrt (<) (map fst (take n zs @ drop n zs))" using assms(1) by simp
  have "\<forall>z \<in> set (take n zs). \<not> ?k < fst z"
  proof
    fix z assume z: "z \<in> set (take n zs)"
    have "take n zs = butlast (take n zs) @ [last (take n zs)]" using assms(2) by simp
    then have "sorted_wrt (<) (map fst (butlast (take n zs) @ [last (take n zs)]))"
      using parts by (metis map_append sorted_wrt_append)
    moreover have "z = last (take n zs) \<or> z \<in> set (butlast (take n zs))"
      using z assms(2) by (metis append_butlast_last_id in_set_conv_decomp rotate1.simps(2) set_ConsD set_rotate1)
    ultimately show "\<not> ?k < fst z" by (auto simp: sorted_wrt_append)
  qed
  moreover have "\<forall>z \<in> set (drop n zs). ?k < fst z"
    using parts [unfolded map_append sorted_wrt_append] last_in_set [OF assms(2)] by auto
  ultimately have "filter (\<lambda>z. ?k < fst z) (take n zs @ drop n zs) = drop n zs"
    unfolding filter_append by (simp add: filter_empty_conv filter_id_conv)
  then show ?thesis by (simp add: case_prod_beta')
qed

lemma all_pages_from:
  assumes "0 < limit"
    and first: "query s = Inr (take limit zs)"
    and later: "\<And>k x. (k, x) \<in> set zs \<Longrightarrow> query (shw k) = Inr (take limit (filter (\<lambda>(i, x). k < i) zs))"
    and "sorted_wrt (<) (map fst zs)" and "length zs < fuel"
  shows "all_pages fuel query shw s = Inr zs"
  using first later assms(4,5)
proof (induction fuel arbitrary: s zs)
  case (Suc fuel)
  show ?case
  proof (cases "take limit zs = []")
    case True
    then have "zs = []" using assms(1) by simp
    then show ?thesis using Suc.prems(1) by (subst all_pages.simps) simp
  next
    case False
    let ?xs = "take limit zs" and ?ys = "drop limit zs"
    obtain k x where kx: "last ?xs = (k, x)" by (cases "last ?xs")
    then have mem: "(k, x) \<in> set zs" using False by (metis in_set_takeD last_in_set)
    have rest: "filter (\<lambda>(i, x). k < i) zs = ?ys" using filter_behind_take [OF Suc.prems(3) False] kx by simp
    have "all_pages fuel query shw (shw k) = Inr ?ys"
    proof (rule Suc.IH)
      show "query (shw k) = Inr (take limit ?ys)" using Suc.prems(2) [OF mem] rest by simp
      show "sorted_wrt (<) (map fst ?ys)" using Suc.prems(3) by (simp flip: drop_map add: sorted_wrt_drop)
      show "length ?ys < fuel" using Suc.prems(4) False assms(1) by (cases zs) auto
      fix j y assume jy: "(j, y) \<in> set ?ys"
      then have "k < j" using rest [symmetric] by simp
      then have "filter (\<lambda>(i, x). j < i) zs = filter (\<lambda>(i, x). j < i) (filter (\<lambda>(i, x). k < i) zs)"
        by (auto intro: filter_cong)
      then show "query (shw j) = Inr (take limit (filter (\<lambda>(i, x). j < i) ?ys))"
        using Suc.prems(2) [of j y] jy rest by (metis in_set_dropD)
    qed
    then show ?thesis using Suc.prems(1) False kx by (subst all_pages.simps) simp
  qed
qed simp


text \<open>
  C37: a client that asks for page after page, each time with the id of the last object it got, gets
  the whole list once and in order, for every page size from 1 to 100, as long as the objects stay and ids
  are read as they are printed.
\<close>

theorem pages_are_the_list:
  assumes "0 < limit" and "limit \<le> 100" and "\<And>i. maybe_id parse kind (shw i) = Some i"
    and "length (idx_items ix) < fuel"
  shows "all_pages fuel (\<lambda>s. list_all_impl parse kind ix s limit special) shw [] =
    Inr (filter (\<lambda>(i, x). \<not> (0 \<le> special \<and> int i \<le> special)) (idx_items ix))"
proof -
  have "all_pages fuel (\<lambda>s. list_all_impl parse kind ix s limit special) shw [] = Inr (listed special ix)"
  proof (rule all_pages_from)
    show "list_all_impl parse kind ix [] limit special = Inr (take limit (listed special ix))"
      by (rule list_all_impl_first [OF assms(2)])
    show "sorted_wrt (<) (map fst (listed special ix))"
      unfolding listed_def by (rule ssorted_filter [OF idx_items_sorted])
    show "length (listed special ix) < fuel"
      using assms(4) length_filter_le [of _ "idx_items ix"] unfolding listed_def by (rule le_less_trans [rotated])
    fix k x assume "(k, x) \<in> set (listed special ix)"
    then have "idx_find ix k \<noteq> None" by (auto simp: listed_def idx_items_iff)
    then show "list_all_impl parse kind ix (shw k) limit special =
        Inr (take limit (filter (\<lambda>(i, x). k < i) (listed special ix)))"
      by (rule list_all_impl_next [OF assms(2,3)])
  qed (rule assms(1))
  then show ?thesis by (simp only: listed_def)
qed

text \<open>Ids printed in unary, as an instance of the parameter.\<close>

definition sample_shw :: "nat \<Rightarrow> string" where
  "sample_shw i = replicate (i + 1) CHR ''1''"

definition sample_parse :: id_parser where
  "sample_parse kind s = (if s = [] then None else Some (length s - 1))"

lemma sample_parse_shw: "maybe_id sample_parse kind (sample_shw i) = Some i"
  by (simp add: maybe_id_def sample_parse_def sample_shw_def is_digit_char_def less_eq_char_def)

theorem pages_are_the_list_witness:
  "all_pages 9 (\<lambda>s. list_all_players sample_parse sample_db s 2) sample_shw [] =
     Inr [(1, sample_player 11), (2, sample_player 12), (3, sample_player 13)]"
proof -
  have "length (idx_items (players sample_db)) < 9" by code_simp
  then have "all_pages 9 (\<lambda>s. list_all_players sample_parse sample_db s 2) sample_shw [] =
      Inr (filter (\<lambda>(i, x). \<not> ((0::int) \<le> 0 \<and> int i \<le> 0)) (idx_items (players sample_db)))"
    using pages_are_the_list [where special = 0 and limit = 2, OF _ _ sample_parse_shw [of Player_kind]]
    by (simp add: list_all_players_def)
  also have "filter (\<lambda>(i, x). \<not> ((0::int) \<le> 0 \<and> int i \<le> 0)) (idx_items (players sample_db)) =
      [(1, sample_player 11), (2, sample_player 12), (3, sample_player 13)]" by code_simp
  finally show ?thesis .
qed

text \<open>
  C38: when the last object of a page is gone before the next page is asked for, the search for its id
  finds the object behind it, and the step over what was found skips this object: the client never sees it.
\<close>

theorem page_skips_object:
  assumes "maybe_id parse kind s = Some k" and "idx_find ix k = None"
    and "idx_find ix j = Some v" and "k < j" and "\<And>i w. idx_find ix i = Some w \<Longrightarrow> i < k \<or> j \<le> i"
    and "list_all_impl parse kind ix s limit special = Inr xs"
  shows "(j, v) \<notin> set xs"
proof -
  have gap: "k \<notin> fst ` set (idx_items ix)" using assms(2) by (auto simp: idx_items_iff)
  let ?f = "filter (\<lambda>x. k < fst x) (idx_items ix)"
  have srt: "sorted_wrt (<) (map fst ?f)" by (rule ssorted_filter [OF idx_items_sorted])
  have mem: "(j, v) \<in> set ?f" using assms(3,4) by (simp add: idx_items_iff)
  then obtain y ys where f: "?f = y # ys" by (cases ?f) auto
  then have "y \<in> set ?f" by simp
  then have "y \<in> set (idx_items ix)" "k < fst y" by simp_all
  then have "j \<le> fst y" using assms(5) [of "fst y" "snd y"] by (auto simp: idx_items_iff [symmetric])
  then have "(j, v) \<notin> set ys" using srt unfolding f by auto
  moreover have "set xs \<subseteq> set (behind fst k (idx_items ix))"
    using assms(1,6) by (auto simp: list_all_impl_def res_simps Let_def page_take dest: in_set_takeD)
  moreover have "behind fst k (idx_items ix) = ys" using behind_gap [OF idx_items_sorted gap] f by simp
  ultimately show ?thesis by blast
qed


text \<open>The client has got the first two of three invitations, the second one is resolved, the third is never listed.\<close>

theorem page_skips_object_witness:
  "\<exists>xs. list_all_player_invitations sample_parse (sample_db\<lparr>invitations :=
         idx_remove 1 (of_objects (map (\<lambda>u. \<lparr>iv_inviter = 10, iv_uid = u, iv_created = 0, iv_expiration = time_max,
           iv_metadata = []\<rparr>) [''a'', ''b'', ''c'']))\<rparr>) (sample_shw 1) 2 = Inr (xs, 1600000000) \<and>
     (2, \<lparr>iv_inviter = 10, iv_uid = ''c'', iv_created = 0, iv_expiration = time_max, iv_metadata = []\<rparr>) \<notin> set xs"
proof -
  let ?v = "\<lambda>u. \<lparr>iv_inviter = 10, iv_uid = u, iv_created = 0, iv_expiration = time_max, iv_metadata = []\<rparr> :: player_invitation_object"
  let ?ix = "idx_remove 1 (of_objects (map ?v [''a'', ''b'', ''c'']))"
  let ?r = "list_all_impl sample_parse Invitation_kind ?ix (sample_shw 1) 2 (- 1)"
  have "succeeds ?r" by code_simp
  from succeedsE [OF this] obtain xs where r: "?r = Inr xs" ..
  have items: "idx_items ?ix = [(0, ?v ''a''), (2, ?v ''c'')]" by code_simp
  then have find: "idx_find ?ix i = Some w \<longleftrightarrow> (i, w) = (0, ?v ''a'') \<or> (i, w) = (2, ?v ''c'')" for i w
    unfolding idx_items_iff [symmetric] items by auto
  have none: "idx_find ?ix 1 = None" by code_simp
  have two: "idx_find ?ix 2 = Some (?v ''c'')" unfolding find by simp
  have gap: "i < 1 \<or> 2 \<le> i" if "idx_find ?ix i = Some w" for i w using that unfolding find by auto
  have "(2, ?v ''c'') \<notin> set xs"
    by (rule page_skips_object [OF sample_parse_shw none two _ gap r]) simp
  then show ?thesis using r by (intro exI [of _ xs]) (simp add: list_all_player_invitations_def sample_db_def)
qed

section \<open>The tables of a player are complete\<close>

definition table_of_player :: "playchain_player_table_info \<Rightarrow> playchain_player_table_state \<times> table_id" where
  "table_of_player info = (pt_state info, ti_id (pt_table info))"

lemma get_table_info_id: "get_table_info d i t = Inr info \<Longrightarrow> ti_id info = i"
  by (auto simp: get_table_info_def res_simps)

lemma player_table_infos:
  "playing_table_info d p i = Inr x \<Longrightarrow> table_of_player x = (Player_playing, i)"
  "attable_table_info d p i = Inr x \<Longrightarrow> table_of_player x = (Player_attable, i)"
  "pending_table_info d p i = Inr x \<Longrightarrow> table_of_player x = (Player_pending, i)"
  by (auto simp: playing_table_info_def attable_table_info_def pending_table_info_def table_of_player_def res_simps Let_def
      dest: get_table_info_id)

lemma list_all2_map_eq: "list_all2 (\<lambda>x y. f x = Inr y) xs ys \<Longrightarrow> (\<And>x y. f x = Inr y \<Longrightarrow> g y = x) \<Longrightarrow> map g ys = xs"
  by (induction xs ys rule: list_all2_induct) auto

text \<open>
  C39: as long as the index of players agrees with the tables, the tables listed for a player are, up to the
  limit, exactly those where the player has cash in the game, waits with cash or has a
  reservation, each in its state.
\<close>

theorem tables_of_player_complete:
  assumes "list_tables_with_player parse s d name limit = Inr xs" and "get_player_id parse d name = Inr (Some p)"
    and "players_agree (idx_find (tables d)) s" and "length xs < limit"
  shows "set (map table_of_player xs) =
     {(Player_playing, i) | i t. idx_find (tables d) i = Some t \<and> p \<in> fm_keys (playing_cash t)} \<union>
     {(Player_attable, i) | i t. idx_find (tables d) i = Some t \<and> p \<in> fm_keys (cash t)} \<union>
     {(Player_pending, i) | i t. idx_find (tables d) i = Some t \<and> p \<in> fm_keys (pending_proposals t)}"
proof -
  let ?info = "\<lambda>(st, i). case st of Player_playing \<Rightarrow> playing_table_info d p i
     | Player_attable \<Rightarrow> attable_table_info d p i | Player_pending \<Rightarrow> pending_table_info d p i"
  let ?found = "map (\<lambda>i. (Player_playing, i)) (fs_items (tables_of (tables_with_playing_cash_by_player s) p)) @
     map (\<lambda>i. (Player_attable, i)) (fs_items (tables_of (tables_with_cash_by_player s) p)) @
     map (\<lambda>i. (Player_pending, i)) (fs_items (tables_of (tables_with_pending_proposals_by_player s) p))"
  have all: "list_all2 (\<lambda>x y. ?info x = Inr y) (take limit ?found) xs"
    using assms(1,2) by (auto simp: list_tables_with_player_def res_simps Let_def emap_Inr)
  then have "map table_of_player xs = take limit ?found"
    by (rule list_all2_map_eq) (auto split: playchain_player_table_state.splits dest: player_table_infos)
  moreover have "take limit ?found = ?found" using list_all2_lengthD [OF all] assms(4) by simp
  ultimately have "set (map table_of_player xs) = set ?found" by metis
  then show ?thesis using assms(3) by (auto simp: players_agree_def lists_exactly_def)
qed


theorem tables_of_player_complete_witness:
  "\<exists>xs. list_tables_with_player sample_parse seated_index (sample_db\<lparr>tables := of_objects [new_table, table_with_cash [3]]\<rparr>)
       (sample_shw 3) 5 = Inr xs \<and>
     set (map table_of_player xs) = {(Player_attable, 1)}"
proof -
  let ?d = "sample_db\<lparr>tables := of_objects [new_table, table_with_cash [3]]\<rparr>"
  let ?r = "list_tables_with_player sample_parse seated_index ?d (sample_shw 3) 5"
  have "succeeds ?r" by code_simp
  then have r: "?r = Inr (result_of [] ?r)" by (rule succeedsE)
  have p: "get_player_id sample_parse ?d (sample_shw 3) = Inr (Some 3)" "length (result_of [] ?r) < 5" by code_simp+
  have items: "map fst (idx_items (tables ?d)) = [0, 1]" by code_simp
  have find: "idx_find (tables ?d) = [0 \<mapsto> new_table, 1 \<mapsto> table_with_cash [3]]"
  proof
    fix i
    have "idx_find (tables ?d) 0 = Some new_table" "idx_find (tables ?d) 1 = Some (table_with_cash [3])" by code_simp+
    moreover have "idx_find (tables ?d) i = None" if "i \<notin> {0, 1}"
      using that items idx_items_iff [of i _ "tables ?d"] by (cases "idx_find (tables ?d) i") force+
    ultimately show "idx_find (tables ?d) i = [0 \<mapsto> new_table, 1 \<mapsto> table_with_cash [3]] i" by simp
  qed
  have "players_agree [1 \<mapsto> table_with_cash [3]] seated_index"
    using players_index.reaches_agrees [OF seated_reached players_agree_empty] .
  then have "players_agree (idx_find (tables ?d)) seated_index"
    unfolding find by (auto simp: players_agree_def lists_exactly_def new_table_def)
  note result = tables_of_player_complete [OF r p(1) this p(2)]
  have "3 \<in> fm_keys (cash (table_with_cash [3]))" by code_simp
  then have "set (map table_of_player (result_of [] ?r)) = {(Player_attable, 1)}"
    unfolding result find by (auto simp: new_table_def table_with_cash_def split: if_splits)
  then show ?thesis using r by blast
qed

end
