(* ===== verification/Ledger.thy ===== *)
theory Ledger
  imports Machine
begin

text \<open>
  What buying in and out promises, without tables, indexes and objects: an abstract ledger of the
  purses of accounts, the chips of players at tables outside and inside of games, and the reservations.
  Each operation is a transfer between two places of the ledger. The results: the evaluators of
  \<^verbatim>\<open>buy_in_buy_out_evaluators.cpp\<close> implement these transfers, on every branch, and change nothing else
  of the ledger; a reservation that is cancelled gives everything back.
\<close>

record ledger =
  purse :: "account_id \<Rightarrow> nat \<Rightarrow> int"
  chips :: "table_id \<Rightarrow> player_id \<Rightarrow> int"
  stakes :: "table_id \<Rightarrow> player_id \<Rightarrow> int"
  reserved :: "pending_buy_in_id \<Rightarrow> int"

definition ledger_of :: "database \<Rightarrow> ledger" where
  "ledger_of d =
     \<lparr>purse = (\<lambda>a x. amount (get_balance d a x)),
      chips = (\<lambda>i p. case idx_find (tables d) i of None \<Rightarrow> 0 | Some t \<Rightarrow> amount (get_cash_balance t p)),
      stakes = (\<lambda>i p. case idx_find (tables d) i of None \<Rightarrow> 0 | Some t \<Rightarrow> amount (get_playing_cash_balance t p)),
      reserved = (\<lambda>b. case idx_find (pending_buy_ins d) b of None \<Rightarrow> 0 | Some r \<Rightarrow> amount (pb_amount r))\<rparr>"

section \<open>Transfers\<close>

definition pay :: "account_id \<Rightarrow> nat \<Rightarrow> int \<Rightarrow> ledger \<Rightarrow> ledger" where
  "pay a x n l = l\<lparr>purse := (purse l)(a := (purse l a)(x := purse l a x + n))\<rparr>"

definition seat_chips :: "table_id \<Rightarrow> player_id \<Rightarrow> int \<Rightarrow> ledger \<Rightarrow> ledger" where
  "seat_chips i p n l = l\<lparr>chips := (chips l)(i := (chips l i)(p := chips l i p + n))\<rparr>"

definition hold :: "pending_buy_in_id \<Rightarrow> int \<Rightarrow> ledger \<Rightarrow> ledger" where
  "hold b n l = l\<lparr>reserved := (reserved l)(b := n)\<rparr>"

definition spec_buy_in :: "account_id \<Rightarrow> player_id \<Rightarrow> table_id \<Rightarrow> asset \<Rightarrow> ledger \<Rightarrow> ledger" where
  "spec_buy_in a p i c l = seat_chips i p (amount c) (pay a (asset_id c) (- amount c) l)"

definition spec_buy_out :: "account_id \<Rightarrow> player_id \<Rightarrow> table_id \<Rightarrow> asset \<Rightarrow> ledger \<Rightarrow> ledger" where
  "spec_buy_out a p i c l = seat_chips i p (- amount c) (pay a (asset_id c) (amount c) l)"

definition spec_reserve :: "account_id \<Rightarrow> pending_buy_in_id \<Rightarrow> asset \<Rightarrow> ledger \<Rightarrow> ledger" where
  "spec_reserve a b c l = hold b (amount c) (pay a (asset_id c) (- amount c) l)"

definition spec_cancel :: "account_id \<Rightarrow> pending_buy_in_id \<Rightarrow> nat \<Rightarrow> ledger \<Rightarrow> ledger" where
  "spec_cancel a b x l = hold b 0 (pay a x (reserved l b) l)"

definition spec_resolve :: "pending_buy_in_id \<Rightarrow> player_id \<Rightarrow> table_id \<Rightarrow> ledger \<Rightarrow> ledger" where
  "spec_resolve b p i l = hold b 0 (seat_chips i p (reserved l b) l)"

section \<open>The steps of the evaluators as transfers\<close>

lemma ledger_eqI:
  assumes "purse l = purse m" "chips l = chips m" "stakes l = stakes m" "reserved l = reserved m"
  shows "l = (m :: ledger)"
  using assms by (cases l; cases m) simp

lemma ledger_balance:
  assumes "adjust_balance a c d = Inr d'"
  shows "ledger_of d' = pay a (asset_id c) (amount c) (ledger_of d)"
proof (rule ledger_eqI)
  show "purse (ledger_of d') = purse (pay a (asset_id c) (amount c) (ledger_of d))"
    by (intro ext) (simp add: ledger_of_def pay_def adjust_balance_get [OF assms])
qed (simp_all add: ledger_of_def pay_def adjust_balance_frame [OF assms])

lemma get_cash_balance_other:
  "adjust_cash p c t = Inr t' \<Longrightarrow> q \<noteq> p \<Longrightarrow> get_cash_balance t' q = get_cash_balance t q"
  by (auto elim!: adjust_cash_cases simp: get_cash_balance_def)

text \<open>Setting a table changes the ledger at the cash of that table only.\<close>

lemma ledger_set_table:
  assumes "idx_find (tables d) i = Some t" and "playing_cash t' = playing_cash t"
    and "\<And>q. amount (get_cash_balance t' q) = amount (get_cash_balance t q) + (if q = p then n else 0)"
  shows "ledger_of (set_table i t' d) = seat_chips i p n (ledger_of d)"
proof (rule ledger_eqI)
  show "chips (ledger_of (set_table i t' d)) = chips (seat_chips i p n (ledger_of d))"
    by (intro ext) (simp add: ledger_of_def seat_chips_def set_table_def assms)
  show "stakes (ledger_of (set_table i t' d)) = stakes (seat_chips i p n (ledger_of d))"
    by (intro ext) (simp add: ledger_of_def seat_chips_def set_table_def assms get_playing_cash_balance_def)
qed (simp_all add: ledger_of_def seat_chips_def set_table_def get_balance_def)

lemma seat_chips_0 [simp]: "seat_chips i p 0 l = l"
  by (rule ledger_eqI) (simp_all add: seat_chips_def fun_eq_iff)

lemma ledger_same_table:
  assumes "idx_find (tables d) i = Some t" and "playing_cash t' = playing_cash t" and "cash t' = cash t"
  shows "ledger_of (set_table i t' d) = ledger_of d"
  using ledger_set_table [OF assms(1,2), of _ 0] assms(3) by (simp add: get_cash_balance_def)

lemma ledger_cash:
  assumes "modify_table i (adjust_cash p c) d = Inr d'" and "db_ok d"
    and "\<And>t. idx_find (tables d) i = Some t \<Longrightarrow> 0 \<le> amount (get_cash_balance t p) + amount c"
  shows "ledger_of d' = seat_chips i p (amount c) (ledger_of d)"
proof -
  obtain t t' where t: "idx_find (tables d) i = Some t" "adjust_cash p c t = Inr t'" "d' = set_table i t' d"
    using assms(1) by (auto simp: modify_table_Inr)
  have "cash_ok (cash t)" using db_ok_tableD [OF assms(2) t(1)] by (simp add: table_ok_def)
  from adjust_cash_amount [OF t(2) this] assms(3) [OF t(1)]
  have "amount (get_cash_balance t' q) = amount (get_cash_balance t q) + (if q = p then amount c else 0)" for q
    using get_cash_balance_other [OF t(2), of q] by simp
  then show ?thesis
    unfolding t(3) by (rule ledger_set_table [OF t(1) adjust_cash_frame(1) [OF t(2)]])
qed

lemma ledger_updates [simp]:
  "ledger_of (d\<lparr>buy_ins := bi\<rparr>) = ledger_of d" "ledger_of (d\<lparr>alives := al\<rparr>) = ledger_of d"
  "ledger_of (d\<lparr>measurements := ms\<rparr>) = ledger_of d" "ledger_of (d\<lparr>pending_buy_outs := po\<rparr>) = ledger_of d"
  "ledger_of (resolve_measurement b d) = ledger_of d" "ledger_of (remove_measurement b d) = ledger_of d"
  "ledger_of (remove_buy_out pid tid d) = ledger_of d"
  by (simp_all add: ledger_of_def get_balance_def resolve_measurement_def remove_measurement_def remove_buy_out_def
      split: option.split)

lemma ledger_register:
  assumes "register_buy_in_alive pid tid d = Inr d'"
  shows "ledger_of d' = ledger_of d"
proof -
  have weight: "ledger_of e = ledger_of f" if "set_weight i f = Inr e" for i e f
    using that by (auto elim!: set_weight_cases intro: ledger_same_table)
  obtain e where e: "register_buy_in pid tid d = Inr e" "alive_for_table tid e = Inr d'"
    using assms by (auto simp: register_buy_in_alive_def ebind_Inr)
  have "ledger_of e = ledger_of d"
    using e(1) by (auto simp: register_buy_in_def prolong_life_for_by_in_def ebind_Inr split: option.splits)
  moreover have "ledger_of d' = ledger_of e"
    using e(2) by (auto simp: alive_for_table_def ebind_Inr split: option.splits dest!: weight)
  ultimately show ?thesis by simp
qed

lemma ledger_pending:
  assumes "\<And>c. idx_find ix c = (if c = b then r else idx_find (pending_buy_ins d) c)"
  shows "ledger_of (d\<lparr>pending_buy_ins := ix\<rparr>) =
    hold b (case r of None \<Rightarrow> 0 | Some x \<Rightarrow> amount (pb_amount x)) (ledger_of d)"
proof (rule ledger_eqI)
  show "reserved (ledger_of (d\<lparr>pending_buy_ins := ix\<rparr>)) =
      reserved (hold b (case r of None \<Rightarrow> 0 | Some x \<Rightarrow> amount (pb_amount x)) (ledger_of d))"
    by (intro ext) (simp add: ledger_of_def hold_def assms)
qed (simp_all add: ledger_of_def hold_def get_balance_def)

section \<open>The evaluators implement the transfers\<close>

lemma buy_in_ledger:
  assumes "buy_in_table_apply op d = Inr d'" and "db_ok d" and "0 < amount (bit_amount op)"
    and "get_player d (bit_player op) = Inr (pid, player)"
  shows "ledger_of d' = spec_buy_in (bit_player op) pid (bit_table op) (bit_amount op) (ledger_of d)"
proof -
  obtain m e f where m: "asset_neg (bit_amount op) = Inr m"
    and e: "adjust_balance (bit_player op) m d = Inr e"
    and f: "modify_table (bit_table op) (adjust_cash pid (bit_amount op)) e = Inr f"
    and d': "register_buy_in_alive pid (bit_table op) f = Inr d'"
    using assms(1,4) by (auto simp: buy_in_table_apply_def ebind_Inr)
  have ok: "db_ok e" by (rule adjust_balance_ok [OF e assms(2)])
  have "0 \<le> amount (get_cash_balance t pid) + amount (bit_amount op)" if "idx_find (tables e) (bit_table op) = Some t" for t
    using get_cash_balance_nonneg [OF db_ok_tableD [OF ok that], of pid] assms(3) by simp
  from ledger_cash [OF f ok this] ledger_balance [OF e] ledger_register [OF d'] m show ?thesis
    by (simp add: spec_buy_in_def asset_neg_Inr)
qed

text \<open>A buy-out is paid at once, or only noted.\<close>

lemma buy_out_ledger:
  assumes "buy_out_table pid account tid amt d = Inr d'" and "db_ok d"
    and "idx_find (tables d) tid = Some t"
    and "\<not> is_playing_player t pid \<Longrightarrow> amount amt \<le> amount (get_cash_balance t pid)"
  shows "ledger_of d' =
    (if buy_out_allowed pid amt t = Inr True then spec_buy_out account pid tid amt (ledger_of d) else ledger_of d)"
proof -
  obtain allow where allow: "buy_out_allowed pid amt t = Inr allow"
    using assms(1,3) by (auto simp: buy_out_table_def ebind_Inr idx_get_Inr)
  show ?thesis
  proof (cases allow)
    case False
    then have "defer_buy_out pid tid amt d = Inr d'"
      using assms(1,3) allow by (simp add: buy_out_table_def idx_get_def)
    then show ?thesis
      using allow False by (auto simp: defer_buy_out_def ebind_Inr split: if_splits option.splits)
  next
    case True
    then have le: "amount amt \<le> amount (get_cash_balance t pid)"
      using allow assms(4) by (auto simp: buy_out_allowed_def get_cash_balance_def res_simps split: if_splits option.splits)
    obtain e m f where e: "adjust_balance account amt d = Inr e" and m: "asset_neg amt = Inr m"
      and f: "modify_table tid (adjust_cash pid m) e = Inr f" and d': "d' = remove_buy_out pid tid f"
      using assms(1,3) allow True
      by (cases "asset_neg amt") (auto simp: buy_out_table_def idx_get_def ebind_Inr modify_table_def)
    have "ledger_of f = seat_chips tid pid (amount m) (ledger_of e)"
      using f by (rule ledger_cash)
        (use assms(2,3) le m e adjust_balance_frame(1) [OF e] in \<open>auto simp: asset_neg_Inr intro: adjust_balance_ok\<close>)
    with ledger_balance [OF e] m show ?thesis
      by (simp add: d' spec_buy_out_def asset_neg_Inr allow True)
  qed
qed

lemma reserve_ledger:
  assumes "buy_in_reserve_apply op d = Inr d'"
  shows "\<exists>buyin. idx_find (pending_buy_ins d) (next_id (pending_buy_ins d)) = None \<and>
    idx_find (pending_buy_ins d') (next_id (pending_buy_ins d)) = Some buyin \<and>
    pb_player buyin = bir_player op \<and> pb_uid buyin = bir_uid op \<and> pb_amount buyin = bir_amount op \<and>
    \<not> is_allocated buyin \<and>
    (\<forall>c. c \<noteq> next_id (pending_buy_ins d) \<longrightarrow> idx_find (pending_buy_ins d') c = idx_find (pending_buy_ins d) c) \<and>
    ledger_of d' = spec_reserve (bir_player op) (next_id (pending_buy_ins d)) (bir_amount op) (ledger_of d)"
proof -
  obtain m e clash buyin i ix where m: "asset_neg (bir_amount op) = Inr m"
    and e: "adjust_balance (bir_player op) m d = Inr e"
    and c: "idx_create clash buyin (pending_buy_ins e) = Inr (i, ix)"
    and b: "pb_player buyin = bir_player op" "pb_uid buyin = bir_uid op" "pb_amount buyin = bir_amount op" "pb_table buyin = 0"
    and d': "d' = e\<lparr>pending_buy_ins := ix\<rparr>"
    using assms unfolding buy_in_reserve_apply_def ebind_Inr
    by (elim exE conjE) (force simp: ebind_Inr split: prod.splits)
  have i: "i = next_id (pending_buy_ins d)" "idx_find (pending_buy_ins d) i = None"
    using c adjust_balance_frame(6) [OF e] by (auto simp: idx_create_Inr)
  have "ledger_of d' = hold i (amount (bir_amount op)) (ledger_of e)"
    unfolding d' using ledger_pending [OF idx_create_find [OF c]] b(3) by simp
  with ledger_balance [OF e] m have "ledger_of d' = spec_reserve (bir_player op) i (bir_amount op) (ledger_of d)"
    by (simp add: spec_reserve_def asset_neg_Inr)
  with i b idx_create_find [OF c] adjust_balance_frame(6) [OF e] show ?thesis by (auto simp: d' is_allocated_def)
qed

lemma cancel_ledger:
  assumes "cancel_pending_buyin b d = Inr d'" and "idx_find (pending_buy_ins d) b = Some buyin"
  shows "ledger_of d' = spec_cancel (pb_player buyin) b (asset_id (pb_amount buyin)) (ledger_of d)"
proof -
  obtain e f where e: "leave_allocated_table b buyin d = Inr e"
    and f: "adjust_balance (pb_player buyin) (pb_amount buyin) e = Inr f"
    and d': "d' = f\<lparr>pending_buy_ins := idx_remove b (pending_buy_ins f)\<rparr>"
    using assms by (auto simp: cancel_pending_buyin_def res_simps)
  have "ledger_of e = ledger_of d"
  proof (cases "is_allocated buyin")
    case True
    then obtain pid t where t: "idx_find (tables d) (pb_table buyin) = Some t"
      and "e = set_table (pb_table buyin) (remove_pending_proposal pid t) (remove_measurement b d)"
      using e by (auto simp: leave_allocated_table_def res_simps)
    then show ?thesis using ledger_same_table [of "remove_measurement b d"] by simp
  qed (use e in \<open>simp add: leave_allocated_table_def\<close>)
  moreover have "ledger_of d' = hold b 0 (ledger_of f)"
    unfolding d' using ledger_pending [of "idx_remove b (pending_buy_ins f)" b None f] by simp
  ultimately show ?thesis
    using ledger_balance [OF f] assms(2) by (simp add: spec_cancel_def ledger_of_def)
qed

lemma resolve_ledger:
  assumes "buy_in_reserving_resolve_apply op d = Inr d'" and "db_ok d"
    and "idx_find (pending_buy_ins d) (brr_pending_buyin op) = Some buyin"
    and "get_player d (pb_player buyin) = Inr (pid, player)"
  shows "ledger_of d' = spec_resolve (brr_pending_buyin op) pid (brr_table op) (ledger_of d)"
proof -
  let ?b = "brr_pending_buyin op"
  obtain t t' where t: "idx_find (tables d) (brr_table op) = Some t"
    and t': "adjust_cash pid (pb_amount buyin) (remove_pending_proposal pid t) = Inr t'"
    and r: "register_buy_in_alive pid (brr_table op)
        ((set_table (brr_table op) t' (resolve_measurement ?b d))
          \<lparr>pending_buy_ins := idx_remove ?b (pending_buy_ins d)\<rparr>) = Inr d'"
    using assms(1,3,4) by (auto simp: buy_in_reserving_resolve_apply_def ebind_Inr idx_get_Inr modify_table_Inr)
  let ?e = "set_table (brr_table op) t' (resolve_measurement ?b d)"
  have "0 \<le> amount (pb_amount buyin)" using assms(2,3) by (auto simp: db_ok_def dest: idx_allD)
  moreover have ok: "table_ok t" by (rule db_ok_tableD [OF assms(2) t])
  ultimately have "amount (get_cash_balance t' pid) = amount (get_cash_balance t pid) + amount (pb_amount buyin)"
    using adjust_cash_amount [OF t'] get_cash_balance_nonneg [OF ok, of pid] by (simp add: get_cash_balance_def table_ok_def)
  then have q: "amount (get_cash_balance t' q) =
      amount (get_cash_balance t q) + (if q = pid then amount (pb_amount buyin) else 0)" for q
    using get_cash_balance_other [OF t', of q] by (simp add: get_cash_balance_def)
  have p: "playing_cash t' = playing_cash t" using adjust_cash_frame(1) [OF t'] by simp
  have "idx_find (tables (resolve_measurement ?b d)) (brr_table op) = Some t" using t by simp
  from ledger_set_table [OF this p q]
  have "ledger_of ?e = seat_chips (brr_table op) pid (amount (pb_amount buyin)) (ledger_of d)" by simp
  moreover have "ledger_of (?e\<lparr>pending_buy_ins := idx_remove ?b (pending_buy_ins d)\<rparr>) = hold ?b 0 (ledger_of ?e)"
    using ledger_pending [of "idx_remove ?b (pending_buy_ins d)" ?b None ?e] by simp
  ultimately show ?thesis
    using ledger_register [OF r] assms(3) by (simp add: spec_resolve_def ledger_of_def)
qed

section \<open>Runs of operations as runs of transfers\<close>

text \<open>
  The abstract machine: in one step somebody buys in, buys out, reserves, cancels or resolves, or
  the ledger stays. The side conditions are what the abstract machine promises: nobody pays more than
  the purse holds and nobody takes more chips than there are at the table.
\<close>

inductive transfer :: "ledger \<Rightarrow> ledger \<Rightarrow> bool" where
  stay: "transfer l l"
| buy_in: "\<lbrakk>0 < amount c; amount c \<le> purse l a (asset_id c)\<rbrakk> \<Longrightarrow> transfer l (spec_buy_in a p i c l)"
| buy_out: "\<lbrakk>0 < amount c; amount c \<le> chips l i p\<rbrakk> \<Longrightarrow> transfer l (spec_buy_out a p i c l)"
| reserve: "\<lbrakk>0 < amount c; amount c \<le> purse l a (asset_id c); reserved l b = 0\<rbrakk> \<Longrightarrow> transfer l (spec_reserve a b c l)"
| cancel: "0 \<le> reserved l b \<Longrightarrow> transfer l (spec_cancel a b x l)"
| resolve: "0 \<le> reserved l b \<Longrightarrow> transfer l (spec_resolve b p i l)"

text \<open>A machine that implements a step relation on what an observer sees of its state.\<close>

locale implementation =
  fixes step :: "'op \<Rightarrow> 's \<Rightarrow> 's res"
    and inv :: "'s \<Rightarrow> bool"
    and view :: "'s \<Rightarrow> 'a"
    and spec :: "'a \<Rightarrow> 'a \<Rightarrow> bool"
  assumes step_inv: "inv s \<Longrightarrow> step op s = Inr s' \<Longrightarrow> inv s'"
    and step_spec: "inv s \<Longrightarrow> step op s = Inr s' \<Longrightarrow> spec (view s) (view s')"
begin

lemma run_spec:
  assumes "inv s" and "efold step ops s = Inr s'"
  shows "spec\<^sup>*\<^sup>* (view s) (view s')"
proof -
  have "inv s' \<and> spec\<^sup>*\<^sup>* (view s) (view s')"
    by (rule efold_invariant [OF _ _ assms(2)])
      (use assms(1) in \<open>auto intro: step_inv rtranclp.rtrancl_into_rtrancl step_spec\<close>)
  then show ?thesis by blast
qed

end

fun cash_operation :: "playchain_operation \<Rightarrow> bool" where
  "cash_operation (Op_buy_in_table op) = True"
| "cash_operation (Op_buy_out_table op) = True"
| "cash_operation (Op_buy_in_reserve op) = True"
| "cash_operation (Op_buy_in_reserving_cancel op) = True"
| "cash_operation (Op_buy_in_reserving_resolve op) = True"
| "cash_operation op = False"

definition cash_step :: "'h::linorder externals \<Rightarrow> playchain_operation \<Rightarrow> database \<Rightarrow> database res" where
  "cash_step ext op d =
     ebind (check (cash_operation op) ''cash'') (\<lambda>_. apply_transaction ext [op] d)"

lemma apply_one:
  "apply_transaction ext [op] d = Inr d' \<longleftrightarrow>
     operation_validate op = Inr () \<and> do_evaluate ext False d op = Inr () \<and> do_apply ext op d = Inr d'"
  by (auto simp: apply_transaction_def transaction_validate_def apply_operation_def ebind_Inr check_Inr)

section \<open>The evaluators refine the transfers\<close>

lemma balance_nonneg: "db_ok d \<Longrightarrow> 0 \<le> purse (ledger_of d) a x"
  by (auto simp: db_ok_def balances_ok_iff ledger_of_def get_balance_def split: option.splits)

lemma get_player_account: "get_player d a = Inr (pid, player) \<Longrightarrow> pl_account player = a"
  by (auto simp: get_player_def find_player_def res_simps dest: idx_lookup_Some)

lemma ledger_of_values:
  "idx_find (tables d) i = Some t \<Longrightarrow> chips (ledger_of d) i p = amount (get_cash_balance t p)"
  "idx_find (pending_buy_ins d) b = None \<Longrightarrow> reserved (ledger_of d) b = 0"
  by (simp_all add: ledger_of_def)

lemma buy_in_step:
  assumes "apply_transaction ext [Op_buy_in_table op] d = Inr d'" and "db_ok d"
  shows "\<exists>pid player. get_player d (bit_player op) = Inr (pid, player) \<and>
    0 < amount (bit_amount op) \<and>
    amount (bit_amount op) \<le> purse (ledger_of d) (bit_player op) (asset_id (bit_amount op)) \<and>
    ledger_of d' = spec_buy_in (bit_player op) pid (bit_table op) (bit_amount op) (ledger_of d)"
proof -
  have v: "0 < amount (bit_amount op)" and a: "buy_in_table_apply op d = Inr d'"
    using assms(1) by (auto simp: apply_one dest: validated_amounts)
  obtain pid player where p: "get_player d (bit_player op) = Inr (pid, player)"
    using a by (auto simp: buy_in_table_apply_def ebind_Inr)
  note l = buy_in_ledger [OF a assms(2) v p]
  have "db_ok d'" using buy_in_table_conserves [OF a] v assms(2) by (simp add: gives_def)
  from balance_nonneg [OF this, of "bit_player op" "asset_id (bit_amount op)"]
  have "amount (bit_amount op) \<le> purse (ledger_of d) (bit_player op) (asset_id (bit_amount op))"
    by (simp add: l spec_buy_in_def pay_def seat_chips_def)
  with l p v show ?thesis by blast
qed

text \<open>A buy-out is paid at once when there are enough chips beside the game, else it is only noted.\<close>

lemma buy_out_step:
  assumes "apply_transaction ext [Op_buy_out_table op] d = Inr d'" and "db_ok d"
  shows "\<exists>pid player t. get_player d (bot_player op) = Inr (pid, player) \<and>
    idx_find (tables d) (bot_table op) = Some t \<and> 0 < amount (bot_amount op) \<and>
    (if amount (bot_amount op) \<le> amount (get_cash_balance t pid)
     then ledger_of d' = spec_buy_out (bot_player op) pid (bot_table op) (bot_amount op) (ledger_of d)
     else is_playing_player t pid \<and> ledger_of d' = ledger_of d)"
proof -
  have v: "0 < amount (bot_amount op)" and ev: "buy_out_table_evaluate d op = Inr ()"
    and a: "buy_out_table_apply op d = Inr d'"
    using assms(1) by (auto simp: apply_one buy_out_table_validate_def ebind_Inr check_Inr)
  obtain pid player t where p: "get_player d (bot_player op) = Inr (pid, player)"
    and t: "idx_find (tables d) (bot_table op) = Some t"
    and g: "\<not> is_playing_player t pid \<Longrightarrow> amount (bot_amount op) \<le> amount (get_cash_balance t pid)"
    using ev by (auto simp: buy_out_table_evaluate_def get_cash_balance_def asset_le_Inr res_simps split: if_splits)
  have b: "buy_out_table pid (bot_player op) (bot_table op) (bot_amount op) d = Inr d'"
    using a p get_player_account [OF p] by (simp add: buy_out_table_apply_def)
  obtain al where al: "buy_out_allowed pid (bot_amount op) t = Inr al"
    using b t by (auto simp: buy_out_table_def ebind_Inr idx_get_Inr)
  have "al \<longleftrightarrow> amount (bot_amount op) \<le> amount (get_cash_balance t pid)"
    using al v g by (auto simp: buy_out_allowed_def get_cash_balance_def asset_le_Inr split: if_splits option.splits)
  with buy_out_ledger [OF b assms(2) t g] al v p t g show ?thesis by auto
qed

lemma reserve_step:
  assumes "apply_transaction ext [Op_buy_in_reserve op] d = Inr d'" and "db_ok d"
  shows "\<exists>b buyin. find_pending_buy_in d (bir_player op) (bir_uid op) = None \<and>
    idx_find (pending_buy_ins d) b = None \<and>
    idx_find (pending_buy_ins d') b = Some buyin \<and> pb_player buyin = bir_player op \<and>
    find_pending_buy_in d' (bir_player op) (bir_uid op) = Some (b, buyin) \<and> pb_amount buyin = bir_amount op \<and>
    (\<forall>c. c \<noteq> b \<longrightarrow> idx_find (pending_buy_ins d') c = idx_find (pending_buy_ins d) c) \<and>
    0 < amount (bir_amount op) \<and>
    amount (bir_amount op) \<le> purse (ledger_of d) (bir_player op) (asset_id (bir_amount op)) \<and>
    ledger_of d' = spec_reserve (bir_player op) b (bir_amount op) (ledger_of d)"
proof -
  have v: "0 < amount (bir_amount op)" and a: "buy_in_reserve_apply op d = Inr d'"
    and n: "find_pending_buy_in d (bir_player op) (bir_uid op) = None"
    using assms(1) validated_amounts(2) by (cases "find_pending_buy_in d (bir_player op) (bir_uid op)";
      auto simp: apply_one buy_in_reserve_evaluate_def check_pending_buy_in_def ebind_Inr check_Inr)+
  let ?b = "next_id (pending_buy_ins d)"
  obtain buyin where b: "idx_find (pending_buy_ins d) ?b = None" "idx_find (pending_buy_ins d') ?b = Some buyin"
    "pb_player buyin = bir_player op" "pb_uid buyin = bir_uid op" "pb_amount buyin = bir_amount op"
    and others: "\<And>c. c \<noteq> ?b \<Longrightarrow> idx_find (pending_buy_ins d') c = idx_find (pending_buy_ins d) c"
    and l: "ledger_of d' = spec_reserve (bir_player op) ?b (bir_amount op) (ledger_of d)"
    using reserve_ledger [OF a] by blast
  have f: "find_pending_buy_in d' (bir_player op) (bir_uid op) = Some (?b, buyin)"
    using n b others unfolding find_pending_buy_in_def idx_lookup_None
    by (intro idx_lookup_unique) (auto, metis)
  have "db_ok d'" using buy_in_reserve_conserves [OF a v] assms(2) by (simp add: gives_def)
  from balance_nonneg [OF this, of "bir_player op" "asset_id (bir_amount op)"]
  have "amount (bir_amount op) \<le> purse (ledger_of d) (bir_player op) (asset_id (bir_amount op))"
    by (simp add: l spec_reserve_def pay_def hold_def)
  with l b v n f others show ?thesis by blast
qed

lemma cancel_step:
  assumes "apply_transaction ext [Op_buy_in_reserving_cancel op] d = Inr d'"
  shows "\<exists>b buyin. find_pending_buy_in d (brc_player op) (brc_uid op) = Some (b, buyin) \<and>
    pending_buy_ins d' = idx_remove b (pending_buy_ins d) \<and>
    ledger_of d' = spec_cancel (brc_player op) b (asset_id (pb_amount buyin)) (ledger_of d)"
proof -
  obtain b buyin where f: "find_pending_buy_in d (brc_player op) (brc_uid op) = Some (b, buyin)"
    and c: "cancel_pending_buyin b d = Inr d'"
    using assms by (auto simp: apply_one buy_in_cancel_apply_def ebind_Inr of_option_Inr)
  then have "idx_find (pending_buy_ins d) b = Some buyin" "pb_player buyin = brc_player op"
    by (auto simp: find_pending_buy_in_def dest: idx_lookup_Some)
  with f cancel_ledger [OF c] cancel_pending_buyin_frame [OF c] show ?thesis by auto
qed

lemma resolve_step:
  assumes "apply_transaction ext [Op_buy_in_reserving_resolve op] d = Inr d'" and "db_ok d"
  shows "\<exists>buyin pid player t. idx_find (pending_buy_ins d) (brr_pending_buyin op) = Some buyin \<and>
    get_player d (pb_player buyin) = Inr (pid, player) \<and> idx_find (tables d) (brr_table op) = Some t \<and>
    fm_find (pending_proposals t) pid = Some (brr_pending_buyin op) \<and>
    ledger_of d' = spec_resolve (brr_pending_buyin op) pid (brr_table op) (ledger_of d)"
proof -
  have ev: "buy_in_reserving_resolve_evaluate d op = Inr ()" and a: "buy_in_reserving_resolve_apply op d = Inr d'"
    using assms(1) by (auto simp: apply_one)
  obtain buyin pid player t where b: "idx_find (pending_buy_ins d) (brr_pending_buyin op) = Some buyin"
    and p: "get_player d (pb_player buyin) = Inr (pid, player)" and t: "idx_find (tables d) (brr_table op) = Some t"
    "fm_find (pending_proposals t) pid = Some (brr_pending_buyin op)"
    using ev by (auto simp: buy_in_reserving_resolve_evaluate_def ebind_Inr check_Inr idx_get_Inr)
  with resolve_ledger [OF a assms(2) b p] show ?thesis by blast
qed

lemma reserved_nonneg: "db_ok d \<Longrightarrow> 0 \<le> reserved (ledger_of d) b"
  by (auto simp: db_ok_def idx_all_iff ledger_of_def split: option.splits)

lemma cash_transfer:
  assumes "cash_step ext op d = Inr d'" and "chain_ok d"
  shows "transfer (ledger_of d) (ledger_of d')"
proof -
  have ok: "db_ok d" using assms(2) by (simp add: chain_ok_def)
  have a: "apply_transaction ext [op] d = Inr d'" and "cash_operation op"
    using assms(1) by (auto simp: cash_step_def ebind_Inr check_Inr)
  from this(2) show ?thesis
  proof (cases op rule: cash_operation.cases)
    case (1 x) with a buy_in_step [OF _ ok] show ?thesis by (metis transfer.buy_in)
  next
    case (2 x)
    from buy_out_step [OF a [unfolded 2] ok] show ?thesis
      by (auto intro: transfer.stay intro!: transfer.buy_out simp: ledger_of_values split: if_splits)
  next
    case (3 x)
    from reserve_step [OF a [unfolded 3] ok] show ?thesis
      by (auto intro!: transfer.reserve simp: ledger_of_values)
  next
    case (4 x) with a cancel_step reserved_nonneg [OF ok] show ?thesis by (metis transfer.cancel)
  next
    case (5 x) with a resolve_step [OF _ ok] reserved_nonneg [OF ok] show ?thesis by (metis transfer.resolve)
  qed simp_all
qed

interpretation cash: implementation "cash_step ext" chain_ok ledger_of transfer
  for ext :: "'h::linorder externals"
  by unfold_locales (auto simp: cash_step_def ebind_Inr dest: sound_step(1) [OF apply_transaction_sound, rotated]
      intro: cash_transfer)

section \<open>The contract of buying in and out\<close>

text \<open>
  A buy-in that is accepted is the transfer of the amount from the purse of the player to the
  chips of the player at the table: the purse held at least that much, and no other purse, no other
  seat, no game and no reservation changes.
\<close>

theorem buy_in_refines:
  assumes "apply_transaction ext [Op_buy_in_table op] d = Inr d'" and "db_ok d"
  shows "\<exists>pid player. get_player d (bit_player op) = Inr (pid, player) \<and>
    0 < amount (bit_amount op) \<and>
    amount (bit_amount op) \<le> purse (ledger_of d) (bit_player op) (asset_id (bit_amount op)) \<and>
    ledger_of d' = spec_buy_in (bit_player op) pid (bit_table op) (bit_amount op) (ledger_of d)"
  using assms by (rule buy_in_step)

lemma sample_chain_ok: "chain_ok sample_db"
proof -
  have "db_ok sample_db" "HARDFORK_PLAYCHAIN_10_TIME \<le> head_block_time sample_db" by code_simp+
  then show ?thesis by (simp add: chain_ok_def votes_ok_def sample_db_def)
qed

lemma sample_db_ok: "db_ok sample_db" by code_simp

definition sample_apply :: "playchain_operation \<Rightarrow> database \<Rightarrow> database res" where
  "sample_apply op = apply_transaction sample_externals [op]"

definition sample_seated :: database where
  "sample_seated = result_of sample_db (sample_apply (Op_buy_in_table (sample_buy_in 11 200)) sample_db)"

lemma sample_seated: "apply_transaction sample_externals [Op_buy_in_table (sample_buy_in 11 200)] sample_db = Inr sample_seated"
proof -
  have "succeeds (apply_transaction sample_externals [Op_buy_in_table (sample_buy_in 11 200)] sample_db)" by code_simp
  then show ?thesis unfolding sample_seated_def sample_apply_def by (rule succeedsE)
qed

theorem buy_in_refines_witness:
  "\<exists>pid. ledger_of sample_seated = spec_buy_in 11 pid 1 (core_asset 200) (ledger_of sample_db)"
  using buy_in_refines [OF sample_seated sample_db_ok] by (auto simp: sample_buy_in_def)

text \<open>
  C21: a buy-out that is accepted is paid at once exactly when the player has enough chips beside the
  game, by a transfer to the purse; else the player is in the game, and no money moves.
\<close>

theorem buy_out_refines:
  assumes "apply_transaction ext [Op_buy_out_table op] d = Inr d'" and "db_ok d"
  shows "\<exists>pid player t. get_player d (bot_player op) = Inr (pid, player) \<and>
    idx_find (tables d) (bot_table op) = Some t \<and> 0 < amount (bot_amount op) \<and>
    (if amount (bot_amount op) \<le> amount (get_cash_balance t pid)
     then ledger_of d' = spec_buy_out (bot_player op) pid (bot_table op) (bot_amount op) (ledger_of d)
     else is_playing_player t pid \<and> ledger_of d' = ledger_of d)"
  using assms by (rule buy_out_step)

definition sample_buy_out :: "int \<Rightarrow> buy_out_table_operation" where
  "sample_buy_out n = \<lparr>bot_fee = core_asset 0, bot_player = 11, bot_table = 1, bot_table_owner = 10,
     bot_amount = core_asset n, bot_reason = []\<rparr>"

lemma sample_buy_out_fields:
  "bot_player (sample_buy_out n) = 11" "bot_table (sample_buy_out n) = 1" "bot_amount (sample_buy_out n) = core_asset n"
  by (simp_all add: sample_buy_out_def)

theorem buy_out_refines_witness:
  "\<exists>pid. ledger_of (result_of sample_db (sample_apply (Op_buy_out_table (sample_buy_out 150)) sample_seated)) =
     spec_buy_out 11 pid 1 (core_asset 150) (ledger_of sample_seated)"
proof -
  let ?r = "apply_transaction sample_externals [Op_buy_out_table (sample_buy_out 150)] sample_seated"
  have "succeeds ?r" by code_simp
  then have r: "?r = Inr (result_of sample_db ?r)" by (rule succeedsE)
  have "db_ok sample_seated" by code_simp
  from buy_out_refines [OF r this] obtain pid player t where
    p: "get_player sample_seated 11 = Inr (pid, player)" "idx_find (tables sample_seated) 1 = Some t"
    and l: "if amount (core_asset 150) \<le> amount (get_cash_balance t pid)
      then ledger_of (result_of sample_db ?r) = spec_buy_out 11 pid 1 (core_asset 150) (ledger_of sample_seated)
      else is_playing_player t pid \<and> ledger_of (result_of sample_db ?r) = ledger_of sample_seated"
    unfolding sample_buy_out_fields by blast
  have "case (get_player sample_seated 11, idx_find (tables sample_seated) 1) of
    (Inr (pid, player), Some t) \<Rightarrow> amount (core_asset 150) \<le> amount (get_cash_balance t pid) | _ \<Rightarrow> False"
    by code_simp
  then show ?thesis using p l by (auto simp: sample_apply_def)
qed

text \<open>
  C22: a reservation that is cancelled in the next operation leaves no trace in the ledger and
  exactly the reservations there were; the amount was on the purse and came back to it.
\<close>

theorem reserve_cancel_roundtrip:
  assumes "apply_transaction ext [Op_buy_in_reserve r] d = Inr e" and "db_ok d"
    and "apply_transaction ext [Op_buy_in_reserving_cancel c] e = Inr d'"
    and "brc_player c = bir_player r" and "brc_uid c = bir_uid r"
  shows "ledger_of d' = ledger_of d \<and> idx_find (pending_buy_ins d') = idx_find (pending_buy_ins d)"
proof -
  obtain b buyin where b: "idx_find (pending_buy_ins d) b = None"
    "find_pending_buy_in e (bir_player r) (bir_uid r) = Some (b, buyin)" "pb_amount buyin = bir_amount r"
    "ledger_of e = spec_reserve (bir_player r) b (bir_amount r) (ledger_of d)"
    and o': "\<And>j. j \<noteq> b \<Longrightarrow> idx_find (pending_buy_ins e) j = idx_find (pending_buy_ins d) j"
    using reserve_step [OF assms(1,2)] by blast
  then have d': "pending_buy_ins d' = idx_remove b (pending_buy_ins e)"
    "ledger_of d' = spec_cancel (bir_player r) b (asset_id (bir_amount r)) (ledger_of e)"
    using cancel_step [OF assms(3)] assms(4,5) by auto
  have "spec_cancel a b (asset_id x) (spec_reserve a b x (ledger_of d)) = ledger_of d" for a x
    using ledger_of_values(2) [OF b(1)]
    by (intro ledger_eqI) (auto simp: spec_cancel_def spec_reserve_def pay_def hold_def fun_eq_iff)
  then show ?thesis using b o' d' by (auto simp: fun_eq_iff)
qed

definition sample_reserve :: buy_in_reserve_operation where
  "sample_reserve = \<lparr>bir_fee = core_asset 0, bir_player = 12, bir_uid = ''u'', bir_amount = core_asset 300,
     bir_metadata = ''t'', bir_protocol_version = ''1.2.3''\<rparr>"

definition sample_cancel :: buy_in_reserving_cancel_operation where
  "sample_cancel = \<lparr>brc_fee = core_asset 0, brc_player = 12, brc_uid = ''u''\<rparr>"

definition sample_reserved :: database where
  "sample_reserved = result_of sample_db (sample_apply (Op_buy_in_reserve sample_reserve) sample_db)"

theorem reserve_cancel_roundtrip_witness:
  "amount (get_balance sample_reserved 12 0) = 200 \<and>
   ledger_of (result_of sample_db (sample_apply (Op_buy_in_reserving_cancel sample_cancel) sample_reserved)) =
     ledger_of sample_db"
proof -
  let ?r = "apply_transaction sample_externals [Op_buy_in_reserve sample_reserve] sample_db"
  let ?s = "apply_transaction sample_externals [Op_buy_in_reserving_cancel sample_cancel] sample_reserved"
  have "succeeds ?r" by code_simp
  then have r: "?r = Inr sample_reserved" unfolding sample_reserved_def sample_apply_def by (rule succeedsE)
  have "succeeds ?s" by code_simp
  then have s: "?s = Inr (result_of sample_db ?s)" by (rule succeedsE)
  have "amount (get_balance sample_reserved 12 0) = 200" by code_simp
  with reserve_cancel_roundtrip [OF r sample_db_ok s] show ?thesis
    by (simp add: sample_cancel_def sample_reserve_def sample_apply_def)
qed

text \<open>
  C20: every sequence of buy-ins, buy-outs, reservations, cancellations and resolutions the chain
  accepts is a sequence of transfers of the abstract machine: each pays only what the purse, the seat
  or the reservation holds.
\<close>

theorem cash_operations_refine:
  assumes "efold (cash_step ext) ops d = Inr d'" and "chain_ok d"
  shows "transfer\<^sup>*\<^sup>* (ledger_of d) (ledger_of d')"
  using assms(2,1) by (rule cash.run_spec)

theorem cash_operations_refine_witness:
  "transfer\<^sup>*\<^sup>* (ledger_of sample_db) (ledger_of (result_of sample_db (efold (cash_step sample_externals)
     [Op_buy_in_table (sample_buy_in 11 200), Op_buy_out_table (sample_buy_out 150),
      Op_buy_in_reserve sample_reserve, Op_buy_in_reserving_cancel sample_cancel] sample_db)))"
proof -
  let ?r = "efold (cash_step sample_externals) [Op_buy_in_table (sample_buy_in 11 200),
    Op_buy_out_table (sample_buy_out 150), Op_buy_in_reserve sample_reserve,
    Op_buy_in_reserving_cancel sample_cancel] sample_db"
  have "succeeds ?r" by code_simp
  then have r: "?r = Inr (result_of sample_db ?r)" by (rule succeedsE)
  show ?thesis by (rule cash_operations_refine [OF r sample_chain_ok])
qed

end
