(* ===== verification/Undo_History.thy ===== *)
theory Undo_History
  imports Scenario
begin

text \<open>
  The undo history of the object database (\<^verbatim>\<open>undo_database.cpp\<close>, \<^verbatim>\<open>object_database.cpp\<close>, \<^verbatim>\<open>primary_index\<close>
  of \<^verbatim>\<open>index.hpp\<close>): a stack of undo states, each with the old values, the new ids, the removed objects
  and the old next ids of one session. The results: the history refines a database that copies its whole
  state at the start of every session; a session that is left without commit takes back every change, also
  after an exception, as long as no unique key was taken over by another object in between; and what
  happens when one was: the session cannot be undone, and the process ends.
\<close>

section \<open>Outcomes\<close>

text \<open>
  The history has to work after exceptions, so here an operation that throws also has a state: what it
  left behind when it threw.
\<close>

datatype 's outcome = Returned (outcome_state: 's) | Thrown err (outcome_state: 's)

fun andthen :: "'s outcome \<Rightarrow> ('s \<Rightarrow> 's outcome) \<Rightarrow> 's outcome" where
  "andthen (Returned s) f = f s"
| "andthen (Thrown e s) f = Thrown e s"

fun ofold :: "('x \<Rightarrow> 's \<Rightarrow> 's outcome) \<Rightarrow> 'x list \<Rightarrow> 's \<Rightarrow> 's outcome" where
  "ofold f [] s = Returned s"
| "ofold f (x # xs) s = andthen (f x s) (ofold f xs)"

definition returned :: "'s outcome \<Rightarrow> bool" where
  "returned r \<longleftrightarrow> (case r of Returned s \<Rightarrow> True | Thrown e s \<Rightarrow> False)"

section \<open>The objects\<close>

text \<open>
  An object id is the space and the type of its index and an instance number. The database holds the
  objects of all indexes and for every index its next id; \<open>clash\<close> says when two objects of one index
  share a unique key.
\<close>

datatype index_id = Index_id (space_of: nat) (type_of: nat)

datatype object_id = Object_id (index_of: index_id) (instance_of: nat)

instantiation index_id :: linorder
begin

definition less_eq_index_id :: "index_id \<Rightarrow> index_id \<Rightarrow> bool" where
  "a \<le> b \<longleftrightarrow> (space_of a, type_of a) \<le> (space_of b, type_of b)"

definition less_index_id :: "index_id \<Rightarrow> index_id \<Rightarrow> bool" where
  "a < b \<longleftrightarrow> (space_of a, type_of a) < (space_of b, type_of b)"

instance
  by standard (auto simp: less_eq_index_id_def less_index_id_def less_eq_prod_simp less_prod_simp index_id.expand)

end

instantiation object_id :: linorder
begin

definition less_eq_object_id :: "object_id \<Rightarrow> object_id \<Rightarrow> bool" where
  "a \<le> b \<longleftrightarrow> (index_of a, instance_of a) \<le> (index_of b, instance_of b)"

definition less_object_id :: "object_id \<Rightarrow> object_id \<Rightarrow> bool" where
  "a < b \<longleftrightarrow> (index_of a, instance_of a) < (index_of b, instance_of b)"

instance
  by standard (auto simp: less_eq_object_id_def less_object_id_def less_eq_prod_simp less_prod_simp object_id.expand)

end

record 'a objects =
  values_of :: "(object_id, 'a) flat_map"
  next_ids :: "(index_id, object_id) flat_map"

definition fits :: "('a \<Rightarrow> 'a \<Rightarrow> bool) \<Rightarrow> object_id \<Rightarrow> 'a \<Rightarrow> (object_id, 'a) flat_map \<Rightarrow> bool" where
  "fits clash i x m \<longleftrightarrow> list_all (\<lambda>(j, y). j \<noteq> i \<and> index_of j = index_of i \<longrightarrow> \<not> clash x y) (fm_items m)"

definition generic_insert :: "('a \<Rightarrow> 'a \<Rightarrow> bool) \<Rightarrow> object_id \<Rightarrow> 'a \<Rightarrow> 'a objects \<Rightarrow> 'a objects outcome" where
  "generic_insert clash i x s =
     (if fm_count (values_of s) i \<or> \<not> fits clash i x (values_of s) then Thrown Not_unique s
      else Returned (s\<lparr>values_of := fm_put i x (values_of s)\<rparr>))"

text \<open>\<^verbatim>\<open>create\<close> builds the object, which may throw, inserts it under the next id and then uses the id.\<close>

definition generic_create :: "('a \<Rightarrow> 'a \<Rightarrow> bool) \<Rightarrow> object_id \<Rightarrow> 'a res \<Rightarrow> 'a objects \<Rightarrow> 'a objects outcome" where
  "generic_create clash i constructor s =
     (case constructor of
        Inl e \<Rightarrow> Thrown e s
      | Inr x \<Rightarrow> andthen (generic_insert clash i x s) (\<lambda>s.
          Returned (s\<lparr>next_ids := fm_put (index_of i) (Object_id (index_of i) (Suc (instance_of i))) (next_ids s)\<rparr>)))"

text \<open>
  A modifier gives the value it leaves in the object and the exception it throws, if any, which is thrown
  again behind the modification. A value that takes the unique key of another object makes
  \<^verbatim>\<open>multi_index_container::modify\<close> erase the object.
\<close>

definition generic_modify ::
  "('a \<Rightarrow> 'a \<Rightarrow> bool) \<Rightarrow> object_id \<Rightarrow> 'a \<Rightarrow> err option \<Rightarrow> 'a objects \<Rightarrow> 'a objects outcome" where
  "generic_modify clash i y exc s =
     (let ok = fits clash i y (values_of s);
          s = (if ok then s\<lparr>values_of := fm_put i y (values_of s)\<rparr> else s\<lparr>values_of := fm_erase i (values_of s)\<rparr>)
      in case exc of Some e \<Rightarrow> Thrown e s | None \<Rightarrow> if ok then Returned s else Thrown Not_unique s)"

definition generic_remove :: "object_id \<Rightarrow> 'a objects \<Rightarrow> 'a objects" where
  "generic_remove i s = s\<lparr>values_of := fm_erase i (values_of s)\<rparr>"

definition set_next_id :: "index_id \<Rightarrow> object_id \<Rightarrow> 'a objects \<Rightarrow> 'a objects" where
  "set_next_id k n s = s\<lparr>next_ids := fm_put k n (next_ids s)\<rparr>"

section \<open>The undo states\<close>

record 'a undo_state =
  old_values :: "(object_id, 'a) flat_map"
  old_index_next_ids :: "(index_id, object_id) flat_map"
  new_ids :: "object_id flat_set"
  removed_values :: "(object_id, 'a) flat_map"

definition empty_undo_state :: "'a undo_state" where
  "empty_undo_state =
     \<lparr>old_values = fm_empty, old_index_next_ids = fm_empty, new_ids = fm_empty, removed_values = fm_empty\<rparr>"

definition state_on_create :: "object_id \<Rightarrow> 'a undo_state \<Rightarrow> 'a undo_state" where
  "state_on_create i st =
     (let st = (if fm_count (old_index_next_ids st) (index_of i) then st
                else st\<lparr>old_index_next_ids := fm_put (index_of i) i (old_index_next_ids st)\<rparr>)
      in st\<lparr>new_ids := fs_insert i (new_ids st)\<rparr>)"

definition state_on_modify :: "object_id \<Rightarrow> 'a \<Rightarrow> 'a undo_state \<Rightarrow> 'a undo_state" where
  "state_on_modify i x st =
     (if fm_count (new_ids st) i then st
      else if fm_count (old_values st) i then st
      else st\<lparr>old_values := fm_put i x (old_values st)\<rparr>)"

definition state_on_remove :: "object_id \<Rightarrow> 'a \<Rightarrow> 'a undo_state \<Rightarrow> 'a undo_state" where
  "state_on_remove i x st =
     (if fm_count (new_ids st) i then st\<lparr>new_ids := fm_erase i (new_ids st)\<rparr>
      else case fm_find (old_values st) i of
        Some y \<Rightarrow> st\<lparr>removed_values := fm_put i y (removed_values st), old_values := fm_erase i (old_values st)\<rparr>
      | None \<Rightarrow> if fm_count (removed_values st) i then st
                else st\<lparr>removed_values := fm_put i x (removed_values st)\<rparr>)"

text \<open>
  The stack of the history, the newest state first. Outside of a session the first change opens a state of
  its own.
\<close>

record 'a undo_database =
  stack :: "'a undo_state list"
  active_sessions :: nat
  disabled :: bool
  max_size :: nat

definition with_back :: "('a undo_state \<Rightarrow> 'a undo_state) \<Rightarrow> 'a undo_database \<Rightarrow> 'a undo_database" where
  "with_back f u =
     (if disabled u then u
      else u\<lparr>stack := (case stack u of [] \<Rightarrow> [f empty_undo_state] | st # sts \<Rightarrow> f st # sts)\<rparr>)"

definition on_create :: "object_id \<Rightarrow> 'a undo_database \<Rightarrow> 'a undo_database" where
  "on_create i = with_back (state_on_create i)"

definition on_modify :: "object_id \<Rightarrow> 'a \<Rightarrow> 'a undo_database \<Rightarrow> 'a undo_database" where
  "on_modify i x = with_back (state_on_modify i x)"

definition on_remove :: "object_id \<Rightarrow> 'a \<Rightarrow> 'a undo_database \<Rightarrow> 'a undo_database" where
  "on_remove i x = with_back (state_on_remove i x)"

section \<open>The object database\<close>

text \<open>
  The changes of a primary index: the change of the container and what it tells the history, which is told
  behind a creation and before a modification or a removal. Secondary indexes and observers are left out.
\<close>

record 'a object_database =
  content :: "'a objects"
  undo_db :: "'a undo_database"

definition on_content :: "('a objects \<Rightarrow> 'a objects outcome) \<Rightarrow> 'a object_database \<Rightarrow> 'a object_database outcome" where
  "on_content f db = map_outcome (\<lambda>s. db\<lparr>content := s\<rparr>) (f (content db))"

definition primary_create ::
  "('a \<Rightarrow> 'a \<Rightarrow> bool) \<Rightarrow> index_id \<Rightarrow> 'a res \<Rightarrow> 'a object_database \<Rightarrow> 'a object_database outcome" where
  "primary_create clash k constructor db =
     (case fm_find (next_ids (content db)) k of
        None \<Rightarrow> Thrown Not_found db
      | Some i \<Rightarrow> andthen (on_content (generic_create clash i constructor) db) (\<lambda>db.
          Returned (db\<lparr>undo_db := on_create i (undo_db db)\<rparr>)))"

definition primary_insert ::
  "('a \<Rightarrow> 'a \<Rightarrow> bool) \<Rightarrow> object_id \<Rightarrow> 'a \<Rightarrow> 'a object_database \<Rightarrow> 'a object_database outcome" where
  "primary_insert clash i x db =
     (if \<not> fm_count (next_ids (content db)) (index_of i) then Thrown Not_found db
      else andthen (on_content (generic_insert clash i x) db) (\<lambda>db.
        Returned (db\<lparr>undo_db := on_create i (undo_db db)\<rparr>)))"

definition primary_modify ::
  "('a \<Rightarrow> 'a \<Rightarrow> bool) \<Rightarrow> object_id \<Rightarrow> ('a \<Rightarrow> 'a \<times> err option) \<Rightarrow> 'a object_database \<Rightarrow> 'a object_database outcome" where
  "primary_modify clash i f db =
     (case fm_find (values_of (content db)) i of
        None \<Rightarrow> Thrown Not_found db
      | Some x \<Rightarrow>
          on_content (generic_modify clash i (fst (f x)) (snd (f x))) (db\<lparr>undo_db := on_modify i x (undo_db db)\<rparr>))"

definition primary_remove :: "object_id \<Rightarrow> 'a object_database \<Rightarrow> 'a object_database outcome" where
  "primary_remove i db =
     (case fm_find (values_of (content db)) i of
        None \<Rightarrow> Thrown Not_found db
      | Some x \<Rightarrow> Returned \<lparr>content = generic_remove i (content db), undo_db = on_remove i x (undo_db db)\<rparr>)"

definition primary_set_next_id :: "index_id \<Rightarrow> object_id \<Rightarrow> 'a object_database \<Rightarrow> 'a object_database outcome" where
  "primary_set_next_id k n db =
     (if \<not> fm_count (next_ids (content db)) k then Thrown Not_found db
      else Returned (db\<lparr>content := set_next_id k n (content db)\<rparr>))"

section \<open>Sessions\<close>

text \<open>
  What \<^verbatim>\<open>undo\<close> and \<^verbatim>\<open>pop_commit\<close> do with the newest state: the old values are put back, the new objects
  removed, the next ids set back, the removed objects inserted. The containers are unordered; the order
  of the ids here is one of those they can have.
\<close>

definition restore :: "('a \<Rightarrow> 'a \<Rightarrow> bool) \<Rightarrow> 'a undo_state \<Rightarrow> 'a object_database \<Rightarrow> 'a object_database outcome" where
  "restore clash st db =
     andthen (ofold (\<lambda>(i, x). primary_modify clash i (\<lambda>_. (x, None))) (fm_items (old_values st)) db) (\<lambda>db.
     andthen (ofold primary_remove (fs_items (new_ids st)) db) (\<lambda>db.
     andthen (ofold (\<lambda>(k, n). primary_set_next_id k n) (fm_items (old_index_next_ids st)) db)
       (ofold (\<lambda>(i, x). primary_insert clash i x) (fm_items (removed_values st)))))"

definition set_disabled :: "bool \<Rightarrow> 'a object_database \<Rightarrow> 'a object_database" where
  "set_disabled b db = db\<lparr>undo_db := (undo_db db)\<lparr>disabled := b\<rparr>\<rparr>"

definition pop_back :: "'a undo_database \<Rightarrow> 'a undo_database" where
  "pop_back u = u\<lparr>stack := tl (stack u)\<rparr>"

definition undo :: "('a \<Rightarrow> 'a \<Rightarrow> bool) \<Rightarrow> 'a object_database \<Rightarrow> 'a object_database outcome" where
  "undo clash db =
     (if disabled (undo_db db) then Thrown (Assert ''!_disabled'') db
      else if active_sessions (undo_db db) = 0 then Thrown (Assert ''_active_sessions > 0'') db
      else case stack (undo_db db) of
        [] \<Rightarrow> Thrown Null_deref db
      | st # sts \<Rightarrow> andthen (restore clash st (set_disabled True db)) (\<lambda>db.
          let db = set_disabled False (db\<lparr>undo_db := pop_back (undo_db db)\<rparr>)
          in Returned (db\<lparr>undo_db := (undo_db db)\<lparr>active_sessions := active_sessions (undo_db db) - 1\<rparr>\<rparr>)))"

text \<open>\<^verbatim>\<open>pop_commit\<close> enables the history again also when the restoration throws.\<close>

definition pop_commit :: "('a \<Rightarrow> 'a \<Rightarrow> bool) \<Rightarrow> 'a object_database \<Rightarrow> 'a object_database outcome" where
  "pop_commit clash db =
     (if active_sessions (undo_db db) \<noteq> 0 then Thrown (Assert ''_active_sessions == 0'') db
      else case stack (undo_db db) of
        [] \<Rightarrow> Thrown (Assert ''!_stack.empty()'') db
      | st # sts \<Rightarrow> map_outcome (set_disabled False) (andthen (restore clash st (set_disabled True db)) (\<lambda>db.
          Returned (db\<lparr>undo_db := pop_back (undo_db db)\<rparr>))))"

text \<open>
  The composition of the two newest states, in the order of the code: updates, new objects, next ids,
  removals. The \<^verbatim>\<open>assert\<close>s, which only exist in debug builds, are left out.
\<close>

definition merge_updated :: "object_id \<times> 'a \<Rightarrow> 'a undo_state \<Rightarrow> 'a undo_state" where
  "merge_updated e prev =
     (case e of (i, x) \<Rightarrow>
        if fm_count (new_ids prev) i then prev
        else if fm_count (old_values prev) i then prev
        else prev\<lparr>old_values := fm_put i x (old_values prev)\<rparr>)"

definition merge_next_id :: "index_id \<times> object_id \<Rightarrow> 'a undo_state \<Rightarrow> 'a undo_state" where
  "merge_next_id e prev =
     (case e of (k, n) \<Rightarrow>
        if \<not> fm_count (old_index_next_ids prev) k
        then prev\<lparr>old_index_next_ids := fm_put k n (old_index_next_ids prev)\<rparr> else prev)"

definition merge_removed :: "object_id \<times> 'a \<Rightarrow> 'a undo_state \<Rightarrow> 'a undo_state" where
  "merge_removed e prev =
     (case e of (i, y) \<Rightarrow>
        if fm_count (new_ids prev) i then prev\<lparr>new_ids := fm_erase i (new_ids prev)\<rparr>
        else case fm_find (old_values prev) i of
          Some x \<Rightarrow> prev\<lparr>removed_values := fm_put i x (removed_values prev), old_values := fm_erase i (old_values prev)\<rparr>
        | None \<Rightarrow> prev\<lparr>removed_values := fm_put i y (removed_values prev)\<rparr>)"

definition merge_states :: "'a undo_state \<Rightarrow> 'a undo_state \<Rightarrow> 'a undo_state" where
  "merge_states st prev =
     (let prev = fold merge_updated (fm_items (old_values st)) prev;
          prev = prev\<lparr>new_ids := fold fs_insert (fs_items (new_ids st)) (new_ids prev)\<rparr>;
          prev = fold merge_next_id (fm_items (old_index_next_ids st)) prev
      in fold merge_removed (fm_items (removed_values st)) prev)"

definition undo_merge :: "'a undo_database \<Rightarrow> 'a undo_database outcome" where
  "undo_merge u =
     (if active_sessions u = 0 then Thrown (Assert ''_active_sessions > 0'') u
      else if active_sessions u = 1 \<and> length (stack u) = 1
      then Returned (u\<lparr>stack := tl (stack u), active_sessions := active_sessions u - 1\<rparr>)
      else case stack u of
        st # prev # sts \<Rightarrow> Returned (u\<lparr>stack := merge_states st prev # sts, active_sessions := active_sessions u - 1\<rparr>)
      | _ \<Rightarrow> Thrown (Assert ''_stack.size() >= 2'') u)"

definition undo_commit :: "'a undo_database \<Rightarrow> 'a undo_database outcome" where
  "undo_commit u =
     (if active_sessions u = 0 then Thrown (Assert ''_active_sessions > 0'') u
      else Returned (u\<lparr>active_sessions := active_sessions u - 1\<rparr>))"

text \<open>A session remembers whether it still has to undo and whether the history was only enabled for it.\<close>

record session =
  apply_undo :: bool
  disable_on_exit :: bool

definition start_undo_session :: "bool \<Rightarrow> 'a undo_database \<Rightarrow> session \<times> 'a undo_database" where
  "start_undo_session force_enable u =
     (if disabled u \<and> \<not> force_enable then (\<lparr>apply_undo = True, disable_on_exit = False\<rparr>, u)
      else (\<lparr>apply_undo = True, disable_on_exit = disabled u \<and> force_enable\<rparr>,
        u\<lparr>disabled := (if force_enable then False else disabled u), stack := empty_undo_state # take (max_size u) (stack u),
          active_sessions := Suc (active_sessions u)\<rparr>))"

definition on_history :: "('a undo_database \<Rightarrow> 'a undo_database outcome) \<Rightarrow> 'a object_database \<Rightarrow> 'a object_database outcome" where
  "on_history f db = map_outcome (\<lambda>u. db\<lparr>undo_db := u\<rparr>) (f (undo_db db))"

definition session_commit :: "session \<times> 'a object_database \<Rightarrow> (session \<times> 'a object_database) outcome" where
  "session_commit sd = (case sd of (s, db) \<Rightarrow> map_outcome (Pair (s\<lparr>apply_undo := False\<rparr>)) (on_history undo_commit db))"

definition session_undo ::
  "('a \<Rightarrow> 'a \<Rightarrow> bool) \<Rightarrow> session \<times> 'a object_database \<Rightarrow> (session \<times> 'a object_database) outcome" where
  "session_undo clash sd =
     (case sd of (s, db) \<Rightarrow>
        if apply_undo s then andthen (map_outcome (Pair s) (undo clash db)) (\<lambda>(s, db). Returned (s\<lparr>apply_undo := False\<rparr>, db))
        else Returned (s, db))"

definition session_merge :: "session \<times> 'a object_database \<Rightarrow> (session \<times> 'a object_database) outcome" where
  "session_merge sd =
     (case sd of (s, db) \<Rightarrow>
        if apply_undo s
        then andthen (map_outcome (Pair s) (on_history undo_merge db)) (\<lambda>(s, db). Returned (s\<lparr>apply_undo := False\<rparr>, db))
        else Returned (s, db))"

text \<open>
  The destructor: a session that was neither committed nor merged is undone. An exception in it ends the
  process (\<^verbatim>\<open>std::terminate\<close>), which is the result \<open>None\<close>.
\<close>

definition session_end :: "('a \<Rightarrow> 'a \<Rightarrow> bool) \<Rightarrow> session \<times> 'a object_database \<Rightarrow> 'a object_database option" where
  "session_end clash sd =
     (case sd of (s, db) \<Rightarrow>
        case (if apply_undo s then undo clash db else Returned db) of
          Thrown e db \<Rightarrow> None
        | Returned db \<Rightarrow> Some (if disable_on_exit s then set_disabled True db else db))"

section \<open>What a state knows\<close>

text \<open>
  A state tracks the way from the objects before to the objects after it: of every object it knows whether
  it is new, was changed and from what, was removed and what it was, or is as before.
\<close>

definition tracks_at :: "unit option \<Rightarrow> 'a option \<Rightarrow> 'a option \<Rightarrow> 'a option \<Rightarrow> 'a option \<Rightarrow> bool" where
  "tracks_at new old gone before after \<longleftrightarrow>
     (new \<noteq> None \<longrightarrow> before = None \<and> after \<noteq> None) \<and>
     (old \<noteq> None \<longrightarrow> before = old \<and> after \<noteq> None) \<and>
     (gone \<noteq> None \<longrightarrow> before = gone \<and> after = None) \<and>
     (new = None \<longrightarrow> old = None \<longrightarrow> gone = None \<longrightarrow> after = before)"

definition tracks_object :: "'a undo_state \<Rightarrow> 'a objects \<Rightarrow> 'a objects \<Rightarrow> object_id \<Rightarrow> bool" where
  "tracks_object st b c i \<longleftrightarrow>
     tracks_at (fm_find (new_ids st) i) (fm_find (old_values st) i) (fm_find (removed_values st) i)
       (fm_find (values_of b) i) (fm_find (values_of c) i)"

text \<open>The next ids only grow, an index keeps having one, and new objects are numbered from the old one on.\<close>

fun next_at :: "object_id option \<Rightarrow> object_id option \<Rightarrow> object_id option \<Rightarrow> bool" where
  "next_at old (Some n) (Some m) \<longleftrightarrow> instance_of n \<le> instance_of m \<and> (case old of Some k \<Rightarrow> n = k | None \<Rightarrow> n = m)"
| "next_at old None None \<longleftrightarrow> old = None"
| "next_at old _ _ \<longleftrightarrow> False"

definition tracks :: "'a undo_state \<Rightarrow> 'a objects \<Rightarrow> 'a objects \<Rightarrow> bool" where
  "tracks st b c \<longleftrightarrow>
     (\<forall>i. tracks_object st b c i) \<and>
     (\<forall>k. next_at (fm_find (old_index_next_ids st) k) (fm_find (next_ids b) k) (fm_find (next_ids c) k)) \<and>
     (\<forall>i. fm_find (new_ids st) i \<noteq> None \<longrightarrow> (\<exists>n. fm_find (next_ids b) (index_of i) = Some n \<and> instance_of n \<le> instance_of i))"

definition objects_ok :: "'a objects \<Rightarrow> bool" where
  "objects_ok s \<longleftrightarrow>
     (\<forall>k n. fm_find (next_ids s) k = Some n \<longrightarrow> index_of n = k) \<and>
     (\<forall>i. fm_find (values_of s) i \<noteq> None \<longrightarrow> (\<exists>n. fm_find (next_ids s) (index_of i) = Some n \<and> instance_of i < instance_of n))"

lemma tracksI:
  assumes "\<And>i. tracks_object st b c i"
    and "\<And>k. next_at (fm_find (old_index_next_ids st) k) (fm_find (next_ids b) k) (fm_find (next_ids c) k)"
    and "\<And>i. fm_find (new_ids st) i \<noteq> None \<Longrightarrow> \<exists>n. fm_find (next_ids b) (index_of i) = Some n \<and> instance_of n \<le> instance_of i"
  shows "tracks st b c"
  using assms unfolding tracks_def by blast

lemma tracksD:
  assumes "tracks st b c"
  shows tracks_objectD: "tracks_object st b c i"
    and tracks_nextD: "next_at (fm_find (old_index_next_ids st) k) (fm_find (next_ids b) k) (fm_find (next_ids c) k)"
    and tracks_freshD: "fm_find (new_ids st) i \<noteq> None \<Longrightarrow> \<exists>n. fm_find (next_ids b) (index_of i) = Some n \<and> instance_of n \<le> instance_of i"
  using assms unfolding tracks_def by blast+

lemma next_at_refl: "next_at None n n"
  by (cases n) auto

lemma tracks_start: "tracks empty_undo_state s s"
  by (simp add: tracks_def tracks_object_def tracks_at_def empty_undo_state_def next_at_refl)

lemma objects_ok_nextD: "objects_ok s \<Longrightarrow> fm_find (next_ids s) k = Some n \<Longrightarrow> index_of n = k"
  unfolding objects_ok_def by blast

lemma not_yet: "objects_ok b \<Longrightarrow> fm_find (next_ids b) (index_of i) = Some n \<Longrightarrow> instance_of n \<le> instance_of i \<Longrightarrow> fm_find (values_of b) i = None"
  unfolding objects_ok_def by fastforce

lemma find_fs: "fm_find (s :: 'k::linorder flat_set) i \<noteq> None \<longleftrightarrow> i \<in> fm_keys s"
  by (simp add: fm_find_None_iff)

lemma fm_keys_find_iff: "i \<in> fm_keys m \<longleftrightarrow> fm_find m i \<noteq> None"
  by (simp add: fm_find_None_iff)

lemma tracks_create:
  assumes t: "tracks st b c" and ok: "objects_ok b" "objects_ok c" and n: "fm_find (next_ids c) k = Some i"
  shows "tracks (state_on_create i st) b
    (c\<lparr>values_of := fm_put i x (values_of c), next_ids := fm_put (index_of i) (Object_id (index_of i) (Suc (instance_of i))) (next_ids c)\<rparr>)"
proof -
  have k: "index_of i = k" by (rule objects_ok_nextD [OF ok(2) n])
  obtain m where m: "fm_find (next_ids b) k = Some m" and le: "instance_of m \<le> instance_of i"
    and old: "case fm_find (old_index_next_ids st) k of Some j \<Rightarrow> m = j | None \<Rightarrow> m = i"
    using tracks_nextD [OF t, of k] n by (cases "fm_find (next_ids b) k") auto
  have fresh: "fm_find (values_of b) i = None" by (rule not_yet [OF ok(1) _ le]) (simp add: k m)
  show ?thesis
  proof (rule tracksI)
    fix j show "tracks_object (state_on_create i st) b
      (c\<lparr>values_of := fm_put i x (values_of c), next_ids := fm_put (index_of i) (Object_id (index_of i) (Suc (instance_of i))) (next_ids c)\<rparr>) j"
      using tracks_objectD [OF t, of j] fresh
      by (auto simp: tracks_object_def tracks_at_def state_on_create_def Let_def)
    show "next_at (fm_find (old_index_next_ids (state_on_create i st)) l) (fm_find (next_ids b) l)
      (fm_find (next_ids (c\<lparr>values_of := fm_put i x (values_of c), next_ids := fm_put (index_of i) (Object_id (index_of i) (Suc (instance_of i))) (next_ids c)\<rparr>)) l)" for l
      using tracks_nextD [OF t, of l] old m le k
      by (cases "l = k"; cases "fm_find (old_index_next_ids st) k")
        (simp_all add: state_on_create_def Let_def fm_keys_find_iff)
    show "\<exists>n. fm_find (next_ids b) (index_of j) = Some n \<and> instance_of n \<le> instance_of j" if "fm_find (new_ids (state_on_create i st)) j \<noteq> None"
    proof (cases "j = i")
      case False
      then show ?thesis using tracks_freshD [OF t, of j] that by (simp add: state_on_create_def Let_def split: if_splits)
    qed (use m le k in blast)
  qed
qed

lemma tracks_modify:
  assumes t: "tracks st b c" and x: "fm_find (values_of c) i = Some x"
  shows "tracks (state_on_modify i x st) b (c\<lparr>values_of := fm_put i y (values_of c)\<rparr>)"
proof (rule tracksI)
  show "tracks_object (state_on_modify i x st) b (c\<lparr>values_of := fm_put i y (values_of c)\<rparr>) j" for j
    using tracks_objectD [OF t, of j] x
    by (auto simp: tracks_object_def tracks_at_def state_on_modify_def fm_keys_find_iff)
  show "\<exists>n. fm_find (next_ids b) (index_of j) = Some n \<and> instance_of n \<le> instance_of j" if "fm_find (new_ids (state_on_modify i x st)) j \<noteq> None" for j
    using tracks_freshD [OF t, of j] that by (simp add: state_on_modify_def split: if_splits)
qed (use tracks_nextD [OF t] in \<open>simp add: state_on_modify_def\<close>)

lemma tracks_remove:
  assumes t: "tracks st b c" and x: "fm_find (values_of c) i = Some x"
  shows "tracks (state_on_remove i x st) b (c\<lparr>values_of := fm_erase i (values_of c)\<rparr>)"
proof (rule tracksI)
  show "tracks_object (state_on_remove i x st) b (c\<lparr>values_of := fm_erase i (values_of c)\<rparr>) j" for j
    using tracks_objectD [OF t, of j] x
    by (auto simp: tracks_object_def tracks_at_def state_on_remove_def fm_keys_find_iff split: option.splits)
  show "\<exists>n. fm_find (next_ids b) (index_of j) = Some n \<and> instance_of n \<le> instance_of j" if "fm_find (new_ids (state_on_remove i x st)) j \<noteq> None" for j
    using tracks_freshD [OF t, of j] that by (simp add: state_on_remove_def split: if_splits option.splits)
qed (use tracks_nextD [OF t] in \<open>simp add: state_on_remove_def split: option.splits\<close>)

section \<open>The composition of states\<close>

text \<open>Each loop of the merge, object by object.\<close>

lemma merge_updated_loop:
  "new_ids (fold merge_updated xs p) = new_ids p \<and> old_index_next_ids (fold merge_updated xs p) = old_index_next_ids p \<and>
   removed_values (fold merge_updated xs p) = removed_values p \<and>
   fm_find (old_values (fold merge_updated xs p)) i =
     (case fm_find (old_values p) i of Some x \<Rightarrow> Some x | None \<Rightarrow> if i \<in> fm_keys (new_ids p) then None else map_of xs i)"
proof (induction xs arbitrary: p)
  case (Cons e xs)
  obtain j x where e: "e = (j, x)" by (cases e)
  then show ?case using Cons.IH [of "merge_updated e p"]
    by (auto simp: merge_updated_def fm_keys_find_iff split: option.splits)
qed (simp split: option.split)

lemma merge_next_id_loop:
  "new_ids (fold merge_next_id xs p) = new_ids p \<and> old_values (fold merge_next_id xs p) = old_values p \<and>
   removed_values (fold merge_next_id xs p) = removed_values p \<and>
   fm_find (old_index_next_ids (fold merge_next_id xs p)) k =
     (case fm_find (old_index_next_ids p) k of Some n \<Rightarrow> Some n | None \<Rightarrow> map_of xs k)"
proof (induction xs arbitrary: p)
  case (Cons e xs)
  obtain j x where e: "e = (j, x)" by (cases e)
  then show ?case using Cons.IH [of "merge_next_id e p"]
    by (auto simp: merge_next_id_def fm_keys_find_iff split: option.splits)
qed (simp split: option.split)

lemma merge_removed_loop:
  assumes "distinct (map fst xs)"
  shows "old_index_next_ids (fold merge_removed xs p) = old_index_next_ids p \<and>
   fm_find (new_ids (fold merge_removed xs p)) i = (if i \<in> fst ` set xs then None else fm_find (new_ids p) i) \<and>
   fm_find (old_values (fold merge_removed xs p)) i =
     (if i \<in> fst ` set xs \<and> fm_find (new_ids p) i = None then None else fm_find (old_values p) i) \<and>
   fm_find (removed_values (fold merge_removed xs p)) i =
     (case map_of xs i of
        None \<Rightarrow> fm_find (removed_values p) i
      | Some y \<Rightarrow> if fm_find (new_ids p) i \<noteq> None then fm_find (removed_values p) i
          else case fm_find (old_values p) i of Some x \<Rightarrow> Some x | None \<Rightarrow> Some y)"
  using assms
proof (induction xs arbitrary: p)
  case (Cons e xs)
  obtain j x where e: "e = (j, x)" by (cases e)
  have "map_of xs j = None" using Cons.prems by (simp add: e map_of_eq_None_iff)
  then show ?case using Cons.IH [of "merge_removed e p"] Cons.prems
    by (auto simp: e merge_removed_def fm_keys_find_iff split: option.splits)
qed simp

lemma map_of_items: "map_of (fm_items m) = fm_find m"
  by (rule ext) (simp add: fm_find.rep_eq)

lemma items_find: "i \<in> fst ` set (fm_items m) \<longleftrightarrow> fm_find m i \<noteq> None"
  using set_items_keys [of m] by (simp add: fm_keys_find_iff)

lemma find_fold_insert: "fm_find (fold fs_insert xs s) i = (if i \<in> set xs then Some () else fm_find s i)"
  by (induction xs arbitrary: s) auto

text \<open>The composed state, object by object: the matrix of the comment in the code.\<close>

lemma merge_states_at:
  "fm_find (new_ids (merge_states st p)) i =
     (if fm_find (removed_values st) i \<noteq> None then None
      else if fm_find (new_ids st) i \<noteq> None then Some () else fm_find (new_ids p) i)"
  "fm_find (old_values (merge_states st p)) i =
     (if fm_find (removed_values st) i \<noteq> None \<and> fm_find (new_ids p) i = None \<and> fm_find (new_ids st) i = None then None
      else case fm_find (old_values p) i of Some x \<Rightarrow> Some x
        | None \<Rightarrow> if fm_find (new_ids p) i \<noteq> None then None else fm_find (old_values st) i)"
  "fm_find (removed_values (merge_states st p)) i =
     (case fm_find (removed_values st) i of
        None \<Rightarrow> fm_find (removed_values p) i
      | Some y \<Rightarrow> if fm_find (new_ids p) i \<noteq> None \<or> fm_find (new_ids st) i \<noteq> None then fm_find (removed_values p) i
          else case fm_find (old_values p) i of Some x \<Rightarrow> Some x
            | None \<Rightarrow> (case fm_find (old_values st) i of Some x \<Rightarrow> Some x | None \<Rightarrow> Some y))"
  "fm_find (old_index_next_ids (merge_states st p)) k =
     (case fm_find (old_index_next_ids p) k of Some n \<Rightarrow> Some n | None \<Rightarrow> fm_find (old_index_next_ids st) k)"
proof -
  define p1 where "p1 = fold merge_updated (fm_items (old_values st)) p"
  define p2 where "p2 = p1\<lparr>new_ids := fold fs_insert (fs_items (new_ids st)) (new_ids p1)\<rparr>"
  define p3 where "p3 = fold merge_next_id (fm_items (old_index_next_ids st)) p2"
  have m: "merge_states st p = fold merge_removed (fm_items (removed_values st)) p3"
    by (simp add: merge_states_def p1_def p2_def p3_def Let_def)
  have new: "fm_find (new_ids p3) i = (if fm_find (new_ids st) i \<noteq> None then Some () else fm_find (new_ids p) i)"
    using merge_next_id_loop [of "fm_items (old_index_next_ids st)" p2] merge_updated_loop [of "fm_items (old_values st)" p]
    by (simp add: p1_def p2_def p3_def find_fold_insert fm_keys_find_iff)
  have old: "fm_find (old_values p3) i = (case fm_find (old_values p) i of Some x \<Rightarrow> Some x
      | None \<Rightarrow> if fm_find (new_ids p) i \<noteq> None then None else fm_find (old_values st) i)"
    using merge_next_id_loop [of "fm_items (old_index_next_ids st)" p2] merge_updated_loop [of "fm_items (old_values st)" p i, unfolded map_of_items fm_keys_find_iff]
    by (simp add: p1_def p2_def p3_def)
  have gone: "removed_values p3 = removed_values p"
    using merge_next_id_loop [of "fm_items (old_index_next_ids st)" p2] merge_updated_loop [of "fm_items (old_values st)" p]
    by (simp add: p1_def p2_def p3_def)
  have nxt: "fm_find (old_index_next_ids p3) k =
      (case fm_find (old_index_next_ids p) k of Some n \<Rightarrow> Some n | None \<Rightarrow> fm_find (old_index_next_ids st) k)"
    using merge_next_id_loop [of "fm_items (old_index_next_ids st)" p2 k, unfolded map_of_items]
      merge_updated_loop [of "fm_items (old_values st)" p]
    by (simp add: p1_def p2_def p3_def)
  note loop = merge_removed_loop [OF fm_items_distinct [of "removed_values st"], of p3, unfolded items_find map_of_items]
  show "fm_find (new_ids (merge_states st p)) i =
     (if fm_find (removed_values st) i \<noteq> None then None
      else if fm_find (new_ids st) i \<noteq> None then Some () else fm_find (new_ids p) i)"
    using loop [of i] new unfolding m by simp
  show "fm_find (old_values (merge_states st p)) i =
     (if fm_find (removed_values st) i \<noteq> None \<and> fm_find (new_ids p) i = None \<and> fm_find (new_ids st) i = None then None
      else case fm_find (old_values p) i of Some x \<Rightarrow> Some x
        | None \<Rightarrow> if fm_find (new_ids p) i \<noteq> None then None else fm_find (old_values st) i)"
    using loop [of i] new old unfolding m by auto
  show "fm_find (removed_values (merge_states st p)) i =
     (case fm_find (removed_values st) i of
        None \<Rightarrow> fm_find (removed_values p) i
      | Some y \<Rightarrow> if fm_find (new_ids p) i \<noteq> None \<or> fm_find (new_ids st) i \<noteq> None then fm_find (removed_values p) i
          else case fm_find (old_values p) i of Some x \<Rightarrow> Some x
            | None \<Rightarrow> (case fm_find (old_values st) i of Some x \<Rightarrow> Some x | None \<Rightarrow> Some y))"
    using loop [of i] new old gone unfolding m by (auto split: option.splits)
  show "fm_find (old_index_next_ids (merge_states st p)) k =
     (case fm_find (old_index_next_ids p) k of Some n \<Rightarrow> Some n | None \<Rightarrow> fm_find (old_index_next_ids st) k)"
    using loop [of i] nxt unfolding m by simp
qed

lemma next_at_trans: "next_at o1 a b \<Longrightarrow> next_at o2 b c \<Longrightarrow> next_at (case o1 of Some n \<Rightarrow> Some n | None \<Rightarrow> o2) a c"
  by (cases a; cases b; cases c; cases o1; cases o2) auto

text \<open>
  Two states that track two ways one after the other compose to one that tracks the whole way: an id that
  is new in the second state never existed before, because the next ids grow.
\<close>

lemma tracks_merge:
  assumes p: "tracks p b m" and st: "tracks st m c" and ok: "objects_ok b"
  shows "tracks (merge_states st p) b c"
proof (rule tracksI)
  show "tracks_object (merge_states st p) b c i" for i
  proof -
    have fresh: "fm_find (values_of b) i = None" if new: "fm_find (new_ids st) i \<noteq> None"
    proof -
      obtain n where n: "fm_find (next_ids m) (index_of i) = Some n" "instance_of n \<le> instance_of i" using tracks_freshD [OF st new] by blast
      obtain l where l: "fm_find (next_ids b) (index_of i) = Some l" "instance_of l \<le> instance_of n"
        using tracks_nextD [OF p, of "index_of i"] n(1) by (cases "fm_find (next_ids b) (index_of i)") auto
      show ?thesis by (rule not_yet [OF ok l(1)]) (use l(2) n(2) in linarith)
    qed
    show ?thesis
      using tracks_objectD [OF p, of i] tracks_objectD [OF st, of i] fresh
      unfolding tracks_object_def tracks_at_def merge_states_at
      by (cases "fm_find (new_ids st) i"; cases "fm_find (new_ids p) i"; cases "fm_find (removed_values st) i";
          cases "fm_find (old_values p) i"; cases "fm_find (old_values st) i") (auto split: option.splits)
  qed
  show "next_at (fm_find (old_index_next_ids (merge_states st p)) k) (fm_find (next_ids b) k) (fm_find (next_ids c) k)" for k
    unfolding merge_states_at by (rule next_at_trans [OF tracks_nextD [OF p] tracks_nextD [OF st]])
  show "\<exists>n. fm_find (next_ids b) (index_of i) = Some n \<and> instance_of n \<le> instance_of i" if "fm_find (new_ids (merge_states st p)) i \<noteq> None" for i
  proof (cases "fm_find (new_ids p) i \<noteq> None")
    case False
    then have "fm_find (new_ids st) i \<noteq> None" using that by (auto simp: merge_states_at split: if_splits)
    then obtain n where n: "fm_find (next_ids m) (index_of i) = Some n" "instance_of n \<le> instance_of i" using tracks_freshD [OF st] by blast
    then show ?thesis using tracks_nextD [OF p, of "index_of i"] by (cases "fm_find (next_ids b) (index_of i)") auto
  qed (rule tracks_freshD [OF p])
qed

section \<open>The restoration\<close>

text \<open>
  While a state is taken back, objects have their values from before or from after. No unique key was
  taken over when the value of an object from before clashes with no value of another object, neither
  from before nor from after.
\<close>

definition mixed :: "'a objects \<Rightarrow> 'a objects \<Rightarrow> (object_id, 'a) flat_map \<Rightarrow> bool" where
  "mixed b c v \<longleftrightarrow> (\<forall>j y. fm_find v j = Some y \<longrightarrow> fm_find (values_of b) j = Some y \<or> fm_find (values_of c) j = Some y)"

definition compatible :: "('a \<Rightarrow> 'a \<Rightarrow> bool) \<Rightarrow> 'a objects \<Rightarrow> 'a objects \<Rightarrow> bool" where
  "compatible clash b c \<longleftrightarrow>
     list_all (\<lambda>(i, x). fits clash i x (values_of b) \<and> fits clash i x (values_of c)) (fm_items (values_of b))"

lemma fits_iff: "fits clash i x m \<longleftrightarrow> (\<forall>j y. fm_find m j = Some y \<longrightarrow> j \<noteq> i \<longrightarrow> index_of j = index_of i \<longrightarrow> \<not> clash x y)"
  by (auto simp: fits_def list_all_iff fm_find_items)

lemma compatibleD:
  "compatible clash b c \<Longrightarrow> fm_find (values_of b) i = Some x \<Longrightarrow> fits clash i x (values_of b) \<and> fits clash i x (values_of c)"
  by (auto simp: compatible_def list_all_iff fm_find_items)

lemma mixed_fits: "compatible clash b c \<Longrightarrow> mixed b c v \<Longrightarrow> fm_find (values_of b) i = Some x \<Longrightarrow> fits clash i x v"
  using compatibleD [of clash b c i x] unfolding fits_iff mixed_def by blast

lemma mixed_put: "mixed b c v \<Longrightarrow> fm_find (values_of b) i = Some x \<Longrightarrow> mixed b c (fm_put i x v)"
  by (auto simp: mixed_def)

lemma mixed_erase: "mixed b c v \<Longrightarrow> mixed b c (fm_erase i v)"
  by (auto simp: mixed_def)

lemma hooks_disabled [simp]:
  "disabled u \<Longrightarrow> on_create i u = u" "disabled u \<Longrightarrow> on_modify i x u = u" "disabled u \<Longrightarrow> on_remove i x u = u"
  by (simp_all add: on_create_def on_modify_def on_remove_def with_back_def)

abbreviation with_values :: "'a object_database \<Rightarrow> (object_id, 'a) flat_map \<Rightarrow> 'a object_database" where
  "with_values db v \<equiv> db\<lparr>content := (content db)\<lparr>values_of := v\<rparr>\<rparr>"

lemma restore_updates:
  assumes "disabled (undo_db db)" and "compatible clash b c" and "mixed b c (values_of (content db))"
    and "\<And>i x. (i, x) \<in> set xs \<Longrightarrow> fm_find (values_of b) i = Some x \<and> fm_find (values_of (content db)) i \<noteq> None"
  shows "\<exists>v. ofold (\<lambda>(i, x). primary_modify clash i (\<lambda>_. (x, None))) xs db = Returned (with_values db v) \<and> mixed b c v \<and>
     (\<forall>j. fm_find v j = (if j \<in> fst ` set xs then fm_find (values_of b) j else fm_find (values_of (content db)) j))"
  using assms
proof (induction xs arbitrary: db)
  case (Cons e xs)
  obtain i x where e: "e = (i, x)" by (cases e)
  let ?v = "fm_put i x (values_of (content db))"
  have bx: "fm_find (values_of b) i = Some x" and there: "fm_find (values_of (content db)) i \<noteq> None"
    using Cons.prems(4) [of i x] by (simp_all add: e)
  have fit: "fits clash i x (values_of (content db))" by (rule mixed_fits [OF Cons.prems(2,3) bx])
  have step: "primary_modify clash i (\<lambda>_. (x, None)) db = Returned (with_values db ?v)"
    using there Cons.prems(1) fit by (auto simp: primary_modify_def on_content_def generic_modify_def Let_def)
  have "\<exists>v. ofold (\<lambda>(i, x). primary_modify clash i (\<lambda>_. (x, None))) xs (with_values db ?v) =
      Returned (with_values (with_values db ?v) v) \<and> mixed b c v \<and>
     (\<forall>j. fm_find v j = (if j \<in> fst ` set xs then fm_find (values_of b) j else fm_find (values_of (content (with_values db ?v))) j))"
    by (rule Cons.IH) (use Cons.prems(1,2) mixed_put [OF Cons.prems(3) bx] Cons.prems(4) in \<open>auto simp: e\<close>)
  then obtain v where v: "ofold (\<lambda>(i, x). primary_modify clash i (\<lambda>_. (x, None))) xs (with_values db ?v) =
      Returned (with_values (with_values db ?v) v)" "mixed b c v"
    "\<And>j. fm_find v j = (if j \<in> fst ` set xs then fm_find (values_of b) j else fm_find ?v j)" by auto
  show ?case by (rule exI [of _ v]) (use v bx step in \<open>simp add: e\<close>)
qed (auto intro!: exI)

lemma restore_new:
  assumes "disabled (undo_db db)" and "distinct is" and "\<And>i. i \<in> set is \<Longrightarrow> fm_find (values_of (content db)) i \<noteq> None"
    and "mixed b c (values_of (content db))"
  shows "\<exists>v. ofold primary_remove is db = Returned (with_values db v) \<and> mixed b c v \<and>
     (\<forall>j. fm_find v j = (if j \<in> set is then None else fm_find (values_of (content db)) j))"
  using assms
proof (induction "is" arbitrary: db)
  case (Cons i "is")
  let ?v = "fm_erase i (values_of (content db))"
  have step: "primary_remove i db = Returned (with_values db ?v)"
    using Cons.prems(1) Cons.prems(3) [of i] by (auto simp: primary_remove_def generic_remove_def)
  have "\<exists>v. ofold primary_remove is (with_values db ?v) = Returned (with_values (with_values db ?v) v) \<and> mixed b c v \<and>
     (\<forall>j. fm_find v j = (if j \<in> set is then None else fm_find (values_of (content (with_values db ?v))) j))"
    by (rule Cons.IH) (use Cons.prems(1-3) mixed_erase [OF Cons.prems(4)] in auto)
  then show ?case using step by auto
qed (auto intro!: exI)

lemma restore_next_ids:
  assumes "\<And>k n. (k, n) \<in> set xs \<Longrightarrow> fm_find (next_ids (content db)) k \<noteq> None" and "distinct (map fst xs)"
  shows "\<exists>v. ofold (\<lambda>(k, n). primary_set_next_id k n) xs db = Returned (db\<lparr>content := (content db)\<lparr>next_ids := v\<rparr>\<rparr>) \<and>
     (\<forall>k. fm_find v k = (case map_of xs k of Some n \<Rightarrow> Some n | None \<Rightarrow> fm_find (next_ids (content db)) k))"
  using assms
proof (induction xs arbitrary: db)
  case (Cons e xs)
  obtain k n where e: "e = (k, n)" by (cases e)
  let ?db = "db\<lparr>content := (content db)\<lparr>next_ids := fm_put k n (next_ids (content db))\<rparr>\<rparr>"
  have step: "primary_set_next_id k n db = Returned ?db"
    using Cons.prems(1) [of k n] by (simp add: e primary_set_next_id_def set_next_id_def fm_keys_find_iff)
  have "\<exists>v. ofold (\<lambda>(k, n). primary_set_next_id k n) xs ?db = Returned (?db\<lparr>content := (content ?db)\<lparr>next_ids := v\<rparr>\<rparr>) \<and>
     (\<forall>k. fm_find v k = (case map_of xs k of Some n \<Rightarrow> Some n | None \<Rightarrow> fm_find (next_ids (content ?db)) k))"
    by (rule Cons.IH) (use Cons.prems in \<open>auto simp: e\<close>)
  moreover have "map_of xs k = None" using Cons.prems(2) by (simp add: e map_of_eq_None_iff)
  ultimately show ?case using step by (fastforce simp: e split: option.splits)
qed (auto intro!: exI)

lemma restore_removed:
  assumes "disabled (undo_db db)" and "compatible clash b c" and "mixed b c (values_of (content db))" and "distinct (map fst xs)"
    and "\<And>i x. (i, x) \<in> set xs \<Longrightarrow> fm_find (values_of b) i = Some x \<and> fm_find (values_of (content db)) i = None \<and>
      fm_find (next_ids (content db)) (index_of i) \<noteq> None"
  shows "\<exists>v. ofold (\<lambda>(i, x). primary_insert clash i x) xs db = Returned (with_values db v) \<and>
     (\<forall>j. fm_find v j = (if j \<in> fst ` set xs then fm_find (values_of b) j else fm_find (values_of (content db)) j))"
  using assms
proof (induction xs arbitrary: db)
  case (Cons e xs)
  obtain i x where e: "e = (i, x)" by (cases e)
  let ?v = "fm_put i x (values_of (content db))"
  have bx: "fm_find (values_of b) i = Some x" "fm_find (values_of (content db)) i = None" "fm_find (next_ids (content db)) (index_of i) \<noteq> None"
    using Cons.prems(5) [of i x] by (simp_all add: e)
  have fit: "fits clash i x (values_of (content db))" by (rule mixed_fits [OF Cons.prems(2,3) bx(1)])
  have step: "primary_insert clash i x db = Returned (with_values db ?v)"
    using bx Cons.prems(1) fit by (simp add: primary_insert_def on_content_def generic_insert_def fm_keys_find_iff)
  have "\<exists>v. ofold (\<lambda>(i, x). primary_insert clash i x) xs (with_values db ?v) = Returned (with_values (with_values db ?v) v) \<and>
     (\<forall>j. fm_find v j = (if j \<in> fst ` set xs then fm_find (values_of b) j else fm_find (values_of (content (with_values db ?v))) j))"
    by (rule Cons.IH) (use Cons.prems(1,2,4) mixed_put [OF Cons.prems(3) bx(1)] Cons.prems(5) in \<open>force simp: e\<close>)+
  then obtain v where v: "ofold (\<lambda>(i, x). primary_insert clash i x) xs (with_values db ?v) =
      Returned (with_values (with_values db ?v) v)"
    "\<And>j. fm_find v j = (if j \<in> fst ` set xs then fm_find (values_of b) j else fm_find ?v j)" by auto
  show ?case by (rule exI [of _ v]) (use v bx step in \<open>simp add: e\<close>)
qed (auto intro!: exI)

lemma objects_eqI:
  "(\<And>i. fm_find (values_of s) i = fm_find (values_of t) i) \<Longrightarrow> (\<And>k. fm_find (next_ids s) k = fm_find (next_ids t) k) \<Longrightarrow>
   s = (t :: 'a objects)"
  by (cases s, cases t) (auto intro: fm_eqI)

text \<open>Without a key taken over, the restoration succeeds and gives back exactly the objects before.\<close>

lemma restore_before:
  assumes t: "tracks st b (content db)" and ok: "objects_ok b" and u: "disabled (undo_db db)"
    and comp: "compatible clash b (content db)"
  shows "restore clash st db = Returned (db\<lparr>content := b\<rparr>)"
proof -
  let ?c = "content db"
  have mix: "mixed b ?c (values_of ?c)" by (simp add: mixed_def)
  note at = tracks_objectD [OF t, unfolded tracks_object_def tracks_at_def]
  obtain v1 where v1: "ofold (\<lambda>(i, x). primary_modify clash i (\<lambda>_. (x, None))) (fm_items (old_values st)) db =
      Returned (with_values db v1)" "mixed b ?c v1"
    "\<And>j. fm_find v1 j = (if fm_find (old_values st) j \<noteq> None then fm_find (values_of b) j else fm_find (values_of ?c) j)"
    using restore_updates [OF u comp mix, of "fm_items (old_values st)"] at
    unfolding items_find fm_find_items [symmetric] by (metis option.distinct(1))
  have "fm_find (values_of (content (with_values db v1))) i \<noteq> None" if "i \<in> set (fs_items (new_ids st))" for i
    using at [of i] v1(3) [of i] that by (cases "fm_find (old_values st) i") (simp_all add: fm_keys_find_iff)
  then obtain v2 where v2: "ofold primary_remove (fs_items (new_ids st)) (with_values db v1) = Returned (with_values db v2)" "mixed b ?c v2"
    "\<And>j. fm_find v2 j = (if fm_find (new_ids st) j \<noteq> None then None else fm_find v1 j)"
    using restore_new [of "with_values db v1" "fs_items (new_ids st)" b ?c] u v1(2) by (auto simp: fm_keys_find_iff)
  have nx: "fm_find (next_ids ?c) k \<noteq> None" if "fm_find (old_index_next_ids st) k \<noteq> None" for k
    using tracks_nextD [OF t, of k] that by (cases "fm_find (next_ids b) k"; cases "fm_find (next_ids ?c) k") auto
  obtain w where w: "ofold (\<lambda>(k, n). primary_set_next_id k n) (fm_items (old_index_next_ids st)) (with_values db v2) =
      Returned ((with_values db v2)\<lparr>content := ?c\<lparr>values_of := v2, next_ids := w\<rparr>\<rparr>)"
    "\<And>k. fm_find w k = (case fm_find (old_index_next_ids st) k of Some n \<Rightarrow> Some n
      | None \<Rightarrow> fm_find (next_ids (content (with_values db v2))) k)"
    using restore_next_ids [of "fm_items (old_index_next_ids st)" "with_values db v2"] nx
    unfolding map_of_items fm_find_items [symmetric] by (auto simp: fm_items_distinct)
  have wb: "fm_find w k = fm_find (next_ids b) k" for k
    using tracks_nextD [OF t, of k] unfolding w(2)
    by (cases "fm_find (next_ids b) k"; cases "fm_find (next_ids ?c) k") (auto split: option.splits)
  let ?db = "db\<lparr>content := ?c\<lparr>values_of := v2, next_ids := w\<rparr>\<rparr>"
  have gone: "fm_find (values_of b) i = Some x \<and> fm_find (values_of (content ?db)) i = None \<and>
      fm_find (next_ids (content ?db)) (index_of i) \<noteq> None" if "(i, x) \<in> set (fm_items (removed_values st))" for i x
  proof -
    have "fm_find (removed_values st) i = Some x" using that by (simp add: fm_find_items)
    then have b: "fm_find (values_of b) i = Some x" "fm_find (values_of ?c) i = None" "fm_find (old_values st) i = None"
      using at [of i] by auto
    moreover have "fm_find (next_ids b) (index_of i) \<noteq> None" using ok b(1) unfolding objects_ok_def by (metis option.distinct(1))
    ultimately show ?thesis using wb v1(3) v2(3) by simp
  qed
  obtain v3 where v3: "ofold (\<lambda>(i, x). primary_insert clash i x) (fm_items (removed_values st)) ?db =
      Returned (?db\<lparr>content := (content ?db)\<lparr>values_of := v3\<rparr>\<rparr>)"
    "\<And>j. fm_find v3 j = (if fm_find (removed_values st) j \<noteq> None then fm_find (values_of b) j else fm_find v2 j)"
    using restore_removed [OF _ comp _ fm_items_distinct gone] u v2(2) unfolding items_find by force
  have "fm_find v3 i = fm_find (values_of b) i" for i
    using at [of i] by (auto simp: v3(2) v2(3) v1(3))
  then have "?c\<lparr>next_ids := w, values_of := v3\<rparr> = b"
    by (intro objects_eqI) (simp_all add: wb)
  then show ?thesis by (simp add: restore_def v1(1) v2(1) w(1) v3(1))
qed

section \<open>The history that copies\<close>

text \<open>
  The specification: a database that keeps a copy of all its objects from the start of every session.
  Undoing is taking the newest copy; merging and committing never touch the objects.
\<close>

record 'a history =
  now :: "'a objects"
  past :: "'a objects list"
  open_sessions :: nat
  limit :: nat

datatype 'a event =
    Ev_create index_id "'a res"
  | Ev_modify object_id "'a \<Rightarrow> 'a \<times> err option"
  | Ev_remove object_id
  | Ev_start
  | Ev_undo
  | Ev_merge
  | Ev_commit
  | Ev_pop_commit

fun event_step :: "('a \<Rightarrow> 'a \<Rightarrow> bool) \<Rightarrow> 'a event \<Rightarrow> 'a object_database \<Rightarrow> 'a object_database outcome" where
  "event_step clash (Ev_create k x) = primary_create clash k x"
| "event_step clash (Ev_modify i f) = primary_modify clash i f"
| "event_step clash (Ev_remove i) = primary_remove i"
| "event_step clash Ev_start = (\<lambda>db. Returned (db\<lparr>undo_db := snd (start_undo_session False (undo_db db))\<rparr>))"
| "event_step clash Ev_undo = undo clash"
| "event_step clash Ev_merge = on_history undo_merge"
| "event_step clash Ev_commit = on_history undo_commit"
| "event_step clash Ev_pop_commit = pop_commit clash"

definition changed :: "'a history \<Rightarrow> 'a objects \<Rightarrow> 'a history" where
  "changed h s = h\<lparr>now := s, past := (if past h = [] then [now h] else past h)\<rparr>"

fun history_step :: "('a \<Rightarrow> 'a \<Rightarrow> bool) \<Rightarrow> 'a event \<Rightarrow> 'a history \<Rightarrow> 'a history outcome" where
  "history_step clash (Ev_create k x) h =
     (case fm_find (next_ids (now h)) k of
        None \<Rightarrow> Thrown Not_found h
      | Some i \<Rightarrow> (case generic_create clash i x (now h) of
          Thrown e s \<Rightarrow> Thrown e h
        | Returned s \<Rightarrow> Returned (changed h s)))"
| "history_step clash (Ev_modify i f) h =
     (case fm_find (values_of (now h)) i of
        None \<Rightarrow> Thrown Not_found h
      | Some x \<Rightarrow> map_outcome (changed h) (generic_modify clash i (fst (f x)) (snd (f x)) (now h)))"
| "history_step clash (Ev_remove i) h =
     (case fm_find (values_of (now h)) i of
        None \<Rightarrow> Thrown Not_found h
      | Some x \<Rightarrow> Returned (changed h (generic_remove i (now h))))"
| "history_step clash Ev_start h =
     Returned (h\<lparr>past := now h # take (limit h) (past h), open_sessions := Suc (open_sessions h)\<rparr>)"
| "history_step clash Ev_undo h =
     (if open_sessions h = 0 then Thrown (Assert ''_active_sessions > 0'') h
      else case past h of
        [] \<Rightarrow> Thrown Null_deref h
      | b # bs \<Rightarrow> Returned (h\<lparr>now := b, past := bs, open_sessions := open_sessions h - 1\<rparr>))"
| "history_step clash Ev_merge h =
     (if open_sessions h = 0 then Thrown (Assert ''_active_sessions > 0'') h
      else if length (past h) \<ge> 2 \<or> (length (past h) = 1 \<and> open_sessions h = 1)
      then Returned (h\<lparr>past := tl (past h), open_sessions := open_sessions h - 1\<rparr>)
      else Thrown (Assert ''_stack.size() >= 2'') h)"
| "history_step clash Ev_commit h =
     (if open_sessions h = 0 then Thrown (Assert ''_active_sessions > 0'') h
      else Returned (h\<lparr>open_sessions := open_sessions h - 1\<rparr>))"
| "history_step clash Ev_pop_commit h =
     (if open_sessions h \<noteq> 0 then Thrown (Assert ''_active_sessions == 0'') h
      else case past h of
        [] \<Rightarrow> Thrown (Assert ''!_stack.empty()'') h
      | b # bs \<Rightarrow> Returned (h\<lparr>now := b, past := bs\<rparr>))"

text \<open>
  The implementation follows the specification as long as no modification takes the unique key of another
  object and no key from before is taken when a state is taken back.
\<close>

fun event_safe :: "('a \<Rightarrow> 'a \<Rightarrow> bool) \<Rightarrow> 'a event \<Rightarrow> 'a history \<Rightarrow> bool" where
  "event_safe clash (Ev_modify i f) h \<longleftrightarrow>
     (case fm_find (values_of (now h)) i of None \<Rightarrow> True | Some x \<Rightarrow> fits clash i (fst (f x)) (values_of (now h)))"
| "event_safe clash Ev_undo h \<longleftrightarrow> (case past h of [] \<Rightarrow> True | b # bs \<Rightarrow> compatible clash b (now h))"
| "event_safe clash Ev_pop_commit h \<longleftrightarrow> (case past h of [] \<Rightarrow> True | b # bs \<Rightarrow> compatible clash b (now h))"
| "event_safe clash _ h \<longleftrightarrow> True"

fun tracks_all :: "'a undo_state list \<Rightarrow> 'a objects list \<Rightarrow> 'a objects \<Rightarrow> bool" where
  "tracks_all [] [] c \<longleftrightarrow> True"
| "tracks_all (st # sts) (b # bs) c \<longleftrightarrow> tracks st b c \<and> objects_ok b \<and> tracks_all sts bs b"
| "tracks_all _ _ c \<longleftrightarrow> False"

definition implements :: "'a object_database \<Rightarrow> 'a history \<Rightarrow> bool" where
  "implements db h \<longleftrightarrow>
     content db = now h \<and> \<not> disabled (undo_db db) \<and> active_sessions (undo_db db) = open_sessions h \<and>
     max_size (undo_db db) = limit h \<and> objects_ok (now h) \<and> tracks_all (stack (undo_db db)) (past h) (now h)"

lemma tracks_all_length: "tracks_all sts bs c \<Longrightarrow> length sts = length bs"
  by (induction sts bs c rule: tracks_all.induct) auto

lemma tracks_all_take: "tracks_all sts bs c \<Longrightarrow> tracks_all (take n sts) (take n bs) c"
proof (induction sts bs c arbitrary: n rule: tracks_all.induct)
  case (2 st sts b bs c)
  then show ?case by (cases n) auto
qed auto

lemma tracks_all_back:
  assumes "tracks_all sts bs c" and "objects_ok c" and "\<And>st b. tracks st b c \<Longrightarrow> objects_ok b \<Longrightarrow> tracks (f st) b s"
  shows "tracks_all (case sts of [] \<Rightarrow> [f empty_undo_state] | st # sts \<Rightarrow> f st # sts) (if bs = [] then [c] else bs) s"
  using assms tracks_start [of c] by (cases sts; cases bs) auto

lemma implements_changed:
  assumes "implements db h" and "objects_ok s" and "\<And>st b. tracks st b (now h) \<Longrightarrow> objects_ok b \<Longrightarrow> tracks (f st) b s"
  shows "implements \<lparr>content = s, undo_db = with_back f (undo_db db)\<rparr> (changed h s)"
  using assms tracks_all_back [of "stack (undo_db db)" "past h" "now h" f s]
  by (auto simp: implements_def changed_def with_back_def)

lemma objects_ok_put:
  "objects_ok s \<Longrightarrow> fm_find (values_of s) i \<noteq> None \<Longrightarrow> objects_ok (s\<lparr>values_of := fm_put i x (values_of s)\<rparr>)"
  by (auto simp: objects_ok_def)

lemma objects_ok_erase: "objects_ok s \<Longrightarrow> objects_ok (s\<lparr>values_of := fm_erase i (values_of s)\<rparr>)"
  by (auto simp: objects_ok_def)

lemma objects_ok_create:
  assumes "objects_ok s" and "fm_find (next_ids s) k = Some i"
  shows "objects_ok (s\<lparr>values_of := fm_put i x (values_of s), next_ids := fm_put (index_of i) (Object_id (index_of i) (Suc (instance_of i))) (next_ids s)\<rparr>)"
proof -
  have k: "index_of i = k" by (rule objects_ok_nextD [OF assms])
  have "\<exists>n. (if index_of j = k then Some (Object_id k (Suc (instance_of i))) else fm_find (next_ids s) (index_of j)) = Some n \<and>
      instance_of j < instance_of n" if j: "j = i \<or> fm_find (values_of s) j \<noteq> None" for j
  proof (cases "j = i")
    case False
    then obtain n where "fm_find (next_ids s) (index_of j) = Some n" "instance_of j < instance_of n"
      using j assms(1) unfolding objects_ok_def by blast
    then show ?thesis using assms(2) by (cases "index_of j = k") auto
  qed (simp add: k)
  then show ?thesis using assms(1) k by (auto simp: objects_ok_def)
qed

lemma database_updates:
  "(db :: 'a object_database)\<lparr>content := s, undo_db := u\<rparr> = \<lparr>content = s, undo_db = u\<rparr>"
  "(db :: 'a object_database)\<lparr>undo_db := u, content := s\<rparr> = \<lparr>content = s, undo_db = u\<rparr>"
  "(db :: 'a object_database)\<lparr>undo_db := u\<rparr> = \<lparr>content = content db, undo_db = u\<rparr>"
  "content db = s \<Longrightarrow> (db :: 'a object_database)\<lparr>content := s\<rparr> = db"
  by (cases db; simp)+

lemma implements_content: "implements db h \<Longrightarrow> content db = now h"
  by (simp add: implements_def)

text \<open>Every event, one by one.\<close>

lemma create_implements:
  assumes "implements db h"
  shows "rel_outcome implements (primary_create clash k x db) (history_step clash (Ev_create k x) h)"
proof (cases "fm_find (next_ids (now h)) k")
  case (Some i)
  let ?s = "\<lambda>v. (now h)\<lparr>values_of := fm_put i v (values_of (now h)),
    next_ids := fm_put (index_of i) (Object_id (index_of i) (Suc (instance_of i))) (next_ids (now h))\<rparr>"
  have "objects_ok (now h)" using assms by (simp add: implements_def)
  then have "implements \<lparr>content = ?s v, undo_db = on_create i (undo_db db)\<rparr> (changed h (?s v))" for v
    unfolding on_create_def using Some
    by (intro implements_changed [OF assms]) (auto intro: objects_ok_create tracks_create)
  then show ?thesis using assms Some
    by (auto simp: primary_create_def on_content_def generic_create_def generic_insert_def implements_content [OF assms]
        database_updates split: sum.splits)
qed (use assms in \<open>simp add: primary_create_def implements_def\<close>)

lemma modify_implements:
  assumes "implements db h" and "event_safe clash (Ev_modify i f) h"
  shows "rel_outcome implements (primary_modify clash i f db) (history_step clash (Ev_modify i f) h)"
proof (cases "fm_find (values_of (now h)) i")
  case (Some x)
  let ?s = "(now h)\<lparr>values_of := fm_put i (fst (f x)) (values_of (now h))\<rparr>"
  have "objects_ok (now h)" using assms by (simp add: implements_def)
  then have "implements \<lparr>content = ?s, undo_db = on_modify i x (undo_db db)\<rparr> (changed h ?s)"
    unfolding on_modify_def using Some
    by (intro implements_changed [OF assms(1)]) (auto intro: objects_ok_put tracks_modify)
  then show ?thesis using assms Some
    by (auto simp: primary_modify_def on_content_def generic_modify_def Let_def implements_content [OF assms(1)]
        database_updates split: option.splits)
qed (use assms in \<open>simp add: primary_modify_def implements_def\<close>)

lemma remove_implements:
  assumes "implements db h"
  shows "rel_outcome implements (primary_remove i db) (history_step clash (Ev_remove i) h)"
proof (cases "fm_find (values_of (now h)) i")
  case (Some x)
  have "objects_ok (now h)" using assms by (simp add: implements_def)
  then have "implements \<lparr>content = generic_remove i (now h), undo_db = on_remove i x (undo_db db)\<rparr>
      (changed h (generic_remove i (now h)))"
    unfolding on_remove_def generic_remove_def using Some
    by (intro implements_changed [OF assms]) (auto intro: objects_ok_erase tracks_remove)
  then show ?thesis using Some by (simp add: primary_remove_def implements_content [OF assms])
qed (use assms in \<open>simp add: primary_remove_def implements_def\<close>)

lemma restore_implements:
  assumes "implements db h" and "stack (undo_db db) = st # sts"
  obtains b bs where "past h = b # bs" "tracks_all sts bs b" "objects_ok b"
    "compatible clash b (now h) \<Longrightarrow> restore clash st (set_disabled True db) = Returned ((set_disabled True db)\<lparr>content := b\<rparr>)"
proof -
  from assms obtain b bs where p: "past h = b # bs" "tracks st b (now h)" "objects_ok b" "tracks_all sts bs b"
    by (cases "past h") (auto simp: implements_def)
  have "restore clash st (set_disabled True db) = Returned ((set_disabled True db)\<lparr>content := b\<rparr>)" if "compatible clash b (now h)"
    using assms(1) p(2,3) that by (intro restore_before) (simp_all add: set_disabled_def implements_def)
  with p that show thesis by blast
qed

lemma undo_implements:
  assumes "implements db h" and "event_safe clash Ev_undo h"
  shows "rel_outcome implements (undo clash db) (history_step clash Ev_undo h)"
proof (cases "stack (undo_db db)")
  case Nil
  then show ?thesis using assms(1) by (cases "past h") (auto simp: undo_def implements_def)
next
  case (Cons st sts)
  obtain b bs where p: "past h = b # bs" "tracks_all sts bs b" "objects_ok b"
    "compatible clash b (now h) \<Longrightarrow> restore clash st (set_disabled True db) = Returned ((set_disabled True db)\<lparr>content := b\<rparr>)"
    using restore_implements [OF assms(1) Cons, of clash] by blast
  then show ?thesis using assms Cons by (auto simp: undo_def implements_def set_disabled_def pop_back_def Let_def)
qed

lemma pop_commit_implements:
  assumes "implements db h" and "event_safe clash Ev_pop_commit h"
  shows "rel_outcome implements (pop_commit clash db) (history_step clash Ev_pop_commit h)"
proof (cases "stack (undo_db db)")
  case Nil
  then show ?thesis using assms(1) by (cases "past h") (auto simp: pop_commit_def implements_def)
next
  case (Cons st sts)
  obtain b bs where p: "past h = b # bs" "tracks_all sts bs b" "objects_ok b"
    "compatible clash b (now h) \<Longrightarrow> restore clash st (set_disabled True db) = Returned ((set_disabled True db)\<lparr>content := b\<rparr>)"
    using restore_implements [OF assms(1) Cons, of clash] by blast
  then show ?thesis using assms Cons by (auto simp: pop_commit_def implements_def set_disabled_def pop_back_def)
qed

lemma merge_implements:
  assumes "implements db h"
  shows "rel_outcome implements (on_history undo_merge db) (history_step clash Ev_merge h)"
proof -
  have t: "tracks_all (stack (undo_db db)) (past h) (now h)" using assms by (simp add: implements_def)
  consider "past h = []" | b where "past h = [b]" | m b bs where "past h = m # b # bs"
    by (cases "past h" rule: remdups_adj.cases) auto
  then show ?thesis
  proof cases
    case 3
    with t obtain st p sts where st: "stack (undo_db db) = st # p # sts"
      by (cases "stack (undo_db db)" rule: remdups_adj.cases) auto
    then have "tracks (merge_states st p) b (now h)" using t 3 by (auto intro: tracks_merge)
    then show ?thesis using assms st 3 by (auto simp: on_history_def undo_merge_def implements_def)
  qed (use assms t in \<open>cases "stack (undo_db db)"; auto simp: on_history_def undo_merge_def implements_def dest: tracks_all_length\<close>)+
qed

lemma event_implements:
  assumes "implements db h" and "event_safe clash ev h"
  shows "rel_outcome implements (event_step clash ev db) (history_step clash ev h)"
proof (cases ev)
  case Ev_start
  then show ?thesis using assms(1) tracks_all_take [of "stack (undo_db db)" "past h" "now h" "limit h"]
    by (auto simp: implements_def start_undo_session_def tracks_start)
next
  case Ev_commit
  then show ?thesis using assms(1) by (auto simp: on_history_def undo_commit_def implements_def)
qed (use assms in \<open>auto intro: create_implements modify_implements remove_implements undo_implements merge_implements
  pop_commit_implements simp del: history_step.simps event_safe.simps\<close>)

section \<open>Runs\<close>

text \<open>
  A run goes on after an exception with the state it left, as the chain does when it catches the exception
  of an operation and then leaves the session around it.
\<close>

definition run_events :: "('e \<Rightarrow> 's \<Rightarrow> 's outcome) \<Rightarrow> 'e list \<Rightarrow> 's \<Rightarrow> 's" where
  "run_events step = fold (\<lambda>e s. outcome_state (step e s))"

fun safe_run :: "('e \<Rightarrow> 's \<Rightarrow> 's outcome) \<Rightarrow> ('e \<Rightarrow> 's \<Rightarrow> bool) \<Rightarrow> 'e list \<Rightarrow> 's \<Rightarrow> bool" where
  "safe_run step safe [] s \<longleftrightarrow> True"
| "safe_run step safe (e # es) s \<longleftrightarrow> safe e s \<and> safe_run step safe es (outcome_state (step e s))"

locale simulation =
  fixes related :: "'c \<Rightarrow> 'a \<Rightarrow> bool" and cstep :: "'e \<Rightarrow> 'c \<Rightarrow> 'c outcome" and astep :: "'e \<Rightarrow> 'a \<Rightarrow> 'a outcome"
    and safe :: "'e \<Rightarrow> 'a \<Rightarrow> bool"
  assumes step_related: "related c a \<Longrightarrow> safe e a \<Longrightarrow> rel_outcome related (cstep e c) (astep e a)"
begin

lemma state_related: "related c a \<Longrightarrow> safe e a \<Longrightarrow> related (outcome_state (cstep e c)) (outcome_state (astep e a))"
  using step_related [of c a e] by (cases "cstep e c"; cases "astep e a") auto

lemma run_related: "related c a \<Longrightarrow> safe_run astep safe es a \<Longrightarrow> related (run_events cstep es c) (run_events astep es a)"
  by (induction es arbitrary: c a) (auto simp: run_events_def state_related)

end

interpretation undo_history: simulation implements "event_step clash" "history_step clash" "event_safe clash" for clash
  by unfold_locales (rule event_implements)

fun is_change :: "'a event \<Rightarrow> bool" where
  "is_change (Ev_create k x) \<longleftrightarrow> True"
| "is_change (Ev_modify i f) \<longleftrightarrow> True"
| "is_change (Ev_remove i) \<longleftrightarrow> True"
| "is_change _ \<longleftrightarrow> False"

lemma state_map_outcome: "outcome_state (map_outcome f r) = f (outcome_state r)"
  by (cases r) auto

lemma change_keeps_past:
  assumes "is_change ev" and "past h \<noteq> []"
  shows "past (outcome_state (history_step clash ev h)) = past h \<and>
    open_sessions (outcome_state (history_step clash ev h)) = open_sessions h \<and> limit (outcome_state (history_step clash ev h)) = limit h"
  using assms by (cases ev) (auto simp: changed_def state_map_outcome split: option.splits outcome.splits)

lemma changes_keep_past:
  assumes "list_all is_change evs" and "past h \<noteq> []"
  shows "past (run_events (history_step clash) evs h) = past h \<and>
    open_sessions (run_events (history_step clash) evs h) = open_sessions h \<and> limit (run_events (history_step clash) evs h) = limit h"
  using assms
proof (induction evs arbitrary: h)
  case (Cons ev evs)
  then show ?case using change_keeps_past [of ev h clash] by (simp add: run_events_def)
qed (simp add: run_events_def)

section \<open>Sessions that cannot be undone\<close>

lemma ofold_throws:
  assumes "x \<in> set xs" and "\<And>s. P s \<Longrightarrow> \<not> returned (f x s)" and "P s"
    and "\<And>y s s'. y \<in> set xs \<Longrightarrow> P s \<Longrightarrow> f y s = Returned s' \<Longrightarrow> P s'"
  shows "\<not> returned (ofold f xs s)"
  using assms
proof (induction xs arbitrary: s)
  case (Cons y ys)
  show ?case
  proof (cases "f y s")
    case (Returned t)
    then have "P t" using Cons.prems(3,4) by auto
    moreover have "x \<noteq> y" using Cons.prems(2) [OF Cons.prems(3)] Returned by (auto simp: returned_def)
    ultimately have "\<not> returned (ofold f ys t)" using Cons.prems by (intro Cons.IH) auto
    then show ?thesis using Returned by simp
  qed (simp add: returned_def)
qed simp

lemma ofold_keeps:
  assumes "ofold f xs s = Returned s'" and "P s" and "\<And>y s s'. y \<in> set xs \<Longrightarrow> P s \<Longrightarrow> f y s = Returned s' \<Longrightarrow> P s'"
  shows "P s'"
  using assms
proof (induction xs arbitrary: s)
  case (Cons y ys)
  then show ?case by (cases "f y s") auto
qed simp

lemma andthen_Returned: "andthen r f = Returned s' \<longleftrightarrow> (\<exists>s. r = Returned s \<and> f s = Returned s')"
  by (cases r) auto

lemma returned_iff: "returned r \<longleftrightarrow> (\<exists>s. r = Returned s)"
  by (cases r) (auto simp: returned_def)

lemma modify_Returned:
  "primary_modify clash i f db = Returned db' \<Longrightarrow>
   \<exists>x. fm_find (values_of (content db)) i = Some x \<and> fits clash i (fst (f x)) (values_of (content db)) \<and>
     values_of (content db') = fm_put i (fst (f x)) (values_of (content db))"
  by (auto simp: primary_modify_def on_content_def generic_modify_def Let_def split: option.splits if_splits)

text \<open>A changed or new object that is not there makes the restoration throw.\<close>

lemma restore_absent:
  assumes "fm_find (values_of (content db)) i = None" and "fm_find (old_values st) i \<noteq> None \<or> fm_find (new_ids st) i \<noteq> None"
  shows "\<not> returned (restore clash st db)"
proof
  let ?upd = "\<lambda>(i, x). primary_modify clash i (\<lambda>_. (x, None))"
  let ?P = "\<lambda>db. fm_find (values_of (content db)) i = None"
  assume "returned (restore clash st db)"
  then obtain d1 d2 where d: "ofold ?upd (fm_items (old_values st)) db = Returned d1" "ofold primary_remove (fs_items (new_ids st)) d1 = Returned d2"
    by (auto simp: restore_def returned_iff andthen_Returned)
  have keep: "?P s'" if "?P s" "?upd y s = Returned s'" for y s s'
    using that by (cases y) (auto dest!: modify_Returned split: if_splits)
  have absent: "\<not> returned (primary_modify clash i f s)" if "?P s" for f s
    using that by (simp add: primary_modify_def returned_def)
  have "fm_find (old_values st) i = None"
  proof (rule ccontr)
    assume "fm_find (old_values st) i \<noteq> None"
    then obtain x where "(i, x) \<in> set (fm_items (old_values st))" by (auto simp: fm_find_items)
    then have "\<not> returned (ofold ?upd (fm_items (old_values st)) db)"
      by (rule ofold_throws [where P = ?P, OF _ _ assms(1)]) (use absent keep in auto)
    then show False using d(1) by (simp add: returned_def)
  qed
  then have "i \<in> set (fs_items (new_ids st))" using assms(2) by (simp add: fm_keys_find_iff)
  moreover have "?P d1" by (rule ofold_keeps [where P = ?P, OF d(1) assms(1) keep])
  ultimately have "\<not> returned (ofold primary_remove (fs_items (new_ids st)) d1)"
    by (intro ofold_throws [where P = ?P and x = i])
      (auto simp: primary_remove_def returned_def generic_remove_def split: option.splits)
  then show False using d(2) by (simp add: returned_def)
qed

text \<open>An old value whose unique key has been taken by another object makes it throw as well.\<close>

lemma restore_taken:
  assumes "fm_find (old_values st) i = Some x" and "fm_find (old_values st) j = None" and "fm_find (values_of (content db)) j = Some z"
    and "i \<noteq> j" and "index_of i = index_of j" and "clash x z"
  shows "\<not> returned (restore clash st db)"
proof -
  let ?upd = "\<lambda>(i, x). primary_modify clash i (\<lambda>_. (x, None))"
  let ?P = "\<lambda>db. fm_find (values_of (content db)) j = Some z"
  have item: "(i, x) \<in> set (fm_items (old_values st))" using assms(1) by (simp add: fm_find_items)
  have "\<not> returned (ofold ?upd (fm_items (old_values st)) db)"
  proof (rule ofold_throws [where P = ?P, OF item _ assms(3)])
    show "\<not> returned (?upd (i, x) s)" if "?P s" for s
      using that assms(4-6) by (auto simp: returned_iff fits_iff dest!: modify_Returned)
    show "?P s'" if "y \<in> set (fm_items (old_values st))" "?P s" "?upd y s = Returned s'" for y s s'
    proof (cases y)
      case (Pair k v)
      then have "k \<noteq> j" using that(1) assms(2) by (auto simp: fm_find_items [symmetric])
      then show ?thesis using that(2,3) Pair by (auto dest!: modify_Returned)
    qed
  qed
  then show ?thesis by (auto simp: restore_def returned_iff andthen_Returned)
qed

lemma undo_throws:
  assumes "stack (undo_db db) = st # sts" and "\<not> returned (restore clash st (set_disabled True db))" and "apply_undo s"
  shows "session_end clash (s, db) = None"
proof -
  have "\<not> returned (undo clash db)"
    using assms(1,2) by (auto simp: undo_def returned_iff andthen_Returned Let_def split: if_splits)
  then show ?thesis using assms(3) by (cases "undo clash db") (auto simp: session_end_def returned_def)
qed

lemma implements_stack:
  "implements db h \<Longrightarrow> past h = b # bs \<Longrightarrow> \<exists>st sts. stack (undo_db db) = st # sts \<and> tracks st b (content db)"
  by (cases "stack (undo_db db)") (auto simp: implements_def)

section \<open>Results\<close>

text \<open>Two rooms of one owner; the key of a room is its owner with the metadata.\<close>

definition rooms_id :: index_id where
  "rooms_id = Index_id 2 1"

definition room_called :: "string \<Rightarrow> room_object" where
  "room_called name = sample_room\<lparr>rm_metadata := name\<rparr>"

definition renamed :: "string \<Rightarrow> room_object \<Rightarrow> room_object \<times> err option" where
  "renamed name r = (r\<lparr>rm_metadata := name\<rparr>, None)"

definition two_rooms :: "room_object objects" where
  "two_rooms =
     \<lparr>values_of = fm_put (Object_id rooms_id 0) (room_called ''hold-em'') (fm_put (Object_id rooms_id 1) (room_called ''omaha'') fm_empty),
      next_ids = fm_put rooms_id (Object_id rooms_id 2) fm_empty\<rparr>"

definition sample_rooms :: "room_object object_database" where
  "sample_rooms = \<lparr>content = two_rooms, undo_db = \<lparr>stack = [], active_sessions = 0, disabled = False, max_size = 256\<rparr>\<rparr>"

definition sample_history :: "room_object history" where
  "sample_history = \<lparr>now = two_rooms, past = [], open_sessions = 0, limit = 256\<rparr>"

lemma sample_implements: "implements sample_rooms sample_history"
  by (auto simp: implements_def sample_rooms_def sample_history_def two_rooms_def objects_ok_def split: if_splits)

text \<open>
  C14: the undo history refines a database that copies all its objects at the start of every session: after
  events (creations, modifications and removals, also such that throw, and sessions started, undone, merged,
  committed and popped) all of which are safe, the objects and the next ids are those of the copying database, and a
  safe next event has the same outcome on both, error for error. An event is safe unless it is a modification that
  takes the unique key of another object, or takes back a state with a key that another object has taken over.
\<close>

theorem history_refines:
  assumes "implements db h" and "safe_run (history_step clash) (event_safe clash) evs h"
  shows "content (run_events (event_step clash) evs db) = now (run_events (history_step clash) evs h) \<and>
    (event_safe clash ev (run_events (history_step clash) evs h) \<longrightarrow>
      rel_outcome implements (event_step clash ev (run_events (event_step clash) evs db))
        (history_step clash ev (run_events (history_step clash) evs h)))"
  using undo_history.run_related [OF assms] undo_history.step_related implements_content by blast

definition sample_events :: "room_object event list" where
  "sample_events =
     [Ev_start, Ev_modify (Object_id rooms_id 1) (renamed ''stud''), Ev_start, Ev_create rooms_id (Inr (room_called ''razz'')),
      Ev_remove (Object_id rooms_id 0), Ev_create rooms_id (Inr (room_called ''stud'')), Ev_merge, Ev_undo]"

theorem history_refines_witness:
  "content (run_events (event_step room_clash) sample_events sample_rooms) = content sample_rooms"
proof -
  have "safe_run (history_step room_clash) (event_safe room_clash) sample_events sample_history" by code_simp
  note history_refines [OF sample_implements this]
  moreover have "now (run_events (history_step room_clash) sample_events sample_history) = content sample_rooms" by code_simp
  ultimately show ?thesis by simp
qed

text \<open>
  C15: a session that is left without commit or merge takes everything back: whatever is created, modified and
  removed in it, and whatever of this throws, afterwards all objects and all next ids are as at its start,
  the history goes on as before, and the restoration itself does not fail, as long as no unique key was
  taken over.
\<close>

theorem session_rolls_back:
  assumes "implements db h" and "list_all is_change evs" and "start_undo_session False (undo_db db) = (s, u)"
    and "safe_run (history_step clash) (event_safe clash) (Ev_start # evs) h"
    and "compatible clash (content db) (content (run_events (event_step clash) evs (db\<lparr>undo_db := u\<rparr>)))"
  shows "\<exists>db'. session_end clash (s, run_events (event_step clash) evs (db\<lparr>undo_db := u\<rparr>)) = Some db' \<and>
    content db' = content db \<and> implements db' (h\<lparr>past := take (limit h) (past h)\<rparr>)"
proof -
  let ?h = "h\<lparr>past := now h # take (limit h) (past h), open_sessions := Suc (open_sessions h)\<rparr>"
  let ?db = "run_events (event_step clash) evs (db\<lparr>undo_db := u\<rparr>)" and ?h' = "run_events (history_step clash) evs ?h"
  have s: "apply_undo s" "\<not> disable_on_exit s"
    using assms(1,3) by (auto simp: start_undo_session_def implements_def)
  have run: "implements ?db ?h'"
    using undo_history.run_related [OF assms(1,4)] assms(3) by (simp add: run_events_def)
  have past: "past ?h' = now h # take (limit h) (past h)" "open_sessions ?h' = Suc (open_sessions h)" "limit ?h' = limit h"
    using changes_keep_past [OF assms(2), of ?h clash] by simp_all
  have "event_safe clash Ev_undo ?h'"
    using assms(5) past implements_content [OF assms(1)] implements_content [OF run] by simp
  from undo_implements [OF run this] obtain db' where db': "undo clash ?db = Returned db'"
    "implements db' (?h'\<lparr>now := now h, past := take (limit h) (past h), open_sessions := open_sessions h\<rparr>)"
    using past by (cases "undo clash ?db") auto
  have "?h'\<lparr>now := now h, past := take (limit h) (past h), open_sessions := open_sessions h\<rparr> = h\<lparr>past := take (limit h) (past h)\<rparr>"
    using past(3) by (cases ?h', cases h) simp
  then show ?thesis using db' s implements_content [OF assms(1)] implements_content [OF db'(2)]
    by (intro exI [of _ db']) (simp add: session_end_def)
qed

theorem session_rolls_back_witness:
  "\<exists>s u db'. start_undo_session False (undo_db sample_rooms) = (s, u) \<and>
    session_end room_clash (s, run_events (event_step room_clash)
      [Ev_modify (Object_id rooms_id 1) (renamed ''stud''), Ev_remove (Object_id rooms_id 0), Ev_create rooms_id (Inl Overflow)]
      (sample_rooms\<lparr>undo_db := u\<rparr>)) = Some db' \<and> content db' = content sample_rooms"
proof -
  let ?evs = "[Ev_modify (Object_id rooms_id 1) (renamed ''stud''), Ev_remove (Object_id rooms_id 0), Ev_create rooms_id (Inl Overflow)]"
  let ?s = "fst (start_undo_session False (undo_db sample_rooms))" and ?u = "snd (start_undo_session False (undo_db sample_rooms))"
  have start: "start_undo_session False (undo_db sample_rooms) = (?s, ?u)" by simp
  have safe: "safe_run (history_step room_clash) (event_safe room_clash) (Ev_start # ?evs) sample_history" by code_simp
  have "compatible room_clash (content sample_rooms) (content (run_events (event_step room_clash) ?evs (sample_rooms\<lparr>undo_db := ?u\<rparr>)))"
    by code_simp
  then have "\<exists>db'. session_end room_clash (?s, run_events (event_step room_clash) ?evs (sample_rooms\<lparr>undo_db := ?u\<rparr>)) = Some db' \<and>
      content db' = content sample_rooms"
    using session_rolls_back [OF sample_implements _ start safe] by auto
  with start show ?thesis by blast
qed

text \<open>
  C16: a modification that gives an object the unique key of another one throws, as it should; but the
  container has erased the object, the session around it finds it no longer when it is undone, and the
  process ends.
\<close>

theorem collision_terminates:
  assumes "implements db h" and "fm_find (values_of (content db)) i = Some x"
    and "\<not> fits clash i (fst (f x)) (values_of (content db))" and "apply_undo s"
  shows "\<exists>e db'. primary_modify clash i f db = Thrown e db' \<and> session_end clash (s, db') = None"
proof -
  let ?db = "\<lparr>content = (content db)\<lparr>values_of := fm_erase i (values_of (content db))\<rparr>, undo_db = on_modify i x (undo_db db)\<rparr>"
  have thrown: "\<exists>e. primary_modify clash i f db = Thrown e ?db"
    using assms(2,3) by (simp add: primary_modify_def on_content_def generic_modify_def Let_def database_updates split: option.split)
  have enabled: "\<not> disabled (undo_db db)" using assms(1) by (simp add: implements_def)
  then obtain st sts where st: "stack (on_modify i x (undo_db db)) = state_on_modify i x st # sts"
    by (cases "stack (undo_db db)") (simp_all add: on_modify_def with_back_def)
  have "fm_find (old_values (state_on_modify i x st)) i \<noteq> None \<or> fm_find (new_ids (state_on_modify i x st)) i \<noteq> None"
    by (simp add: state_on_modify_def fm_keys_find_iff)
  then have "\<not> returned (restore clash (state_on_modify i x st) (set_disabled True ?db))"
    by (intro restore_absent [of _ i]) (simp_all add: set_disabled_def)
  with thrown undo_throws [of ?db, OF _ this assms(4)] st show ?thesis by simp blast
qed

theorem collision_terminates_witness:
  "\<exists>e db'. primary_modify room_clash (Object_id rooms_id 1) (renamed ''hold-em'') sample_rooms = Thrown e db' \<and>
    session_end room_clash (\<lparr>apply_undo = True, disable_on_exit = False\<rparr>, db') = None"
proof -
  have "fm_find (values_of (content sample_rooms)) (Object_id rooms_id 1) = Some (room_called ''omaha'')"
    by (simp add: sample_rooms_def two_rooms_def)
  moreover have "\<not> fits room_clash (Object_id rooms_id 1) (fst (renamed ''hold-em'' (room_called ''omaha''))) (values_of (content sample_rooms))"
    by code_simp
  ultimately show ?thesis by (rule collision_terminates [OF sample_implements]) simp
qed

text \<open>
  C17: a session that gave the key of an object to an object it created, which the chain accepts, cannot be
  undone: the old values are put back before the new objects are removed.
\<close>

theorem takeover_terminates:
  assumes "implements db h" and "past h = b # bs" and "apply_undo s"
    and "fm_find (values_of b) i = Some x" and "fm_find (values_of (content db)) i = Some y" and "x \<noteq> y"
    and "fm_find (values_of b) j = None" and "fm_find (values_of (content db)) j = Some z"
    and "index_of i = index_of j" and "clash x z"
  shows "session_end clash (s, db) = None"
proof -
  obtain st sts where st: "stack (undo_db db) = st # sts" "tracks st b (content db)"
    using implements_stack [OF assms(1,2)] by blast
  note at = tracks_objectD [OF st(2), unfolded tracks_object_def tracks_at_def]
  have "fm_find (old_values st) i = Some x" using at [of i] assms(4-6) by force
  moreover have "fm_find (old_values st) j = None" using at [of j] assms(7) by force
  moreover have "i \<noteq> j" using assms(4,7) by auto
  ultimately have "\<not> returned (restore clash st (set_disabled True db))"
    using assms(8-10) by (intro restore_taken [of st i x j _ z]) (simp_all add: set_disabled_def)
  from undo_throws [OF st(1) this assms(3)] show ?thesis .
qed

theorem takeover_terminates_witness:
  "\<exists>s u. start_undo_session False (undo_db sample_rooms) = (s, u) \<and>
    session_end room_clash (s, run_events (event_step room_clash)
      [Ev_modify (Object_id rooms_id 1) (renamed ''stud''), Ev_create rooms_id (Inr (room_called ''omaha''))]
      (sample_rooms\<lparr>undo_db := u\<rparr>)) = None"
proof -
  let ?evs = "[Ev_start, Ev_modify (Object_id rooms_id 1) (renamed ''stud''), Ev_create rooms_id (Inr (room_called ''omaha''))]"
  let ?s = "fst (start_undo_session False (undo_db sample_rooms))" and ?u = "snd (start_undo_session False (undo_db sample_rooms))"
  let ?db = "run_events (event_step room_clash) ?evs sample_rooms"
  have "safe_run (history_step room_clash) (event_safe room_clash) ?evs sample_history" by code_simp
  from undo_history.run_related [OF sample_implements this]
  have run: "implements ?db (run_events (history_step room_clash) ?evs sample_history)" .
  have past: "past (run_events (history_step room_clash) ?evs sample_history) = [two_rooms]" by code_simp
  have vals:
    "fm_find (values_of two_rooms) (Object_id rooms_id 1) = Some (room_called ''omaha'')"
    "fm_find (values_of (content ?db)) (Object_id rooms_id 1) = Some (room_called ''stud'')"
    "fm_find (values_of two_rooms) (Object_id rooms_id 2) = None"
    "fm_find (values_of (content ?db)) (Object_id rooms_id 2) = Some (room_called ''omaha'')"
    "room_called ''omaha'' \<noteq> room_called ''stud''" "room_clash (room_called ''omaha'') (room_called ''omaha'')" "apply_undo ?s"
    by code_simp+
  have "session_end room_clash (?s, ?db) = None"
    by (rule takeover_terminates [where clash = room_clash, OF run past vals(7,1,2,5,3,4) _ vals(6)]) simp
  moreover have "?db = run_events (event_step room_clash) (tl ?evs) (sample_rooms\<lparr>undo_db := ?u\<rparr>)" by (simp add: run_events_def)
  ultimately show ?thesis by (intro exI [of _ ?s] exI [of _ ?u]) simp
qed

end
