(* ===== verification/Forks.thy ===== *)
theory Forks
  imports Ledger Undo_History
begin

text \<open>
  The choice between forks (\<^verbatim>\<open>fork_database.cpp\<close>, \<^verbatim>\<open>database::push_block\<close> and \<^verbatim>\<open>pop_block\<close> of \<^verbatim>\<open>db_block.cpp\<close>): the
  blocks a node knows form a tree, the longest branch is applied, and when another branch becomes longer the
  node takes back its blocks and applies those of the other branch. The results: two branches are fetched
  down to their common ancestor; a push that fails leaves the state and the head as they were, also in the
  middle of a switch; and whatever blocks are pushed in whatever order, the chain keeps its invariant and
  its funds. The application of a block is an argument of the definitions, \<open>apply_block\<close> in the end.
\<close>

section \<open>Blocks\<close>

text \<open>
  The id of a block is its hash with the block number in the first 32 bits. The hash is a field here; the
  number follows from the id of the block before.
\<close>

datatype block_id = Block_id (num_from_id: nat) (id_hash: nat)

definition no_block :: block_id where
  "no_block = Block_id 0 0"

record 'b signed_block =
  sb_previous :: block_id
  sb_hash :: nat
  sb_body :: 'b

definition block_num :: "'b signed_block \<Rightarrow> nat" where
  "block_num b = num_from_id (sb_previous b) + 1"

definition sb_id :: "'b signed_block \<Rightarrow> block_id" where
  "sb_id b = Block_id (block_num b) (sb_hash b)"

section \<open>The fork database\<close>

text \<open>
  An item is a block with a weak pointer to the item of the block before, which is set when the block links
  to the known tree. The index is ordered by number, and by arrival among equal numbers; ids are unique in
  it. A weak pointer can be followed while the item is in the index or is the head.
\<close>

record 'b fork_item =
  item_data :: "'b signed_block"
  item_linked :: bool

abbreviation item_num :: "'b fork_item \<Rightarrow> nat" where
  "item_num i \<equiv> block_num (item_data i)"

abbreviation item_id :: "'b fork_item \<Rightarrow> block_id" where
  "item_id i \<equiv> sb_id (item_data i)"

record 'b fork_database =
  fork_index :: "'b fork_item list"
  fork_head :: "'b fork_item option"
  fork_max_size :: nat

definition fetch_block :: "'b fork_database \<Rightarrow> block_id \<Rightarrow> 'b fork_item option" where
  "fetch_block fd k = List.find (\<lambda>i. item_id i = k) (fork_index fd)"

definition is_known_block :: "'b fork_database \<Rightarrow> block_id \<Rightarrow> bool" where
  "is_known_block fd k \<longleftrightarrow> fetch_block fd k \<noteq> None"

definition fetch_block_by_number :: "'b fork_database \<Rightarrow> nat \<Rightarrow> 'b fork_item list" where
  "fetch_block_by_number fd n = takeWhile (\<lambda>i. item_num i = n) (dropWhile (\<lambda>i. item_num i < n) (fork_index fd))"

definition lock_prev :: "'b fork_database \<Rightarrow> 'b fork_item \<Rightarrow> 'b fork_item option" where
  "lock_prev fd i =
     (let k = sb_previous (item_data i)
      in if \<not> item_linked i then None
         else case fork_head fd of
                Some h \<Rightarrow> if item_id h = k then Some h else fetch_block fd k
              | None \<Rightarrow> fetch_block fd k)"

definition index_insert :: "'b fork_item \<Rightarrow> 'b fork_item list \<Rightarrow> 'b fork_item list" where
  "index_insert i is =
     (if list_ex (\<lambda>j. item_id j = item_id i) is then is
      else takeWhile (\<lambda>j. item_num j \<le> item_num i) is @ i # dropWhile (\<lambda>j. item_num j \<le> item_num i) is)"

definition fork_reset :: "'b fork_database \<Rightarrow> 'b fork_database" where
  "fork_reset fd = fd\<lparr>fork_head := None, fork_index := []\<rparr>"

definition start_block :: "'b signed_block \<Rightarrow> 'b fork_database \<Rightarrow> 'b fork_database" where
  "start_block b fd =
     (let i = \<lparr>item_data = b, item_linked = False\<rparr>
      in fd\<lparr>fork_index := index_insert i (fork_index fd), fork_head := Some i\<rparr>)"

definition fork_pop_block :: "'b fork_database \<Rightarrow> 'b fork_database res" where
  "fork_pop_block fd =
     (case fork_head fd of
        None \<Rightarrow> Inl (Assert ''no block to pop'')
      | Some h \<Rightarrow> (case lock_prev fd h of
          None \<Rightarrow> Inl (Assert ''popping block would leave head block null'')
        | Some p \<Rightarrow> Inr (fd\<lparr>fork_head := Some p\<rparr>)))"

text \<open>A block that is too old or does not link is refused; a higher block becomes the head and old ones are dropped.\<close>

definition fork_push_block :: "'b signed_block \<Rightarrow> 'b fork_database \<Rightarrow> 'b fork_database res" where
  "fork_push_block b fd =
     ebind (case fork_head fd of
              None \<Rightarrow> Inr False
            | Some h \<Rightarrow>
                ebind (check (int (block_num b) > max 0 (int (item_num h) - int (fork_max_size fd)))
                  ''attempting to push a block that is too old'') (\<lambda>_.
                if sb_previous b \<noteq> no_block
                then ebind (check (is_known_block fd (sb_previous b)) ''block does not link to known chain'') (\<lambda>_. Inr True)
                else Inr False)) (\<lambda>linked.
     let i = \<lparr>item_data = b, item_linked = linked\<rparr>;
         fd = fd\<lparr>fork_index := index_insert i (fork_index fd)\<rparr>
     in case fork_head fd of
          None \<Rightarrow> Inr (fd\<lparr>fork_head := Some i\<rparr>)
        | Some h \<Rightarrow>
            if block_num b > item_num h
            then Inr (fd\<lparr>fork_head := Some i,
                   fork_index := dropWhile (\<lambda>j. item_num j < block_num b - min (fork_max_size fd) (block_num b)) (fork_index fd)\<rparr>)
            else Inr fd)"

definition fork_set_max_size :: "nat \<Rightarrow> 'b fork_database \<Rightarrow> 'b fork_database" where
  "fork_set_max_size s fd =
     (let fd = fd\<lparr>fork_max_size := s\<rparr>
      in case fork_head fd of
           None \<Rightarrow> fd
         | Some h \<Rightarrow> fd\<lparr>fork_index := dropWhile (\<lambda>j. int (item_num j) < max 0 (int (item_num h) - int s)) (fork_index fd)\<rparr>)"

definition fork_set_head :: "'b fork_item \<Rightarrow> 'b fork_database \<Rightarrow> 'b fork_database" where
  "fork_set_head h fd = fd\<lparr>fork_head := Some h\<rparr>"

definition fork_remove :: "block_id \<Rightarrow> 'b fork_database \<Rightarrow> 'b fork_database" where
  "fork_remove k fd =
     (let fd = fd\<lparr>fork_index := filter (\<lambda>i. item_id i \<noteq> k) (fork_index fd)\<rparr>
      in case fork_head fd of
           None \<Rightarrow> fd
         | Some h \<Rightarrow>
             if item_id h \<noteq> k then fd
             else case fork_pop_block fd of Inr fd \<Rightarrow> fd | Inl e \<Rightarrow> fd\<lparr>fork_head := None\<rparr>)"

section \<open>Two branches\<close>

lemma find_id: "fetch_block fd k = Some i \<Longrightarrow> item_id i = k \<and> i \<in> set (fork_index fd)"
  unfolding fetch_block_def by (auto simp: find_Some_iff)

lemma lock_prev_id: "lock_prev fd i = Some p \<Longrightarrow> item_id p = sb_previous (item_data i)"
  by (auto simp: lock_prev_def Let_def dest: find_id split: option.splits if_splits)

lemma lock_prev_num: "lock_prev fd i = Some p \<Longrightarrow> item_num i = Suc (item_num p)"
  using lock_prev_id [of fd i p] by (simp add: sb_id_def block_num_def [of "item_data i"]) (metis block_id.sel(1))

text \<open>The first two loops walk one branch down to the height of the other, the third both to a common parent.\<close>

function climb :: "'b fork_database \<Rightarrow> nat \<Rightarrow> 'b fork_item \<Rightarrow> ('b fork_item list \<times> 'b fork_item) res" where
  "climb fd n i =
     (if item_num i > n
      then (case lock_prev fd i of
              None \<Rightarrow> Inl (Assert ''first_branch'')
            | Some p \<Rightarrow> ebind (climb fd n p) (\<lambda>(is, j). Inr (i # is, j)))
      else Inr ([], i))"
  by auto
termination
  by (relation "measure (\<lambda>(fd, n, i). item_num i)") (auto dest: lock_prev_num)

function meet :: "'b fork_database \<Rightarrow> 'b fork_item \<Rightarrow> 'b fork_item \<Rightarrow> ('b fork_item list \<times> 'b fork_item list) res" where
  "meet fd f s =
     (if sb_previous (item_data f) \<noteq> sb_previous (item_data s)
      then (case lock_prev fd f of
              None \<Rightarrow> Inl (Assert ''first_branch'')
            | Some f' \<Rightarrow> (case lock_prev fd s of
                None \<Rightarrow> Inl (Assert ''second_branch'')
              | Some s' \<Rightarrow> ebind (meet fd f' s') (\<lambda>(fs, ss). Inr (f # fs, s # ss))))
      else Inr ([f], [s]))"
  by auto
termination
  by (relation "measure (\<lambda>(fd, f, s). item_num f)") (auto dest: lock_prev_num)

declare climb.simps [simp del] meet.simps [simp del]

definition fetch_branch_from ::
  "'b fork_database \<Rightarrow> block_id \<Rightarrow> block_id \<Rightarrow> ('b fork_item list \<times> 'b fork_item list) res" where
  "fetch_branch_from fd first second =
     ebind (of_option (Assert ''first_branch_itr'') (fetch_block fd first)) (\<lambda>f.
     ebind (of_option (Assert ''second_branch_itr'') (fetch_block fd second)) (\<lambda>s.
     ebind (climb fd (item_num s) f) (\<lambda>(fs, f).
     ebind (climb fd (item_num f) s) (\<lambda>(ss, s).
     ebind (meet fd f s) (\<lambda>(fs', ss').
       Inr (fs @ fs', ss @ ss'))))))"

section \<open>The node\<close>

text \<open>
  The state at the head block and the states before the last blocks, newest first, with their head ids:
  what the undo history can go back to. Pending transactions are dropped before a block is pushed and pushed
  again behind it; they never change these states.
\<close>

record ('d, 'b) node =
  fork_db :: "'b fork_database"
  state :: 'd
  head_block_id :: block_id
  undo_stack :: "('d \<times> block_id) list"
  undo_max_size :: nat

abbreviation head_block_num :: "('d, 'b) node \<Rightarrow> nat" where
  "head_block_num n \<equiv> num_from_id (head_block_id n)"

text \<open>
  A block is applied in a session that is committed when it succeeds, and undone when it throws. The
  history drops its oldest states when a session starts. The sizes of the history and of the fork database are
  settings of the node here; the code sets them with every block to the distance to the irreversible block. An undo
  that ends the process (\<^verbatim>\<open>Undo_History\<close>) is outside of this model: an exception is always unwound.
\<close>

definition apply_in_session :: "('b \<Rightarrow> 'd \<Rightarrow> 'd res) \<Rightarrow> 'b signed_block \<Rightarrow> ('d, 'b) node \<Rightarrow> ('d, 'b) node outcome" where
  "apply_in_session step b n =
     (let n = n\<lparr>undo_stack := take (undo_max_size n) (undo_stack n)\<rparr>
      in case ebind (check (head_block_id n = sb_previous b) ''head_block_id() == next_block.previous'')
                (\<lambda>_. step (sb_body b) (state n)) of
           Inl e \<Rightarrow> Thrown e n
         | Inr d \<Rightarrow> Returned (n\<lparr>state := d, head_block_id := sb_id b, undo_stack := (state n, head_block_id n) # undo_stack n\<rparr>))"

definition pop_block :: "('d, 'b) node \<Rightarrow> ('d, 'b) node outcome" where
  "pop_block n =
     (case fork_head (fork_db n) of
        None \<Rightarrow> Thrown (Assert ''Trying to pop() from empty fork database!?'') n
      | Some h \<Rightarrow>
          (case (if item_id h = head_block_id n then fork_pop_block (fork_db n)
                 else ebind (check (is_known_block (fork_db n) (head_block_id n))
                        ''Trying to pop() block that is not in fork database!?'') (\<lambda>_. Inr (fork_db n))) of
             Inl e \<Rightarrow> Thrown e n
           | Inr fd \<Rightarrow>
               (case undo_stack n of
                  [] \<Rightarrow> Thrown (Assert ''!_stack.empty()'') (n\<lparr>fork_db := fd\<rparr>)
                | (d, k) # us \<Rightarrow> Returned (n\<lparr>fork_db := fd, state := d, head_block_id := k, undo_stack := us\<rparr>))))"

lemma pop_block_stack: "pop_block n = Returned n' \<Longrightarrow> length (undo_stack n) = Suc (length (undo_stack n'))"
  by (auto simp: pop_block_def split: option.splits sum.splits list.splits)

function pop_until :: "block_id \<Rightarrow> ('d, 'b) node \<Rightarrow> ('d, 'b) node outcome" where
  "pop_until k n =
     (if head_block_id n = k then Returned n
      else case pop_block n of Thrown e n' \<Rightarrow> Thrown e n' | Returned n' \<Rightarrow> pop_until k n')"
  by auto
termination
  by (relation "measure (\<lambda>(k, n). length (undo_stack n))") (auto dest: pop_block_stack)

declare pop_until.simps [simp del]

text \<open>
  Switching: the blocks of the new branch from the oldest on. When one throws, it and those behind it are
  removed from the fork database, the old head is set again, what was applied of the new branch is popped
  and the old branch is applied again; then the exception is thrown on.
\<close>

fun switch_forks ::
  "('b \<Rightarrow> 'd \<Rightarrow> 'd res) \<Rightarrow> 'b fork_item list \<Rightarrow> 'b fork_item list \<Rightarrow> ('d, 'b) node \<Rightarrow> ('d, 'b) node outcome" where
  "switch_forks step old [] n = Returned n"
| "switch_forks step old (i # is) n =
     (case apply_in_session step (item_data i) n of
        Returned n' \<Rightarrow> switch_forks step old is n'
      | Thrown e n' \<Rightarrow>
          andthen (pop_until (sb_previous (item_data (last old)))
                     (n'\<lparr>fork_db := fork_set_head (hd old) (fold (\<lambda>j. fork_remove (item_id j)) (i # is) (fork_db n'))\<rparr>)) (\<lambda>n'.
          andthen (ofold (\<lambda>j. apply_in_session step (item_data j)) (rev old) n') (Thrown e)))"

definition push_block :: "('b \<Rightarrow> 'd \<Rightarrow> 'd res) \<Rightarrow> 'b signed_block \<Rightarrow> ('d, 'b) node \<Rightarrow> ('d, 'b) node outcome" where
  "push_block step b n =
     (case fork_push_block b (fork_db n) of
        Inl e \<Rightarrow> Thrown e n
      | Inr fd \<Rightarrow>
          (let n = n\<lparr>fork_db := fd\<rparr>
           in case fork_head fd of
                None \<Rightarrow> Thrown Null_deref n
              | Some new_head \<Rightarrow>
                  if sb_previous (item_data new_head) \<noteq> head_block_id n
                  then if item_num new_head > head_block_num n
                       then (case fetch_branch_from fd (item_id new_head) (head_block_id n) of
                               Inl e \<Rightarrow> Thrown e n
                             | Inr (new, old) \<Rightarrow>
                                 andthen (pop_until (sb_previous (item_data (last old))) n) (switch_forks step old (rev new)))
                       else Returned n
                  else (case apply_in_session step b n of
                          Returned n \<Rightarrow> Returned n
                        | Thrown e n \<Rightarrow> Thrown e (n\<lparr>fork_db := fork_remove (sb_id b) (fork_db n)\<rparr>))))"

section \<open>Every state a node can be in\<close>

text \<open>
  A property that every block keeps holds of the state of a node and of all states it can go back to,
  whatever is pushed.
\<close>

definition all_states :: "('d \<Rightarrow> bool) \<Rightarrow> ('d, 'b) node \<Rightarrow> bool" where
  "all_states P n \<longleftrightarrow> P (state n) \<and> (\<forall>(d, k) \<in> set (undo_stack n). P d)"

lemma all_states_iff: "all_states P n \<longleftrightarrow> P (state n) \<and> (\<forall>d k. (d, k) \<in> set (undo_stack n) \<longrightarrow> P d)"
  by (auto simp: all_states_def)

locale block_invariant =
  fixes step :: "'b \<Rightarrow> 'd \<Rightarrow> 'd res" and P :: "'d \<Rightarrow> bool"
  assumes step_keeps: "P d \<Longrightarrow> step b d = Inr d' \<Longrightarrow> P d'"
begin

lemma apply_in_session_keeps: "all_states P n \<Longrightarrow> all_states P (outcome_state (apply_in_session step b n))"
  by (auto simp: all_states_def apply_in_session_def Let_def res_simps dest: in_set_takeD step_keeps split: sum.splits)

lemma pop_block_keeps: "all_states P n \<Longrightarrow> all_states P (outcome_state (pop_block n))"
  by (auto simp: all_states_def pop_block_def split: option.splits sum.splits list.splits)

lemma pop_until_keeps: "all_states P n \<Longrightarrow> all_states P (outcome_state (pop_until k n))"
proof (induction k n rule: pop_until.induct)
  case (1 k n)
  then show ?case using pop_block_keeps [of n]
    by (subst pop_until.simps) (auto split: outcome.splits)
qed

lemma ofold_keeps_states:
  "all_states P n \<Longrightarrow> all_states P (outcome_state (ofold (\<lambda>j. apply_in_session step (item_data j)) is n))"
proof (induction "is" arbitrary: n)
  case (Cons i "is")
  then show ?case using apply_in_session_keeps [OF Cons.prems, of "item_data i"]
    by (cases "apply_in_session step (item_data i) n") auto
qed simp

lemma with_fork_db [simp]: "all_states P (n\<lparr>fork_db := fd\<rparr>) \<longleftrightarrow> all_states P n"
  by (simp add: all_states_def)

lemma switch_forks_keeps: "all_states P n \<Longrightarrow> all_states P (outcome_state (switch_forks step old is n))"
proof (induction "is" arbitrary: n)
  case (Cons i "is")
  show ?case
  proof (cases "apply_in_session step (item_data i) n")
    case (Returned n')
    then show ?thesis using Cons apply_in_session_keeps [OF Cons.prems, of "item_data i"] by simp
  next
    case (Thrown e n')
    let ?n = "n'\<lparr>fork_db := fork_set_head (hd old) (fold (\<lambda>j. fork_remove (item_id j)) (i # is) (fork_db n'))\<rparr>"
    have "all_states P ?n" using Thrown apply_in_session_keeps [OF Cons.prems, of "item_data i"] by simp
    then have "all_states P (outcome_state (pop_until (sb_previous (item_data (last old))) ?n))" by (rule pop_until_keeps)
    then show ?thesis using Thrown
    proof (cases "pop_until (sb_previous (item_data (last old))) ?n")
      case (Returned m)
      with \<open>all_states P (outcome_state _)\<close> have "all_states P m" by simp
      then have "all_states P (outcome_state (ofold (\<lambda>j. apply_in_session step (item_data j)) (rev old) m))"
        by (rule ofold_keeps_states)
      then show ?thesis using Thrown Returned
        by (cases "ofold (\<lambda>j. apply_in_session step (item_data j)) (rev old) m") auto
    qed simp
  qed
qed simp

lemma push_block_keeps:
  assumes "all_states P n"
  shows "all_states P (outcome_state (push_block step b n))"
proof -
  have switch: "all_states P (outcome_state (andthen (pop_until k m) (switch_forks step old is)))" if "all_states P m" for k m old "is"
    using pop_until_keeps [OF that, of k] switch_forks_keeps by (cases "pop_until k m") auto
  have here: "all_states P m" if "apply_in_session step b (n\<lparr>fork_db := fd\<rparr>) = Returned m" for m fd
    using that apply_in_session_keeps [of "n\<lparr>fork_db := fd\<rparr>" b] assms by simp
  have failed: "all_states P m" if "apply_in_session step b (n\<lparr>fork_db := fd\<rparr>) = Thrown e m" for m fd e
    using that apply_in_session_keeps [of "n\<lparr>fork_db := fd\<rparr>" b] assms by simp
  show ?thesis using assms
    by (auto simp: push_block_def Let_def intro!: switch dest: here failed split: sum.splits option.splits outcome.splits)
qed

lemma pushes_keep: "all_states P n \<Longrightarrow> all_states P (run_events (push_block step) bs n)"
  by (induction bs arbitrary: n) (auto simp: run_events_def push_block_keeps)

end

section \<open>Applying and popping a branch\<close>

text \<open>
  A branch from the oldest block on: each block links to the one before. Applying it leaves a trace of the
  states before its blocks in the history, and popping it follows the trace back.
\<close>

fun chain_up :: "block_id \<Rightarrow> 'b fork_item list \<Rightarrow> bool" where
  "chain_up k [] \<longleftrightarrow> True"
| "chain_up k (i # is) \<longleftrightarrow> sb_previous (item_data i) = k \<and> chain_up (item_id i) is"

definition end_id :: "block_id \<Rightarrow> 'b fork_item list \<Rightarrow> block_id" where
  "end_id k is = (if is = [] then k else item_id (last is))"

abbreviation apply_bodies :: "('b \<Rightarrow> 'd \<Rightarrow> 'd res) \<Rightarrow> 'b fork_item list \<Rightarrow> 'd \<Rightarrow> 'd res" where
  "apply_bodies step \<equiv> efold (\<lambda>j. step (sb_body (item_data j)))"

fun trace :: "('b \<Rightarrow> 'd \<Rightarrow> 'd res) \<Rightarrow> 'd \<Rightarrow> block_id \<Rightarrow> 'b fork_item list \<Rightarrow> ('d \<times> block_id) list" where
  "trace step d k [] = []"
| "trace step d k (i # is) =
     (d, k) # (case step (sb_body (item_data i)) d of Inl e \<Rightarrow> [] | Inr d' \<Rightarrow> trace step d' (item_id i) is)"

lemma chain_up_append: "chain_up k (is @ js) \<longleftrightarrow> chain_up k is \<and> chain_up (end_id k is) js"
  by (induction "is" arbitrary: k) (auto simp: end_id_def)

lemma chain_up_num: "chain_up k is \<Longrightarrow> i \<in> set is \<Longrightarrow> num_from_id k < item_num i"
proof (induction "is" arbitrary: k)
  case (Cons j "is")
  have j: "item_num j = Suc (num_from_id k)" using Cons.prems by (simp add: block_num_def)
  show ?case
  proof (cases "i = j")
    case False
    then have "num_from_id (item_id j) < item_num i" using Cons by auto
    then show ?thesis using j by (simp add: sb_id_def)
  qed (simp add: j)
qed simp

lemma item_id_num: "num_from_id (item_id i) = item_num i"
  by (simp add: sb_id_def)

lemma chain_up_end: "chain_up k is \<Longrightarrow> is \<noteq> [] \<Longrightarrow> end_id k is \<noteq> k"
  using chain_up_num [of k "is" "last is"] by (auto simp: end_id_def item_id_num dest!: arg_cong [of _ _ num_from_id])

lemma end_id_snoc [simp]: "end_id k (is @ [i]) = item_id i" "end_id k [] = k"
  by (simp_all add: end_id_def)

lemma trace_snoc:
  "apply_bodies step is d = Inr d' \<Longrightarrow> trace step d k (is @ [i]) = trace step d k is @ [(d', end_id k is)]"
proof (induction "is" arbitrary: d k)
  case (Cons j "is")
  have "end_id k (j # is) = end_id (item_id j) is" by (simp add: end_id_def)
  then show ?case using Cons by (auto simp: res_simps)
qed (simp split: sum.split)

lemma apply_bodies_append: "apply_bodies step (is @ js) d = ebind (apply_bodies step is d) (apply_bodies step js)"
  by (induction "is" arbitrary: d) (auto simp: ebind_def split: sum.splits)

text \<open>A node whose history is the trace of a branch, behind which older states follow.\<close>

definition stands_on :: "('b \<Rightarrow> 'd \<Rightarrow> 'd res) \<Rightarrow> 'd \<Rightarrow> block_id \<Rightarrow> ('d \<times> block_id) list \<Rightarrow> 'b fork_item list \<Rightarrow> ('d, 'b) node \<Rightarrow> bool" where
  "stands_on step d k us is n \<longleftrightarrow>
     chain_up k is \<and> apply_bodies step is d = Inr (state n) \<and> head_block_id n = end_id k is \<and>
     (\<exists>j. undo_stack n = rev (trace step d k is) @ take j us)"

lemma apply_linked:
  assumes on: "stands_on step d k us is n" and prev: "sb_previous (item_data i) = end_id k is" and room: "length is \<le> undo_max_size n"
    and len: "length (trace step d k is) = length is"
  shows "case apply_in_session step (item_data i) n of
      Returned m \<Rightarrow> stands_on step d k us (is @ [i]) m \<and> fork_db m = fork_db n \<and> undo_max_size m = undo_max_size n \<and>
        length (undo_stack m) \<le> Suc (undo_max_size m)
    | Thrown e m \<Rightarrow> stands_on step d k us is m \<and> fork_db m = fork_db n \<and> undo_max_size m = undo_max_size n \<and>
        length (undo_stack m) \<le> Suc (undo_max_size m) \<and> apply_bodies step (is @ [i]) d = Inl e"
proof -
  obtain j where j: "undo_stack n = rev (trace step d k is) @ take j us" using on by (auto simp: stands_on_def)
  have cut: "\<exists>j. take (undo_max_size n) (undo_stack n) = rev (trace step d k is) @ take j us"
    using room len unfolding j by (auto simp: take_append min_def)
  show ?thesis
  proof (cases "step (sb_body (item_data i)) (state n)")
    case (Inl e)
    then show ?thesis using on prev cut
      by (auto simp: apply_in_session_def Let_def stands_on_def check_def apply_bodies_append)
  next
    case (Inr d')
    then show ?thesis using on prev cut
      by (auto simp: apply_in_session_def Let_def stands_on_def check_def apply_bodies_append chain_up_append trace_snoc)
  qed
qed

lemma trace_length: "apply_bodies step is d = Inr d' \<Longrightarrow> length (trace step d k is) = length is"
  by (induction "is" arbitrary: d k) (auto simp: res_simps)

lemma andthen_id [simp]: "andthen r (ofold f []) = r"
  by (cases r) auto

lemma ofold_append: "ofold f (xs @ ys) s = andthen (ofold f xs s) (ofold f ys)"
proof (induction xs arbitrary: s)
  case (Cons x xs)
  then show ?case by (cases "f x s") auto
qed simp

lemma pop_until_at: "head_block_id n = k \<Longrightarrow> pop_until k n = Returned n"
  by (subst pop_until.simps) simp

lemma pop_trace:
  assumes "stands_on step d k us is n" and "fork_head (fork_db n) = Some h"
    and "\<And>i. i \<in> set is \<Longrightarrow> is_known_block (fork_db n) (item_id i) \<and> item_id i \<noteq> item_id h"
  shows "\<exists>m. pop_until k n = Returned m \<and> stands_on step d k us [] m \<and> fork_db m = fork_db n \<and>
     undo_max_size m = undo_max_size n \<and> length (undo_stack m) \<le> length (undo_stack n)"
  using assms
proof (induction "is" arbitrary: n rule: rev_induct)
  case Nil
  then show ?case using pop_until_at [of n k] by (auto simp: stands_on_def)
next
  case (snoc i "is")
  have on: "chain_up k (is @ [i])" "apply_bodies step (is @ [i]) d = Inr (state n)" "head_block_id n = item_id i"
    using snoc.prems(1) by (auto simp: stands_on_def)
  obtain j where j: "undo_stack n = rev (trace step d k (is @ [i])) @ take j us" using snoc.prems(1) by (auto simp: stands_on_def)
  obtain d' where d': "apply_bodies step is d = Inr d'" using on(2) by (auto simp: apply_bodies_append res_simps)
  let ?m = "n\<lparr>state := d', head_block_id := end_id k is, undo_stack := rev (trace step d k is) @ take j us\<rparr>"
  have "pop_block n = Returned ?m"
    using snoc.prems(2) snoc.prems(3) [of i] on(3) j d' by (auto simp: pop_block_def trace_snoc check_def)
  moreover have "head_block_id n \<noteq> k" using chain_up_end [OF on(1)] on(3) by simp
  ultimately have step: "pop_until k n = pop_until k ?m" by (subst pop_until.simps) simp
  have "stands_on step d k us is ?m" using on(1) d' by (auto simp: stands_on_def chain_up_append)
  from snoc.IH [OF this] snoc.prems(2,3) have "\<exists>m. pop_until k ?m = Returned m \<and> stands_on step d k us [] m \<and> fork_db m = fork_db ?m \<and>
     undo_max_size m = undo_max_size ?m \<and> length (undo_stack m) \<le> length (undo_stack ?m)" by simp
  then show ?case unfolding step using j by (force simp: trace_snoc [OF d'])
qed

lemma apply_branch:
  assumes "stands_on step d k us [] n" and "chain_up k is" and "apply_bodies step is d = Inr d'" and "length is \<le> undo_max_size n"
    and "length (undo_stack n) \<le> Suc (undo_max_size n)"
  shows "\<exists>m. ofold (\<lambda>j. apply_in_session step (item_data j)) is n = Returned m \<and> stands_on step d k us is m \<and>
     fork_db m = fork_db n \<and> undo_max_size m = undo_max_size n \<and> length (undo_stack m) \<le> Suc (undo_max_size m)"
  using assms(2-4)
proof (induction "is" arbitrary: d' rule: rev_induct)
  case Nil
  then show ?case using assms(1,5) by auto
next
  case (snoc i "is")
  obtain e where e: "apply_bodies step is d = Inr e" using snoc.prems(2) by (auto simp: apply_bodies_append res_simps)
  obtain m where m: "ofold (\<lambda>j. apply_in_session step (item_data j)) is n = Returned m" "stands_on step d k us is m"
    "fork_db m = fork_db n" "undo_max_size m = undo_max_size n"
    using snoc.IH [OF _ e] snoc.prems by (auto simp: chain_up_append)
  have prev: "sb_previous (item_data i) = end_id k is" using snoc.prems(1) by (simp add: chain_up_append)
  note one = apply_linked [OF m(2) prev _ trace_length [OF e]]
  have fold: "ofold (\<lambda>j. apply_in_session step (item_data j)) (is @ [i]) n = apply_in_session step (item_data i) m"
    using m(1) by (simp add: ofold_append)
  show ?case
  proof (cases "apply_in_session step (item_data i) m")
    case (Returned m')
    then show ?thesis using one snoc.prems(3) m(3,4) fold by auto
  next
    case (Thrown x m')
    then show ?thesis using one snoc.prems(2,3) m(4) by auto
  qed
qed

section \<open>Switching\<close>

lemma known_iff: "is_known_block fd k \<longleftrightarrow> (\<exists>i \<in> set (fork_index fd). item_id i = k)"
  unfolding is_known_block_def fetch_block_def by (auto simp: find_None_iff)

lemma pop_index: "fork_pop_block fd = Inr fd' \<Longrightarrow> fork_index fd' = fork_index fd \<and> fork_max_size fd' = fork_max_size fd"
  by (auto simp: fork_pop_block_def split: option.splits)

lemma remove_index:
  "set (fork_index (fork_remove k fd)) = {i \<in> set (fork_index fd). item_id i \<noteq> k}"
  "fork_max_size (fork_remove k fd) = fork_max_size fd"
  by (auto simp: fork_remove_def Let_def dest: pop_index split: option.splits sum.splits)

lemma remove_all_index:
  "set (fork_index (fold (\<lambda>j. fork_remove (item_id j)) js fd)) = {i \<in> set (fork_index fd). item_id i \<notin> item_id ` set js}"
  "fork_max_size (fold (\<lambda>j. fork_remove (item_id j)) js fd) = fork_max_size fd"
  by (induction js arbitrary: fd) (auto simp: remove_index)

lemma chain_up_distinct:
  "chain_up k (is @ js) \<Longrightarrow> i \<in> set is \<Longrightarrow> j \<in> set js \<Longrightarrow> item_id i \<noteq> item_id j"
proof (induction "is" arbitrary: k)
  case (Cons i' "is")
  then show ?case
  proof (cases "i = i'")
    case True
    with Cons.prems have "num_from_id (item_id i) < item_num j" by (intro chain_up_num [of _ "is @ js"]) auto
    then show ?thesis using item_id_num by (metis less_irrefl)
  qed auto
qed simp

lemma switch_unwinds:
  assumes old: "chain_up k os" "os \<noteq> []" "apply_bodies step os d = Inr d_old" "length os \<le> undo_max_size n"
    and on: "stands_on step d k us ps n" and up: "chain_up k (ps @ is)" and room: "length (ps @ is) \<le> undo_max_size n"
    and len: "length (undo_stack n) \<le> Suc (undo_max_size n)"
    and known: "\<And>i. i \<in> set ps \<Longrightarrow> is_known_block (fork_db n) (item_id i)"
    and other: "\<And>i. i \<in> set ps \<union> set is \<Longrightarrow> item_id i \<noteq> item_id (last os)"
    and there: "\<And>i. i \<in> set is \<Longrightarrow> is_known_block (fork_db n) (item_id i)"
  shows "case switch_forks step (rev os) is n of
      Returned m \<Rightarrow> stands_on step d k us (ps @ is) m \<and> fork_db m = fork_db n \<and> undo_max_size m = undo_max_size n \<and>
        length (undo_stack m) \<le> Suc (undo_max_size m)
    | Thrown e m \<Rightarrow> stands_on step d k us os m \<and> undo_max_size m = undo_max_size n \<and> length (undo_stack m) \<le> Suc (undo_max_size m) \<and>
        (\<exists>js. set js \<subseteq> set is \<and> last is \<in> set js \<and>
          fork_db m = fork_set_head (last os) (fold (\<lambda>j. fork_remove (item_id j)) js (fork_db n)))"
  using assms(4-)
proof (induction "is" arbitrary: ps n)
  case Nil
  then show ?case by simp
next
  case (Cons i "is")
  have ran: "apply_bodies step ps d = Inr (state n)" using Cons.prems(2) by (simp add: stands_on_def)
  have prev: "sb_previous (item_data i) = end_id k ps" using Cons.prems(3) by (simp add: chain_up_append)
  have "length ps \<le> undo_max_size n" using Cons.prems(4) by simp
  note one = apply_linked [OF Cons.prems(2) prev this trace_length [OF ran]]
  show ?case
  proof (cases "apply_in_session step (item_data i) n")
    case (Returned m)
    then have m: "stands_on step d k us (ps @ [i]) m" "fork_db m = fork_db n" "undo_max_size m = undo_max_size n"
      "length (undo_stack m) \<le> Suc (undo_max_size m)" using one by auto
    have ih: "case switch_forks step (rev os) is m of
        Returned m' \<Rightarrow> stands_on step d k us ((ps @ [i]) @ is) m' \<and> fork_db m' = fork_db m \<and> undo_max_size m' = undo_max_size m \<and>
          length (undo_stack m') \<le> Suc (undo_max_size m')
      | Thrown e m' \<Rightarrow> stands_on step d k us os m' \<and> undo_max_size m' = undo_max_size m \<and> length (undo_stack m') \<le> Suc (undo_max_size m') \<and>
          (\<exists>js. set js \<subseteq> set is \<and> last is \<in> set js \<and>
            fork_db m' = fork_set_head (last os) (fold (\<lambda>j. fork_remove (item_id j)) js (fork_db m)))"
      by (rule Cons.IH [of m "ps @ [i]"]) (use m Cons.prems in auto)
    have step: "switch_forks step (rev os) (i # is) n = switch_forks step (rev os) is m" using Returned by simp
    show ?thesis
    proof (cases "switch_forks step (rev os) is m")
      case (Returned m')
      then show ?thesis using ih m(2,3) unfolding step by simp
    next
      case (Thrown e m')
      then obtain js where js: "set js \<subseteq> set is" "last is \<in> set js"
        "fork_db m' = fork_set_head (last os) (fold (\<lambda>j. fork_remove (item_id j)) js (fork_db m))" using ih by auto
      have "is \<noteq> []" using js(1,2) by auto
      then have "set js \<subseteq> set (i # is) \<and> last (i # is) \<in> set js \<and>
          fork_db m' = fork_set_head (last os) (fold (\<lambda>j. fork_remove (item_id j)) js (fork_db n))" using js m(2) by auto
      then show ?thesis using ih m(2,3) Thrown unfolding step by auto
    qed
  next
    case (Thrown e m)
    define fd where "fd = fork_set_head (last os) (fold (\<lambda>j. fork_remove (item_id j)) (i # is) (fork_db m))"
    have m: "stands_on step d k us ps m" "fork_db m = fork_db n" "undo_max_size m = undo_max_size n"
      "length (undo_stack m) \<le> Suc (undo_max_size m)" using one Thrown by auto
    have on: "stands_on step d k us ps (m\<lparr>fork_db := fd\<rparr>)" using m(1) by (simp add: stands_on_def)
    have kept: "is_known_block fd (item_id j) \<and> item_id j \<noteq> item_id (last os)" if "j \<in> set ps" for j
      using Cons.prems(6) [OF that] Cons.prems(7) that chain_up_distinct [OF Cons.prems(3) that] m(2)
      unfolding known_iff fd_def fork_set_head_def by (fastforce simp: remove_all_index simp del: fold.simps)
    have head: "fork_head fd = Some (last os)" by (simp add: fd_def fork_set_head_def)
    have first: "sb_previous (item_data (last (rev os))) = k" using old(1,2) by (cases os) auto
    obtain m1 where m1: "pop_until k (m\<lparr>fork_db := fd\<rparr>) = Returned m1" "stands_on step d k us [] m1" "fork_db m1 = fd"
      "undo_max_size m1 = undo_max_size m" "length (undo_stack m1) \<le> length (undo_stack m)"
      using pop_trace [OF on, of "last os"] kept head by auto
    obtain m2 where m2: "ofold (\<lambda>j. apply_in_session step (item_data j)) os m1 = Returned m2" "stands_on step d k us os m2"
      "fork_db m2 = fd" "undo_max_size m2 = undo_max_size m" "length (undo_stack m2) \<le> Suc (undo_max_size m2)"
      using apply_branch [OF m1(2) old(1,3)] Cons.prems(1) m m1 by auto
    have "switch_forks step (rev os) (i # is) n = Thrown e m2"
      using Thrown first m1(1) m2(1) old(2) unfolding fd_def by (simp add: hd_rev del: fold.simps)
    then show ?thesis using m2 m(2,3) unfolding fd_def by (auto intro!: exI [of _ "i # is"] simp del: fold.simps)
  qed
qed

section \<open>The two branches of a fork\<close>

fun goes_down :: "'b fork_database \<Rightarrow> 'b fork_item list \<Rightarrow> bool" where
  "goes_down fd (i # j # is) \<longleftrightarrow> lock_prev fd i = Some j \<and> goes_down fd (j # is)"
| "goes_down fd _ \<longleftrightarrow> True"

lemma goes_down_chain:
  "goes_down fd is \<Longrightarrow> is \<noteq> [] \<Longrightarrow> chain_up (sb_previous (item_data (last is))) (rev is) \<and> end_id k (rev is) = item_id (hd is)"
proof (induction fd "is" rule: goes_down.induct)
  case (1 fd i j "is")
  then have "chain_up (sb_previous (item_data (last (j # is)))) (rev (j # is))" by simp
  moreover have "end_id (sb_previous (item_data (last (j # is)))) (rev (j # is)) = sb_previous (item_data i)"
    using 1 lock_prev_id [of fd i j] by (simp add: end_id_def last_rev)
  ultimately have "chain_up (sb_previous (item_data (last (i # j # is)))) (rev (j # is) @ [i])"
    unfolding chain_up_append by simp
  then show ?case by (simp add: end_id_def)
qed (simp_all add: end_id_def)

lemma lock_prev_alive: "lock_prev fd i = Some p \<Longrightarrow> p \<in> set (fork_index fd) \<or> fork_head fd = Some p"
  by (auto simp: lock_prev_def Let_def dest: find_id split: option.splits if_splits)

lemma goes_down_tail:
  "goes_down fd (i # is) \<Longrightarrow> j \<in> set is \<Longrightarrow> item_num j < item_num i \<and> (j \<in> set (fork_index fd) \<or> fork_head fd = Some j)"
proof (induction "is" arbitrary: i)
  case (Cons l "is")
  then have prev: "lock_prev fd i = Some l" by simp
  have l: "item_num i = Suc (item_num l)" "l \<in> set (fork_index fd) \<or> fork_head fd = Some l" "goes_down fd (l # is)"
    using lock_prev_num [OF prev] lock_prev_alive [OF prev] Cons.prems(1) by auto
  show ?case
  proof (cases "j = l")
    case False
    then have "j \<in> set is" using Cons.prems(2) by simp
    from Cons.IH [OF l(3) this] show ?thesis using l(1) by auto
  qed (use l in auto)
qed simp

lemma meet_branches:
  assumes "meet fd f s = Inr (fs, ss)"
  shows "fs \<noteq> [] \<and> ss \<noteq> [] \<and> hd fs = f \<and> hd ss = s \<and> goes_down fd fs \<and> goes_down fd ss \<and>
    sb_previous (item_data (last fs)) = sb_previous (item_data (last ss))"
  using assms
proof (induction fd f s arbitrary: fs ss rule: meet.induct)
  case (1 fd f s)
  show ?case
  proof (cases "sb_previous (item_data f) = sb_previous (item_data s)")
    case True
    then show ?thesis using 1(2) by (subst (asm) meet.simps) auto
  next
    case False
    then obtain f' s' fs' ss' where p: "lock_prev fd f = Some f'" "lock_prev fd s = Some s'" "meet fd f' s' = Inr (fs', ss')"
      "fs = f # fs'" "ss = s # ss'"
      using 1(2) by (subst (asm) meet.simps) (auto simp: res_simps split: option.splits)
    from 1(1) [OF False p(1,2,3)] p show ?thesis by (cases fs'; cases ss') auto
  qed
qed

lemma meet_apart:
  assumes "meet fd f s = Inr (fs, ss)" and "item_num f = item_num s" and "item_id f \<noteq> item_id s"
  shows "\<forall>i \<in> set fs. \<forall>j \<in> set ss. item_id i \<noteq> item_id j"
  using assms
proof (induction fd f s arbitrary: fs ss rule: meet.induct)
  case (1 fd f s)
  show ?case
  proof (cases "sb_previous (item_data f) = sb_previous (item_data s)")
    case True
    then show ?thesis using 1(2,4) by (subst (asm) meet.simps) auto
  next
    case False
    then obtain f' s' fs' ss' where p: "lock_prev fd f = Some f'" "lock_prev fd s = Some s'" "meet fd f' s' = Inr (fs', ss')"
      "fs = f # fs'" "ss = s # ss'"
      using 1(2) by (subst (asm) meet.simps) (auto simp: res_simps split: option.splits)
    have tails: "\<forall>i \<in> set fs'. \<forall>j \<in> set ss'. item_id i \<noteq> item_id j"
      using 1(1) [OF False p(1,2,3)] 1(3) False lock_prev_num [OF p(1)] lock_prev_num [OF p(2)]
        lock_prev_id [OF p(1)] lock_prev_id [OF p(2)] by simp
    have "goes_down fd (f # fs')" "goes_down fd (s # ss')" using meet_branches [OF 1(2)] p(4,5) by auto
    then have "i \<in> set fs' \<Longrightarrow> item_id i \<noteq> item_id s" "j \<in> set ss' \<Longrightarrow> item_id f \<noteq> item_id j" for i j
      using goes_down_tail [of fd f fs' i] goes_down_tail [of fd s ss' j] 1(3) by (auto dest!: arg_cong [of _ _ num_from_id] simp: item_id_num)
    then show ?thesis using tails 1(4) p(4,5) by auto
  qed
qed

section \<open>Good nodes\<close>

text \<open>
  The states a node can go back to come from blocks: each is the state before a block that was accepted.
  \<open>B\<close> is the set of all blocks around; ids of blocks in it are different.
\<close>

fun history_ok :: "('b \<Rightarrow> 'd \<Rightarrow> 'd res) \<Rightarrow> 'b signed_block set \<Rightarrow> 'd \<Rightarrow> block_id \<Rightarrow> ('d \<times> block_id) list \<Rightarrow> bool" where
  "history_ok step B d k [] \<longleftrightarrow> True"
| "history_ok step B d k (u # us) \<longleftrightarrow>
     (\<exists>b \<in> B. sb_id b = k \<and> sb_previous b = snd u \<and> step (sb_body b) (fst u) = Inr d) \<and> history_ok step B (fst u) (snd u) us"

lemma history_ok_take: "history_ok step B d k us \<Longrightarrow> history_ok step B d k (take j us)"
proof (induction us arbitrary: d k j)
  case (Cons u us)
  then show ?case by (cases j) auto
qed simp

lemma history_unfold:
  assumes inj: "inj_on sb_id B" and "history_ok step B (state n) (head_block_id n) (undo_stack n)"
    and "chain_up k is" and "head_block_id n = end_id k is" and "item_data ` set is \<subseteq> B" and "length is \<le> length (undo_stack n)"
  shows "\<exists>d us. stands_on step d k us is n \<and> history_ok step B d k us"
  using assms(2-)
proof (induction "is" arbitrary: n rule: rev_induct)
  case Nil
  then have "stands_on step (state n) k (undo_stack n) [] n \<and> history_ok step B (state n) k (undo_stack n)"
    by (auto simp: stands_on_def intro!: exI [of _ "length (undo_stack n)"])
  then show ?case by blast
next
  case (snoc i "is")
  then obtain u vs where us: "undo_stack n = u # vs" by (cases "undo_stack n") auto
  obtain d' k' where u: "u = (d', k')" by (cases u)
  obtain b where b: "b \<in> B" "sb_id b = item_id i" "sb_previous b = k'" "step (sb_body b) d' = Inr (state n)" "history_ok step B d' k' vs"
    using snoc.prems(1,3) us u by auto
  have bi: "b = item_data i" using inj b(1,2) snoc.prems(4) by (auto dest: inj_onD)
  let ?n = "n\<lparr>state := d', head_block_id := k', undo_stack := vs\<rparr>"
  have k': "k' = end_id k is" "chain_up k is" using b(3) bi snoc.prems(2) by (simp_all add: chain_up_append)
  have "\<exists>d us. stands_on step d k us is ?n \<and> history_ok step B d k us"
    by (rule snoc.IH) (use b k' snoc.prems us in auto)
  then obtain d us where on: "stands_on step d k us is ?n" "history_ok step B d k us" by blast
  then have "stands_on step d k us (is @ [i]) n"
    using snoc.prems(2,3) b(4) bi us u k'
    by (auto simp: stands_on_def apply_bodies_append trace_snoc)
  then show ?case using on(2) by blast
qed

lemma history_fold:
  assumes "stands_on step d k us is n" and "history_ok step B d k us" and "item_data ` set is \<subseteq> B"
  shows "history_ok step B (state n) (head_block_id n) (undo_stack n)"
  using assms
proof (induction "is" arbitrary: n rule: rev_induct)
  case Nil
  then show ?case by (auto simp: stands_on_def intro: history_ok_take)
next
  case (snoc i "is")
  obtain j where j: "undo_stack n = rev (trace step d k (is @ [i])) @ take j us" using snoc.prems(1) by (auto simp: stands_on_def)
  obtain d' where d': "apply_bodies step is d = Inr d'" "step (sb_body (item_data i)) d' = Inr (state n)"
    using snoc.prems(1) by (auto simp: stands_on_def apply_bodies_append res_simps)
  have up: "chain_up k is" "sb_previous (item_data i) = end_id k is" "head_block_id n = item_id i"
    using snoc.prems(1) by (auto simp: stands_on_def chain_up_append)
  let ?n = "n\<lparr>state := d', head_block_id := end_id k is, undo_stack := rev (trace step d k is) @ take j us\<rparr>"
  have "stands_on step d k us is ?n" using up d' by (auto simp: stands_on_def)
  from snoc.IH [OF this snoc.prems(2)] snoc.prems(3) have "history_ok step B d' (end_id k is) (rev (trace step d k is) @ take j us)" by simp
  then show ?case using d' up snoc.prems(3) unfolding j trace_snoc [OF d'(1)] by auto
qed

definition node_ok :: "('b \<Rightarrow> 'd \<Rightarrow> 'd res) \<Rightarrow> 'b signed_block set \<Rightarrow> ('d, 'b) node \<Rightarrow> bool" where
  "node_ok step B n \<longleftrightarrow>
     history_ok step B (state n) (head_block_id n) (undo_stack n) \<and> length (undo_stack n) \<le> Suc (undo_max_size n) \<and>
     1 \<le> fork_max_size (fork_db n) \<and>
     (\<exists>h \<in> set (fork_index (fork_db n)). fork_head (fork_db n) = Some h \<and> item_id h = head_block_id n) \<and>
     (\<forall>i \<in> set (fork_index (fork_db n)). item_data i \<in> B \<and> item_num i \<le> head_block_num n)"

text \<open>The histories are long enough for the two branches, and the branches are known.\<close>

definition branches_fit :: "'b signed_block \<Rightarrow> ('d, 'b) node \<Rightarrow> bool" where
  "branches_fit b n \<longleftrightarrow>
     (case fork_push_block b (fork_db n) of
        Inl e \<Rightarrow> True
      | Inr fd \<Rightarrow>
          block_num b \<le> head_block_num n \<or> sb_previous b = head_block_id n \<or>
          (case fetch_branch_from fd (sb_id b) (head_block_id n) of
             Inl e \<Rightarrow> False
           | Inr (new, old) \<Rightarrow>
               length new \<le> undo_max_size n \<and> length old \<le> undo_max_size n \<and> length old \<le> length (undo_stack n)))"

lemma set_index_insert: "i \<in> set (index_insert i xs) \<or> (\<exists>j \<in> set xs. item_id j = item_id i)" "set xs \<subseteq> set (index_insert i xs)"
  "set (index_insert i xs) \<subseteq> insert i (set xs)"
proof -
  have split: "set xs = set (takeWhile (\<lambda>j. item_num j \<le> item_num i) xs) \<union> set (dropWhile (\<lambda>j. item_num j \<le> item_num i) xs)"
    by (metis set_append takeWhile_dropWhile_id)
  show "i \<in> set (index_insert i xs) \<or> (\<exists>j \<in> set xs. item_id j = item_id i)" by (auto simp: index_insert_def list_ex_iff)
  show "set xs \<subseteq> set (index_insert i xs)" "set (index_insert i xs) \<subseteq> insert i (set xs)"
    using split by (auto simp: index_insert_def dest: set_takeWhileD set_dropWhileD)
qed

lemma in_dropWhile: "x \<in> set xs \<Longrightarrow> \<not> P x \<Longrightarrow> x \<in> set (dropWhile P xs)"
  by (induction xs) auto

lemma push_lower:
  assumes "fork_push_block b fd = Inr fd'" and "fork_head fd = Some h" and "block_num b \<le> item_num h"
  shows "\<exists>i. item_data i = b \<and> fork_head fd' = Some h \<and> fork_max_size fd' = fork_max_size fd \<and>
    set (fork_index fd) \<subseteq> set (fork_index fd') \<and> set (fork_index fd') \<subseteq> insert i (set (fork_index fd))"
proof -
  obtain l where "fd' = fd\<lparr>fork_index := index_insert \<lparr>item_data = b, item_linked = l\<rparr> (fork_index fd)\<rparr>"
    using assms by (auto simp: fork_push_block_def res_simps Let_def split: if_splits)
  then show ?thesis using assms(2) set_index_insert(2,3) [where i = "\<lparr>item_data = b, item_linked = l\<rparr>" and xs = "fork_index fd"]
    by (intro exI [of _ "\<lparr>item_data = b, item_linked = l\<rparr>"]) simp
qed

lemma push_higher:
  assumes push: "fork_push_block b fd = Inr fd'" and h: "fork_head fd = Some h" "h \<in> set (fork_index fd)" and high: "item_num h < block_num b"
    and top: "\<And>i. i \<in> set (fork_index fd) \<Longrightarrow> item_num i \<le> item_num h" and size: "1 \<le> fork_max_size fd"
  shows "\<exists>i. item_data i = b \<and> item_linked i \<and> block_num b = Suc (item_num h) \<and> fork_head fd' = Some i \<and> i \<in> set (fork_index fd') \<and>
    h \<in> set (fork_index fd') \<and> set (fork_index fd') \<subseteq> insert i (set (fork_index fd)) \<and> fork_max_size fd' = fork_max_size fd"
proof -
  let ?i = "\<lparr>item_data = b, item_linked = True\<rparr>"
  have "1 < block_num b" using high by (simp add: block_num_def)
  then have linked: "sb_previous b \<noteq> no_block" by (auto simp: block_num_def no_block_def)
  then obtain p where p: "p \<in> set (fork_index fd)" "item_id p = sb_previous b"
    using push h(1) by (auto simp: fork_push_block_def res_simps check_def known_iff split: if_splits)
  have num: "block_num b = Suc (item_num h)"
    using top [OF p(1)] high p(2) item_id_num [of p] by (simp add: block_num_def [of b])
  let ?cut = "block_num b - min (fork_max_size fd) (block_num b)"
  have fd': "fd' = fd\<lparr>fork_index := dropWhile (\<lambda>j. item_num j < ?cut) (index_insert ?i (fork_index fd)), fork_head := Some ?i\<rparr>"
    using push h(1) high linked by (auto simp: fork_push_block_def res_simps Let_def split: if_splits)
  have "\<nexists>j. j \<in> set (fork_index fd) \<and> item_id j = item_id ?i"
    using top high item_id_num by (metis (no_types, lifting) fork_item.select_convs(1) leD)
  then have "?i \<in> set (index_insert ?i (fork_index fd))" "h \<in> set (index_insert ?i (fork_index fd))"
    using set_index_insert(1,2) [where i = ?i and xs = "fork_index fd"] h(2) by auto
  then have "?i \<in> set (fork_index fd')" "h \<in> set (fork_index fd')"
    using size num unfolding fd' by (auto intro!: in_dropWhile)
  moreover have "set (fork_index fd') \<subseteq> insert ?i (set (fork_index fd))"
    using set_index_insert(3) [where i = ?i and xs = "fork_index fd"] unfolding fd' by (auto dest: set_dropWhileD)
  ultimately show ?thesis using num fd' by (intro exI [of _ ?i]) simp
qed

text \<open>
  The branches of a push that switches: the new one ends with the new block, the old one with the head of
  the node, no block is in both, and all of them are in the index.
\<close>

lemma switch_branches:
  assumes fetch: "fetch_branch_from fd (item_id i) k0 = Inr (new, old)" and head: "fork_head fd = Some i" "sb_previous (item_data i) \<noteq> k0"
    and num: "item_num i = Suc (num_from_id k0)" and only: "\<And>j. j \<in> set (fork_index fd) \<Longrightarrow> item_num j \<le> num_from_id k0 \<or> j = i"
  shows "\<exists>k. new \<noteq> [] \<and> old \<noteq> [] \<and> hd new = i \<and> chain_up k (rev new) \<and> chain_up k (rev old) \<and>
    sb_previous (item_data (last old)) = k \<and> end_id k (rev new) = item_id i \<and> end_id k (rev old) = k0 \<and>
    set new \<union> set old \<subseteq> set (fork_index fd) \<and> (\<forall>x \<in> set new. \<forall>y \<in> set old. item_id x \<noteq> item_id y)"
proof -
  obtain f s where f: "fetch_block fd (item_id i) = Some f" and s: "fetch_block fd k0 = Some s"
    using fetch by (auto simp: fetch_branch_from_def res_simps)
  have s': "item_id s = k0" "s \<in> set (fork_index fd)" "item_num s = num_from_id k0"
    using find_id [OF s] item_id_num [of s] by auto
  have fi: "f = i" using find_id [OF f] only [of f] num item_id_num [of f] item_id_num [of i] by auto
  obtain p where p: "lock_prev fd i = Some p" "item_num p = num_from_id k0" "item_id p = sb_previous (item_data i)"
  proof (cases "lock_prev fd i")
    case None
    then have "climb fd (num_from_id k0) i = Inl (Assert ''first_branch'')" using num by (subst climb.simps) simp
    then show thesis using fetch f s fi s'(3) by (simp add: fetch_branch_from_def of_option_def)
  next
    case (Some p)
    then show thesis using that lock_prev_num [OF Some] lock_prev_id [OF Some] num by simp
  qed
  have top: "climb fd (num_from_id k0) i = Inr ([i], p)" "climb fd (num_from_id k0) s = Inr ([], s)"
    using p num s'(3) by (simp_all add: climb.simps [of fd "num_from_id k0"])
  obtain fs where m: "meet fd p s = Inr (fs, old)" "new = i # fs"
    using fetch f s fi top p(2) s'(3) by (auto simp: fetch_branch_from_def of_option_def res_simps)
  note mb = meet_branches [OF m(1)]
  have down: "goes_down fd new" using mb p(1) m(2) by (cases fs) auto
  have "item_num p = item_num s" "item_id p \<noteq> item_id s" using p s' head(2) by auto
  note apart = meet_apart [OF m(1) this]
  have below: "item_num x \<le> num_from_id k0 \<and> x \<in> set (fork_index fd)" if "x \<in> set fs \<or> x \<in> set old" for x
  proof -
    have "x = p \<or> x = s \<or> x \<in> set (tl fs) \<or> x \<in> set (tl old)" using that mb by (cases fs; cases old) auto
    moreover have "goes_down fd (p # tl fs)" "goes_down fd (s # tl old)" using mb by auto
    ultimately have "item_num x \<le> num_from_id k0 \<and> (x \<in> set (fork_index fd) \<or> fork_head fd = Some x)"
      using goes_down_tail [of fd p "tl fs" x] goes_down_tail [of fd s "tl old" x] p(2) s'(2,3) lock_prev_alive [OF p(1)] by auto
    then show ?thesis using head(1) num by auto
  qed
  have "item_id i \<noteq> item_id y" if "y \<in> set old" for y
    using below [of y] that num item_id_num [of i] item_id_num [of y] by auto
  then have apart': "\<forall>x \<in> set new. \<forall>y \<in> set old. item_id x \<noteq> item_id y" using apart m(2) by auto
  have "i \<in> set (fork_index fd)" using find_id [OF f] fi by simp
  then have inside: "set new \<union> set old \<subseteq> set (fork_index fd)" using below m(2) by auto
  have same: "sb_previous (item_data (last new)) = sb_previous (item_data (last old))" using mb m(2) by simp
  show ?thesis
    using goes_down_chain [OF down, of "sb_previous (item_data (last old))"] goes_down_chain [of fd old "sb_previous (item_data (last old))"]
      same mb m(2) apart' inside s'(1)
    by (intro exI [of _ "sb_previous (item_data (last old))"]) auto
qed

text \<open>A block that becomes the head of the fork database is one higher than the head of the node.\<close>

definition on_top :: "'b signed_block set \<Rightarrow> 'b signed_block \<Rightarrow> ('d, 'b) node \<Rightarrow> 'b fork_database \<Rightarrow> 'b fork_item \<Rightarrow> bool" where
  "on_top B b n fd i \<longleftrightarrow>
     item_data i = b \<and> item_linked i \<and> block_num b = Suc (head_block_num n) \<and> fork_head fd = Some i \<and> i \<in> set (fork_index fd) \<and>
     is_known_block fd (head_block_id n) \<and> 1 \<le> fork_max_size fd \<and>
     (\<forall>j \<in> set (fork_index fd). item_data j \<in> B \<and> (item_num j \<le> head_block_num n \<or> j = i))"

lemma push_on_top:
  assumes ok: "node_ok step B n" and b: "b \<in> B" and push: "fork_push_block b (fork_db n) = Inr fd" and high: "head_block_num n < block_num b"
  shows "\<exists>i. on_top B b n fd i"
proof -
  obtain h where h: "fork_head (fork_db n) = Some h" "h \<in> set (fork_index (fork_db n))" "item_id h = head_block_id n"
    using ok by (auto simp: node_ok_def)
  have hnum: "item_num h = head_block_num n" using h(3) item_id_num [of h] by simp
  have "item_num h < block_num b" using high hnum by simp
  then obtain i where i: "item_data i = b" "item_linked i" "block_num b = Suc (item_num h)" "fork_head fd = Some i" "i \<in> set (fork_index fd)"
    "h \<in> set (fork_index fd)" "set (fork_index fd) \<subseteq> insert i (set (fork_index (fork_db n)))" "fork_max_size fd = fork_max_size (fork_db n)"
    using push_higher [OF push h(1,2)] ok hnum unfolding node_ok_def by (metis (no_types, lifting))
  then have "on_top B b n fd i" using ok b h(3) hnum unfolding on_top_def node_ok_def known_iff by auto
  then show ?thesis ..
qed

lemma remove_top:
  assumes top: "on_top B b n fd i" and prev: "sb_previous b = head_block_id n"
  shows "\<exists>p \<in> set (fork_index (fork_remove (sb_id b) fd)). fork_head (fork_remove (sb_id b) fd) = Some p \<and> item_id p = head_block_id n"
proof -
  let ?fd = "fd\<lparr>fork_index := filter (\<lambda>j. item_id j \<noteq> sb_id b) (fork_index fd)\<rparr>"
  have i: "item_data i = b" "item_linked i" "fork_head fd = Some i" "head_block_id n \<noteq> sb_id b"
    using top by (auto simp: on_top_def sb_id_def dest!: arg_cong [of _ _ num_from_id])
  obtain q where "q \<in> set (fork_index fd)" "item_id q = head_block_id n" using top by (auto simp: on_top_def known_iff)
  then have "fetch_block ?fd (head_block_id n) \<noteq> None"
    using i(4) by (auto simp: fetch_block_def find_None_iff)
  then obtain p where p: "fetch_block ?fd (head_block_id n) = Some p" by blast
  then have "lock_prev ?fd i = Some p" using i prev by (auto simp: lock_prev_def)
  then have "fork_remove (sb_id b) fd = ?fd\<lparr>fork_head := Some p\<rparr>" using i by (simp add: fork_remove_def fork_pop_block_def)
  then show ?thesis using find_id [OF p] by auto
qed

lemma push_direct:
  assumes ok: "node_ok step B n" and b: "b \<in> B" and top: "on_top B b n fd i" and prev: "sb_previous b = head_block_id n"
  shows "case apply_in_session step b (n\<lparr>fork_db := fd\<rparr>) of
      Returned m \<Rightarrow> node_ok step B m
    | Thrown e m \<Rightarrow> node_ok step B (m\<lparr>fork_db := fork_remove (sb_id b) (fork_db m)\<rparr>) \<and> state m = state n \<and> head_block_id m = head_block_id n"
proof (cases "step (sb_body b) (state n)")
  case (Inl e)
  let ?m = "n\<lparr>fork_db := fd, undo_stack := take (undo_max_size n) (undo_stack n)\<rparr>"
  have "apply_in_session step b (n\<lparr>fork_db := fd\<rparr>) = Thrown e ?m" using Inl prev by (simp add: apply_in_session_def check_def)
  moreover have "item_data j \<in> B \<and> item_num j \<le> head_block_num n" if "j \<in> set (fork_index (fork_remove (sb_id b) fd))" for j
    using that top unfolding remove_index on_top_def by auto
  ultimately show ?thesis using ok top remove_top [OF top prev]
    by (simp add: node_ok_def remove_index on_top_def history_ok_take)
next
  case (Inr d)
  let ?m = "n\<lparr>fork_db := fd, state := d, head_block_id := sb_id b,
    undo_stack := (state n, head_block_id n) # take (undo_max_size n) (undo_stack n)\<rparr>"
  have "apply_in_session step b (n\<lparr>fork_db := fd\<rparr>) = Returned ?m" using Inr prev by (simp add: apply_in_session_def check_def)
  moreover have "history_ok step B d (sb_id b) ((state n, head_block_id n) # take (undo_max_size n) (undo_stack n))"
    using ok b prev Inr by (auto simp: node_ok_def history_ok_take)
  moreover have "item_data j \<in> B \<and> item_num j \<le> num_from_id (sb_id b)" if "j \<in> set (fork_index fd)" for j
    using that top by (auto simp: on_top_def sb_id_def)
  ultimately show ?thesis using top by (auto simp: node_ok_def on_top_def)
qed

lemma push_switch:
  assumes ok: "node_ok step B n" and inj: "inj_on sb_id B" and b: "b \<in> B" and top: "on_top B b n fd i" and prev: "sb_previous b \<noteq> head_block_id n"
    and fetch: "fetch_branch_from fd (sb_id b) (head_block_id n) = Inr (new, old)"
    and fit: "length new \<le> undo_max_size n" "length old \<le> undo_max_size n" "length old \<le> length (undo_stack n)"
  shows "case andthen (pop_until (sb_previous (item_data (last old))) (n\<lparr>fork_db := fd\<rparr>)) (switch_forks step old (rev new)) of
      Returned m \<Rightarrow> node_ok step B m
    | Thrown e m \<Rightarrow> node_ok step B m \<and> state m = state n \<and> head_block_id m = head_block_id n"
proof -
  have i: "item_data i = b" "fork_head fd = Some i" "item_num i = Suc (head_block_num n)" using top by (auto simp: on_top_def)
  have only: "\<And>j. j \<in> set (fork_index fd) \<Longrightarrow> item_num j \<le> head_block_num n \<or> j = i" using top by (auto simp: on_top_def)
  obtain k where br: "new \<noteq> []" "old \<noteq> []" "hd new = i" "chain_up k (rev new)" "chain_up k (rev old)" "sb_previous (item_data (last old)) = k"
    "end_id k (rev new) = item_id i" "end_id k (rev old) = head_block_id n" "set new \<union> set old \<subseteq> set (fork_index fd)"
    "\<forall>x \<in> set new. \<forall>y \<in> set old. item_id x \<noteq> item_id y"
    using switch_branches [OF fetch [folded i(1)] i(2) _ i(3) only] prev i(1) by auto
  have data: "item_data ` set (rev new) \<subseteq> B" "item_data ` set (rev old) \<subseteq> B" using br(9) top by (auto simp: on_top_def)
  have known: "is_known_block fd (item_id x)" if "x \<in> set new \<or> x \<in> set old" for x using that br(9) by (auto simp: known_iff)
  have hist: "history_ok step B (state n) (head_block_id n) (undo_stack n)" using ok by (simp add: node_ok_def)
  obtain d us where on: "stands_on step d k us (rev old) n" "history_ok step B d k us"
    using history_unfold [OF inj hist br(5) br(8) [symmetric] data(2)] fit(3) by (metis length_rev)
  have on': "stands_on step d k us (rev old) (n\<lparr>fork_db := fd\<rparr>)" using on(1) by (simp add: stands_on_def)
  have "i \<in> set new" using br(1,3) by (metis hd_in_set)
  then have apart: "item_id y \<noteq> item_id i" if "y \<in> set old" for y using that br(10) by metis
  obtain m where m: "pop_until k (n\<lparr>fork_db := fd\<rparr>) = Returned m" "stands_on step d k us [] m" "fork_db m = fd"
    "undo_max_size m = undo_max_size n" "length (undo_stack m) \<le> length (undo_stack n)"
    using pop_trace [OF on', of i] i(2) known apart by auto
  have d: "apply_bodies step (rev old) d = Inr (state n)" using on(1) by (simp add: stands_on_def)
  have fits: "rev old \<noteq> []" "length (rev old) \<le> undo_max_size m" "chain_up k ([] @ rev new)" "length ([] @ rev new) \<le> undo_max_size m"
    "length (undo_stack m) \<le> Suc (undo_max_size m)"
    using br(2,4) fit m(4,5) ok by (auto simp: node_ok_def)
  have other: "item_id x \<noteq> item_id (last (rev old))" if "x \<in> set [] \<union> set (rev new)" for x
    using that br(2,10) by (simp add: last_rev)
  have sw: "case switch_forks step (rev (rev old)) (rev new) m of
      Returned m' \<Rightarrow> stands_on step d k us ([] @ rev new) m' \<and> fork_db m' = fork_db m \<and> undo_max_size m' = undo_max_size m \<and>
        length (undo_stack m') \<le> Suc (undo_max_size m')
    | Thrown e m' \<Rightarrow> stands_on step d k us (rev old) m' \<and> undo_max_size m' = undo_max_size m \<and> length (undo_stack m') \<le> Suc (undo_max_size m') \<and>
        (\<exists>js. set js \<subseteq> set (rev new) \<and> last (rev new) \<in> set js \<and>
          fork_db m' = fork_set_head (last (rev old)) (fold (\<lambda>j. fork_remove (item_id j)) js (fork_db m)))"
    by (rule switch_unwinds [OF br(5) fits(1) d fits(2) m(2) fits(3-5) _ other]) (simp_all add: known m(3))
  show ?thesis
  proof (cases "switch_forks step old (rev new) m")
    case (Returned m')
    then have r: "stands_on step d k us (rev new) m'" "fork_db m' = fd" "length (undo_stack m') \<le> Suc (undo_max_size m')"
      using sw m(3) by auto
    have "node_ok step B m'"
      using history_fold [OF r(1) on(2) data(1)] r top br(7) i by (auto simp: node_ok_def on_top_def stands_on_def item_id_num)
    then show ?thesis using m(1) br(6) Returned by simp
  next
    case (Thrown e m')
    then obtain js where r: "stands_on step d k us (rev old) m'" "length (undo_stack m') \<le> Suc (undo_max_size m')"
      "set js \<subseteq> set new" "i \<in> set js" "fork_db m' = fork_set_head (hd old) (fold (\<lambda>j. fork_remove (item_id j)) js fd)"
      using sw m(3) br(1,2,3) by (auto simp: last_rev)
    have same: "state m' = state n" "head_block_id m' = head_block_id n" using r(1) d br(8) by (auto simp: stands_on_def)
    have index: "set (fork_index (fork_db m')) = {x \<in> set (fork_index fd). item_id x \<notin> item_id ` set js}" "fork_max_size (fork_db m') = fork_max_size fd"
      using r(5) by (simp_all add: fork_set_head_def remove_all_index)
    have first: "hd old \<in> set old" "item_id (hd old) = head_block_id n" using br(2,8) by (auto simp: end_id_def last_rev)
    have "item_id x \<noteq> item_id (hd old)" if "x \<in> set js" for x using that first(1) br(10) r(3) by blast
    then have "hd old \<in> set (fork_index (fork_db m'))" using first(1) br(9) unfolding index by force
    moreover have "item_data x \<in> B \<and> item_num x \<le> head_block_num n" if "x \<in> set (fork_index (fork_db m'))" for x
      using that r(4) top unfolding index on_top_def by auto
    ultimately have "node_ok step B m'"
      using history_fold [OF r(1) on(2) data(2)] r(2,5) same(2) index(2) top first(2)
      by (auto simp: node_ok_def on_top_def fork_set_head_def)
    then show ?thesis using m(1) br(6) Thrown same by simp
  qed
qed

text \<open>What a push does on a good node, with every outcome.\<close>

lemma push_block_cases:
  assumes ok: "node_ok step B n" and inj: "inj_on sb_id B" and b: "b \<in> B" and fit: "branches_fit b n"
  shows "case push_block step b n of
      Returned m \<Rightarrow> node_ok step B m
    | Thrown e m \<Rightarrow> node_ok step B m \<and> state m = state n \<and> head_block_id m = head_block_id n"
proof (cases "fork_push_block b (fork_db n)")
  case (Inl e)
  then show ?thesis using ok by (simp add: push_block_def)
next
  case (Inr fd)
  obtain h where h: "fork_head (fork_db n) = Some h" "h \<in> set (fork_index (fork_db n))" "item_id h = head_block_id n"
    using ok by (auto simp: node_ok_def)
  have hnum: "item_num h = head_block_num n" using h(3) item_id_num [of h] by simp
  show ?thesis
  proof (cases "block_num b \<le> head_block_num n")
    case True
    obtain i where i: "item_data i = b" "fork_head fd = Some h" "fork_max_size fd = fork_max_size (fork_db n)"
      "set (fork_index (fork_db n)) \<subseteq> set (fork_index fd)" "set (fork_index fd) \<subseteq> insert i (set (fork_index (fork_db n)))"
      using push_lower [OF Inr h(1)] True hnum by auto
    have "sb_previous (item_data h) \<noteq> head_block_id n" using hnum by (auto simp: block_num_def)
    then have "push_block step b n = Returned (n\<lparr>fork_db := fd\<rparr>)" using Inr i(2) hnum by (simp add: push_block_def Let_def)
    moreover have "item_data j \<in> B \<and> item_num j \<le> head_block_num n" if "j \<in> set (fork_index fd)" for j
      using that i(1,5) ok b True by (auto simp: node_ok_def)
    ultimately show ?thesis using ok i h by (auto simp: node_ok_def)
  next
    case False
    then obtain i where top: "on_top B b n fd i" using push_on_top [OF ok b Inr] by auto
    then have i: "item_data i = b" "fork_head fd = Some i" "block_num b > head_block_num n" by (auto simp: on_top_def)
    show ?thesis
    proof (cases "sb_previous b = head_block_id n")
      case True
      then show ?thesis using push_direct [OF ok b top True] Inr i by (auto simp: push_block_def Let_def split: outcome.splits)
    next
      case other: False
      obtain new old where br: "fetch_branch_from fd (sb_id b) (head_block_id n) = Inr (new, old)" "length new \<le> undo_max_size n"
        "length old \<le> undo_max_size n" "length old \<le> length (undo_stack n)"
        using fit Inr False other by (auto simp: branches_fit_def split: sum.splits)
      show ?thesis using push_switch [OF ok inj b top other br] Inr i other br(1) by (simp add: push_block_def Let_def)
    qed
  qed
qed

lemma pushes_ok:
  assumes "node_ok step B n" and "inj_on sb_id B" and "safe_run (push_block step) (\<lambda>b n. b \<in> B \<and> branches_fit b n) bs n"
  shows "node_ok step B (run_events (push_block step) bs n)"
  using assms(1,3)
proof (induction bs arbitrary: n)
  case (Cons b bs)
  then have "node_ok step B (outcome_state (push_block step b n))"
    using push_block_cases [of step B n b] assms(2) by (auto split: outcome.splits)
  then show ?case using Cons by (simp add: run_events_def)
qed (simp add: run_events_def)

lemma safe_run_append:
  "safe_run step safe (es @ fs) s \<longleftrightarrow> safe_run step safe es s \<and> safe_run step safe fs (run_events step es s)"
  by (induction es arbitrary: s) (auto simp: run_events_def)

section \<open>Results\<close>

interpretation blocks: block_invariant "apply_block ext lib" "\<lambda>d. chain_ok d \<and> (\<forall>x. held x d = funds_of x)"
  for ext :: "'h::linorder externals" and lib and funds_of
  by unfold_locales (metis chain.step_inv chain.step_ledger)

text \<open>
  A node on the sample chain: block \<open>a\<close> and its sibling \<open>b\<close> follow the first block, \<open>c\<close> follows \<open>b\<close> with a time
  that is not later and cannot be applied.
\<close>

definition empty_block :: "time \<Rightarrow> block" where
  "empty_block t =
     \<lparr>timestamp = t, transactions = [], maint_needed = False,
      tally = \<lparr>vote_tally_buffer = [], committee_count_histogram_buffer = [0], total_voting_stake = 0,
        min_committee_member_count = 1\<rparr>, due_proposals = []\<rparr>"

definition block_1 :: "block signed_block" where
  "block_1 = \<lparr>sb_previous = no_block, sb_hash = 1, sb_body = empty_block 1600000000\<rparr>"

definition block_a :: "block signed_block" where
  "block_a = \<lparr>sb_previous = sb_id block_1, sb_hash = 2, sb_body = empty_block 1600000003\<rparr>"

definition block_b :: "block signed_block" where
  "block_b = \<lparr>sb_previous = sb_id block_1, sb_hash = 3, sb_body = empty_block 1600000006\<rparr>"

definition block_c :: "block signed_block" where
  "block_c = \<lparr>sb_previous = sb_id block_b, sb_hash = 4, sb_body = empty_block 1600000006\<rparr>"

definition sample_node :: "(database, block) node" where
  "sample_node =
     \<lparr>fork_db = start_block block_1 \<lparr>fork_index = [], fork_head = None, fork_max_size = 1024\<rparr>, state = sample_db,
      head_block_id = sb_id block_1, undo_stack = [], undo_max_size = 256\<rparr>"

abbreviation sample_step :: "block \<Rightarrow> database \<Rightarrow> database res" where
  "sample_step \<equiv> apply_block sample_externals sample_lib"

text \<open>
  C5: whatever blocks are pushed to a node, in whatever order, with whatever switches of forks and failures on
  the way, the state it ends with, and every state of its history that it can go back to, satisfy the invariant of
  the chain and hold the funds the node began with.
\<close>

theorem node_keeps_funds:
  assumes "chain_ok (state n)" and "\<And>d k. (d, k) \<in> set (undo_stack n) \<Longrightarrow> chain_ok d \<and> (\<forall>x. held x d = held x (state n))"
    and "m = run_events (push_block (apply_block ext lib)) bs n"
  shows "d \<in> insert (state m) (fst ` set (undo_stack m)) \<Longrightarrow> chain_ok d \<and> held x d = held x (state n)"
proof -
  have "all_states (\<lambda>d. chain_ok d \<and> (\<forall>x. held x d = held x (state n))) n" unfolding all_states_iff using assms(1,2) by blast
  from blocks.pushes_keep [OF this, of ext lib bs]
  show "d \<in> insert (state m) (fst ` set (undo_stack m)) \<Longrightarrow> ?thesis" unfolding all_states_iff assms(3) [symmetric] by auto
qed

theorem node_keeps_funds_witness:
  "list_all (\<lambda>d. chain_ok d \<and> held 0 d = 2500)
     (let m = run_events (push_block sample_step) [block_a, block_b, block_c] sample_node
      in state m # map fst (undo_stack m)) \<and>
   length (undo_stack (run_events (push_block sample_step) [block_a, block_b, block_c] sample_node)) = 1"
proof -
  define m where "m = run_events (push_block sample_step) [block_a, block_b, block_c] sample_node"
  have start: "chain_ok (state sample_node)" "undo_stack sample_node = []" by (simp_all add: sample_node_def sample_chain_ok)
  have "held 0 (state sample_node) = 2500" "length (undo_stack m) = 1" unfolding m_def by code_simp+
  moreover from start have "chain_ok d \<and> held 0 d = held 0 (state sample_node)"
    if "d \<in> insert (state m) (fst ` set (undo_stack m))" for d
    using node_keeps_funds [OF _ _ m_def that] by simp
  ultimately show ?thesis unfolding m_def [symmetric] Let_def by (auto simp: list_all_iff)
qed

text \<open>
  C6: a push that fails is unwound, whatever was pushed before: the state and the head of the node are as they were,
  also when a block in the middle of a longer fork cannot be applied after the blocks of the own branch have
  been popped. Ids of blocks are taken to be different, and the histories to be long enough for the branches.
\<close>

theorem push_block_unwinds:
  assumes "node_ok step B n" and "inj_on sb_id B"
    and "safe_run (push_block step) (\<lambda>b n. b \<in> B \<and> branches_fit b n) (bs @ [b]) n"
    and "push_block step b (run_events (push_block step) bs n) = Thrown e m"
  shows "state m = state (run_events (push_block step) bs n) \<and> head_block_id m = head_block_id (run_events (push_block step) bs n)"
  using pushes_ok [OF assms(1,2)] push_block_cases [OF _ assms(2)] assms(3,4) by (fastforce simp: safe_run_append)

theorem push_block_unwinds_witness:
  "\<exists>e m. push_block sample_step block_c (run_events (push_block sample_step) [block_a, block_b] sample_node) = Thrown e m \<and>
     head_block_id m = sb_id block_a \<and> state m = state (run_events (push_block sample_step) [block_a, block_b] sample_node)"
proof -
  let ?B = "{block_1, block_a, block_b, block_c}" and ?n = "run_events (push_block sample_step) [block_a, block_b] sample_node"
  have ok: "node_ok sample_step ?B sample_node"
    by (simp add: node_ok_def sample_node_def start_block_def index_insert_def Let_def, simp add: sb_id_def)
  have ids: "inj_on sb_id ?B" by (simp add: inj_on_def sb_id_def block_1_def block_a_def block_b_def block_c_def)
  have "safe_run (push_block sample_step) (\<lambda>b n. branches_fit b n) [block_a, block_b, block_c] sample_node" by code_simp
  then have safe: "safe_run (push_block sample_step) (\<lambda>b n. b \<in> ?B \<and> branches_fit b n) ([block_a, block_b] @ [block_c]) sample_node" by simp
  have "\<not> returned (push_block sample_step block_c ?n)" by code_simp
  then obtain e m where thrown: "push_block sample_step block_c ?n = Thrown e m"
    by (cases "push_block sample_step block_c ?n") (auto simp: returned_def)
  have "head_block_id ?n = sb_id block_a" by code_simp
  then show ?thesis using push_block_unwinds [OF ok ids safe thrown] thrown by auto
qed

end
