(* ===== verification/Witnesses.thy ===== *)
theory Witnesses
  imports Ledger "HOL-Library.Multiset"
begin

text \<open>
  The witnesses that sign the blocks (\<^verbatim>\<open>db_witness_schedule.cpp\<close>, the updates of \<^verbatim>\<open>db_update.cpp\<close>): which witness
  may sign which slot, what missed slots and new blocks change, which block is irreversible and what the signing
  witness is paid. The results: a shuffled schedule has every active witness exactly once in every round; slots
  and times are inverse; at least 70 percent of the witnesses have confirmed the irreversible block, which never
  goes back.
\<close>

unbundle bit_operations_syntax

section \<open>The state\<close>

type_synonym block_witness_id = nat

record witness_object =
  wit_account :: account_id
  wit_last_aslot :: "64 word"
  wit_signing_key :: string
  wit_pay_vb :: "nat option"
  wit_vote_id :: "32 word"
  wit_total_votes :: "64 word"
  wit_url :: string
  wit_total_missed :: int
  wit_last_confirmed_block_num :: nat

text \<open>The chain parameters that blocks, transactions and the playchain read.\<close>

record chain_parameters =
  cp_block_interval :: nat
  cp_maintenance_interval :: nat
  cp_maintenance_skip_slots :: nat
  cp_maximum_transaction_size :: nat
  cp_maximum_block_size :: nat
  cp_maximum_time_until_expiration :: nat
  cp_max_authority_depth :: nat
  cp_cashback_vesting_period_seconds :: nat
  cp_maximum_authority_membership :: nat
  cp_witness_pay_per_block :: int
  cp_witness_pay_vesting_seconds :: nat
  cp_worker_budget_per_day :: int

text \<open>A worker is paid from the budget of the maintenance; its kind says where the pay goes.\<close>

datatype worker_type =
  Refund_worker (total_burned: int)
| Vesting_balance_worker (worker_balance: nat)
| Burn_worker (total_burned: int)

record worker_object =
  wk_account :: account_id
  wk_begin_date :: time
  wk_end_date :: time
  wk_daily_pay :: int
  wk_worker :: worker_type
  wk_name :: string
  wk_url :: string
  wk_vote_for :: "32 word"
  wk_vote_against :: "32 word"
  wk_total_votes_for :: "64 word"
  wk_total_votes_against :: "64 word"

text \<open>
  The chain, whose clock is the time of the head block, with the dynamic properties, the parameters, the witnesses
  and their schedule, the workers and the supply of the core asset.
\<close>

record production =
  chain_state :: database
  head_block_number :: nat
  current_witness :: block_witness_id
  next_maintenance_time :: time
  last_budget_time :: time
  witness_budget :: int
  recently_missed_count :: "32 word"
  current_aslot :: "64 word"
  recent_slots_filled :: "128 word"
  dynamic_flags :: "32 word"
  last_irreversible_block_num :: nat
  chain_params :: chain_parameters
  pending_chain_parameters :: "chain_parameters option"
  witness_objects :: "witness_object index"
  witness_active :: authority  \<comment> \<open>of \<^verbatim>\<open>GRAPHENE_WITNESS_ACCOUNT\<close>\<close>
  active_witnesses :: "block_witness_id flat_set"
  current_shuffled_witnesses :: "block_witness_id list"
  workers :: "worker_object index"
  core_max_supply :: int
  current_supply :: int
  accumulated_fees :: int

definition maintenance_flag :: "32 word" where
  "maintenance_flag = 1"

text \<open>
  The chain parameters belong to the production and only the maintenance sets them; an operation of the playchain
  reads them in the database.
\<close>

definition chain_view :: "production \<Rightarrow> database" where
  "chain_view s =
     (chain_state s)\<lparr>block_interval := cp_block_interval (chain_params s),
       maintenance_interval := cp_maintenance_interval (chain_params s),
       cashback_vesting_period_seconds := cp_cashback_vesting_period_seconds (chain_params s),
       maximum_authority_membership := cp_maximum_authority_membership (chain_params s)\<rparr>"

definition on_chain :: "(database \<Rightarrow> database res) \<Rightarrow> production \<Rightarrow> production res" where
  "on_chain f s = ebind (f (chain_view s)) (\<lambda>d. Inr (s\<lparr>chain_state := d\<rparr>))"

section \<open>Witnesses\<close>

record witness_create_operation =
  wc_fee :: asset
  wc_witness_account :: account_id
  wc_url :: string
  wc_block_signing_key :: string

record witness_update_operation =
  wu_fee :: asset
  wu_witness :: block_witness_id
  wu_witness_account :: account_id
  wu_new_url :: "string option"
  wu_new_signing_key :: "string option"

definition witness_create_validate :: "witness_create_operation \<Rightarrow> unit res" where
  "witness_create_validate op =
     ebind (check (0 \<le> amount (wc_fee op)) ''fee.amount >= 0'') (\<lambda>_.
       check (length (wc_url op) < GRAPHENE_MAX_URL_LENGTH) ''url.size()'')"

definition witness_update_validate :: "witness_update_operation \<Rightarrow> unit res" where
  "witness_update_validate op =
     ebind (check (0 \<le> amount (wu_fee op)) ''fee.amount >= 0'') (\<lambda>_.
       case wu_new_url op of
         None \<Rightarrow> Inr ()
       | Some u \<Rightarrow> check (length u < GRAPHENE_MAX_URL_LENGTH) ''new_url->size()'')"

definition witness_create_evaluate :: "production \<Rightarrow> witness_create_operation \<Rightarrow> unit res" where
  "witness_create_evaluate s op =
     ebind (idx_get (accounts (chain_state s)) (wc_witness_account op)) (\<lambda>a.
       check (is_lifetime_member a) ''is_lifetime_member()'')"

definition witness_create_apply :: "witness_create_operation \<Rightarrow> production \<Rightarrow> production res" where
  "witness_create_apply op s =
     (let (v, d) = get_next_vote_id Vote_witness (chain_state s)
      in ebind (idx_create (\<lambda>a b. wit_account a = wit_account b \<or> wit_vote_id a = wit_vote_id b)
                  \<lparr>wit_account = wc_witness_account op, wit_last_aslot = 0,
                   wit_signing_key = wc_block_signing_key op, wit_pay_vb = None, wit_vote_id = v,
                   wit_total_votes = 0, wit_url = wc_url op, wit_total_missed = 0,
                   wit_last_confirmed_block_num = 0\<rparr>
                  (witness_objects s)) (\<lambda>(i, ix).
           Inr (s\<lparr>chain_state := d, witness_objects := ix\<rparr>)))"

definition witness_update_evaluate :: "production \<Rightarrow> witness_update_operation \<Rightarrow> unit res" where
  "witness_update_evaluate s op =
     ebind (idx_get (witness_objects s) (wu_witness op)) (\<lambda>wit.
       check (wit_account wit = wu_witness_account op) ''witness_account == op.witness_account'')"

definition witness_update_apply :: "witness_update_operation \<Rightarrow> production \<Rightarrow> production res" where
  "witness_update_apply op s =
     ebind (idx_get (witness_objects s) (wu_witness op)) (\<lambda>wit.
       let wit = (case wu_new_url op of None \<Rightarrow> wit | Some u \<Rightarrow> wit\<lparr>wit_url := u\<rparr>);
           wit = (case wu_new_signing_key op of None \<Rightarrow> wit | Some k \<Rightarrow> wit\<lparr>wit_signing_key := k\<rparr>)
       in Inr (s\<lparr>witness_objects := idx_set (wu_witness op) wit (witness_objects s)\<rparr>))"

section \<open>Slots\<close>

text \<open>
  Slot numbers are 32 bits wide and so are times in seconds: a product with the interval and a sum with a time wrap.
\<close>

definition get_slot_time :: "nat \<Rightarrow> production \<Rightarrow> time" where
  "get_slot_time slot_num s =
     (let interval = cp_block_interval (chain_params s); now = head_block_time (chain_state s)
      in if slot_num = 0 then 0
         else if head_block_number s = 0 then (now + slot_num * interval mod 2 ^ 32) mod 2 ^ 32
         else let head_block_abs_slot = now div interval;
                  head_slot_time = head_block_abs_slot * interval;
                  slot_num = (if dynamic_flags s AND maintenance_flag \<noteq> 0
                              then (slot_num + cp_maintenance_skip_slots (chain_params s)) mod 2 ^ 32 else slot_num)
              in (head_slot_time + slot_num * interval mod 2 ^ 32) mod 2 ^ 32)"

definition get_slot_at_time :: "time \<Rightarrow> production \<Rightarrow> nat" where
  "get_slot_at_time when s =
     (let first_slot_time = get_slot_time 1 s
      in if when < first_slot_time then 0
         else ((when - first_slot_time) div cp_block_interval (chain_params s) + 1) mod 2 ^ 32)"

definition get_scheduled_witness :: "nat \<Rightarrow> production \<Rightarrow> block_witness_id res" where
  "get_scheduled_witness slot_num s =
     (let n = length (current_shuffled_witnesses s); aslot = current_aslot s + of_nat slot_num
      in if n = 0 then Inl Div_by_zero
         else Inr (current_shuffled_witnesses s ! (unat aslot mod n)))"

definition miss_slot :: "nat \<Rightarrow> production \<Rightarrow> production res" where
  "miss_slot i s =
     ebind (get_scheduled_witness (i + 1) s) (\<lambda>w.
     ebind (idx_get (witness_objects s) w) (\<lambda>wit.
       Inr (s\<lparr>witness_objects := idx_set w (wit\<lparr>wit_total_missed := wit_total_missed wit + 1\<rparr>) (witness_objects s)\<rparr>)))"

definition update_witness_missed_blocks :: "time \<Rightarrow> production \<Rightarrow> (nat \<times> production) res" where
  "update_witness_missed_blocks t s =
     ebind (check (get_slot_at_time t s \<noteq> 0) ''Trying to push double-produced block onto current block?!'') (\<lambda>_.
     let missed_blocks = get_slot_at_time t s - 1
     in ebind (if missed_blocks < length (current_shuffled_witnesses s)
               then efold miss_slot [0..<missed_blocks] s else Inr s) (\<lambda>s.
          Inr (missed_blocks, s)))"

definition popcount :: "128 word \<Rightarrow> nat" where
  "popcount w = length (filter (bit w) [0..<128])"

definition witness_participation_rate :: "production \<Rightarrow> nat" where
  "witness_participation_rate s = GRAPHENE_100_PERCENT * popcount (recent_slots_filled s) div 128"

section \<open>What a block changes\<close>

definition GRAPHENE_RECENTLY_MISSED_COUNT_INCREMENT :: "32 word" where
  "GRAPHENE_RECENTLY_MISSED_COUNT_INCREMENT = 4"

definition GRAPHENE_RECENTLY_MISSED_COUNT_DECREMENT :: "32 word" where
  "GRAPHENE_RECENTLY_MISSED_COUNT_DECREMENT = 3"

definition GRAPHENE_MAX_UNDO_HISTORY :: "32 word" where
  "GRAPHENE_MAX_UNDO_HISTORY = 10000"

text \<open>The number of the last checkpoint is a setting of the node.\<close>

definition recently_missed :: "nat option \<Rightarrow> nat \<Rightarrow> nat \<Rightarrow> 32 word \<Rightarrow> 32 word" where
  "recently_missed last_checkpoint block_num missed_blocks c =
     (if block_num = 1 then 0
      else if (case last_checkpoint of None \<Rightarrow> False | Some k \<Rightarrow> block_num \<le> k) then 0
      else if missed_blocks \<noteq> 0 then c + GRAPHENE_RECENTLY_MISSED_COUNT_INCREMENT * of_nat missed_blocks
      else if GRAPHENE_RECENTLY_MISSED_COUNT_INCREMENT < c then c - GRAPHENE_RECENTLY_MISSED_COUNT_DECREMENT
      else if 0 < c then c - 1
      else c)"

definition update_global_dynamic_data ::
  "nat option \<Rightarrow> nat \<Rightarrow> time \<Rightarrow> block_witness_id \<Rightarrow> nat \<Rightarrow> production \<Rightarrow> production res" where
  "update_global_dynamic_data last_checkpoint block_num t witness missed_blocks s =
     (let s = s\<lparr>recently_missed_count := recently_missed last_checkpoint block_num missed_blocks (recently_missed_count s),
            head_block_number := block_num,
            chain_state := (chain_state s)\<lparr>head_block_time := t\<rparr>,
            current_witness := witness,
            recent_slots_filled := push_bit missed_blocks (push_bit 1 (recent_slots_filled s) + 1),
            current_aslot := current_aslot s + of_nat (missed_blocks + 1)\<rparr>
      in ebind (check (of_nat block_num - of_nat (last_irreversible_block_num s) < GRAPHENE_MAX_UNDO_HISTORY)
           ''The database does not have enough undo history'') (\<lambda>_. Inr s))"

text \<open>The pay of a block is taken from the budget and put into a vesting balance of the witness.\<close>

definition deposit_witness_pay :: "block_witness_id \<Rightarrow> int \<Rightarrow> production \<Rightarrow> production res" where
  "deposit_witness_pay w amt s =
     (if amt = 0 then Inr s
      else ebind (idx_get (witness_objects s) w) (\<lambda>wit.
           ebind (deposit_lazy_vesting (wit_pay_vb wit) amt (cp_witness_pay_vesting_seconds (chain_params s)) (wit_account wit)
                    (chain_state s)) (\<lambda>(new_vbid, d).
             let s = s\<lparr>chain_state := d\<rparr>
             in Inr (case new_vbid of
                       None \<Rightarrow> s
                     | Some v \<Rightarrow> s\<lparr>witness_objects := idx_set w (wit\<lparr>wit_pay_vb := Some v\<rparr>) (witness_objects s)\<rparr>))))"

definition update_signing_witness :: "block_witness_id \<Rightarrow> nat \<Rightarrow> time \<Rightarrow> production \<Rightarrow> production res" where
  "update_signing_witness w block_num t s =
     (let new_block_aslot = current_aslot s + of_nat (get_slot_at_time t s);
          witness_pay = min (cp_witness_pay_per_block (chain_params s)) (witness_budget s)
      in ebind (share (witness_budget s - witness_pay)) (\<lambda>b.
         ebind (deposit_witness_pay w witness_pay (s\<lparr>witness_budget := b\<rparr>)) (\<lambda>s.
         ebind (idx_get (witness_objects s) w) (\<lambda>wit.
           Inr (s\<lparr>witness_objects := idx_set w (wit\<lparr>wit_last_aslot := new_block_aslot,
                    wit_last_confirmed_block_num := block_num\<rparr>) (witness_objects s)\<rparr>)))))"

text \<open>
  The block that is irreversible: of the last blocks the active witnesses have confirmed, in order, the one behind
  which at least 70 percent of the witnesses stand.
\<close>

definition GRAPHENE_IRREVERSIBLE_THRESHOLD :: nat where
  "GRAPHENE_IRREVERSIBLE_THRESHOLD = 7000"

definition confirmed_blocks :: "production \<Rightarrow> nat list res" where
  "confirmed_blocks s =
     emap (\<lambda>w. ebind (idx_get (witness_objects s) w) (\<lambda>wit. Inr (wit_last_confirmed_block_num wit)))
       (fs_items (active_witnesses s))"

definition irreversible_offset :: "nat \<Rightarrow> nat" where
  "irreversible_offset n = (GRAPHENE_100_PERCENT - GRAPHENE_IRREVERSIBLE_THRESHOLD) * n div GRAPHENE_100_PERCENT"

definition update_last_irreversible_block :: "production \<Rightarrow> production res" where
  "update_last_irreversible_block s =
     ebind (confirmed_blocks s) (\<lambda>cs.
       let offset = irreversible_offset (length cs)
       in if length cs \<le> offset then Inl Null_deref
          else let new_last_irreversible_block_num = sort cs ! offset
               in Inr (if last_irreversible_block_num s < new_last_irreversible_block_num
                       then s\<lparr>last_irreversible_block_num := new_last_irreversible_block_num\<rparr> else s))"

definition update_maintenance_flag :: "bool \<Rightarrow> production \<Rightarrow> production" where
  "update_maintenance_flag new_maintenance_flag s =
     s\<lparr>dynamic_flags := (dynamic_flags s AND NOT maintenance_flag) OR
         (if new_maintenance_flag then maintenance_flag else 0)\<rparr>"

section \<open>The schedule\<close>

definition swap :: "nat \<Rightarrow> nat \<Rightarrow> 'a list \<Rightarrow> 'a list" where
  "swap i j xs = xs[i := xs ! j, j := xs ! i]"

text \<open>The generator of the shuffle, on 64 bits.\<close>

definition shuffle_random :: "64 word \<Rightarrow> nat \<Rightarrow> 64 word" where
  "shuffle_random now_hi i =
     (let k = now_hi + of_nat i * 2685821657736338717;
          k = k XOR drop_bit 12 k;
          k = k XOR push_bit 25 k;
          k = k XOR drop_bit 27 k
      in k * 2685821657736338717)"

definition shuffle_step :: "64 word \<Rightarrow> nat \<Rightarrow> 'a list \<Rightarrow> 'a list" where
  "shuffle_step now_hi i ws =
     (let jmax = length ws - i; j = i + unat (shuffle_random now_hi i) mod jmax
      in swap i j ws)"

definition shuffle :: "time \<Rightarrow> 'a list \<Rightarrow> 'a list" where
  "shuffle t ws = fold (shuffle_step (push_bit 32 (of_nat t))) [0..<length ws] ws"

definition update_witness_schedule :: "production \<Rightarrow> production res" where
  "update_witness_schedule s =
     (let ws = fs_items (active_witnesses s)
      in if length ws = 0 then Inl Div_by_zero
         else Inr (if head_block_number s mod length ws = 0
                   then s\<lparr>current_shuffled_witnesses := shuffle (head_block_time (chain_state s)) ws\<rparr> else s))"

section \<open>A sample\<close>

text \<open>Three witnesses, with the last blocks they have confirmed, and three workers.\<close>

definition sample_witness :: "nat \<Rightarrow> nat \<Rightarrow> witness_object" where
  "sample_witness k confirmed =
     \<lparr>wit_account = k, wit_last_aslot = 0, wit_signing_key = sample_key k, wit_pay_vb = None,
      wit_vote_id = mk_vote_id Vote_witness (of_nat k), wit_total_votes = 0, wit_url = [], wit_total_missed = 0,
      wit_last_confirmed_block_num = confirmed\<rparr>"

definition sample_worker :: "nat \<Rightarrow> worker_type \<Rightarrow> worker_object" where
  "sample_worker k w =
     \<lparr>wk_account = 10, wk_begin_date = 0, wk_end_date = time_max, wk_daily_pay = 864000, wk_worker = w, wk_name = [],
      wk_url = [], wk_vote_for = mk_vote_id Vote_worker (of_nat k), wk_vote_against = mk_vote_id Vote_worker (of_nat k),
      wk_total_votes_for = of_nat k, wk_total_votes_against = 0\<rparr>"

definition sample_quiet_db :: database where
  "sample_quiet_db =
     \<lparr>head_block_time = 1600000000, block_interval = 3, maintenance_interval = 3600,
      cashback_vesting_period_seconds = 86400, average_room_rating = 0, parameters = default_parameters,
      maximum_authority_membership = 10,
      accounts = \<lparr>next_id = 11, objs = fm_of_list [(10, sample_account 10)]\<rparr>,
      balances = fm_of_list [((10, 0), 1000)], players = idx_empty, witnesses = idx_empty, rooms = idx_empty,
      tables = idx_empty, votings = idx_empty, pending_votes = idx_empty, alives = idx_empty,
      pending_buy_ins = idx_empty, buy_ins = idx_empty, pending_buy_outs = idx_empty, measurements = idx_empty,
      invitations = idx_empty, vestings = idx_empty, transfer_restricted = fm_of_list [(0, False)],
      next_available_vote_id = 5, committee_members = idx_empty, active_games_committee_members = [],
      committee_active = \<lparr>weight_threshold = 1, account_auths = fm_empty\<rparr>,
      pending_parameters = None, applied = []\<rparr>"

lemma sample_quiet_ok: "chain_ok sample_quiet_db"
proof -
  have "db_ok sample_quiet_db" "HARDFORK_PLAYCHAIN_10_TIME \<le> head_block_time sample_quiet_db" by code_simp+
  then show ?thesis by (simp add: chain_ok_def votes_ok_def sample_quiet_db_def)
qed

definition sample_production :: production where
  "sample_production =
     \<lparr>chain_state = sample_quiet_db, head_block_number = 9, current_witness = 0, next_maintenance_time = 1600000001,
      last_budget_time = 1599996400, witness_budget = 70, recently_missed_count = 0, current_aslot = 9,
      recent_slots_filled = 511, dynamic_flags = 0, last_irreversible_block_num = 6,
      chain_params = \<lparr>cp_block_interval = 3, cp_maintenance_interval = 3600, cp_maintenance_skip_slots = 3,
        cp_maximum_transaction_size = 2048, cp_maximum_block_size = 2000000, cp_maximum_time_until_expiration = 86400,
        cp_max_authority_depth = 2,
        cp_cashback_vesting_period_seconds = 86400, cp_maximum_authority_membership = 10,
        cp_witness_pay_per_block = 50, cp_witness_pay_vesting_seconds = 86400, cp_worker_budget_per_day = 864000\<rparr>,
      pending_chain_parameters = None,
      witness_objects = of_objects [sample_witness 0 8, sample_witness 1 9, sample_witness 2 7],
      witness_active = \<lparr>weight_threshold = 1, account_auths = fm_empty\<rparr>,
      active_witnesses = fs_of_list [0, 1, 2], current_shuffled_witnesses = [2, 0, 1],
      workers = of_objects [sample_worker 3 (Burn_worker 0), sample_worker 4 (Refund_worker 0)],
      core_max_supply = 1000000000000000, current_supply = 900000000000000, accumulated_fees = 40\<rparr>"

section \<open>Slots and times\<close>

text \<open>The time of slot n, as long as it fits 32 bits.\<close>

definition slot_time_from :: "nat \<Rightarrow> production \<Rightarrow> nat" where
  "slot_time_from n s =
     (let interval = cp_block_interval (chain_params s); now = head_block_time (chain_state s)
      in if head_block_number s = 0 then now + n * interval
         else now div interval * interval +
           (n + (if dynamic_flags s AND maintenance_flag \<noteq> 0 then cp_maintenance_skip_slots (chain_params s) else 0)) * interval)"

lemma slot_time_from_add: "slot_time_from (n + k) s = slot_time_from n s + k * cp_block_interval (chain_params s)"
  by (simp add: slot_time_from_def Let_def algebra_simps)

lemma get_slot_time_fits: "0 < n \<Longrightarrow> slot_time_from n s < 2 ^ 32 \<Longrightarrow> get_slot_time n s = slot_time_from n s"
proof -
  have "(x + k mod 2 ^ 32 * i mod 2 ^ 32) mod 2 ^ 32 = x + k * i" if "x + k * i < 2 ^ 32" for x k i :: nat
    using that by (metis mod_add_right_eq mod_less mod_mult_left_eq)
  moreover have "(x + k * i mod 2 ^ 32) mod 2 ^ 32 = x + k * i" if "x + k * i < 2 ^ 32" for x k i :: nat
    using that by (metis mod_add_right_eq mod_less)
  ultimately show "0 < n \<Longrightarrow> slot_time_from n s < 2 ^ 32 \<Longrightarrow> get_slot_time n s = slot_time_from n s"
    unfolding get_slot_time_def slot_time_from_def Let_def by (auto split: if_splits)
qed

text \<open>
  C9: as long as their times fit 32 bits, the numbers and the times of slots are inverse: the slot at the time of
  slot n is n, and every time from the first slot on lies between the time of its slot and the time of the next
  one. Before the first slot there is no slot, so that two blocks cannot share one.
\<close>

theorem slots_partition_time:
  assumes "0 < cp_block_interval (chain_params s)" and "slot_time_from 1 s < 2 ^ 32"
    and "t + cp_block_interval (chain_params s) < 2 ^ 32"
  shows "(\<forall>n>0. slot_time_from n s < 2 ^ 32 \<longrightarrow> get_slot_at_time (get_slot_time n s) s = n) \<and>
    (get_slot_at_time t s = 0 \<longleftrightarrow> t < get_slot_time 1 s) \<and>
    (get_slot_at_time t s \<noteq> 0 \<longrightarrow>
       get_slot_time (get_slot_at_time t s) s \<le> t \<and> t < get_slot_time (get_slot_at_time t s + 1) s)"
proof (intro conjI allI impI)
  let ?i = "cp_block_interval (chain_params s)" and ?f = "slot_time_from 1 s"
  have first: "get_slot_time 1 s = ?f" using get_slot_time_fits [of 1 s] assms(2) by simp
  have small: "k div ?i + 1 < 2 ^ 32" if "k + ?i < 2 ^ 32" for k
    using that assms(1) div_le_dividend [of k ?i] by linarith
  have later: "slot_time_from n s = ?f + (n - 1) * ?i" if "0 < n" for n
    using slot_time_from_add [of 1 "n - 1" s] that by simp
  show "get_slot_at_time (get_slot_time n s) s = n" if n: "0 < n" and fits: "slot_time_from n s < 2 ^ 32" for n
  proof -
    have "n - 1 \<le> (n - 1) * ?i" using assms(1) by simp
    then have "n - 1 < 2 ^ 32" using fits later [OF n] by linarith
    moreover have "n \<noteq> 2 ^ 32"
    proof
      assume "n = 2 ^ 32"
      then have "?f + 4294967295 * ?i < 4294967296" using fits later [OF n] by simp
      moreover have "?i \<le> ?f" by (simp add: slot_time_from_def Let_def)
      ultimately show False using assms(1) by linarith
    qed
    ultimately have "n < 2 ^ 32" by linarith
    then show ?thesis using get_slot_time_fits [OF n fits] later [OF n] assms(1) n first
      by (simp add: get_slot_at_time_def Let_def del: One_nat_def)
  qed
  show "get_slot_at_time t s = 0 \<longleftrightarrow> t < get_slot_time 1 s"
    using small [of "t - ?f"] assms(3) by (simp add: get_slot_at_time_def Let_def first del: One_nat_def)
  assume "get_slot_at_time t s \<noteq> 0"
  then have t: "?f \<le> t" by (simp add: get_slot_at_time_def Let_def first split: if_splits del: One_nat_def)
  define k where "k = (t - ?f) div ?i"
  have m: "get_slot_at_time t s = k + 1"
    using t small [of "t - ?f"] assms(3) by (simp add: get_slot_at_time_def Let_def first k_def del: One_nat_def)
  have k: "?f + k * ?i \<le> t" "t < ?f + (k * ?i + ?i)"
    using t div_times_less_eq_dividend [of "t - ?f" ?i] dividend_less_div_times [OF assms(1), of "t - ?f"]
    unfolding k_def by linarith+
  have "slot_time_from (k + 1) s = ?f + k * ?i" "slot_time_from (k + 1 + 1) s = ?f + (k * ?i + ?i)"
    using later [of "k + 1"] later [of "k + 1 + 1"] by simp_all
  then show "get_slot_time (get_slot_at_time t s) s \<le> t" "t < get_slot_time (get_slot_at_time t s + 1) s"
    using k assms(3) get_slot_time_fits [of "k + 1" s] get_slot_time_fits [of "k + 1 + 1" s] unfolding m by simp_all
qed

theorem slots_partition_time_witness:
  "get_slot_at_time (get_slot_time 7 sample_production) sample_production = 7 \<and>
   get_slot_at_time 1600000001 sample_production = 0 \<and> get_slot_at_time 1600000003 sample_production = 1"
proof -
  have i: "0 < cp_block_interval (chain_params sample_production)" by (simp add: sample_production_def)
  have f: "slot_time_from 1 sample_production = 1600000002" "slot_time_from 7 sample_production = 1600000020"
    by (simp_all add: slot_time_from_def sample_production_def sample_quiet_db_def)
  have first: "get_slot_time 1 sample_production = 1600000002" using get_slot_time_fits [of 1 sample_production] f by simp
  then have "get_slot_at_time 1600000003 sample_production = 1"
    by (simp add: get_slot_at_time_def sample_production_def del: One_nat_def)
  moreover have "get_slot_at_time 1600000001 sample_production = 0"
    using slots_partition_time [OF i, of 1600000001] f first by (simp add: sample_production_def)
  moreover have "get_slot_at_time (get_slot_time 7 sample_production) sample_production = 7"
    using slots_partition_time [OF i, of 0] f by (simp add: sample_production_def)
  ultimately show ?thesis by blast
qed

section \<open>Participation\<close>

text \<open>
  The bits of the slots have the latest slot first. A block that follows missed slots is recorded before them, as
  if it came first and the slots were missed after it; after 128 missed slots it is not recorded at all.
\<close>

lemma block_recorded_before_missed_slots:
  assumes "update_global_dynamic_data c n t w m s = Inr s'"
  shows "i < m \<Longrightarrow> \<not> bit (recent_slots_filled s') i" and "m < 128 \<Longrightarrow> bit (recent_slots_filled s') m"
    and "128 \<le> m \<Longrightarrow> witness_participation_rate s' = 0"
proof -
  have r: "recent_slots_filled s' = push_bit m (push_bit 1 (recent_slots_filled s) + 1)"
    using assms by (auto simp: update_global_dynamic_data_def Let_def ebind_Inr)
  have odd: "odd (push_bit 1 (recent_slots_filled s) + 1)" by simp
  show "i < m \<Longrightarrow> \<not> bit (recent_slots_filled s') i" by (simp add: r bit_push_bit_iff)
  show "m < 128 \<Longrightarrow> bit (recent_slots_filled s') m"
    using odd unfolding r bit_push_bit_iff by (simp add: bit_0)
  assume "128 \<le> m"
  then have "\<not> bit (recent_slots_filled s') i" if "i < 128" for i using that by (simp add: r bit_push_bit_iff)
  then show "witness_participation_rate s' = 0" by (simp add: witness_participation_rate_def popcount_def filter_False)
qed

section \<open>A round of the schedule\<close>

lemma mset_swap_places: "i < length xs \<Longrightarrow> j < length xs \<Longrightarrow> mset (swap i j xs) = mset xs"
  unfolding swap_def by (rule mset_swap)

lemma length_swap [simp]: "length (swap i j xs) = length xs"
  by (simp add: swap_def)

lemma length_shuffle_step [simp]: "length (shuffle_step h i ws) = length ws"
  by (simp add: shuffle_step_def Let_def)

lemma mset_shuffle_step: "i < length ws \<Longrightarrow> mset (shuffle_step h i ws) = mset ws"
  unfolding shuffle_step_def Let_def
  using mod_less_divisor [of "length ws - i" "unat (shuffle_random h i)"]
  by (intro mset_swap_places) linarith+

lemma mset_shuffle:
  fixes ws :: "'a list"
  shows "mset (shuffle t ws) = mset ws"
proof -
  have shuffled: "mset (fold (shuffle_step h) js vs) = mset vs" if "\<And>i. i \<in> set js \<Longrightarrow> i < length vs" for h js and vs :: "'a list"
    using that by (induction js arbitrary: vs) (simp_all add: mset_shuffle_step)
  show ?thesis unfolding shuffle_def by (rule shuffled) simp
qed

lemma mod_sum_eq: "r < n \<Longrightarrow> i < n \<Longrightarrow> (r + i) mod n = (if r + i < n then r + i else r + i - (n::nat))"
  by (simp add: mod_if)

lemma round_hits:
  assumes "distinct xs" and "w \<in> set xs"
  shows "\<exists>!i. i < length xs \<and> xs ! ((a + i) mod length xs) = w"
proof -
  define n where "n = length xs"
  define r where "r = a mod n"
  obtain j where j: "j < n" "xs ! j = w" using assms(2) by (auto simp: in_set_conv_nth n_def)
  have r: "r < n" using j(1) by (simp add: r_def)
  have m: "(a + i) mod n = (if r + i < n then r + i else r + i - n)" if "i < n" for i
    using mod_sum_eq [OF r that] mod_add_left_eq [of a n i] by (simp add: r_def)
  define i0 where "i0 = (if r \<le> j then j - r else j + n - r)"
  have i0: "i0 < n" "(a + i0) mod n = j" using r j(1) m [of i0] by (auto simp: i0_def)
  show ?thesis unfolding n_def [symmetric]
  proof (rule ex1I [of _ i0])
    show "i0 < n \<and> xs ! ((a + i0) mod n) = w" using i0 j(2) by simp
    fix i assume i: "i < n \<and> xs ! ((a + i) mod n) = w"
    then have "(a + i) mod n < n" by simp
    then have "(a + i) mod n = j"
      using i j assms(1) nth_eq_iff_index_eq [of xs "(a + i) mod n" j] by (simp add: n_def)
    then show "i = i0" using m [of i] i r j(1) by (auto simp: i0_def split: if_splits)
  qed
qed

text \<open>
  C7: the shuffle at the end of a round is fair: in the schedule it leaves, every active witness is scheduled for
  exactly one of any n consecutive slots, n the number of active witnesses, and nobody else is scheduled. (The
  absolute number of a slot has 64 bits; the slots are those before it wraps around.)
\<close>

theorem schedule_is_fair:
  assumes "update_witness_schedule s = Inr s'" and "n = card (fm_keys (active_witnesses s))"
    and "head_block_number s mod n = 0" and "unat (current_aslot s) + k + n \<le> 2 ^ 64"
  shows "(\<forall>w. w \<in> fm_keys (active_witnesses s) \<longrightarrow> (\<exists>!i. i < n \<and> get_scheduled_witness (k + i) s' = Inr w)) \<and>
    (\<forall>i<n. \<exists>w. w \<in> fm_keys (active_witnesses s) \<and> get_scheduled_witness (k + i) s' = Inr w)"
proof -
  let ?ws = "fs_items (active_witnesses s)"
  let ?xs = "shuffle (head_block_time (chain_state s)) ?ws"
  have n: "n = length ?ws" using assms(2) distinct_card [OF distinct_fs_items] by (metis set_fs_items)
  have s': "s' = s\<lparr>current_shuffled_witnesses := ?xs\<rparr>" and pos: "0 < n"
    using assms(1,3) n by (auto simp: update_witness_schedule_def Let_def split: if_splits)
  have xs: "length ?xs = n" "distinct ?xs" "set ?xs = fm_keys (active_witnesses s)"
    using mset_shuffle [of "head_block_time (chain_state s)" ?ws] n
    by (metis size_mset, metis distinct_fs_items mset_eq_imp_distinct_iff, metis mset_eq_setD set_fs_items)
  have get: "get_scheduled_witness (k + i) s' = Inr (?xs ! ((unat (current_aslot s) + k + i) mod n))" if "i < n" for i
  proof -
    have "unat (current_aslot s + of_nat (k + i)) = unat (current_aslot s) + k + i"
      using assms(4) that by (simp add: unat_word_ariths unat_of_nat mod_simps)
    then show ?thesis using xs(1) pos by (simp add: get_scheduled_witness_def s' Let_def)
  qed
  show ?thesis
  proof (intro conjI allI impI)
    fix w assume "w \<in> fm_keys (active_witnesses s)"
    with xs have "\<exists>!i. i < n \<and> ?xs ! ((unat (current_aslot s) + k + i) mod n) = w"
      using round_hits [of ?xs w "unat (current_aslot s) + k"] by simp
    then show "\<exists>!i. i < n \<and> get_scheduled_witness (k + i) s' = Inr w" using get by (metis sum.inject(2))
  next
    fix i assume "i < n"
    then show "\<exists>w. w \<in> fm_keys (active_witnesses s) \<and> get_scheduled_witness (k + i) s' = Inr w"
      using get xs pos by (metis mod_less_divisor nth_mem)
  qed
qed

theorem schedule_is_fair_witness:
  "\<exists>s'. update_witness_schedule sample_production = Inr s' \<and>
     (\<forall>w \<in> {0, 1, 2}. \<exists>!i. i < 3 \<and> get_scheduled_witness (1 + i) s' = Inr w)"
proof -
  let ?s = "sample_production"
  have k: "fm_keys (active_witnesses ?s) = {0, 1, 2}" and h: "head_block_number ?s = 9" "current_aslot ?s = 9"
    by (simp_all add: sample_production_def)
  have n: "3 = card (fm_keys (active_witnesses ?s))" by (simp add: k)
  then have l: "length (fs_items (active_witnesses ?s)) = 3"
    using distinct_card [OF distinct_fs_items, of "active_witnesses ?s"] by simp
  let ?s' = "?s\<lparr>current_shuffled_witnesses := shuffle (head_block_time (chain_state ?s)) (fs_items (active_witnesses ?s))\<rparr>"
  have r: "update_witness_schedule ?s = Inr ?s'" using l h by (auto simp: update_witness_schedule_def Let_def)
  show ?thesis using schedule_is_fair [OF r n, of 1] h k r by (intro exI [of _ ?s']) simp
qed

section \<open>The irreversible block\<close>

lemma sorted_tail_confirms:
  fixes cs :: "nat list"
  assumes "k < length cs"
  shows "length cs - k \<le> length (filter (\<lambda>c. sort cs ! k \<le> c) cs)"
proof -
  let ?P = "\<lambda>c. sort cs ! k \<le> c"
  have "length cs - k = length (filter ?P (drop k (sort cs)))"
    using assms by (subst filter_True) (auto simp: in_set_conv_nth intro!: sorted_nth_mono)
  also have "\<dots> \<le> length (filter ?P (take k (sort cs) @ drop k (sort cs)))"
    by (simp only: filter_append length_append)
  also have "\<dots> = length (filter ?P cs)"
    by (metis append_take_drop_id mset_filter mset_sort size_mset)
  finally show ?thesis .
qed

text \<open>
  C8: when the irreversible block advances, at least 70 percent of the active witnesses have confirmed the new one
  or a later one; it never goes back.
\<close>

theorem irreversible_block_confirmed:
  assumes "update_last_irreversible_block s = Inr s'"
  shows "last_irreversible_block_num s \<le> last_irreversible_block_num s' \<and>
    (last_irreversible_block_num s' = last_irreversible_block_num s \<or>
     7 * card (fm_keys (active_witnesses s)) \<le>
       10 * card {w \<in> fm_keys (active_witnesses s). \<exists>wit. idx_find (witness_objects s) w = Some wit \<and>
              last_irreversible_block_num s' \<le> wit_last_confirmed_block_num wit})"
proof -
  let ?ws = "fs_items (active_witnesses s)"
  let ?n = "length ?ws"
  define conf where "conf w = (case idx_find (witness_objects s) w of None \<Rightarrow> 0 | Some wit \<Rightarrow> wit_last_confirmed_block_num wit)" for w
  obtain cs where cs: "confirmed_blocks s = Inr cs" and off: "irreversible_offset (length cs) < length cs"
    and s': "s' = (if last_irreversible_block_num s < sort cs ! irreversible_offset (length cs)
       then s\<lparr>last_irreversible_block_num := sort cs ! irreversible_offset (length cs)\<rparr> else s)"
    using assms by (auto simp: update_last_irreversible_block_def Let_def ebind_Inr split: if_splits)
  have found: "\<exists>wit. idx_find (witness_objects s) w = Some wit" if "w \<in> set ?ws" for w
    using cs that unfolding confirmed_blocks_def emap_Inr list_all2_conv_all_nth in_set_conv_nth
    by (auto simp: res_simps idx_get_def)
  have map: "cs = map conf ?ws"
    using cs by (auto simp: confirmed_blocks_def emap_Inr list_all2_conv_all_nth res_simps idx_get_def conf_def
        intro!: nth_equalityI)
  let ?v = "sort cs ! irreversible_offset (length cs)"
  have "irreversible_offset (length cs) = 3 * ?n div 10"
    by (simp add: irreversible_offset_def GRAPHENE_IRREVERSIBLE_THRESHOLD_def map)
  then have "7 * ?n \<le> 10 * (length cs - irreversible_offset (length cs))" by (simp add: map)
  also have "\<dots> \<le> 10 * length (filter (\<lambda>c. ?v \<le> c) cs)"
    using sorted_tail_confirms [OF off] by simp
  also have "length (filter (\<lambda>c. ?v \<le> c) cs) = card {w \<in> set ?ws. ?v \<le> conf w}"
    by (simp add: map filter_map o_def distinct_length_filter Int_def conj_commute)
  also have "{w \<in> set ?ws. ?v \<le> conf w} =
      {w \<in> fm_keys (active_witnesses s). \<exists>wit. idx_find (witness_objects s) w = Some wit \<and> ?v \<le> wit_last_confirmed_block_num wit}"
    using found by (fastforce simp: conf_def)
  finally show ?thesis
    using distinct_card [OF distinct_fs_items, of "active_witnesses s"] by (simp add: s')
qed

theorem irreversible_block_confirmed_witness:
  "\<exists>s'. update_last_irreversible_block sample_production = Inr s' \<and> last_irreversible_block_num s' = 7 \<and>
     7 * card (fm_keys (active_witnesses sample_production)) \<le>
       10 * card {w \<in> fm_keys (active_witnesses sample_production).
          \<exists>wit. idx_find (witness_objects sample_production) w = Some wit \<and> 7 \<le> wit_last_confirmed_block_num wit}"
proof -
  have "case update_last_irreversible_block sample_production of Inl e \<Rightarrow> False | Inr s' \<Rightarrow> last_irreversible_block_num s' = 7"
    by code_simp
  then obtain s' where s': "update_last_irreversible_block sample_production = Inr s'" "last_irreversible_block_num s' = 7"
    by (auto split: sum.splits)
  moreover have "last_irreversible_block_num sample_production = 6" by (simp add: sample_production_def)
  ultimately show ?thesis using irreversible_block_confirmed [OF s'(1)] by simp
qed

end
