(* ===== verification/Maintenance.thy ===== *)
theory Maintenance
  imports Witnesses
begin

text \<open>
  The maintenance of the chain as far as it concerns the witnesses, the workers and the supply of the core asset
  (\<^verbatim>\<open>db_maint.cpp\<close>, \<^verbatim>\<open>worker_evaluator.cpp\<close>): the election of the active witnesses, the parameters that come into
  force, the time of the next maintenance and the budget, from which witnesses and workers are paid. The results:
  the next maintenance is the first one of its rhythm after the head block; the budget creates exactly the
  money it hands out, never more than the reserve, so that the supply stays below its maximum.
\<close>

unbundle bit_operations_syntax

section \<open>Workers\<close>

definition GRAPHENE_MAX_WORKER_NAME_LENGTH :: nat where
  "GRAPHENE_MAX_WORKER_NAME_LENGTH = 63"

datatype worker_initializer =
  Refund_worker_initializer
| Vesting_balance_worker_initializer (pay_vesting_period_days: nat)
| Burn_worker_initializer

record worker_create_operation =
  wkc_fee :: asset
  wkc_owner :: account_id
  wkc_work_begin_date :: time
  wkc_work_end_date :: time
  wkc_daily_pay :: int
  wkc_name :: string
  wkc_url :: string
  wkc_initializer :: worker_initializer

definition worker_create_validate :: "worker_create_operation \<Rightarrow> unit res" where
  "worker_create_validate op =
     ebind (check (0 \<le> amount (wkc_fee op)) ''fee.amount >= 0'') (\<lambda>_.
     ebind (check (wkc_work_begin_date op < wkc_work_end_date op) ''work_end_date > work_begin_date'') (\<lambda>_.
     ebind (check (0 < wkc_daily_pay op) ''daily_pay > 0'') (\<lambda>_.
     ebind (check (wkc_daily_pay op < GRAPHENE_MAX_SHARE_SUPPLY) ''daily_pay < GRAPHENE_MAX_SHARE_SUPPLY'') (\<lambda>_.
     ebind (check (length (wkc_name op) < GRAPHENE_MAX_WORKER_NAME_LENGTH) ''name.size()'') (\<lambda>_.
       check (length (wkc_url op) < GRAPHENE_MAX_URL_LENGTH) ''url.size()'')))))"

definition worker_create_evaluate :: "production \<Rightarrow> worker_create_operation \<Rightarrow> unit res" where
  "worker_create_evaluate s op =
     ebind (idx_get (accounts (chain_state s)) (wkc_owner op)) (\<lambda>a.
     ebind (check (is_lifetime_member a) ''is_lifetime_member()'') (\<lambda>_.
       check (head_block_time (chain_state s) \<le> wkc_work_begin_date op) ''o.work_begin_date >= d.head_block_time()''))"

fun worker_init :: "account_id \<Rightarrow> worker_initializer \<Rightarrow> database \<Rightarrow> (worker_type \<times> database) res" where
  "worker_init owner Refund_worker_initializer d = Inr (Refund_worker 0, d)"
| "worker_init owner Burn_worker_initializer d = Inr (Burn_worker 0, d)"
| "worker_init owner (Vesting_balance_worker_initializer n) d =
     ebind (idx_create (\<lambda>a b. False)
              \<lparr>vb_owner = owner, vb_amount = core_asset 0,
               vb_policy = Cdd_vesting \<lparr>vesting_seconds = n * 86400, coin_seconds_earned = 0,
                 start_claim = 0, coin_seconds_earned_last_update = head_block_time d\<rparr>\<rparr>
              (vestings d)) (\<lambda>(v, ix).
       Inr (Vesting_balance_worker v, d\<lparr>vestings := ix\<rparr>))"

definition new_worker :: "worker_create_operation \<Rightarrow> worker_type \<Rightarrow> 32 word \<Rightarrow> 32 word \<Rightarrow> worker_object" where
  "new_worker op w for_id against_id =
     \<lparr>wk_account = wkc_owner op, wk_begin_date = wkc_work_begin_date op,
      wk_end_date = wkc_work_end_date op, wk_daily_pay = wkc_daily_pay op, wk_worker = w,
      wk_name = wkc_name op, wk_url = wkc_url op, wk_vote_for = for_id,
      wk_vote_against = against_id, wk_total_votes_for = 0, wk_total_votes_against = 0\<rparr>"

definition worker_create_apply :: "worker_create_operation \<Rightarrow> production \<Rightarrow> production res" where
  "worker_create_apply op s =
     (let (for_id, d) = get_next_vote_id Vote_worker (chain_state s);
          (against_id, d) = get_next_vote_id Vote_worker d
      in ebind (worker_init (wkc_owner op) (wkc_initializer op) d) (\<lambda>(w, d).
         ebind (idx_create (\<lambda>a b. wk_vote_for a = wk_vote_for b \<or> wk_vote_against a = wk_vote_against b)
                  (new_worker op w for_id against_id) (workers s)) (\<lambda>(i, ix).
           Inr (s\<lparr>chain_state := d, workers := ix\<rparr>))))"

definition wk_is_active :: "time \<Rightarrow> worker_object \<Rightarrow> bool" where
  "wk_is_active now w \<longleftrightarrow> wk_begin_date w \<le> now \<and> now \<le> wk_end_date w"

definition approving_stake :: "worker_object \<Rightarrow> int" where
  "approving_stake w = sint (wk_total_votes_for w) - sint (wk_total_votes_against w)"

text \<open>A worker refunds its pay to the reserve, lets it vest, or burns it by sending it to the null account.\<close>

definition pay_worker :: "nat \<Rightarrow> int \<Rightarrow> production \<Rightarrow> production res" where
  "pay_worker i amt s =
     ebind (idx_get (workers s) i) (\<lambda>w.
       case wk_worker w of
         Refund_worker burned \<Rightarrow>
           ebind (share (burned + amt)) (\<lambda>burned.
           ebind (share (current_supply s - amt)) (\<lambda>supply.
             Inr (s\<lparr>workers := idx_set i (w\<lparr>wk_worker := Refund_worker burned\<rparr>) (workers s), current_supply := supply\<rparr>)))
       | Vesting_balance_worker v \<Rightarrow>
           on_chain (\<lambda>d. ebind (idx_get (vestings d) v) (\<lambda>vb.
             ebind (vesting_deposit (head_block_time d) (core_asset amt) vb) (\<lambda>vb.
               Inr (d\<lparr>vestings := idx_set v vb (vestings d)\<rparr>)))) s
       | Burn_worker burned \<Rightarrow>
           ebind (share (burned + amt)) (\<lambda>burned.
             on_chain (adjust_balance GRAPHENE_NULL_ACCOUNT (core_asset amt))
               (s\<lparr>workers := idx_set i (w\<lparr>wk_worker := Burn_worker burned\<rparr>) (workers s)\<rparr>)))"

text \<open>The 64 bits of an unsigned number, read as an amount.\<close>

definition to_share :: "int \<Rightarrow> int" where
  "to_share x = sint (word_of_int x :: 64 word)"

definition requested_pay :: "nat \<Rightarrow> worker_object \<Rightarrow> int" where
  "requested_pay passed w = to_share (wk_daily_pay w mod 2 ^ 128 * (int passed * 1000000) mod 2 ^ 128 div (86400 * 1000000))"

fun pay_each :: "nat \<Rightarrow> (nat \<times> worker_object) list \<Rightarrow> int \<Rightarrow> production \<Rightarrow> (int \<times> production) res" where
  "pay_each passed [] budget s = Inr (budget, s)"
| "pay_each passed ((i, w) # ws) budget s =
     (if 0 < budget
      then let actual_pay = min budget (requested_pay passed w)
           in ebind (pay_worker i actual_pay s) (\<lambda>s.
              ebind (share (budget - actual_pay)) (\<lambda>budget. pay_each passed ws budget s))
      else Inr (budget, s))"

definition active_workers :: "production \<Rightarrow> (nat \<times> worker_object) list" where
  "active_workers s =
     sort_key (\<lambda>(i, w). (- approving_stake w, i))
       (filter (\<lambda>(i, w). wk_is_active (head_block_time (chain_state s)) w \<and> 0 < approving_stake w) (idx_items (workers s)))"

definition pay_workers :: "int \<Rightarrow> production \<Rightarrow> (int \<times> production) res" where
  "pay_workers budget s =
     pay_each (head_block_time (chain_state s) - last_budget_time s) (active_workers s) budget s"

text \<open>Votes against a worker have not counted since hard fork 607.\<close>

definition update_worker_votes :: "vote_tally \<Rightarrow> production \<Rightarrow> production res" where
  "update_worker_votes votes s =
     (if list_all (\<lambda>(i, w). unat (vote_instance (wk_vote_for w)) < length (vote_tally_buffer votes)) (idx_items (workers s))
      then Inr (s\<lparr>workers := fold (\<lambda>(i, w). idx_set i (w\<lparr>
             wk_total_votes_for := vote_tally_buffer votes ! unat (vote_instance (wk_vote_for w)),
             wk_total_votes_against := 0\<rparr>)) (idx_items (workers s)) (workers s)\<rparr>)
      else Inl Null_deref)"

section \<open>The election of the witnesses\<close>

definition witness_votes :: "vote_tally \<Rightarrow> witness_object \<Rightarrow> 64 word" where
  "witness_votes votes w = vote_tally_buffer votes ! unat (vote_instance (wit_vote_id w))"

text \<open>The stake that votes for each number of witnesses, and the least number of witnesses.\<close>

record witness_tally =
  witness_count_histogram_buffer :: "64 word list"
  min_witness_count :: nat

definition witness_count :: "vote_tally \<Rightarrow> witness_tally \<Rightarrow> nat res" where
  "witness_count votes wt =
     (case witness_count_histogram_buffer wt of
        [] \<Rightarrow> Inl Null_deref
      | h # hs \<Rightarrow>
          let stake_target = (total_voting_stake votes - h) div 2;
              n = (if 0 < stake_target then count_committee stake_target hs 0 0 else 0)
          in Inr (max (n * 2 + 1) (min_witness_count wt)))"

definition sort_votable_witnesses :: "vote_tally \<Rightarrow> nat \<Rightarrow> production \<Rightarrow> (nat \<times> witness_object) list" where
  "sort_votable_witnesses votes n s =
     take n (sort_key (\<lambda>(i, w). (- uint (witness_votes votes w), uint (vote_instance (wit_vote_id w))))
       (idx_items (witness_objects s)))"

text \<open>Whether the votes of the witnesses that are not elected are kept as well is a setting of the node.\<close>

definition update_active_witnesses ::
  "bool \<Rightarrow> vote_tally \<Rightarrow> witness_tally \<Rightarrow> production \<Rightarrow> production res" where
  "update_active_witnesses track_standby_votes votes wt s =
     ebind (witness_count votes wt) (\<lambda>count.
     let all_witnesses = idx_items (witness_objects s)
     in if all_witnesses = [] \<or>
           \<not> list_all (\<lambda>(i, w). unat (vote_instance (wit_vote_id w)) < length (vote_tally_buffer votes)) all_witnesses
        then Inl Null_deref
        else let wits = sort_votable_witnesses votes count s;
                 vc = fold (\<lambda>(i, w). vote_counter_add (wit_account w) (witness_votes votes w)) wits new_vote_counter
             in Inr (s\<lparr>witness_objects := fold (\<lambda>(i, w). idx_set i (w\<lparr>wit_total_votes := witness_votes votes w\<rparr>))
                         (if track_standby_votes then all_witnesses else wits) (witness_objects s),
                       witness_active := vote_counter_finish vc (witness_active s),
                       active_witnesses := fs_of_list (map fst wits)\<rparr>))"

section \<open>Parameters and the next maintenance\<close>

definition apply_pending_parameters :: "production \<Rightarrow> production" where
  "apply_pending_parameters s =
     (case pending_chain_parameters s of
        None \<Rightarrow> s
      | Some p \<Rightarrow> s\<lparr>chain_params := p, pending_chain_parameters := None\<rparr>)"

definition next_maintenance :: "nat \<Rightarrow> time \<Rightarrow> production \<Rightarrow> time" where
  "next_maintenance block_num t s =
     (let next = next_maintenance_time s; interval = cp_maintenance_interval (chain_params s)
      in if next \<le> t
         then if block_num = 1 then (t div interval + 1) * interval
              else let y = (head_block_time (chain_state s) - next) div interval in next + (y + 1) * interval
         else next)"

section \<open>The budget\<close>

record budget_record =
  time_since_last_budget :: nat
  from_initial_reserve :: int
  from_accumulated_fees :: int
  from_unused_witness_budget :: int
  requested_witness_budget :: int
  total_budget :: int
  rec_witness_budget :: int
  rec_worker_budget :: int
  leftover_worker_funds :: int
  supply_delta :: int

definition GRAPHENE_CORE_ASSET_CYCLE_RATE :: int where
  "GRAPHENE_CORE_ASSET_CYCLE_RATE = 17"

definition GRAPHENE_CORE_ASSET_CYCLE_RATE_BITS :: nat where
  "GRAPHENE_CORE_ASSET_CYCLE_RATE_BITS = 32"

text \<open>What the reserve may release: a fraction of it for the time that has passed, rounded up, on 128 bits.\<close>

definition cycle_budget :: "int \<Rightarrow> nat \<Rightarrow> int" where
  "cycle_budget reserve dt =
     (let budget_u128 = reserve mod 2 ^ 128 * int dt * GRAPHENE_CORE_ASSET_CYCLE_RATE +
            (2 ^ GRAPHENE_CORE_ASSET_CYCLE_RATE_BITS - 1);
          budget_u128 = budget_u128 mod 2 ^ 128 div 2 ^ GRAPHENE_CORE_ASSET_CYCLE_RATE_BITS
      in if budget_u128 < reserve mod 2 ^ 128 then budget_u128 else reserve)"

definition initialize_budget_record :: "time \<Rightarrow> production \<Rightarrow> budget_record res" where
  "initialize_budget_record now s =
     ebind (share (core_max_supply s - current_supply s)) (\<lambda>reserved.
     let r = \<lparr>time_since_last_budget = 0, from_initial_reserve = reserved,
              from_accumulated_fees = accumulated_fees s, from_unused_witness_budget = witness_budget s,
              requested_witness_budget = 0, total_budget = 0, rec_witness_budget = 0, rec_worker_budget = 0,
              leftover_worker_funds = 0, supply_delta = 0\<rparr>
     in if last_budget_time s = 0 \<or> now \<le> last_budget_time s then Inr r
        else ebind (share (reserved + accumulated_fees s)) (\<lambda>reserve.
             ebind (share (reserve + witness_budget s)) (\<lambda>reserve.
             let dt = now - last_budget_time s
             in Inr (r\<lparr>time_since_last_budget := dt, total_budget := cycle_budget reserve dt\<rparr>))))"

definition worker_share :: "int \<Rightarrow> int \<Rightarrow> int \<Rightarrow> int" where
  "worker_share per_day time_to_maint available_funds =
     (let worker_budget_u128 = per_day mod 2 ^ 128 * time_to_maint mod 2 ^ 128 div 86400
      in if available_funds mod 2 ^ 128 \<le> worker_budget_u128 then available_funds else worker_budget_u128)"

definition blocks_to_maint :: "int \<Rightarrow> int \<Rightarrow> int" where
  "blocks_to_maint time_to_maint interval = (time_to_maint + interval - 1) div interval"

definition process_budget :: "production \<Rightarrow> (budget_record \<times> production) res" where
  "process_budget s =
     (let now = head_block_time (chain_state s);
          time_to_maint = int (next_maintenance_time s) - int now;
          blocks = blocks_to_maint time_to_maint (int (cp_block_interval (chain_params s)))
      in ebind (initialize_budget_record now s) (\<lambda>r.
         let requested = to_share (cp_witness_pay_per_block (chain_params s) * blocks);
             budget = min requested (total_budget r);
             r = r\<lparr>requested_witness_budget := requested, rec_witness_budget := budget\<rparr>
         in ebind (share (total_budget r - budget)) (\<lambda>available_funds.
            let worker_budget = worker_share (cp_worker_budget_per_day (chain_params s)) time_to_maint available_funds
            in ebind (share (available_funds - worker_budget)) (\<lambda>available_funds.
               ebind (pay_workers worker_budget s) (\<lambda>(leftover, s).
               ebind (share (available_funds + leftover)) (\<lambda>available_funds.
               ebind (ebind (share (budget + worker_budget)) (\<lambda>x.
                      ebind (share (x - leftover)) (\<lambda>x.
                      ebind (share (x - from_accumulated_fees r)) (\<lambda>x.
                        share (x - from_unused_witness_budget r))))) (\<lambda>delta.
               ebind (share (current_supply s + delta)) (\<lambda>new_supply.
               let r = r\<lparr>rec_worker_budget := worker_budget, leftover_worker_funds := leftover, supply_delta := delta\<rparr>
               in Inr (r, s\<lparr>current_supply := new_supply, accumulated_fees := 0, witness_budget := budget,
                            last_budget_time := now\<rparr>)))))))))"

section \<open>The maintenance\<close>

text \<open>
  The steps in the order of the code, without those of parts that are not modelled: the distribution of fees to
  assets and buybacks, the Graphene committee, the market and the hard forks that have passed. The tally of the
  votes of the accounts is an argument.
\<close>

definition perform_chain_maintenance ::
  "rating_lib \<Rightarrow> bool \<Rightarrow> vote_tally \<Rightarrow> witness_tally \<Rightarrow> nat \<Rightarrow> time \<Rightarrow> production \<Rightarrow> production res" where
  "perform_chain_maintenance lib track_standby_votes votes wt block_num t s =
     ebind (update_active_witnesses track_standby_votes votes wt s) (\<lambda>s.
     ebind (update_worker_votes votes s) (\<lambda>s.
     let s = apply_pending_parameters s;
         s = s\<lparr>next_maintenance_time := next_maintenance block_num t s\<rparr>
     in ebind (process_budget s) (\<lambda>(r, s).
          on_chain (process_maintain_tasks lib votes) s)))"

section \<open>The rhythm of the maintenance\<close>

lemma next_maintenance_bounds:
  assumes "next_maintenance_time s \<le> head_block_time (chain_state s)" and "0 < cp_maintenance_interval (chain_params s)"
    and "m = next_maintenance n (head_block_time (chain_state s)) s"
  shows "head_block_time (chain_state s) < m" and "m \<le> head_block_time (chain_state s) + cp_maintenance_interval (chain_params s)"
proof -
  let ?t = "head_block_time (chain_state s)" and ?i = "cp_maintenance_interval (chain_params s)"
  let ?k = "next_maintenance_time s"
  have up: "a < a div ?i * ?i + ?i" for a :: nat
    using dividend_less_div_times [OF assms(2), of a] by linarith
  have down: "a div ?i * ?i \<le> a" for a :: nat by (rule div_times_less_eq_dividend)
  have m: "m = (if n = 1 then ?t div ?i * ?i + ?i else ?k + ((?t - ?k) div ?i * ?i + ?i))"
    using assms(1,3) by (simp add: next_maintenance_def Let_def algebra_simps)
  have "?t < (?t - ?k) div ?i * ?i + ?i + ?k" using up [of "?t - ?k"] less_diff_conv2 [OF assms(1)] by blast
  then show "?t < m" using up [of ?t] by (simp add: m)
  have "(?t - ?k) div ?i * ?i + ?k \<le> ?t" using down [of "?t - ?k"] le_diff_conv2 [OF assms(1)] by blast
  then show "m \<le> ?t + ?i" using down [of ?t] by (simp add: m)
qed

section \<open>Accounts\<close>

text \<open>
  What must agree: the core asset that accounts, tables and vesting balances hold, the budget of the witnesses and
  the fees not yet returned to the reserve, against the supply.
\<close>

definition off_balance :: "nat \<Rightarrow> production \<Rightarrow> int" where
  "off_balance x s =
     held x (chain_state s) + (if x = CORE then witness_budget s + accumulated_fees s - current_supply s else 0)"

definition parameters_fit :: "chain_parameters \<Rightarrow> bool" where
  "parameters_fit p \<longleftrightarrow>
     0 < cp_block_interval p \<and> 0 < cp_maintenance_interval p \<and> 0 \<le> cp_witness_pay_per_block p \<and>
     cp_witness_pay_per_block p * int (cp_maintenance_interval p) < 2 ^ 63"

definition worker_ok :: "worker_object \<Rightarrow> bool" where
  "worker_ok w \<longleftrightarrow> 0 < wk_daily_pay w \<and> wk_daily_pay w < GRAPHENE_MAX_SHARE_SUPPLY"

definition production_ok :: "production \<Rightarrow> bool" where
  "production_ok s \<longleftrightarrow>
     chain_ok (chain_state s) \<and> 0 \<le> witness_budget s \<and> 0 \<le> accumulated_fees s \<and>
     current_supply s \<le> core_max_supply s \<and> parameters_fit (chain_params s) \<and>
     (case pending_chain_parameters s of None \<Rightarrow> True | Some p \<Rightarrow> parameters_fit p) \<and>
     idx_all worker_ok (workers s)"

text \<open>A step keeps the accounts when it keeps the invariant, what is off the balance and the head.\<close>

definition keeps_accounts :: "production \<Rightarrow> production \<Rightarrow> bool" where
  "keeps_accounts s s' \<longleftrightarrow>
     (production_ok s \<longrightarrow> production_ok s' \<and> (\<forall>x. off_balance x s' = off_balance x s) \<and>
        core_max_supply s' = core_max_supply s \<and> head_block_number s' = head_block_number s \<and>
        head_block_time (chain_state s') = head_block_time (chain_state s))"

lemma keeps_accounts_refl [simp]: "keeps_accounts s s"
  by (simp add: keeps_accounts_def)

lemma keeps_accounts_trans [trans]: "keeps_accounts s t \<Longrightarrow> keeps_accounts t u \<Longrightarrow> keeps_accounts s u"
  by (simp add: keeps_accounts_def)

lemma chain_view_simps [simp]:
  "head_block_time (chain_view s) = head_block_time (chain_state s)"
  "chain_ok (chain_view s) = chain_ok (chain_state s)" "held x (chain_view s) = held x (chain_state s)"
  "balances (chain_view s) = balances (chain_state s)" "vestings (chain_view s) = vestings (chain_state s)"
proof -
  show "held x (chain_view s) = held x (chain_state s)" by (simp add: chain_view_def held_def)
  have "db_ok (chain_view s) = db_ok (chain_state s)" by (simp add: chain_view_def db_ok_def balances_ok_def)
  moreover have "calm {} (chain_state s) (chain_view s)" "calm {} (chain_view s) (chain_state s)"
    by (simp_all add: chain_view_def calm_def players_le_def find_player_def)
  then have "votes_ok (chain_view s) = votes_ok (chain_state s)" by (blast intro: votes_ok_calm_all)
  ultimately show "chain_ok (chain_view s) = chain_ok (chain_state s)" by (simp add: chain_ok_def chain_view_def)
qed (simp_all add: chain_view_def)

lemma on_chain_keeps:
  assumes "\<And>d. ends (sound d) (f d)"
  shows "ends (keeps_accounts s) (on_chain f s)"
proof (rule endsI)
  fix s' assume "on_chain f s = Inr s'"
  then obtain d where "f (chain_view s) = Inr d" "s' = s\<lparr>chain_state := d\<rparr>" by (auto simp: on_chain_def ebind_Inr)
  with endsD [OF assms, of "chain_view s" d] show "keeps_accounts s s'"
    by (auto simp: keeps_accounts_def production_ok_def off_balance_def sound_def)
qed

lemma gives_chain:
  assumes "gives f d d'" and "calm {} d d'" and "chain_ok d"
  shows "chain_ok d'" and "held x d' = held x d + f x"
  using assms by (auto simp: chain_ok_def gives_def calm_def intro: votes_ok_calm_all)

section \<open>The pay of the workers\<close>

text \<open>
  What paying workers changes: an amount enters the chain or leaves the supply.
\<close>

definition paid_out :: "int \<Rightarrow> production \<Rightarrow> production \<Rightarrow> bool" where
  "paid_out n s s' \<longleftrightarrow>
     0 \<le> n \<and>
     (\<exists>d ix c. s' = s\<lparr>chain_state := d, workers := ix, current_supply := c\<rparr> \<and> c \<le> current_supply s \<and>
        (idx_all worker_ok (workers s) \<longrightarrow> idx_all worker_ok ix) \<and>
        head_block_time d = head_block_time (chain_state s) \<and>
        (chain_ok (chain_state s) \<longrightarrow> chain_ok d \<and>
           (\<forall>x. held x d = held x (chain_state s) + (if x = CORE then n + c - current_supply s else 0))))"

lemma paid_out_0: "paid_out 0 s s"
proof -
  have "s = s\<lparr>chain_state := chain_state s, workers := workers s, current_supply := current_supply s\<rparr>" by simp
  then show ?thesis unfolding paid_out_def by (intro conjI exI) auto
qed

lemma paid_out_trans:
  assumes "paid_out m s t" and "paid_out n t u"
  shows "paid_out (m + n) s u"
proof -
  from assms(1) obtain d ix c where "t = s\<lparr>chain_state := d, workers := ix, current_supply := c\<rparr>" "0 \<le> m"
    and t: "c \<le> current_supply s" "idx_all worker_ok (workers s) \<longrightarrow> idx_all worker_ok ix"
      "head_block_time d = head_block_time (chain_state s)"
      "chain_ok (chain_state s) \<longrightarrow> chain_ok d \<and>
         (\<forall>x. held x d = held x (chain_state s) + (if x = CORE then m + c - current_supply s else 0))"
    unfolding paid_out_def by blast
  moreover from this(1) assms(2) obtain e ix' c' where "u = s\<lparr>chain_state := e, workers := ix', current_supply := c'\<rparr>"
    "0 \<le> n" and u: "c' \<le> c" "idx_all worker_ok ix \<longrightarrow> idx_all worker_ok ix'"
      "head_block_time e = head_block_time d"
      "chain_ok d \<longrightarrow> chain_ok e \<and> (\<forall>x. held x e = held x d + (if x = CORE then n + c' - c else 0))"
    unfolding paid_out_def by auto
  moreover have "chain_ok (chain_state s) \<longrightarrow> chain_ok e \<and>
      (\<forall>x. held x e = held x (chain_state s) + (if x = CORE then m + n + c' - current_supply s else 0))"
    using t(4) u(4) by simp
  ultimately show ?thesis unfolding paid_out_def by (intro conjI exI [of _ e] exI [of _ ix'] exI [of _ c']) auto
qed

lemma chain_paid_out:
  assumes "gives (\<lambda>x. funds x (core_asset n)) (chain_view s) d" and "calm {} (chain_view s) d" and "0 \<le> n"
    and "idx_all worker_ok (workers s) \<longrightarrow> idx_all worker_ok ix"
  shows "paid_out n s (s\<lparr>chain_state := d, workers := ix\<rparr>)"
proof -
  have "s\<lparr>chain_state := d, workers := ix\<rparr> = s\<lparr>chain_state := d, workers := ix, current_supply := current_supply s\<rparr>" by simp
  moreover have "head_block_time d = head_block_time (chain_state s)" using assms(2) by (simp add: calm_def)
  moreover have "chain_ok (chain_state s) \<longrightarrow> chain_ok d \<and>
      (\<forall>x. held x d = held x (chain_state s) + (if x = CORE then n + current_supply s - current_supply s else 0))"
    using gives_chain [OF assms(1,2)] by (auto simp: funds_def)
  ultimately show ?thesis using assms(3,4) unfolding paid_out_def by blast
qed

lemma pay_worker_paid_out:
  assumes "0 \<le> n" and "pay_worker i n s = Inr s'"
  shows "paid_out n s s'"
proof -
  obtain w where w: "idx_find (workers s) i = Some w" using assms(2) by (auto simp: pay_worker_def res_simps idx_get_def)
  have ok: "idx_all worker_ok (workers s) \<longrightarrow> idx_all worker_ok (idx_set i (w\<lparr>wk_worker := x\<rparr>) (workers s))" for x
    using w by (auto intro!: wf_intros dest: idx_allD simp: worker_ok_def)
  show ?thesis
  proof (cases "wk_worker w")
    case (Refund_worker burned)
    then have "s' = s\<lparr>chain_state := chain_state s, workers := idx_set i (w\<lparr>wk_worker := Refund_worker (burned + n)\<rparr>) (workers s),
        current_supply := current_supply s - n\<rparr>"
      using assms(2) w by (auto simp: pay_worker_def idx_get_def res_simps)
    then show ?thesis using assms(1) ok unfolding paid_out_def
      by (intro conjI exI [of _ "chain_state s"] exI [of _ "idx_set i (w\<lparr>wk_worker := Refund_worker (burned + n)\<rparr>) (workers s)"]
          exI [of _ "current_supply s - n"]) auto
  next
    case (Vesting_balance_worker v)
    then obtain vb vb' where v: "idx_find (vestings (chain_state s)) v = Some vb"
      "vesting_deposit (head_block_time (chain_state s)) (core_asset n) vb = Inr vb'"
      and s': "s' = s\<lparr>chain_state := (chain_view s)\<lparr>vestings := idx_set v vb' (vestings (chain_state s))\<rparr>\<rparr>"
      using assms(2) w by (auto simp: pay_worker_def on_chain_def idx_get_def res_simps)
    have vb': "funds x (vb_amount vb') = funds x (vb_amount vb) + funds x (core_asset n)" for x
      using v(2) by (auto simp: vesting_deposit_def ebind_Inr asset_plus_Inr funds_def core_asset_def)
    have "gives (\<lambda>x. funds x (core_asset n)) (chain_view s) ((chain_view s)\<lparr>vestings := idx_set v vb' (vestings (chain_state s))\<rparr>)"
      using v vb' assms(1) vesting_deposit_ok [OF v(2)]
      by (intro set_vestings_gives) (auto intro!: wf_intros dest: idx_allD)
    then have "paid_out n s (s\<lparr>chain_state := (chain_view s)\<lparr>vestings := idx_set v vb' (vestings (chain_state s))\<rparr>, workers := workers s\<rparr>)"
      using assms(1) by (intro chain_paid_out) auto
    then show ?thesis by (simp add: s')
  next
    case (Burn_worker burned)
    let ?ix = "idx_set i (w\<lparr>wk_worker := Burn_worker (burned + n)\<rparr>) (workers s)"
    from Burn_worker obtain d where d: "adjust_balance GRAPHENE_NULL_ACCOUNT (core_asset n) (chain_view s) = Inr d"
      and s': "s' = s\<lparr>chain_state := d, workers := ?ix\<rparr>"
      using assms(2) w by (auto simp: pay_worker_def on_chain_def idx_get_def res_simps chain_view_def)
    show ?thesis unfolding s'
      by (rule chain_paid_out [OF adjust_balance_gives [OF d] endsD [OF adjust_balance_calm d] assms(1) ok])
  qed
qed

lemma pay_each_paid_out:
  assumes "pay_each passed ws b s = Inr (rem, s')" and "0 \<le> b" and "\<forall>(i, w) \<in> set ws. 0 \<le> requested_pay passed w"
  shows "paid_out (b - rem) s s' \<and> 0 \<le> rem"
  using assms
proof (induction passed ws b s rule: pay_each.induct)
  case (2 passed i w ws b s)
  show ?case
  proof (cases "0 < b")
    case True
    let ?n = "min b (requested_pay passed w)"
    from True 2(2) obtain t where t: "pay_worker i ?n s = Inr t" and r: "pay_each passed ws (b - ?n) t = Inr (rem, s')"
      by (auto simp: Let_def res_simps)
    have "paid_out (b - ?n - rem) t s' \<and> 0 \<le> rem"
      using True 2(4) by (intro 2(1) [OF True refl t _ r]) (use r t True 2(2) in \<open>auto simp: Let_def res_simps\<close>)
    moreover have "paid_out ?n s t" using True 2(4) by (intro pay_worker_paid_out [OF _ t]) auto
    ultimately show ?thesis using paid_out_trans [of ?n s t "b - ?n - rem" s'] by simp
  qed (use 2 in \<open>auto simp: paid_out_0\<close>)
qed (auto simp: paid_out_0)

section \<open>The budget is covered\<close>

lemma to_share_id: "0 \<le> x \<Longrightarrow> x < 2 ^ 63 \<Longrightarrow> to_share x = x"
  by (simp add: to_share_def sint_sbintrunc' signed_take_bit_int_eq_self)

lemma cycle_budget_bounds:
  assumes "0 \<le> reserve" and "share_ok reserve"
  shows "0 \<le> cycle_budget reserve dt" and "cycle_budget reserve dt \<le> reserve"
proof -
  have "reserve mod 2 ^ 128 = reserve" using assms by (intro mod_pos_pos_trivial) (auto simp: share_ok_def)
  then show "0 \<le> cycle_budget reserve dt" "cycle_budget reserve dt \<le> reserve"
    using assms(1) by (simp_all add: cycle_budget_def Let_def pos_imp_zdiv_nonneg_iff)
qed

lemma worker_share_bounds:
  assumes "0 \<le> available" and "share_ok available"
  shows "0 \<le> worker_share per_day time available" and "worker_share per_day time available \<le> available"
proof -
  have "available mod 2 ^ 128 = available" using assms by (intro mod_pos_pos_trivial) (auto simp: share_ok_def)
  then show "0 \<le> worker_share per_day time available" "worker_share per_day time available \<le> available"
    using assms(1) by (simp_all add: worker_share_def Let_def pos_imp_zdiv_nonneg_iff)
qed

text \<open>More than 25 years may pass from one budget to the next before the pay of a worker leaves 64 bits.\<close>

definition BUDGET_TIME_LIMIT :: nat where
  "BUDGET_TIME_LIMIT = 790000000"

lemma requested_pay_nonneg:
  assumes "worker_ok w" and "passed \<le> BUDGET_TIME_LIMIT"
  shows "0 \<le> requested_pay passed w"
proof -
  define x where "x = wk_daily_pay w * int passed"
  have w: "0 < wk_daily_pay w" "wk_daily_pay w < 1000000000000000"
    using assms(1) by (simp_all add: worker_ok_def GRAPHENE_MAX_SHARE_SUPPLY_def)
  have p: "0 \<le> int passed" "int passed \<le> 790000000" using assms(2) by (simp_all add: BUDGET_TIME_LIMIT_def)
  have x: "0 \<le> x" "x \<le> 1000000000000000 * 790000000"
    using w p mult_mono [of "wk_daily_pay w" 1000000000000000 "int passed" 790000000] by (auto simp: x_def)
  have "wk_daily_pay w mod 2 ^ 128 = wk_daily_pay w" using w by (intro mod_pos_pos_trivial) auto
  moreover have "x * 1000000 mod 2 ^ 128 = x * 1000000" using x by (intro mod_pos_pos_trivial) auto
  ultimately have "requested_pay passed w = to_share (x * 1000000 div (86400 * 1000000))"
    unfolding requested_pay_def x_def by (simp only: mult.assoc)
  moreover have "x * 1000000 div (86400 * 1000000) = x div 86400" by (rule div_mult_mult2) simp
  moreover have "0 \<le> x div 86400" "x div 86400 < 2 ^ 63" using x by (auto simp: pos_imp_zdiv_nonneg_iff)
  ultimately show ?thesis by (simp add: to_share_id)
qed

lemma blocks_to_maint_bounds:
  assumes "0 < time" and "0 < interval"
  shows "0 \<le> blocks_to_maint time interval" and "blocks_to_maint time interval \<le> time"
proof -
  show "0 \<le> blocks_to_maint time interval" using assms by (simp add: blocks_to_maint_def pos_imp_zdiv_nonneg_iff)
  have "time + interval - 1 \<le> time * interval"
    using assms mult_nonneg_nonneg [of "time - 1" "interval - 1"] by (simp add: algebra_simps)
  then have "(time + interval - 1) div interval \<le> time * interval div interval" using assms(2) by (intro zdiv_mono1) auto
  then show "blocks_to_maint time interval \<le> time" using assms(2) by (simp add: blocks_to_maint_def)
qed

lemma requested_budget_nonneg:
  assumes "parameters_fit p" and "0 < time" and "time \<le> int (cp_maintenance_interval p)"
  shows "0 \<le> to_share (cp_witness_pay_per_block p * blocks_to_maint time (int (cp_block_interval p)))"
proof -
  let ?b = "blocks_to_maint time (int (cp_block_interval p))"
  have p: "0 \<le> cp_witness_pay_per_block p" "0 < int (cp_block_interval p)"
    "cp_witness_pay_per_block p * int (cp_maintenance_interval p) < 2 ^ 63"
    using assms(1) by (simp_all add: parameters_fit_def)
  have b: "0 \<le> ?b" "?b \<le> int (cp_maintenance_interval p)"
    using blocks_to_maint_bounds [OF assms(2) p(2)] assms(3) by simp_all
  then have "cp_witness_pay_per_block p * ?b < 2 ^ 63"
    using p mult_left_mono [OF b(2) p(1)] by linarith
  then show ?thesis using p(1) b(1) by (simp add: to_share_id)
qed

lemma initialize_budget_record_bounds:
  assumes "initialize_budget_record now s = Inr r" and "production_ok s"
  shows "from_accumulated_fees r = accumulated_fees s" "from_unused_witness_budget r = witness_budget s"
    "0 \<le> total_budget r"
    "total_budget r \<le> core_max_supply s - current_supply s + accumulated_fees s + witness_budget s"
    "total_budget r \<noteq> 0 \<Longrightarrow> last_budget_time s \<noteq> 0"
  using assms cycle_budget_bounds [of "core_max_supply s - current_supply s + accumulated_fees s + witness_budget s" "now - last_budget_time s"]
  by (auto simp: initialize_budget_record_def production_ok_def res_simps Let_def split: if_splits)

text \<open>What one budget does: \<open>b\<close> for the witnesses, \<open>w\<close> for the workers, of which \<open>rem\<close> is left.\<close>

lemma process_budget_cases:
  assumes "process_budget s = Inr (r', s')"
  obtains r time b w rem t where
    "time = int (next_maintenance_time s) - int (head_block_time (chain_state s))"
    "initialize_budget_record (head_block_time (chain_state s)) s = Inr r"
    "b = min (to_share (cp_witness_pay_per_block (chain_params s) *
           blocks_to_maint time (int (cp_block_interval (chain_params s))))) (total_budget r)"
    "w = worker_share (cp_worker_budget_per_day (chain_params s)) time (total_budget r - b)" "share_ok (total_budget r - b)"
    "pay_workers w s = Inr (rem, t)"
    "s' = t\<lparr>current_supply := current_supply t + (b + w - rem - from_accumulated_fees r - from_unused_witness_budget r),
            accumulated_fees := 0, witness_budget := b, last_budget_time := head_block_time (chain_state s)\<rparr>"
    "rec_witness_budget r' = b" "rec_worker_budget r' = w" "leftover_worker_funds r' = rem" "total_budget r' = total_budget r"
    "supply_delta r' = b + w - rem - from_accumulated_fees r - from_unused_witness_budget r"
proof -
  let ?time = "int (next_maintenance_time s) - int (head_block_time (chain_state s))"
  obtain r where r: "initialize_budget_record (head_block_time (chain_state s)) s = Inr r"
    using assms by (auto simp: process_budget_def Let_def ebind_Inr)
  define b where "b = min (to_share (cp_witness_pay_per_block (chain_params s) *
           blocks_to_maint ?time (int (cp_block_interval (chain_params s))))) (total_budget r)"
  define w where "w = worker_share (cp_worker_budget_per_day (chain_params s)) ?time (total_budget r - b)"
  show thesis
    using assms that [OF refl r b_def w_def]
    unfolding process_budget_def Let_def r ebind_simps b_def [symmetric]
    by (simp add: ebind_Inr share_Inr w_def [symmetric]) fastforce
qed

lemma process_budget_keeps:
  assumes "process_budget s = Inr (r', s')"
    and "head_block_time (chain_state s) < next_maintenance_time s"
    and "next_maintenance_time s \<le> head_block_time (chain_state s) + cp_maintenance_interval (chain_params s)"
    and "last_budget_time s = 0 \<or> head_block_time (chain_state s) \<le> last_budget_time s + BUDGET_TIME_LIMIT"
  shows "keeps_accounts s s'"
    and "production_ok s \<Longrightarrow> 0 \<le> rec_witness_budget r' \<and> 0 \<le> leftover_worker_funds r' \<and>
      leftover_worker_funds r' \<le> rec_worker_budget r' \<and>
      rec_witness_budget r' + rec_worker_budget r' \<le> total_budget r'"
proof -
  have "keeps_accounts s s' \<and> 0 \<le> rec_witness_budget r' \<and> 0 \<le> leftover_worker_funds r' \<and>
      leftover_worker_funds r' \<le> rec_worker_budget r' \<and> rec_witness_budget r' + rec_worker_budget r' \<le> total_budget r'"
    if ok: "production_ok s"
    using assms(1)
  proof (cases rule: process_budget_cases)
    case (1 r time b w rem t)
    note init = initialize_budget_record_bounds [OF 1(2) ok]
    have fit: "parameters_fit (chain_params s)" and wk: "idx_all worker_ok (workers s)"
      using ok by (simp_all add: production_ok_def)
    have b: "0 \<le> b" "b \<le> total_budget r"
      using requested_budget_nonneg [OF fit, of time] assms(2,3) init(3) by (simp_all add: 1(1,3))
    have w: "0 \<le> w" "w \<le> total_budget r - b"
      using worker_share_bounds [OF _ 1(5)] b by (simp_all add: 1(4))
    have paid: "paid_out (w - rem) s t \<and> 0 \<le> rem"
    proof (cases "w = 0")
      case True
      then show ?thesis using 1(6) by (cases "active_workers s") (auto simp: pay_workers_def paid_out_0)
    next
      case False
      then have "head_block_time (chain_state s) - last_budget_time s \<le> BUDGET_TIME_LIMIT"
        using w b init(5) assms(4) by auto
      then have "\<forall>(i, wk) \<in> set (active_workers s). 0 \<le> requested_pay (head_block_time (chain_state s) - last_budget_time s) wk"
        using wk by (auto simp: active_workers_def idx_items_iff dest: idx_allD intro!: requested_pay_nonneg)
      then show ?thesis using pay_each_paid_out 1(6) w(1) unfolding pay_workers_def by blast
    qed
    then obtain d ix c where t: "t = s\<lparr>chain_state := d, workers := ix, current_supply := c\<rparr>"
      and time: "head_block_time d = head_block_time (chain_state s)" and
      c: "c \<le> current_supply s" "0 \<le> w - rem" "0 \<le> rem" and ix: "idx_all worker_ok ix" and d: "chain_ok d"
      "held x d = held x (chain_state s) + (if x = CORE then w - rem + c - current_supply s else 0)" for x
      using wk ok unfolding paid_out_def production_ok_def by auto
    have "production_ok s'"
      using ok ix d(1) b w c init by (simp add: production_ok_def 1(7) t)
    moreover have "off_balance x s' = off_balance x s" for x
      using d(2) [of x] init(1,2) by (simp add: off_balance_def 1(7) t)
    ultimately have "keeps_accounts s s'" using time by (simp add: keeps_accounts_def 1(7) t)
    then show ?thesis using b w c by (simp add: 1(8-11))
  qed
  then show "keeps_accounts s s'" and "production_ok s \<Longrightarrow> 0 \<le> rec_witness_budget r' \<and> 0 \<le> leftover_worker_funds r' \<and>
      leftover_worker_funds r' \<le> rec_worker_budget r' \<and> rec_witness_budget r' + rec_worker_budget r' \<le> total_budget r'"
    by (auto simp: keeps_accounts_def)
qed

section \<open>The maintenance keeps the accounts\<close>

lemma idx_all_fold_set:
  assumes "idx_all P ix" and "\<And>i v. (i, v) \<in> set xs \<Longrightarrow> P (f v)"
  shows "idx_all P (fold (\<lambda>(i, v). idx_set i (f v)) xs ix)"
  using assms by (induction xs arbitrary: ix) (auto intro: idx_all_set)

lemma update_worker_votes_keeps: "ends (keeps_accounts s) (update_worker_votes votes s)"
proof (rule endsI)
  fix s' assume "update_worker_votes votes s = Inr s'"
  then have s': "s' = s\<lparr>workers := fold (\<lambda>(i, w). idx_set i (w\<lparr>
      wk_total_votes_for := vote_tally_buffer votes ! unat (vote_instance (wk_vote_for w)),
      wk_total_votes_against := 0\<rparr>)) (idx_items (workers s)) (workers s)\<rparr>"
    by (simp add: update_worker_votes_def split: if_splits)
  let ?ix = "fold (\<lambda>(i, w). idx_set i (w\<lparr>
      wk_total_votes_for := vote_tally_buffer votes ! unat (vote_instance (wk_vote_for w)),
      wk_total_votes_against := 0\<rparr>)) (idx_items (workers s)) (workers s)"
  have "idx_all worker_ok ?ix" if "idx_all worker_ok (workers s)"
    using that by (intro idx_all_fold_set) (auto simp: idx_items_iff worker_ok_def dest: idx_allD)
  then show "keeps_accounts s s'"
    by (auto simp: keeps_accounts_def production_ok_def off_balance_def s')
qed

lemma elected_keeps: "ends (keeps_accounts s) (update_active_witnesses track votes wt s)"
proof (rule endsI)
  fix s' assume "update_active_witnesses track votes wt s = Inr s'"
  then obtain a b c where "s' = s\<lparr>witness_objects := a, witness_active := b, active_witnesses := c\<rparr>"
    by (auto simp: update_active_witnesses_def ebind_Inr Let_def split: if_split_asm)
  then show "keeps_accounts s s'" by (simp add: keeps_accounts_def production_ok_def off_balance_def)
qed

lemma apply_pending_parameters_keeps: "keeps_accounts s (apply_pending_parameters s)"
  by (auto simp: apply_pending_parameters_def keeps_accounts_def production_ok_def off_balance_def split: option.splits)

lemma next_maintenance_time_keeps [simp]: "keeps_accounts s (s\<lparr>next_maintenance_time := t\<rparr>)"
  by (simp add: keeps_accounts_def production_ok_def off_balance_def)

lemma maintenance_frame:
  "update_active_witnesses track votes wt s = Inr s' \<Longrightarrow> chain_state s' = chain_state s \<and>
     next_maintenance_time s' = next_maintenance_time s \<and> last_budget_time s' = last_budget_time s"
  "update_worker_votes votes s = Inr s' \<Longrightarrow> chain_state s' = chain_state s \<and>
     next_maintenance_time s' = next_maintenance_time s \<and> last_budget_time s' = last_budget_time s"
  "chain_state (apply_pending_parameters s) = chain_state s \<and>
     next_maintenance_time (apply_pending_parameters s) = next_maintenance_time s \<and>
     last_budget_time (apply_pending_parameters s) = last_budget_time s"
  by (auto simp: update_active_witnesses_def update_worker_votes_def apply_pending_parameters_def ebind_Inr Let_def
      split: if_splits option.splits)

lemma perform_chain_maintenance_keeps:
  assumes "perform_chain_maintenance lib track votes wt n (head_block_time (chain_state s)) s = Inr s'"
    and "next_maintenance_time s \<le> head_block_time (chain_state s)"
    and "last_budget_time s = 0 \<or> head_block_time (chain_state s) \<le> last_budget_time s + BUDGET_TIME_LIMIT"
  shows "keeps_accounts s s'"
proof (cases "production_ok s")
  case True
  let ?t = "head_block_time (chain_state s)"
  from assms(1) obtain a b r c where a: "update_active_witnesses track votes wt s = Inr a"
    and b: "update_worker_votes votes a = Inr b"
    and c: "process_budget ((apply_pending_parameters b)\<lparr>next_maintenance_time := next_maintenance n ?t (apply_pending_parameters b)\<rparr>) = Inr (r, c)"
    and s': "on_chain (process_maintain_tasks lib votes) c = Inr s'"
    by (auto simp: perform_chain_maintenance_def ebind_Inr Let_def)
  let ?p = "apply_pending_parameters b"
  let ?q = "?p\<lparr>next_maintenance_time := next_maintenance n ?t ?p\<rparr>"
  have p: "keeps_accounts s ?p"
    using keeps_accounts_trans [OF keeps_accounts_trans [OF endsD [OF elected_keeps a] endsD [OF update_worker_votes_keeps b]]
        apply_pending_parameters_keeps] .
  have frame: "chain_state ?p = chain_state s" "next_maintenance_time ?p = next_maintenance_time s"
    "last_budget_time ?p = last_budget_time s"
    using maintenance_frame(1) [OF a] maintenance_frame(2) [OF b] maintenance_frame(3) [of b] by simp_all
  have "parameters_fit (chain_params ?p)" using p True by (simp add: keeps_accounts_def production_ok_def)
  then have "0 < cp_maintenance_interval (chain_params ?p)" by (simp add: parameters_fit_def)
  with next_maintenance_bounds [of ?p "next_maintenance n ?t ?p" n] assms(2) frame
  have bounds: "?t < next_maintenance n ?t ?p" "next_maintenance n ?t ?p \<le> ?t + cp_maintenance_interval (chain_params ?p)"
    by simp_all
  have "keeps_accounts ?q c"
    using process_budget_keeps(1) [OF c] bounds assms(3) frame by simp
  also have "keeps_accounts c s'"
    by (rule endsD [OF on_chain_keeps s']) (rule process_maintain_tasks_sound)
  finally show ?thesis using keeps_accounts_trans [OF p] keeps_accounts_trans [OF next_maintenance_time_keeps] by blast
qed (simp add: keeps_accounts_def)

section \<open>Operations keep the accounts\<close>

lemma chain_fields_sound:
  "sound d (d\<lparr>next_available_vote_id := n\<rparr>)"
  by (rule committee_fields_sound)

lemma next_vote_id_sound: "sound d (snd (get_next_vote_id ty d))"
  by (simp add: get_next_vote_id_def chain_fields_sound)

lemma set_chain_keeps: "sound (chain_state s) d \<Longrightarrow> keeps_accounts s (s\<lparr>chain_state := d\<rparr>)"
  by (auto simp: keeps_accounts_def production_ok_def off_balance_def sound_def)

lemma set_witnesses_keeps [simp]: "keeps_accounts s (s\<lparr>witness_objects := ix\<rparr>)"
  by (simp add: keeps_accounts_def production_ok_def off_balance_def)

lemma witness_create_keeps: "ends (keeps_accounts s) (witness_create_apply op s)"
proof (rule endsI)
  fix s' assume "witness_create_apply op s = Inr s'"
  then obtain ix where "s' = (s\<lparr>chain_state := snd (get_next_vote_id Vote_witness (chain_state s))\<rparr>)\<lparr>witness_objects := ix\<rparr>"
    by (auto simp: witness_create_apply_def ebind_Inr split: prod.splits)
  then show "keeps_accounts s s'"
    using keeps_accounts_trans [OF set_chain_keeps [OF next_vote_id_sound] set_witnesses_keeps] by simp
qed

lemma witness_update_keeps: "ends (keeps_accounts s) (witness_update_apply op s)"
  by (auto simp: ends_def witness_update_apply_def ebind_Inr Let_def)

lemma worker_init_sound: "worker_init owner ini d = Inr (w, d') \<Longrightarrow> sound d d'"
proof (cases ini)
  case (Vesting_balance_worker_initializer n)
  assume "worker_init owner ini d = Inr (w, d')"
  with Vesting_balance_worker_initializer obtain vb v ix where c: "idx_create (\<lambda>a b. False) vb (vestings d) = Inr (v, ix)"
    and vb: "vb_amount vb = core_asset 0" "vesting_ok vb" and d': "d' = d\<lparr>vestings := ix\<rparr>"
    by (auto simp: ebind_Inr vesting_ok_def)
  have "conserves d d'" unfolding d'
    using idx_sum_create [OF c] vb by (intro set_vestings_gives) (auto intro: idx_all_create [OF c] simp: funds_def)
  moreover have "calm {} d d'" unfolding d' by (simp add: calm_rules)
  ultimately show "sound d d'" by (rule sound_calm [rotated])
qed auto

lemma worker_create_keeps:
  assumes "worker_create_validate op = Inr ()"
  shows "ends (keeps_accounts s) (worker_create_apply op s)"
proof (rule endsI)
  fix s' assume "worker_create_apply op s = Inr s'"
  then obtain w d f g i ix where
    d: "worker_init (wkc_owner op) (wkc_initializer op) (snd (get_next_vote_id Vote_worker (snd (get_next_vote_id Vote_worker (chain_state s))))) = Inr (w, d)"
    and c: "idx_create (\<lambda>a b. wk_vote_for a = wk_vote_for b \<or> wk_vote_against a = wk_vote_against b) (new_worker op w f g) (workers s) = Inr (i, ix)"
    and s': "s' = s\<lparr>chain_state := d, workers := ix\<rparr>"
    unfolding worker_create_apply_def by (auto simp: ebind_Inr simp del: worker_init.simps split: prod.splits)
  have sound: "sound (chain_state s) d"
    using sound_trans [OF sound_trans [OF next_vote_id_sound next_vote_id_sound] worker_init_sound [OF d]] .
  have "worker_ok (new_worker op w f g)"
    using assms by (simp add: worker_create_validate_def res_simps worker_ok_def new_worker_def)
  then show "keeps_accounts s s'"
    using sound idx_all_create [OF c, of worker_ok]
    by (auto simp: keeps_accounts_def production_ok_def off_balance_def sound_def s')
qed

section \<open>The budget\<close>

text \<open>
  C10: the budget of a maintenance is covered by the reserve: the budgets of the witnesses and of the workers, which
  get no more than theirs, are within what the reserve releases, and the supply changes by exactly what enters the
  chain and the budget less the fees and the unspent budget that return to the reserve, so that it stays below its
  maximum. (The parameters fit 64 bits, and no more than 25 years have passed since the last budget.)
\<close>

theorem budget_covered:
  assumes "process_budget s = Inr (r, s')" and "production_ok s"
    and "head_block_time (chain_state s) < next_maintenance_time s"
    and "next_maintenance_time s \<le> head_block_time (chain_state s) + cp_maintenance_interval (chain_params s)"
    and "last_budget_time s = 0 \<or> head_block_time (chain_state s) \<le> last_budget_time s + BUDGET_TIME_LIMIT"
  shows "0 \<le> rec_witness_budget r \<and> 0 \<le> leftover_worker_funds r \<and> leftover_worker_funds r \<le> rec_worker_budget r \<and>
    rec_witness_budget r + rec_worker_budget r \<le> total_budget r \<and>
    held CORE (chain_state s') - held CORE (chain_state s) + witness_budget s' =
      current_supply s' - current_supply s + accumulated_fees s + witness_budget s \<and>
    current_supply s' \<le> core_max_supply s"
proof -
  have "keeps_accounts s s'" by (rule process_budget_keeps(1) [OF assms(1,3,4,5)])
  then have ok: "production_ok s'" "off_balance CORE s' = off_balance CORE s" "core_max_supply s' = core_max_supply s"
    using assms(2) by (simp_all add: keeps_accounts_def)
  moreover have "accumulated_fees s' = 0" using assms(1) by (cases rule: process_budget_cases) simp
  ultimately have "held CORE (chain_state s') - held CORE (chain_state s) + witness_budget s' =
      current_supply s' - current_supply s + accumulated_fees s + witness_budget s" "current_supply s' \<le> core_max_supply s"
    by (simp_all add: off_balance_def production_ok_def)
  then show ?thesis using process_budget_keeps(2) [OF assms(1,3,4,5,2)] by blast
qed

section \<open>A sample\<close>

lemma sample_production_ok: "production_ok sample_production"
proof -
  have "chain_ok (chain_state sample_production)" using sample_quiet_ok by (simp add: sample_production_def)
  moreover have "idx_all worker_ok (of_objects [sample_worker 3 (Burn_worker 0), sample_worker 4 (Refund_worker 0)])"
    by code_simp
  then have "idx_all worker_ok (workers sample_production)" by (simp add: sample_production_def)
  ultimately show ?thesis unfolding production_ok_def
    by (simp add: sample_production_def parameters_fit_def)
qed

definition sample_due :: production where
  "sample_due = sample_production\<lparr>next_maintenance_time := 1600003600\<rparr>"

theorem budget_covered_witness:
  "\<exists>r s'. process_budget sample_due = Inr (r, s') \<and> rec_witness_budget r + rec_worker_budget r \<le> total_budget r \<and>
     rec_witness_budget r = 60000 \<and> current_supply s' \<le> core_max_supply sample_due"
proof -
  have "case process_budget sample_due of Inl e \<Rightarrow> False | Inr (r, s') \<Rightarrow> rec_witness_budget r = 60000" by code_simp
  then obtain r s' where r: "process_budget sample_due = Inr (r, s')" "rec_witness_budget r = 60000"
    by (auto split: sum.splits)
  have "production_ok sample_due"
    using sample_production_ok by (simp add: sample_due_def production_ok_def)
  moreover have "head_block_time (chain_state sample_due) < next_maintenance_time sample_due"
    "next_maintenance_time sample_due \<le> head_block_time (chain_state sample_due) + cp_maintenance_interval (chain_params sample_due)"
    "head_block_time (chain_state sample_due) \<le> last_budget_time sample_due + BUDGET_TIME_LIMIT"
    by (simp_all add: sample_due_def sample_production_def sample_quiet_db_def BUDGET_TIME_LIMIT_def)
  ultimately show ?thesis using budget_covered [OF r(1)] r by blast
qed

end
