(* ===== verification/Production.thy ===== *)
theory Production
  imports Maintenance
begin

text \<open>
  A whole block (\<^verbatim>\<open>database::_apply_block\<close>): its header is checked against the schedule, its transactions are
  applied, missed slots, the head, the pay of the witness and the irreversible block are updated, then come the
  maintenance, expired proposals, the block tasks and the schedule. The result: a block keeps the accounts. What
  accounts, tables and vesting balances hold and what is budgeted changes only with the supply, which stays below
  its maximum, however operations, pay, maintenance and tasks follow each other.
\<close>

section \<open>Operations and transactions\<close>

datatype production_operation =
  Playchain playchain_operation
| Witness_create witness_create_operation
| Witness_update witness_update_operation
| Worker_create worker_create_operation

fun production_validate :: "production_operation \<Rightarrow> unit res" where
  "production_validate (Playchain op) = operation_validate op"
| "production_validate (Witness_create op) = witness_create_validate op"
| "production_validate (Witness_update op) = witness_update_validate op"
| "production_validate (Worker_create op) = worker_create_validate op"

fun production_apply ::
  "'h::linorder externals \<Rightarrow> production_operation \<Rightarrow> production \<Rightarrow> production res" where
  "production_apply ext (Playchain op) s = on_chain (apply_operation ext False op) s"
| "production_apply ext (Witness_create op) s = ebind (witness_create_evaluate s op) (\<lambda>_. witness_create_apply op s)"
| "production_apply ext (Witness_update op) s = ebind (witness_update_evaluate s op) (\<lambda>_. witness_update_apply op s)"
| "production_apply ext (Worker_create op) s = ebind (worker_create_evaluate s op) (\<lambda>_. worker_create_apply op s)"

definition production_transaction ::
  "'h::linorder externals \<Rightarrow> production_operation list \<Rightarrow> production \<Rightarrow> production res" where
  "production_transaction ext ops s =
     ebind (check (ops \<noteq> []) ''A transaction must have at least one operation'') (\<lambda>_.
     ebind (efold (\<lambda>op _. production_validate op) ops ()) (\<lambda>_.
       efold (production_apply ext) ops s))"

section \<open>Blocks\<close>

text \<open>
  The key that signed the block is recovered from its signature; the tallies of the votes and the proposals that
  are due come from the core.
\<close>

record produced_block =
  nb_num :: nat
  nb_timestamp :: time
  nb_witness :: block_witness_id
  nb_signee :: string
  nb_transactions :: "production_operation list list"
  nb_due_proposals :: "playchain_operation list list"
  nb_votes :: vote_tally
  nb_witness_votes :: witness_tally

definition validate_block_header :: "produced_block \<Rightarrow> production \<Rightarrow> unit res" where
  "validate_block_header b s =
     ebind (check (head_block_time (chain_state s) < nb_timestamp b) ''head_block_time() < next_block.timestamp'') (\<lambda>_.
     ebind (idx_get (witness_objects s) (nb_witness b)) (\<lambda>witness.
     ebind (check (nb_signee b = wit_signing_key witness) ''next_block.validate_signee( witness.signing_key )'') (\<lambda>_.
     let slot_num = get_slot_at_time (nb_timestamp b) s
     in ebind (check (0 < slot_num) ''slot_num > 0'') (\<lambda>_.
        ebind (get_scheduled_witness slot_num s) (\<lambda>scheduled_witness.
          check (nb_witness b = scheduled_witness) ''Witness produced block at wrong time'')))))"

text \<open>The settings of the node: the last checkpoint and whether it keeps the votes of standby witnesses.\<close>

record node_settings =
  last_checkpoint :: "nat option"
  track_standby_votes :: bool

definition clear_applied_ops :: "production \<Rightarrow> production" where
  "clear_applied_ops s = s\<lparr>chain_state := (chain_state s)\<lparr>applied := []\<rparr>\<rparr>"

text \<open>
  After the transactions of a block: missed slots, the head, the pay of the witness and the irreversible block; then
  the maintenance when its time has come; then expired proposals, the block tasks and the schedule.
\<close>

definition advance_head :: "node_settings \<Rightarrow> produced_block \<Rightarrow> production \<Rightarrow> production res" where
  "advance_head cfg b s =
     (let t = nb_timestamp b; num = nb_num b; w = nb_witness b
      in ebind (update_witness_missed_blocks t s) (\<lambda>(missed, s).
         ebind (update_global_dynamic_data (last_checkpoint cfg) num t w missed s) (\<lambda>s.
         ebind (update_signing_witness w num t s) (\<lambda>s.
           update_last_irreversible_block s))))"

definition maintain_block :: "rating_lib \<Rightarrow> node_settings \<Rightarrow> bool \<Rightarrow> produced_block \<Rightarrow> production \<Rightarrow> production res" where
  "maintain_block lib cfg maint b s =
     (if maint
      then perform_chain_maintenance lib (track_standby_votes cfg) (nb_votes b) (nb_witness_votes b) (nb_num b) (nb_timestamp b) s
      else Inr s)"

definition finish_block ::
  "'h::linorder externals \<Rightarrow> bool \<Rightarrow> produced_block \<Rightarrow> production \<Rightarrow> production res" where
  "finish_block ext maint b s =
     ebind (on_chain (clear_expired_proposals ext (nb_due_proposals b)) s) (\<lambda>s.
     ebind (on_chain (process_block_tasks ext maint) s) (\<lambda>s.
       update_witness_schedule (update_maintenance_flag maint s)))"

definition produce_block ::
  "'h::linorder externals \<Rightarrow> rating_lib \<Rightarrow> node_settings \<Rightarrow> produced_block \<Rightarrow> production \<Rightarrow> production res" where
  "produce_block ext lib cfg b s =
     ebind (validate_block_header b s) (\<lambda>_.
     let maint = (next_maintenance_time s \<le> nb_timestamp b)
     in ebind (efold (production_transaction ext) (nb_transactions b) (clear_applied_ops s)) (\<lambda>s.
        ebind (advance_head cfg b s) (\<lambda>s.
        ebind (maintain_block lib cfg maint b s) (\<lambda>s.
          finish_block ext maint b s))))"

section \<open>The steps of a block\<close>

text \<open>A step between two maintenances keeps the accounts and does not touch the clock of the maintenance.\<close>

definition quiet :: "production \<Rightarrow> production \<Rightarrow> bool" where
  "quiet s s' \<longleftrightarrow> keeps_accounts s s' \<and>
     (production_ok s \<longrightarrow> next_maintenance_time s' = next_maintenance_time s \<and> last_budget_time s' = last_budget_time s)"

lemma quiet_refl [simp]: "quiet s s"
  by (simp add: quiet_def)

lemma quiet_trans [trans]: "quiet s t \<Longrightarrow> quiet t u \<Longrightarrow> quiet s u"
  by (auto simp: quiet_def keeps_accounts_def)

lemma quiet_fields [simp]:
  "quiet s (s\<lparr>witness_objects := ix\<rparr>)" "quiet s (s\<lparr>dynamic_flags := f\<rparr>)"
  "quiet s (s\<lparr>last_irreversible_block_num := n\<rparr>)" "quiet s (s\<lparr>current_shuffled_witnesses := ws\<rparr>)"
  by (simp_all add: quiet_def keeps_accounts_def production_ok_def off_balance_def)

lemma efold_quiet:
  assumes "\<And>x e. x \<in> set xs \<Longrightarrow> ends (quiet e) (f x e)"
  shows "ends (quiet s) (efold f xs s)"
  by (rule ends_efold) (use assms in \<open>auto simp: ends_def intro: quiet_trans\<close>)

lemma on_chain_quiet:
  assumes "\<And>d. ends (sound d) (f d)"
  shows "ends (quiet s) (on_chain f s)"
  using on_chain_keeps [OF assms, of s] by (auto simp: ends_def quiet_def on_chain_def ebind_Inr)

lemma production_apply_quiet:
  assumes "production_validate op = Inr ()"
  shows "ends (quiet s) (production_apply ext op s)"
proof (cases op)
  case (Playchain x)
  then show ?thesis using assms by (auto intro!: on_chain_quiet apply_operation_sound)
next
  case (Witness_create x)
  have "ends (quiet s) (witness_create_apply x s)"
    using witness_create_keeps [of s x]
    by (auto simp: ends_def quiet_def witness_create_apply_def ebind_Inr split: prod.splits)
  then show ?thesis using Witness_create by (auto simp: ends_def ebind_Inr)
next
  case (Witness_update x)
  have "ends (quiet s) (witness_update_apply x s)"
    by (auto simp: ends_def witness_update_apply_def ebind_Inr Let_def)
  then show ?thesis using Witness_update by (auto simp: ends_def ebind_Inr)
next
  case (Worker_create x)
  have "ends (quiet s) (worker_create_apply x s)"
    using worker_create_keeps [of x s] assms Worker_create
    by (auto simp: ends_def quiet_def worker_create_apply_def ebind_Inr simp del: worker_init.simps split: prod.splits)
  then show ?thesis using Worker_create by (auto simp: ends_def ebind_Inr)
qed

lemma efold_validated:
  "efold (\<lambda>op _. v op) ops () = Inr u \<Longrightarrow> op \<in> set ops \<Longrightarrow> v op = Inr ()"
  by (induction ops) (auto simp: ebind_Inr)

lemma production_transaction_quiet: "ends (quiet s) (production_transaction ext ops s)"
proof (rule endsI)
  fix s' assume "production_transaction ext ops s = Inr s'"
  then have v: "efold (\<lambda>op _. production_validate op) ops () = Inr ()" and r: "efold (production_apply ext) ops s = Inr s'"
    by (auto simp: production_transaction_def ebind_Inr)
  show "quiet s s'"
    by (rule endsD [OF efold_quiet r]) (rule production_apply_quiet [OF efold_validated [OF v]])
qed

lemma missed_blocks_quiet: "update_witness_missed_blocks t s = Inr (m, s') \<Longrightarrow> quiet s s'"
proof -
  have "ends (quiet e) (miss_slot i e)" for i e
    by (auto simp: ends_def miss_slot_def ebind_Inr)
  then have "ends (quiet s) (efold miss_slot xs s)" for xs by (intro efold_quiet)
  then show "update_witness_missed_blocks t s = Inr (m, s') \<Longrightarrow> quiet s s'"
    by (auto simp: update_witness_missed_blocks_def ebind_Inr Let_def ends_def split: if_splits)
qed

lemma clear_applied_ops_quiet: "quiet s (clear_applied_ops s)"
  by (auto simp: clear_applied_ops_def quiet_def keeps_accounts_def production_ok_def off_balance_def
      chain_ok_applied held_def)

text \<open>The head moves to the block; nothing else of the accounts changes.\<close>

definition moves_head :: "nat \<Rightarrow> time \<Rightarrow> production \<Rightarrow> production \<Rightarrow> bool" where
  "moves_head n t s s' \<longleftrightarrow>
     (production_ok s \<longrightarrow> production_ok s' \<and> (\<forall>x. off_balance x s' = off_balance x s) \<and>
        core_max_supply s' = core_max_supply s \<and> head_block_number s' = n \<and> head_block_time (chain_state s') = t)"

lemma moves_head_trans: "keeps_accounts s t \<Longrightarrow> moves_head n k t u \<Longrightarrow> keeps_accounts u v \<Longrightarrow> moves_head n k s v"
  by (simp add: moves_head_def keeps_accounts_def)

lemma update_global_dynamic_data_moves:
  assumes "update_global_dynamic_data c n t w m s = Inr s'" and "HARDFORK_PLAYCHAIN_10_TIME \<le> t"
  shows "moves_head n t s s'" and "next_maintenance_time s' = next_maintenance_time s" and "last_budget_time s' = last_budget_time s"
proof -
  note chain_ok_time [OF _ assms(2)]
  then show "moves_head n t s s'" "next_maintenance_time s' = next_maintenance_time s" "last_budget_time s' = last_budget_time s"
    using assms by (auto simp: update_global_dynamic_data_def Let_def ebind_Inr moves_head_def
        production_ok_def off_balance_def held_def)
qed

lemma deposit_witness_pay_frame:
  assumes "deposit_witness_pay w n s = Inr s'" and "0 \<le> n"
  obtains d ix where "s' = s\<lparr>chain_state := d, witness_objects := ix\<rparr>"
    "gives (\<lambda>x. funds x (core_asset n)) (chain_state s) d" "calm {} (chain_state s) d"
proof (cases "n = 0")
  case True
  then have "s' = s" using assms(1) by (simp add: deposit_witness_pay_def)
  then show thesis by (intro that [of "witness_objects s" "chain_state s"]) (simp_all add: True gives_def funds_def)
next
  case False
  with assms(1) obtain wit v d where
    d: "deposit_lazy_vesting (wit_pay_vb wit) n (cp_witness_pay_vesting_seconds (chain_params s)) (wit_account wit) (chain_state s) = Inr (v, d)"
    and s': "s' = s\<lparr>chain_state := d, witness_objects := (case v of None \<Rightarrow> witness_objects s
        | Some v \<Rightarrow> idx_set w (wit\<lparr>wit_pay_vb := Some v\<rparr>) (witness_objects s))\<rparr>"
    by (auto simp: deposit_witness_pay_def ebind_Inr Let_def split: option.split)
  have "gives (\<lambda>x. funds x (core_asset n)) (chain_state s) d" and "calm {} (chain_state s) d"
    using deposit_lazy_vesting_gives [OF d assms(2)] by (auto simp: calm_rules)
  then show thesis by (rule that [OF s'])
qed

lemma update_signing_witness_quiet:
  assumes "update_signing_witness w n t s = Inr s'"
  shows "quiet s s'"
proof (cases "production_ok s")
  case ok: True
  let ?pay = "min (cp_witness_pay_per_block (chain_params s)) (witness_budget s)"
  have pay: "0 \<le> ?pay" "?pay \<le> witness_budget s" using ok by (simp_all add: production_ok_def parameters_fit_def)
  from assms obtain t ix where t: "deposit_witness_pay w ?pay (s\<lparr>witness_budget := witness_budget s - ?pay\<rparr>) = Inr t"
    and s': "s' = t\<lparr>witness_objects := ix\<rparr>"
    by (auto simp: update_signing_witness_def ebind_Inr share_Inr Let_def)
  from t pay(1) obtain d ix' where t: "t = s\<lparr>witness_budget := witness_budget s - ?pay, chain_state := d, witness_objects := ix'\<rparr>"
    and d: "gives (\<lambda>x. funds x (core_asset ?pay)) (chain_state s) d" "calm {} (chain_state s) d"
    by (rule deposit_witness_pay_frame) auto
  have "chain_ok (chain_state s)" using ok by (simp add: production_ok_def)
  note d' = gives_chain [OF d this]
  have "off_balance x t = off_balance x s" for x using d'(2) [of x] by (simp add: off_balance_def t funds_def)
  moreover have "head_block_time d = head_block_time (chain_state s)" using d(2) by (simp add: calm_def)
  ultimately have "quiet s t" using ok d'(1) pay by (simp add: quiet_def keeps_accounts_def production_ok_def t)
  moreover have "quiet t s'" unfolding s' by simp
  ultimately show ?thesis by (rule quiet_trans)
qed (simp add: quiet_def keeps_accounts_def)

lemma update_last_irreversible_block_quiet:
  "update_last_irreversible_block s = Inr s' \<Longrightarrow> quiet s s' \<and> chain_state s' = chain_state s"
  by (auto simp: update_last_irreversible_block_def ebind_Inr Let_def split: if_splits)

lemma update_witness_schedule_quiet: "update_witness_schedule s = Inr s' \<Longrightarrow> quiet s s'"
  by (auto simp: update_witness_schedule_def Let_def split: if_splits)

section \<open>A block keeps the accounts\<close>

lemma validate_block_header_time: "validate_block_header b s = Inr u \<Longrightarrow> head_block_time (chain_state s) < nb_timestamp b"
  by (auto simp: validate_block_header_def res_simps Let_def)

lemma block_transactions_quiet:
  "efold (production_transaction ext) ts (clear_applied_ops s) = Inr s' \<Longrightarrow> quiet s s'"
  by (rule quiet_trans [OF clear_applied_ops_quiet])
    (erule endsD [OF efold_quiet, rotated], rule production_transaction_quiet)

lemma advance_head_moves:
  assumes "advance_head cfg b s = Inr s'" and "HARDFORK_PLAYCHAIN_10_TIME \<le> nb_timestamp b"
  shows "moves_head (nb_num b) (nb_timestamp b) s s'"
    and "production_ok s \<Longrightarrow> next_maintenance_time s' = next_maintenance_time s \<and> last_budget_time s' = last_budget_time s"
proof -
  from assms(1) obtain m c e f where r: "update_witness_missed_blocks (nb_timestamp b) s = Inr (m, c)"
    "update_global_dynamic_data (last_checkpoint cfg) (nb_num b) (nb_timestamp b) (nb_witness b) m c = Inr e"
    "update_signing_witness (nb_witness b) (nb_num b) (nb_timestamp b) e = Inr f" "update_last_irreversible_block f = Inr s'"
    by (auto simp: advance_head_def Let_def ebind_Inr)
  note c = missed_blocks_quiet [OF r(1)] and e = update_global_dynamic_data_moves [OF r(2) assms(2)]
  have s': "quiet e s'"
    using quiet_trans [OF update_signing_witness_quiet [OF r(3)]] update_last_irreversible_block_quiet [OF r(4)] by blast
  show "moves_head (nb_num b) (nb_timestamp b) s s'"
    using moves_head_trans [OF _ e(1)] c s' by (simp add: quiet_def)
  show "next_maintenance_time s' = next_maintenance_time s \<and> last_budget_time s' = last_budget_time s" if "production_ok s"
    using that c e s' by (simp add: quiet_def keeps_accounts_def moves_head_def)
qed

lemma finish_block_quiet:
  assumes "finish_block ext maint b s = Inr s'"
  shows "quiet s s'"
proof -
  from assms obtain a c where r: "on_chain (clear_expired_proposals ext (nb_due_proposals b)) s = Inr a"
    "on_chain (process_block_tasks ext maint) a = Inr c" "update_witness_schedule (update_maintenance_flag maint c) = Inr s'"
    by (auto simp: finish_block_def ebind_Inr)
  have "quiet s a" by (rule endsD [OF on_chain_quiet r(1)]) (rule clear_expired_proposals_sound)
  also have "quiet a c" by (rule endsD [OF on_chain_quiet r(2)]) (rule process_block_tasks_sound)
  also have "quiet c (update_maintenance_flag maint c)" by (simp add: update_maintenance_flag_def)
  also note update_witness_schedule_quiet [OF r(3)]
  finally show ?thesis .
qed

text \<open>No more than 25 years may lie between two budgets.\<close>

abbreviation budget_soon :: "produced_block \<Rightarrow> production \<Rightarrow> bool" where
  "budget_soon b s \<equiv> last_budget_time s = 0 \<or> nb_timestamp b \<le> last_budget_time s + BUDGET_TIME_LIMIT"

lemma maintain_block_keeps:
  assumes "maintain_block lib cfg (next_maintenance_time s \<le> nb_timestamp b) b s = Inr s'" and "budget_soon b s"
    and "head_block_time (chain_state s) = nb_timestamp b"
  shows "keeps_accounts s s'"
  using assms perform_chain_maintenance_keeps [of lib _ _ _ _ s s'] by (auto simp: maintain_block_def split: if_splits)

text \<open>The parts of a block up to its maintenance, and the whole block.\<close>

lemma block_parts_move:
  assumes "validate_block_header b s = Inr ()"
    and "efold (production_transaction ext) (nb_transactions b) (clear_applied_ops s) = Inr a" and "advance_head cfg b a = Inr c"
    and "maintain_block lib cfg (next_maintenance_time s \<le> nb_timestamp b) b c = Inr e" and "budget_soon b s"
  shows "moves_head (nb_num b) (nb_timestamp b) s e"
proof (cases "production_ok s")
  case True
  have t: "HARDFORK_PLAYCHAIN_10_TIME \<le> nb_timestamp b"
    using validate_block_header_time [OF assms(1)] True by (simp add: production_ok_def chain_ok_def)
  note a = block_transactions_quiet [OF assms(2)] and c = advance_head_moves [OF assms(3) t]
  have "next_maintenance_time c = next_maintenance_time s" "last_budget_time c = last_budget_time s"
    "head_block_time (chain_state c) = nb_timestamp b"
    using a c True by (simp_all add: quiet_def keeps_accounts_def moves_head_def)
  then have "keeps_accounts c e" using maintain_block_keeps [of lib cfg c b e] assms(4,5) by simp
  then show ?thesis using moves_head_trans [OF _ c(1)] a by (simp add: quiet_def)
qed (simp add: moves_head_def)

lemma produce_block_moves:
  assumes "produce_block ext lib cfg b s = Inr s'" and "budget_soon b s"
  shows "moves_head (nb_num b) (nb_timestamp b) s s'"
proof -
  from assms(1) obtain a c e where r: "validate_block_header b s = Inr ()"
    "efold (production_transaction ext) (nb_transactions b) (clear_applied_ops s) = Inr a" "advance_head cfg b a = Inr c"
    "maintain_block lib cfg (next_maintenance_time s \<le> nb_timestamp b) b c = Inr e"
    and f: "finish_block ext (next_maintenance_time s \<le> nb_timestamp b) b e = Inr s'"
    by (auto simp: produce_block_def Let_def ebind_Inr)
  show ?thesis
    using moves_head_trans [OF keeps_accounts_refl block_parts_move [OF r assms(2)]] finish_block_quiet [OF f] by (simp add: quiet_def)
qed

section \<open>Growing chains\<close>

text \<open>The blocks of a chain, one after the other.\<close>

inductive grows :: "'h::linorder externals \<Rightarrow> rating_lib \<Rightarrow> node_settings \<Rightarrow> production \<Rightarrow> production \<Rightarrow> bool"
  for ext lib cfg where
  grows_refl: "grows ext lib cfg s s"
| grows_block: "grows ext lib cfg s s'"
    if "produce_block ext lib cfg b s = Inr t" and "grows ext lib cfg t s'" and "budget_soon b s"

lemma grows_keeps:
  "grows ext lib cfg s s' \<Longrightarrow> production_ok s \<Longrightarrow>
     production_ok s' \<and> (\<forall>x. off_balance x s' = off_balance x s) \<and> core_max_supply s' = core_max_supply s"
proof (induction rule: grows.induct)
  case (grows_block b s t s')
  with produce_block_moves [OF grows_block(1,3)] show ?case by (simp add: moves_head_def)
qed simp

lemma transaction_keeps:
  assumes "production_ok s" and "production_transaction ext ops s = Inr s'"
  shows "production_ok s'" and "off_balance x s' = off_balance x s"
  using endsD [OF production_transaction_quiet assms(2)] assms(1) by (simp_all add: quiet_def keeps_accounts_def)

interpretation accounts: checked_machine "production_transaction ext" production_ok "\<lambda>s x. off_balance x s"
  for ext :: "'h::linorder externals"
  by unfold_locales (auto simp: fun_eq_iff intro: transaction_keeps)

text \<open>
  C4: whole blocks keep the accounts: over any chain of blocks, with the operations of the playchain, of witnesses
  and workers, missed slots, the pay of the witnesses, maintenances with their budgets, expired proposals and block
  tasks, no balance and no budget becomes negative, the supply of the core asset stays below its maximum and differs
  from what is held and budgeted by the same amount as before, and no other asset is created or destroyed.
\<close>

theorem production_keeps_accounts:
  assumes "grows ext lib cfg s s'" and "production_ok s"
  shows "chain_ok (chain_state s') \<and> 0 \<le> witness_budget s' \<and> current_supply s' \<le> core_max_supply s \<and>
    held CORE (chain_state s') + witness_budget s' + accumulated_fees s' - current_supply s' =
      held CORE (chain_state s) + witness_budget s + accumulated_fees s - current_supply s \<and>
    (\<forall>x. x \<noteq> CORE \<longrightarrow> held x (chain_state s') = held x (chain_state s))"
proof -
  have k: "production_ok s'" "off_balance x s' = off_balance x s" "core_max_supply s' = core_max_supply s" for x
    using grows_keeps [OF assms] by simp_all
  have "held x (chain_state s') = held x (chain_state s)" if "x \<noteq> CORE" for x
    using k(2) [of x] that by (simp add: off_balance_def)
  then show ?thesis using k(1,3) k(2) [of CORE] by (simp add: production_ok_def off_balance_def)
qed

definition sample_settings :: node_settings where
  "sample_settings = \<lparr>last_checkpoint = None, track_standby_votes = True\<rparr>"

definition sample_produced :: produced_block where
  "sample_produced =
     \<lparr>nb_num = 10, nb_timestamp = 1600000003, nb_witness = 0, nb_signee = sample_key 0,
      nb_transactions =
        [[Witness_create \<lparr>wc_fee = core_asset 0, wc_witness_account = 10, wc_url = [], wc_block_signing_key = []\<rparr>]],
      nb_due_proposals = [],
      nb_votes = \<lparr>vote_tally_buffer = [900, 800, 700, 50, 60, 0], committee_count_histogram_buffer = [0],
        total_voting_stake = 0, min_committee_member_count = 1\<rparr>,
      nb_witness_votes = \<lparr>witness_count_histogram_buffer = [0, 10], min_witness_count = 3\<rparr>\<rparr>"

theorem production_keeps_accounts_witness:
  "\<exists>s'. grows sample_externals sample_lib sample_settings sample_due s' \<and> s' \<noteq> sample_due \<and>
     current_supply s' \<le> core_max_supply sample_due \<and>
     held CORE (chain_state s') + witness_budget s' + accumulated_fees s' - current_supply s' =
       held CORE (chain_state sample_due) + witness_budget sample_due + accumulated_fees sample_due - current_supply sample_due"
proof -
  let ?r = "produce_block sample_externals sample_lib sample_settings sample_produced sample_due"
  have "case ?r of Inl e \<Rightarrow> False | Inr s \<Rightarrow> head_block_number s = 10 \<and> witness_budget s = 20" by code_simp
  then obtain s' where r: "?r = Inr s'" and n: "head_block_number s' = 10" by (auto split: sum.splits)
  have "nb_timestamp sample_produced \<le> last_budget_time sample_due + BUDGET_TIME_LIMIT"
    by (simp add: sample_produced_def sample_due_def sample_production_def BUDGET_TIME_LIMIT_def)
  then have g: "grows sample_externals sample_lib sample_settings sample_due s'"
    using grows_block [OF r grows_refl] by blast
  have "production_ok sample_due" using sample_production_ok by (simp add: sample_due_def production_ok_def)
  note production_keeps_accounts [OF g this]
  moreover have "s' \<noteq> sample_due" using n by (auto simp: sample_due_def sample_production_def)
  ultimately show ?thesis using g by blast
qed

end
