(* ===== verification/Spec2Isabelle.thy ===== *)
theory Spec2Isabelle
  imports Api Forks Production
begin

text \<open>
  PlayChain, a chain for table games with real money on the Graphene framework: accounts own rooms, rooms have
  tables, players buy in at tables with chips from their accounts, the players and the room owner vote that a
  game starts and what its result is, the chain moves the chips and takes a rake, which the maintenance
  distributes among inviters, witnesses and room owners. This development models the chain logic of PlayChain
  (\<^verbatim>\<open>src/libraries/chain/playchain\<close>), the parts of the Graphene core it rests on, and the queries a node answers
  about it, and proves what makes them correct.

  \<^bold>\<open>The program and the theories.\<close> Every definition keeps the name of what it models; paths are below
  \<^verbatim>\<open>src/libraries\<close>.

  \<^item> \<^verbatim>\<open>Prelude\<close>: the error monad (\<open>err + 'a\<close>, an exception is a value), flat maps and sets as strictly sorted
    association lists, object indexes (\<^verbatim>\<open>db/.../generic_index.hpp\<close>), the collections of facts, and two locales:
    the laws of a keyed container, and a machine that keeps an invariant and a ledger over every accepted run.
  \<^item> \<^verbatim>\<open>Version\<close> (\<^verbatim>\<open>version.cpp\<close>): versions in 32 bits, their text and its parser.
  \<^item> \<^verbatim>\<open>Protocol\<close> (\<^verbatim>\<open>protocol/asset.hpp\<close>, \<^verbatim>\<open>playchain/protocol\<close>): assets with the checked 64-bit arithmetic of
    \<^verbatim>\<open>fc::safe\<close>, the data of a game, the fields and the \<^verbatim>\<open>validate\<close> of the operations.
  \<^item> \<^verbatim>\<open>Table_Object\<close> and \<^verbatim>\<open>Chain_State\<close> (\<^verbatim>\<open>playchain/schema\<close>, \<^verbatim>\<open>db_balance.cpp\<close>, \<^verbatim>\<open>validators.cpp\<close>): the objects, the
    database as a record of indexes, balances, the predicates on the state, the funds of an asset (\<open>held\<close>) and
    the invariant \<open>db_ok\<close>. \<^verbatim>\<open>Scenario\<close> is one concrete chain for the witnesses.
  \<^item> \<^verbatim>\<open>Table_Ops\<close>, \<^verbatim>\<open>Buy_In_Out\<close> (\<^verbatim>\<open>room_evaluators.cpp\<close>, \<^verbatim>\<open>table_evaluators.cpp\<close>, \<^verbatim>\<open>player_evaluators.cpp\<close>,
    \<^verbatim>\<open>buy_in_buy_out_evaluators.cpp\<close>): an evaluator is a pair of functions, \<open>evaluate\<close> that checks and \<open>apply\<close>
    that changes the state.
  \<^item> \<^verbatim>\<open>Voting\<close>, \<^verbatim>\<open>Game\<close>, \<^verbatim>\<open>Game_Obsolete\<close> (\<^verbatim>\<open>game_evaluators_impl.cpp\<close>, \<^verbatim>\<open>game_evaluators.cpp\<close>,
    \<^verbatim>\<open>game_evaluators_obsolete.cpp\<close>): votes, their tally, the start, the result and the rollback of a game.
    \<^verbatim>\<open>Game_Funds\<close>, \<^verbatim>\<open>Votes_Valid\<close>, \<^verbatim>\<open>Consensus\<close>: the funds through a game, votes stay valid until they are tallied, and
    every step of a voting keeps the invariant.
  \<^item> \<^verbatim>\<open>Vesting\<close> (\<^verbatim>\<open>vesting_balance_object.cpp\<close>, \<^verbatim>\<open>vesting_balance_evaluator.cpp\<close>): the three vesting policies behind
    one locale, deposits, withdrawals and the two operations.
  \<^item> \<^verbatim>\<open>Deposit_Fees\<close> (\<^verbatim>\<open>deposit_pending_fees.cpp\<close>): how the rake of a room is split at the maintenance.
  \<^item> \<^verbatim>\<open>Block_Tasks\<close> (\<^verbatim>\<open>block_tasks\<close>): expiries and scheduled votings of a block, the allocation of reservations.
  \<^item> \<^verbatim>\<open>Double\<close>, \<^verbatim>\<open>Room_Rating\<close> (\<^verbatim>\<open>room_rating.cpp\<close>): the ratings of rooms and the weights of tables.
  \<^item> \<^verbatim>\<open>Committee\<close> (\<^verbatim>\<open>committee_applying.cpp\<close>, \<^verbatim>\<open>playchain_committee_member_evaluator.cpp\<close>, \<^verbatim>\<open>vote_count.hpp\<close>): the
    election of the games committee, its authority and the parameters it sets.
  \<^item> \<^verbatim>\<open>Invitations\<close> (\<^verbatim>\<open>player_invitation_evaluators.cpp\<close>, \<^verbatim>\<open>account_evaluator.cpp\<close>, \<^verbatim>\<open>sign_state.cpp\<close>,
    \<^verbatim>\<open>protocol/account.cpp\<close>): names, authorities, the creation of accounts, and invitations that create them.
  \<^item> \<^verbatim>\<open>Machine\<close> (\<^verbatim>\<open>db_block.cpp\<close>, \<^verbatim>\<open>evaluator.cpp\<close>, \<^verbatim>\<open>maintain_tasks.cpp\<close>): operations, transactions and blocks, in
    the order the chain runs them.
  \<^item> \<^verbatim>\<open>Ledger\<close>: what buying in and out promises, as transfers of an abstract ledger.
  \<^item> \<^verbatim>\<open>Table_Indexes\<close> (\<^verbatim>\<open>table_object.cpp\<close>, \<^verbatim>\<open>db/.../index.hpp\<close>): the secondary indexes behind one locale of hooks.
  \<^item> \<^verbatim>\<open>Api\<close> (\<^verbatim>\<open>app/playchain_api.cpp\<close>): the queries with their limits and pages, and the subscriptions.
  \<^item> \<^verbatim>\<open>Undo_History\<close> (\<^verbatim>\<open>db/undo_database.cpp\<close>, \<^verbatim>\<open>db/object_database.cpp\<close>): sessions and what undoes them.
  \<^item> \<^verbatim>\<open>Forks\<close> (\<^verbatim>\<open>fork_database.cpp\<close>, \<^verbatim>\<open>database::push_block\<close> and \<^verbatim>\<open>pop_block\<close>): the tree of blocks and the switch between
    its branches; the application of a block is an argument behind a locale.
  \<^item> \<^verbatim>\<open>Witnesses\<close> (\<^verbatim>\<open>db_witness_schedule.cpp\<close>, \<^verbatim>\<open>db_update.cpp\<close>, \<^verbatim>\<open>witness_evaluator.cpp\<close>), \<^verbatim>\<open>Maintenance\<close>
    (\<^verbatim>\<open>db_maint.cpp\<close>, \<^verbatim>\<open>worker_evaluator.cpp\<close>), \<^verbatim>\<open>Production\<close> (\<^verbatim>\<open>database::_apply_block\<close>): the state of the production
    of blocks is a record around the database of the chain; slots, schedule, pay and irreversible block; election
    of witnesses, workers, parameters and budget; and the whole block that calls all of it.

  \<^bold>\<open>How the parts interact.\<close> A block applies its transactions, a transaction its operations: each is validated,
  evaluated and applied on the one database record. Then the clock moves, a due maintenance distributes fees,
  rates rooms and applies the committee, and the block tasks run; both call the evaluators of games and
  buy-outs again. The balances, the rake of a room, the chips at a table, the reservations and the vesting
  balances are the places money can be; every evaluator moves it between them. Queries only read the database
  and the secondary indexes. An exception leaves no trace because the session around it is undone: that is the
  convention of the error monad here, and \<^verbatim>\<open>Undo_History\<close> shows when the code keeps it. \<^verbatim>\<open>Machine\<close> has the part of
  a block that concerns the games, \<^verbatim>\<open>Production\<close> the block with its header, its witness and its budget around the
  same operations and tasks, and \<^verbatim>\<open>Forks\<close> the node that decides which blocks are applied.

  \<^bold>\<open>What the theorems show.\<close>

  \<^item> Of the chain: every accepted sequence of blocks keeps the invariant and the funds of every asset, and no
    balance and no amount at a table becomes negative, whatever the operations, votes and fees are; and every
    table is well formed (this theory).
  \<^item> Of the production: whole blocks with pay, budgets and maintenances keep the accounts of held money, budget and
    supply, and the supply stays below its maximum; the budget is covered by the reserve; the schedule is fair,
    slots and times are inverse as long as they fit 32 bits, and 70 percent of the witnesses stand behind the irreversible block.
  \<^item> Of the node that chooses between forks: a failed push leaves no trace, also in the middle of a switch, and
    every order of pushed blocks keeps the invariant and the funds.
  \<^item> Of money: a balance changes by exactly the amount; a fee is split exactly and each part goes to whom it is due; vesting withdrawals move exactly
    their amount and never gain by being split; buying in and out refines the transfers of a ledger, and a
    cancelled reservation leaves it as it was.
  \<^item> Of voting: an accepted tally elects a content with the most votes and reports the others, and whether it is accepted
    depends on the number of contents alone.
  \<^item> Of the tasks: reservations, heartbeats and measurements expire exactly when they have to and the loops end; a
    reservation only goes to a table that suits it.
  \<^item> Of the committee, accounts and invitations: size, majority and parameters of the committee; the grammar
    of names; who can resolve an invitation and what it gives.
  \<^item> Of the node: the index of players and the index of owners are the inverse of the tables, pages are the
    list, and the tables listed for a player are complete.
  \<^item> Of the history: it refines a database that copies its state, and a session that is left takes everything
    back.
  \<^item> Of errors: some theorems show what the code does against its intent, such as deferred fees paid twice,
    accepted ties, a division by zero in the rating, indexes and pages that miss objects, and sessions whose
    undo ends the process.

  \<^bold>\<open>Numbers, bounds, fuel.\<close> Amounts are integers with the 64-bit check at every operation; weights, ratings,
  votes and versions are words of their width; the sums of the rating wrap in 64 and 128 bits; doubles are exact
  dyadic numbers rounded to 53 bits. Times, object numbers and session counts are natural numbers without a
  bound; the times of slots wrap at 32 bits, as the code computes them. Loops are structural or have a termination proof; the walk over all pages in \<^verbatim>\<open>Api\<close> takes fuel, and more
  fuel than objects is enough. The recursion of authorities is bounded by the depth the code allows. The shuffle of
  the schedule, the absolute slots and the counters of missed blocks are words; the budget is computed on 128 bits
  and read back on 64, and the theorems on it assume parameters that fit and no more than 25 years between budgets.

  \<^bold>\<open>Parameters.\<close> Code outside of the sources is an argument: the record \<open>externals\<close> has the digest of a vote, the chain
  id, the digest of an invitation and the key that a signature recovers to (\<^verbatim>\<open>fc\<close>), and what \<^verbatim>\<open>boost::merge\<close> does when it
  inserts into the range it reads; nothing is assumed of them but what a theorem states. Other arguments are
  \<^verbatim>\<open>std::exp\<close>, \<^verbatim>\<open>std::log\<close> and the conversion of 128-bit numbers in the rating, and the parser of ids in the queries. The
  tally of the votes of all accounts and the proposals that are due come with a block, and with them the key that signed
  it; the hash of a block is a field of it.

  \<^bold>\<open>Not modelled.\<close> The markets and assets of Graphene, its committee, price feeds and buybacks, the fees of
  operations, the references of transactions and the pending transactions of a node: the PlayChain logic meets them
  only through balances, accounts and the time of the head block. The hard forks of Graphene that have passed before
  the PlayChain hard forks. The network, the wallet, the other API servers, the plugins and the files on disk: input
  and output around the state. One branch of the old evaluators for a single block of the test network.
\<close>

section \<open>The chain\<close>

text \<open>A game on the sample chain, block by block: the buy-ins, the votes to start, the votes on the result.\<close>

definition sample_block :: "time \<Rightarrow> playchain_operation list \<Rightarrow> bool \<Rightarrow> block" where
  "sample_block t ops maintenance =
     \<lparr>timestamp = t, transactions = map (\<lambda>op. [op]) ops, maint_needed = maintenance,
      tally = \<lparr>vote_tally_buffer = [], committee_count_histogram_buffer = [0], total_voting_stake = 0,
        min_committee_member_count = 1\<rparr>, due_proposals = []\<rparr>"

definition sample_blocks :: "block list" where
  "sample_blocks =
     [sample_block 1600000003 [Op_buy_in_table (sample_buy_in 11 200), Op_buy_in_table (sample_buy_in 12 200)] False,
      sample_block 1600000006 (map (\<lambda>v. Op_game_start_playing_check (sample_start v)) [10, 11, 12]) False,
      sample_block 1600000009 [] False,
      sample_block 1600000012 (map (\<lambda>v. Op_game_result_check (sample_result v)) [10, 11, 12]) False,
      sample_block 1600000015 [] False,
      sample_block 1600000018 [] True]"

text \<open>
  C1: every sequence of blocks the chain accepts from a good state keeps the invariant of the chain
  and leaves the funds of every asset exactly as they were: no operation, no voting, no expiry and no
  distribution of fees creates or destroys money.
\<close>

theorem chain_keeps_funds:
  assumes "chain_ok d" and "efold (apply_block ext lib) bs d = Inr d'"
  shows "chain_ok d' \<and> (\<forall>x. held x d' = held x d)"
  using chain.run_inv [OF assms] fun_cong [OF chain.run_ledger [OF assms]] by blast

theorem chain_keeps_funds_witness:
  "case efold (apply_block sample_externals sample_lib) (take 5 sample_blocks) sample_db of
     Inl e \<Rightarrow> False
   | Inr d' \<Rightarrow> chain_ok d' \<and> held 0 d' = 2500"
proof -
  let ?r = "efold (apply_block sample_externals sample_lib) (take 5 sample_blocks) sample_db"
  have "succeeds ?r" by code_simp
  then have r: "?r = Inr (result_of sample_db ?r)" by (rule succeedsE)
  have "held 0 sample_db = 2500" by code_simp
  with chain_keeps_funds [OF sample_chain_ok r] show ?thesis by (subst r) simp
qed


text \<open>
  C2: on every chain that is reached from a good state no account is overdrawn, in no asset, and no
  player has a negative amount at a table, neither outside nor inside a game.
\<close>

theorem chain_no_overdraft:
  assumes "chain_ok d" and "efold (apply_block ext lib) bs d = Inr d'"
  shows "0 \<le> amount (get_balance d' a x) \<and>
    (\<forall>i t p. idx_find (tables d') i = Some t \<longrightarrow>
       0 \<le> amount (get_cash_balance t p) \<and> 0 \<le> amount (get_playing_cash_balance t p))"
proof -
  have ok: "db_ok d'" using chain.run_inv [OF assms] by (simp add: chain_ok_def)
  then have "0 \<le> amount (get_balance d' a x)"
    by (auto simp: db_ok_def balances_ok_iff get_balance_def split: option.splits)
  then show ?thesis
    using db_ok_tableD [OF ok] get_cash_balance_nonneg get_playing_cash_balance_nonneg by blast
qed

theorem chain_no_overdraft_witness:
  "case efold (apply_block sample_externals sample_lib) (take 1 sample_blocks) sample_db of
     Inl e \<Rightarrow> False
   | Inr d' \<Rightarrow> 0 \<le> amount (get_balance d' 11 0) \<and> idx_find (tables d') 1 \<noteq> None"
proof -
  let ?r = "efold (apply_block sample_externals sample_lib) (take 1 sample_blocks) sample_db"
  have "succeeds ?r" by code_simp
  then have r: "?r = Inr (result_of sample_db ?r)" by (rule succeedsE)
  have "idx_find (tables (result_of sample_db ?r)) 1 \<noteq> None" by code_simp
  with chain_no_overdraft [OF sample_chain_ok r] show ?thesis by (subst r) simp
qed

text \<open>
  C3: every table on every chain that is reached from a good state is well formed: the number of its occupied
  places is the number of players that sit there, with chips beside or inside the game or with a reservation, and
  every amount on it is a positive amount of the core asset.
\<close>

theorem tables_well_formed:
  assumes "chain_ok d" and "efold (apply_block ext lib) bs d = Inr d'" and "idx_find (tables d') i = Some t"
  shows "occupied_places t = of_nat (card (fm_keys (cash t) \<union> fm_keys (playing_cash t) \<union> fm_keys (pending_proposals t))) \<and>
    (\<forall>p a. fm_find (cash t) p = Some a \<or> fm_find (playing_cash t) p = Some a \<longrightarrow> 0 < amount a \<and> asset_id a = CORE)"
proof -
  have "table_ok t" using chain.run_inv [OF assms(1,2)] assms(3) by (auto simp: chain_ok_def intro: db_ok_tableD)
  then show ?thesis by (auto simp: table_ok_def seats_ok_def seated_def cash_ok_iff)
qed

theorem tables_well_formed_witness:
  "case efold (apply_block sample_externals sample_lib) (take 2 sample_blocks) sample_db of
     Inl e \<Rightarrow> False
   | Inr d' \<Rightarrow> (case idx_find (tables d') 1 of
       None \<Rightarrow> False
     | Some t \<Rightarrow> occupied_places t = of_nat (card (fm_keys (cash t) \<union> fm_keys (playing_cash t) \<union> fm_keys (pending_proposals t))) \<and>
         occupied_places t = 2)"
proof -
  let ?r = "efold (apply_block sample_externals sample_lib) (take 2 sample_blocks) sample_db"
  have "case ?r of Inl e \<Rightarrow> False | Inr d' \<Rightarrow> (case idx_find (tables d') 1 of None \<Rightarrow> False | Some t \<Rightarrow> occupied_places t = 2)"
    by code_simp
  then obtain d' t where r: "?r = Inr d'" "idx_find (tables d') 1 = Some t" "occupied_places t = 2"
    by (auto split: sum.splits option.splits)
  with tables_well_formed [OF sample_chain_ok r(1,2)] show ?thesis by simp
qed

section \<open>Balances\<close>

text \<open>
  A successful \<open>adjust_balance\<close> changes the balance of the one account in the one asset by
  exactly the amount and no other balance, so the funds the chain holds change by that amount.
\<close>

theorem adjust_balance_exact:
  assumes "adjust_balance a delta d = Inr d'"
  shows "amount (get_balance d' a (asset_id delta)) =
           amount (get_balance d a (asset_id delta)) + amount delta
    \<and> (\<forall>b x. (b, x) \<noteq> (a, asset_id delta) \<longrightarrow> get_balance d' b x = get_balance d b x)
    \<and> (\<forall>x. held x d' = held x d + funds x delta)"
  using adjust_balance_get [OF assms] adjust_balance_held [OF assms] by auto

theorem adjust_balance_exact_witness:
  "case adjust_balance 11 (core_asset (- 120)) sample_db of
     Inl e \<Rightarrow> False
   | Inr d' \<Rightarrow> amount (get_balance d' 11 0) = 380 \<and> get_balance d' 12 0 = get_balance sample_db 12 0
                \<and> held 0 d' = held 0 sample_db - 120"
proof -
  let ?r = "adjust_balance 11 (core_asset (- 120)) sample_db"
  have "succeeds ?r" by code_simp
  then have r: "?r = Inr (result_of sample_db ?r)" by (rule succeedsE)
  have "amount (get_balance sample_db 11 0) = 500" by code_simp
  with adjust_balance_exact [OF r] show ?thesis
    by (subst r) (simp add: funds_def core_asset_def)
qed


section \<open>The tally\<close>

text \<open>
  C11: an accepted tally is a plurality: the winning content was voted for, no other content has more votes, and the
  number of other contents is small enough for the required percentage. With one or two contents the accounts
  reported are exactly those that voted for something else; with more contents the code merges a map into itself,
  and nothing is claimed of what it reports.
\<close>

theorem tally_plurality:
  assumes "voting_impl ext votes requied = Some (v, invalid)" and "dg = game_digest ext"
  shows "(\<exists>a. fm_find votes a = Some v) \<and>
    (\<forall>b w. fm_find votes b = Some w \<longrightarrow>
       fm_size (ballots dg votes (dg w)) \<le> fm_size (ballots dg votes (dg v))) \<and>
    (card (contents dg votes) - 1) * GRAPHENE_100_PERCENT div fm_size votes + requied \<le> GRAPHENE_100_PERCENT \<and>
    (card (contents dg votes) \<le> 2 \<longrightarrow> invalid = fm_filter (\<lambda>a w. dg w \<noteq> dg v) votes)"
proof -
  have a: "tally_accepts dg votes requied" and o': "tally_outcome ext votes = Some (v, invalid)"
    using assms by (auto simp: voting_impl_split split: if_splits)
  have "fm_size (ballots dg votes (dg w)) \<le> fm_size (ballots dg votes (dg v))" if "fm_find votes b = Some w" for b w
    using tally_outcome_Some(4) [OF o' assms(2) that] by (auto simp: less_eq_prod_def)
  then show ?thesis
    using tally_outcome_Some(1,3) [OF o' assms(2)] a by (auto simp: tally_accepts_def)
qed

definition sample_votes :: "account_votes" where
  "sample_votes = fm_of_list
     [(10, vote_data (Vote_result (sample_result 10))), (11, vote_data (Vote_result (sample_result 11))),
      (12, Result \<lparr>res_cash = fm_empty, res_log = []\<rparr>), (13, Result \<lparr>res_cash = fm_empty, res_log = []\<rparr>)]"

lemma sample_contents: "card (contents (game_digest sample_externals) sample_votes) = 2"
proof -
  have "card (contents (game_digest sample_externals) sample_votes) =
      fm_size (group_votes (game_digest sample_externals) sample_votes)"
    by (simp add: fm_size_card group_votes_keys)
  also have "\<dots> = 2" by code_simp
  finally show ?thesis .
qed

theorem tally_plurality_witness:
  "case voting_impl sample_externals sample_votes 6000 of
     None \<Rightarrow> False
   | Some (v, invalid) \<Rightarrow> fm_size invalid = 2 \<and> (\<exists>a. fm_find sample_votes a = Some v) \<and>
       invalid = fm_filter (\<lambda>a w. game_digest sample_externals w \<noteq> game_digest sample_externals v) sample_votes"
proof -
  let ?r = "voting_impl sample_externals sample_votes 6000"
  have "case ?r of None \<Rightarrow> False | Some (v, invalid) \<Rightarrow> fm_size invalid = 2" by code_simp
  then obtain v invalid where r: "?r = Some (v, invalid)" "fm_size invalid = 2"
    by (auto split: option.splits)
  with tally_plurality [OF r(1) refl] sample_contents show ?thesis by auto
qed

text \<open>
  C12: what counts against a consensus is the number of different contents, not the number of voters behind them.
  As long as nobody votes for a content whose digest is the null digest, a tally of at least one vote is accepted if
  and only if the number of other contents is small enough among the votes, however the votes are spread over the
  contents. So two contents meet a required percentage of up to 60 as soon as there are three votes, also when half of
  the voters disagree; two votes against each other do not meet more than 50.
\<close>

theorem tally_tie_accepted:
  assumes "no_digest ext \<notin> contents (game_digest ext) votes" and "0 < fm_size votes"
  shows "((\<exists>v invalid. voting_impl ext votes requied = Some (v, invalid)) \<longleftrightarrow>
      (card (contents (game_digest ext) votes) - 1) * GRAPHENE_100_PERCENT div fm_size votes + requied
        \<le> GRAPHENE_100_PERCENT) \<and>
    (card (contents (game_digest ext) votes) = 2 \<longrightarrow> 3 \<le> fm_size votes \<longrightarrow> requied \<le> 6000 \<longrightarrow>
      (\<exists>v invalid. voting_impl ext votes requied = Some (v, invalid)))"
proof -
  have votes: "fm_keys votes \<noteq> {}" using assms(2) by (auto simp: fm_size_card)
  then have "tally_outcome ext votes \<noteq> None" using tally_outcome_None [of ext votes] assms(1) by blast
  then have all: "(\<exists>v invalid. voting_impl ext votes requied = Some (v, invalid)) \<longleftrightarrow>
      (card (contents (game_digest ext) votes) - 1) * GRAPHENE_100_PERCENT div fm_size votes + requied
        \<le> GRAPHENE_100_PERCENT"
    using votes by (auto simp: voting_impl_split tally_accepts_def)
  have "10000 div fm_size votes \<le> 10000 div 3" if "3 \<le> fm_size votes" by (rule div_le_mono2) (use that in auto)
  then show ?thesis using all by fastforce
qed

theorem tally_tie_accepted_witness:
  "(\<exists>v invalid. voting_impl sample_externals sample_votes 6000 = Some (v, invalid)) \<and>
   list_all (\<lambda>a. fm_size (ballots sample_digest sample_votes
       (sample_digest (the (fm_find sample_votes a)))) = 2) [10, 11, 12, 13]"
proof -
  have "3 \<le> fm_size sample_votes" by code_simp
  moreover have "no_digest sample_externals \<notin> fm_keys (group_votes (game_digest sample_externals) sample_votes)" by code_simp
  ultimately have "\<exists>v invalid. voting_impl sample_externals sample_votes 6000 = Some (v, invalid)"
    using tally_tie_accepted [of sample_externals sample_votes 6000] sample_contents by (auto simp: group_votes_keys)
  moreover have "list_all (\<lambda>a. fm_size (ballots sample_digest sample_votes
       (sample_digest (the (fm_find sample_votes a)))) = 2) [10, 11, 12, 13]" by code_simp
  ultimately show ?thesis by blast
qed


section \<open>The distribution of fees\<close>

text \<open>
  C13: the fee of a player is split exactly, and each part goes to whom it is due, as long as the percentages of
  referrers and witnesses together do not exceed 100 (the parameters are not checked for that). Of the part of the
  inviters, what is paid goes to the inviters above the player and to nobody else, and what is beyond the depth
  stays owed; each witness of the game gets an equal part of the part of the witnesses and the first one what does not divide; the owner
  of the room gets everything else. All that is paid is taken from the rake of the room of the fee, no other room
  pays or owes anything, and the funds stay.
\<close>

theorem deposit_fee_exact:
  assumes "deposit_fee player fee d = Inr d'" and "db_ok d" and "0 \<le> ds_amount fee"
    and "player_referrer_percent_of_fee (parameters d) + game_witness_percent_of_fee (parameters d)
      \<le> GRAPHENE_100_PERCENT"
    and "wcut = (if fs_items (pf_witnesses fee) = [] then 0
      else cut_fee (ds_amount fee) (game_witness_percent_of_fee (parameters d)))"
  shows "\<exists>r p n m f. idx_find (rooms d) (pf_room fee) = Some r \<and> idx_find (players d) player = Some p \<and>
    0 \<le> m \<and> n + m \<le> cut_fee (ds_amount fee) (player_referrer_percent_of_fee (parameters d)) \<and>
    shared (inviters_of d (pl_inviter p) PLAYCHAIN_MAXIMUM_INVITERS_DEPTH) n f \<and>
    (\<forall>a. vested a d' = vested a d + f a + witness_share d (fs_items (pf_witnesses fee)) wcut a +
       (if a = rm_owner r then ds_amount fee - wcut - n - m else 0)) \<and>
    rake (pf_room fee) d' = rake (pf_room fee) d - (ds_amount fee - m) \<and>
    owed (pf_room fee) d' = owed (pf_room fee) d + m \<and>
    (\<forall>q. q \<noteq> pf_room fee \<longrightarrow> rake q d' = rake q d \<and> owed q d' = owed q d) \<and>
    (\<forall>x. held x d' = held x d)"
proof -
  obtain r p n m f where *: "idx_find (rooms d) (pf_room fee) = Some r" "idx_find (players d) player = Some p"
    "0 \<le> m" "n + m \<le> cut_fee (ds_amount fee) (player_referrer_percent_of_fee (parameters d))"
    "shared (inviters_of d (pl_inviter p) PLAYCHAIN_MAXIMUM_INVITERS_DEPTH) n f"
    and p: "pays (pf_room fee) (ds_amount fee - m) m d d'"
    and v: "vests (\<lambda>a. f a + witness_share d (fs_items (pf_witnesses fee)) wcut a +
      gets (rm_owner r) (ds_amount fee - wcut - n - m) a) d d'"
    using deposit_fee_vests [OF assms] by blast
  have "\<forall>x. held x d' = held x d" using p assms(2) by (auto simp: pays_def gives_def)
  with * p v show ?thesis
    unfolding pays_def vests_def by - (rule exI [of _ r], rule exI [of _ p], rule exI [of _ n], rule exI [of _ m],
      rule exI [of _ f], simp add: add.assoc)
qed

text \<open>Player 2 was invited by player 1; 1000 of the rake of room 1 is undistributed.\<close>

definition sample_fee_db :: "int \<Rightarrow> database" where
  "sample_fee_db balance = sample_db
     \<lparr>rooms := of_objects [new_room\<lparr>rm_owner := 4\<rparr>, sample_room\<lparr>pending_rake := core_asset 1000\<rparr>],
      players := of_objects [sample_player 0, sample_player 11, (sample_player 12)\<lparr>pl_inviter := 1\<rparr>, sample_player 13],
      balances := fm_of_list [((11, 0), balance)]\<rparr>"

definition sample_fee :: player_pending_fee_data where
  "sample_fee = \<lparr>ds_getter = 12, ds_metadata = ''t'', ds_amount = 1000, ds_asset_id = 0, pf_room = 1,
     pf_witnesses = fs_of_list [1]\<rparr>"

theorem deposit_fee_exact_witness:
  "\<exists>d'. deposit_fee 2 sample_fee (sample_fee_db 2000000) = Inr d' \<and> rake 1 d' - owed 1 d' = 0 \<and> vested 12 d' = 0 \<and>
     map (\<lambda>(v, vb). (vb_owner vb, amount (vb_amount vb))) (idx_items (vestings d')) = [(11, 140), (10, 100), (10, 760)]"
proof -
  define d where "d = sample_fee_db 2000000"
  define d' where "d' = result_of sample_db (deposit_fee 2 sample_fee d)"
  define wcut where "wcut = cut_fee 1000 (game_witness_percent_of_fee (parameters d))"
  have "succeeds (deposit_fee 2 sample_fee d)" unfolding d_def by code_simp
  then have r: "deposit_fee 2 sample_fee d = Inr d'" unfolding d'_def by (rule succeedsE)
  have fee: "ds_amount sample_fee = 1000" "pf_room sample_fee = 1" "fs_items (pf_witnesses sample_fee) = [1]" by code_simp+
  have ok: "db_ok d" "player_referrer_percent_of_fee (parameters d) + game_witness_percent_of_fee (parameters d) \<le> GRAPHENE_100_PERCENT"
    "rake 1 d = 1000" "owed 1 d = 0" "vested 12 d = 0" "map_option pl_inviter (idx_find (players d) 2) = Some 1"
    "map_option rm_owner (idx_find (rooms d) 1) = Some 10" "12 \<notin> inviters_of d 1 PLAYCHAIN_MAXIMUM_INVITERS_DEPTH"
    "witness_share d [1] wcut 12 = 0" unfolding d_def wcut_def by code_simp+
  have w: "0 \<le> ds_amount sample_fee" "wcut = (if fs_items (pf_witnesses sample_fee) = [] then 0
      else cut_fee (ds_amount sample_fee) (game_witness_percent_of_fee (parameters d)))" by (simp_all add: wcut_def fee)
  obtain r p n m f where *: "idx_find (rooms d) 1 = Some r" "idx_find (players d) 2 = Some p"
    "shared (inviters_of d (pl_inviter p) PLAYCHAIN_MAXIMUM_INVITERS_DEPTH) n f"
    "\<forall>a. vested a d' = vested a d + f a + witness_share d [1] wcut a + (if a = rm_owner r then 1000 - wcut - n - m else 0)"
    "rake 1 d' = rake 1 d - (1000 - m)" "owed 1 d' = owed 1 d + m"
    using deposit_fee_exact [OF r ok(1) w(1) ok(2) w(2), unfolded fee] by blast
  have who: "pl_inviter p = 1" "rm_owner r = 10" using *(1,2) ok(6,7) by simp_all
  then have "f 12 = 0" using *(3) ok(8) by (simp add: shared_def)
  then have "vested 12 d' = 0" using *(4) ok(5,9) who by simp
  moreover have "rake 1 d' - owed 1 d' = 0" using *(5,6) ok(3,4) by simp
  moreover have "map (\<lambda>(v, vb). (vb_owner vb, amount (vb_amount vb))) (idx_items (vestings d')) =
         [(11, 140), (10, 100), (10, 760)]" unfolding d'_def d_def by code_simp
  ultimately show ?thesis using r [unfolded d_def] by (intro exI [of _ d'] conjI)
qed

text \<open>
  C18: a share that was deferred to an inviter is paid out to the inviters above and once more, in full, to the owner
  of the room: the owner gains the whole amount whatever the inviters have gained, and the rake of the room drops by
  both. So what is paid exceeds what was deferred by all that the inviters get.
\<close>

theorem deferred_fee_paid_twice:
  assumes "deposit_parent_fee player room ((asset, getter, meta), amt) d = Inr d'" and "db_ok d" and "0 < amt"
  shows "\<exists>r n m f. idx_find (rooms d) room = Some r \<and> 0 \<le> m \<and> n + m \<le> amt \<and>
    shared (inviters_of d player PLAYCHAIN_MAXIMUM_INVITERS_DEPTH) n f \<and>
    (\<forall>a. vested a d' = vested a d + f a + (if a = rm_owner r then amt else 0)) \<and>
    rake room d' = rake room d - amt - n \<and> owed room d' = owed room d + m"
proof -
  obtain r n m f where *: "idx_find (rooms d) room = Some r" "0 \<le> m" "n + m \<le> amt"
    "shared (inviters_of d player PLAYCHAIN_MAXIMUM_INVITERS_DEPTH) n f"
    "pays room (amt + n) m d d'" "vests (\<lambda>a. f a + gets (rm_owner r) amt a) d d'"
    using deposit_parent_fee_vests [OF assms] by blast
  then show ?thesis unfolding pays_def vests_def
    by - (rule exI [of _ r], rule exI [of _ n], rule exI [of _ m], rule exI [of _ f], simp)
qed

text \<open>Player 1, who has nobody above, was owed 1000: 934 go to the player, and 1000 to the room owner.\<close>

theorem deferred_fee_paid_twice_witness:
  "\<exists>d'. deposit_parent_fee 1 1 ((0, 12, ''t''), 1000) (sample_fee_db 20000000) = Inr d' \<and>
     vested 10 d' = 1000 \<and> vested 11 d' = 934 \<and> rake 1 d' = - 934"
proof -
  define d where "d = sample_fee_db 20000000"
  define d' where "d' = result_of sample_db (deposit_parent_fee 1 1 ((0, 12, ''t''), 1000) d)"
  have "succeeds (deposit_parent_fee 1 1 ((0, 12, ''t''), 1000) d)" unfolding d_def by code_simp
  then have r: "deposit_parent_fee 1 1 ((0, 12, ''t''), 1000) d = Inr d'" unfolding d'_def by (rule succeedsE)
  have ok: "db_ok d" "rake 1 d = 1000" "vested 10 d = 0" "vested 11 d = 0"
    "map_option rm_owner (idx_find (rooms d) 1) = Some 10" "inviters_of d 1 PLAYCHAIN_MAXIMUM_INVITERS_DEPTH = {11}"
    unfolding d_def by code_simp+
  have left: "rake 1 d' = - 934" unfolding d'_def d_def by code_simp
  obtain r n m f where *: "idx_find (rooms d) 1 = Some r" "shared {11} n f"
    "\<forall>a. vested a d' = vested a d + f a + (if a = rm_owner r then 1000 else 0)" "rake 1 d' = rake 1 d - 1000 - n"
    using deferred_fee_paid_twice [OF r ok(1), unfolded ok(6)] by auto
  have who: "rm_owner r = 10" "f 10 = 0" "f 11 = 934" using *(1,2,4) ok(2,5) left by (simp_all add: shared_def)
  then have "vested 10 d' = 1000" "vested 11 d' = 934" using *(3) ok(3,4) by simp_all
  with left r [unfolded d_def] show ?thesis by (intro exI [of _ d'] conjI)
qed

text \<open>
  C19: while the liquid balance of an inviter is not above the upper threshold, no vesting balance is
  counted: what the inviter holds in vesting balances of the games cannot raise the share.
\<close>

theorem total_balance_is_liquid:
  assumes "is_account_exists d (pl_account p)"
    and "amount (get_balance d (pl_account p) CORE) \<le> player_referrer_balance_max_threshold (parameters d)"
  shows "get_total_balance d p = Inr (amount (get_balance d (pl_account p) CORE))"
proof -
  have "sum_vestings d t vs a = Inr a" if "a \<le> t" for t a vs using that by (cases vs) simp_all
  with assms show ?thesis by (simp add: get_total_balance_def Let_def)
qed

theorem total_balance_is_liquid_witness:
  "get_total_balance (sample_fee_db 2000000 \<lparr>vestings := of_objects [\<lparr>vb_owner = 11, vb_amount = core_asset 50000000,
       vb_policy = Cdd_vesting \<lparr>vesting_seconds = 86400, coin_seconds_earned = 0, start_claim = 0,
         coin_seconds_earned_last_update = 0\<rparr>\<rparr>]\<rparr>) ((sample_player 11)\<lparr>pl_balance := Some 0\<rparr>) = Inr 2000000"
proof -
  let ?d = "sample_fee_db 2000000 \<lparr>vestings := of_objects [\<lparr>vb_owner = 11, vb_amount = core_asset 50000000,
       vb_policy = Cdd_vesting \<lparr>vesting_seconds = 86400, coin_seconds_earned = 0, start_claim = 0,
         coin_seconds_earned_last_update = 0\<rparr>\<rparr>]\<rparr>"
  let ?p = "(sample_player 11)\<lparr>pl_balance := Some 0\<rparr>"
  have "is_account_exists ?d (pl_account ?p)" "amount (get_balance ?d (pl_account ?p) CORE) = 2000000"
    "amount (get_balance ?d (pl_account ?p) CORE) \<le> player_referrer_balance_max_threshold (parameters ?d)"
    by code_simp+
  with total_balance_is_liquid [of ?d ?p] show ?thesis by simp
qed

end
